(* ===== verification/Prelude.thy ===== *)
theory Prelude
  imports Main "HOL-Library.Word"
begin

text \<open>
  Shared vocabulary of the development. A C string is a \<open>string\<close> (the bytes in front of the
  terminating NUL), a \<open>char *\<close> that a loop advances is the suffix it points to, and the
  byte read at its end is NUL. The theory holds the parts of the C library the program
  calls (character classes, \<open>atoi\<close>, \<open>snprintf\<close>, \<open>strchr\<close>, case-insensitive
  comparison), 32-bit wrap-around of \<open>int\<close>, and the generic lemmas that the component
  theories share.
\<close>

named_theorems cstr_simps \<open>rewriting of C string primitives\<close>
named_theorems session_simps \<open>unfolding of the session handlers\<close>
named_theorems inv_intros \<open>preservation of the component invariants\<close>

section \<open>Machine integers\<close>

text \<open>The value of a C \<open>int\<close> after an operation whose mathematical result is \<open>x\<close>.\<close>

definition i32 :: "int \<Rightarrow> int" where
  "i32 x = (x + 2 ^ 31) mod 2 ^ 32 - 2 ^ 31"

definition i16 :: "int \<Rightarrow> int" where
  "i16 x = (x + 2 ^ 15) mod 2 ^ 16 - 2 ^ 15"

lemma i32_id [simp]: "- (2 ^ 31) \<le> x \<Longrightarrow> x < 2 ^ 31 \<Longrightarrow> i32 x = x"
  by (simp add: i32_def)

lemma i32_bounds: "- (2 ^ 31) \<le> i32 x \<and> i32 x < 2 ^ 31"
proof -
  have "0 \<le> (x + 2 ^ 31) mod 2 ^ 32" and "(x + 2 ^ 31) mod 2 ^ 32 < (2 ^ 32 :: int)"
    by simp_all
  then show ?thesis by (simp add: i32_def)
qed

lemma i32_add_cong: "i32 (i32 x + y) = i32 (x + y)"
  by (simp add: i32_def algebra_simps mod_simps)

lemma i32_signed_take_bit: "i32 x = sint (word_of_int x :: 32 word)"
  by (simp add: i32_def signed_of_int signed_take_bit_eq_take_bit_shift take_bit_eq_mod)

section \<open>Character classes of the C locale\<close>

definition NUL :: char where "NUL = CHR 0x00"
definition TAB :: char where "TAB = CHR 0x09"
definition LF :: char where "LF = CHR 0x0A"
definition CR :: char where "CR = CHR 0x0D"
definition CRLF :: string where "CRLF = [CHR 0x0D, CHR 0x0A]"

lemmas control_chars = NUL_def TAB_def LF_def CR_def CRLF_def

abbreviation ord :: "char \<Rightarrow> nat" where "ord c \<equiv> of_char c"

definition isdigit :: "char \<Rightarrow> bool" where
  "isdigit c \<longleftrightarrow> 48 \<le> ord c \<and> ord c \<le> 57"

definition isupper :: "char \<Rightarrow> bool" where
  "isupper c \<longleftrightarrow> 65 \<le> ord c \<and> ord c \<le> 90"

definition islower :: "char \<Rightarrow> bool" where
  "islower c \<longleftrightarrow> 97 \<le> ord c \<and> ord c \<le> 122"

definition isalpha :: "char \<Rightarrow> bool" where
  "isalpha c \<longleftrightarrow> isupper c \<or> islower c"

definition isalnum :: "char \<Rightarrow> bool" where
  "isalnum c \<longleftrightarrow> isalpha c \<or> isdigit c"

definition isxdigit :: "char \<Rightarrow> bool" where
  "isxdigit c \<longleftrightarrow> isdigit c \<or> (65 \<le> ord c \<and> ord c \<le> 70) \<or> (97 \<le> ord c \<and> ord c \<le> 102)"

definition isspace :: "char \<Rightarrow> bool" where
  "isspace c \<longleftrightarrow> ord c = 32 \<or> (9 \<le> ord c \<and> ord c \<le> 13)"

definition tolower :: "char \<Rightarrow> char" where
  "tolower c = (if isupper c then char_of (ord c + 32) else c)"

text \<open>The spaces and tabs that the command handlers skip.\<close>

definition isblank :: "char \<Rightarrow> bool" where
  "isblank c \<longleftrightarrow> c = CHR '' '' \<or> c = TAB"

text \<open>White space as the NSP sources have it.\<close>

definition nc_isspace :: "char \<Rightarrow> bool" where
  "nc_isspace c \<longleftrightarrow> c = CR \<or> c = LF \<or> c = TAB \<or> c = CHR '' ''"

text \<open>The value of a byte as a signed \<open>char\<close>.\<close>

definition schar :: "char \<Rightarrow> int" where
  "schar c = (if 128 \<le> ord c then int (ord c) - 256 else int (ord c))"

definition digit_val :: "char \<Rightarrow> int" where
  "digit_val c = int (ord c) - 48"

lemmas char_classes = isdigit_def isupper_def islower_def isalpha_def isalnum_def
  isxdigit_def isspace_def isblank_def

lemma ord_eq_iff: "ord c = ord d \<longleftrightarrow> c = d"
  by (rule of_char_eq_iff)

lemma ord_char_of [simp]: "n < 256 \<Longrightarrow> ord (char_of n) = n"
  by simp

lemma tolower_not_upper [simp]: "\<not> isupper (tolower c)"
  by (auto simp: tolower_def isupper_def)

lemma tolower_idem [simp]: "tolower (tolower c) = tolower c"
  by (metis tolower_def tolower_not_upper)

lemma isdigit_not_upper: "isdigit c \<Longrightarrow> \<not> isupper c"
  by (auto simp: char_classes)

section \<open>C strings\<close>

text \<open>The byte a pointer reads: NUL at the end of the string.\<close>

definition hd0 :: "string \<Rightarrow> char" where
  "hd0 s = (case s of [] \<Rightarrow> NUL | c # _ \<Rightarrow> c)"

text \<open>A C string has no NUL byte.\<close>

definition is_cstr :: "string \<Rightarrow> bool" where
  "is_cstr s \<longleftrightarrow> NUL \<notin> set s"

text \<open>The C string that a byte buffer holds.\<close>

definition cstr :: "string \<Rightarrow> string" where
  "cstr s = takeWhile (\<lambda>c. c \<noteq> NUL) s"

text \<open>\<open>strcasecmp (a, b) == 0\<close> and \<open>strncasecmp (a, b, n) == 0\<close>.\<close>

definition strcaseeq :: "string \<Rightarrow> string \<Rightarrow> bool" where
  "strcaseeq a b \<longleftrightarrow> map tolower a = map tolower b"

definition strncaseeq :: "string \<Rightarrow> string \<Rightarrow> nat \<Rightarrow> bool" where
  "strncaseeq a b n \<longleftrightarrow> map tolower (take n a) = map tolower (take n b)"

text \<open>
  \<open>strchr\<close> splits a string at the first occurrence: \<open>Some (before, after)\<close>, where the
  occurrence itself is in neither part.
\<close>

definition strchr :: "string \<Rightarrow> char \<Rightarrow> (string \<times> string) option" where
  "strchr s c = (case dropWhile (\<lambda>d. d \<noteq> c) s of
     [] \<Rightarrow> None
   | _ # rest \<Rightarrow> Some (takeWhile (\<lambda>d. d \<noteq> c) s, rest))"

text \<open>\<open>snprintf (buf, size, "%s", s)\<close> keeps \<open>size - 1\<close> bytes.\<close>

definition snprintf :: "nat \<Rightarrow> string \<Rightarrow> string" where
  "snprintf n s = take (n - 1) s"

definition striprn :: "string \<Rightarrow> string" where
  "striprn s = rev (dropWhile (\<lambda>c. c = CR \<or> c = LF) (rev s))"

definition skip_blanks :: "string \<Rightarrow> string" where
  "skip_blanks s = dropWhile isblank s"

text \<open>
  \<open>atoi\<close> as the C library computes it: white space, a sign, decimal digits; the value is
  clamped to \<open>long\<close> and then converted to \<open>int\<close>.
\<close>

definition digits_val :: "string \<Rightarrow> int" where
  "digits_val ds = foldl (\<lambda>a c. 10 * a + digit_val c) 0 ds"

definition strtol_int :: "int \<Rightarrow> int" where
  "strtol_int v = i32 (max (- (2 ^ 63)) (min (2 ^ 63 - 1) v))"

definition atoi :: "string \<Rightarrow> int" where
  "atoi s = (let t = dropWhile isspace s;
                 neg = (hd0 t = CHR ''-'');
                 u = (if hd0 t = CHR ''-'' \<or> hd0 t = CHR ''+'' then tl t else t);
                 v = digits_val (takeWhile isdigit u)
             in strtol_int (if neg then - v else v))"

text \<open>The \<open>%d\<close> conversion of \<open>printf\<close>.\<close>

fun dec_nat :: "nat \<Rightarrow> string" where
  "dec_nat n = (if n < 10 then [char_of (48 + n)] else dec_nat (n div 10) @ [char_of (48 + n mod 10)])"

declare dec_nat.simps [simp del]

definition dec_int :: "int \<Rightarrow> string" where
  "dec_int i = (if i < 0 then CHR ''-'' # dec_nat (nat (- i)) else dec_nat (nat i))"

section \<open>Lemmas on C strings\<close>

lemma hd0_Nil [simp]: "hd0 [] = NUL"
  by (simp add: hd0_def)

lemma hd0_Cons [simp]: "hd0 (c # s) = c"
  by (simp add: hd0_def)

lemma is_cstr_Nil [simp]: "is_cstr []"
  by (simp add: is_cstr_def)

lemma is_cstr_Cons [simp]: "is_cstr (c # s) \<longleftrightarrow> c \<noteq> NUL \<and> is_cstr s"
  by (auto simp: is_cstr_def)

lemma is_cstr_append [simp]: "is_cstr (a @ b) \<longleftrightarrow> is_cstr a \<and> is_cstr b"
  by (auto simp: is_cstr_def)

lemma is_cstr_take [simp]: "is_cstr s \<Longrightarrow> is_cstr (take n s)"
  by (auto simp: is_cstr_def dest: in_set_takeD)

lemma is_cstr_drop [simp]: "is_cstr s \<Longrightarrow> is_cstr (drop n s)"
  by (auto simp: is_cstr_def dest: in_set_dropD)

lemma cstr_id: "is_cstr s \<Longrightarrow> cstr s = s"
  by (simp add: is_cstr_def cstr_def takeWhile_eq_all_conv) metis

lemma length_snprintf: "length (snprintf n s) \<le> n - 1"
  by (simp add: snprintf_def)

lemma snprintf_short: "length s < n \<Longrightarrow> snprintf n s = s"
  by (simp add: snprintf_def)

lemma set_snprintf: "set (snprintf n s) \<subseteq> set s"
  by (simp add: snprintf_def set_take_subset)

lemma strchr_Some:
  assumes "strchr s c = Some (a, b)"
  shows "s = a @ c # b \<and> c \<notin> set a"
proof -
  from assms obtain d where d: "dropWhile (\<lambda>d. d \<noteq> c) s = d # b"
    and a: "a = takeWhile (\<lambda>d. d \<noteq> c) s"
    by (auto simp: strchr_def split: list.splits)
  have "d = c"
    using hd_dropWhile [of "\<lambda>d. d \<noteq> c" s] d by simp
  moreover have "s = a @ d # b"
    using takeWhile_dropWhile_id [of "\<lambda>d. d \<noteq> c" s] d a by simp
  moreover have "c \<notin> set a"
    using a by (auto dest: set_takeWhileD)
  ultimately show ?thesis by simp
qed

lemma strchr_None: "strchr s c = None \<longleftrightarrow> c \<notin> set s"
proof -
  have "dropWhile (\<lambda>d. d \<noteq> c) s = [] \<longleftrightarrow> c \<notin> set s"
    by (induction s) auto
  then show ?thesis
    by (cases "dropWhile (\<lambda>d. d \<noteq> c) s") (simp_all add: strchr_def del: dropWhile_eq_Nil_conv)
qed

lemma strchr_append: "c \<notin> set a \<Longrightarrow> strchr (a @ c # b) c = Some (a, b)"
proof -
  assume "c \<notin> set a"
  then have "\<And>x. x \<in> set a \<Longrightarrow> x \<noteq> c" by auto
  then show ?thesis
    by (simp add: strchr_def dropWhile_append2 takeWhile_append2)
qed

lemma striprn_Nil [simp]: "striprn [] = []"
  by (simp add: striprn_def)

lemma striprn_snoc: "striprn (s @ [c]) = (if c = CR \<or> c = LF then striprn s else s @ [c])"
  by (simp add: striprn_def)

lemma striprn_CRLF [simp]: "striprn (s @ CRLF) = striprn s"
  using striprn_snoc [of "s @ [CR]" LF] striprn_snoc [of s CR]
  by (simp add: CRLF_def CR_def LF_def)

lemma length_striprn: "length (striprn s) \<le> length s"
  using length_dropWhile_le [of _ "rev s"] by (simp add: striprn_def)

lemma striprn_split: "s = striprn s @ rev (takeWhile (\<lambda>c. c = CR \<or> c = LF) (rev s))"
  unfolding striprn_def rev_append [symmetric] takeWhile_dropWhile_id rev_rev_ident ..

lemma striprn_same_length: "length s \<le> length (striprn s) \<Longrightarrow> striprn s = s"
proof -
  assume le: "length s \<le> length (striprn s)"
  let ?t = "rev (takeWhile (\<lambda>c. c = CR \<or> c = LF) (rev s))"
  have "length s = length (striprn s) + length ?t"
    by (metis length_append striprn_split)
  with le have "?t = []" by simp
  then show ?thesis by (metis append_Nil2 striprn_split)
qed

lemma set_striprn: "set (striprn s) \<subseteq> set s"
  by (metis set_dropWhileD set_rev striprn_def subsetI)

lemma dec_nat_nonempty [simp]: "dec_nat n \<noteq> []"
  by (subst dec_nat.simps) simp

lemma isdigit_char_of: "(n::nat) < 10 \<Longrightarrow> isdigit (char_of (48 + n))"
  by (simp add: isdigit_def)

lemma dec_nat_digits: "c \<in> set (dec_nat n) \<Longrightarrow> isdigit c"
proof (induction n rule: dec_nat.induct)
  case (1 n)
  then show ?case
    by (cases "n < 10") (auto simp: dec_nat.simps [of n] isdigit_char_of)
qed

lemma digits_val_snoc: "digits_val (ds @ [c]) = 10 * digits_val ds + digit_val c"
  by (simp add: digits_val_def)

lemma digits_val_dec_nat: "digits_val (dec_nat n) = int n"
proof (induction n rule: dec_nat.induct)
  case (1 n)
  show ?case
  proof (cases "n < 10")
    case True
    then show ?thesis
      by (subst dec_nat.simps) (simp add: digits_val_def digit_val_def)
  next
    case False
    have "10 * int (n div 10) + int (n mod 10) = int n" by presburger
    with False 1 show ?thesis
      by (subst dec_nat.simps) (simp add: digits_val_snoc digit_val_def)
  qed
qed

lemma CRLF_length [simp]: "length CRLF = 2"
  by (simp add: CRLF_def)

lemma dec_nat_length: "n < 10 ^ k \<Longrightarrow> 0 < k \<Longrightarrow> length (dec_nat n) \<le> k"
proof (induction k arbitrary: n)
  case 0
  then show ?case by simp
next
  case (Suc k)
  show ?case
  proof (cases "n < 10")
    case False
    then have "0 < k" using Suc.prems by (cases k) auto
    moreover have "n div 10 < 10 ^ k" using Suc.prems by (simp add: less_mult_imp_div_less)
    ultimately have "length (dec_nat (n div 10)) \<le> k" using Suc.IH by blast
    then show ?thesis using False by (simp add: dec_nat.simps [of n])
  qed (simp add: dec_nat.simps [of n])
qed

text \<open>A C \<open>int\<close> prints in at most eleven characters.\<close>

definition int_range :: "int \<Rightarrow> bool" where
  "int_range i \<longleftrightarrow> - (2 ^ 31) \<le> i \<and> i < 2 ^ 31"

lemma dec_int_length: "int_range i \<Longrightarrow> length (dec_int i) \<le> 11"
proof -
  assume "int_range i"
  then have "nat i < 10 ^ 10" "nat (- i) < 10 ^ 10" by (auto simp: int_range_def)
  from this [THEN dec_nat_length] show ?thesis by (simp add: dec_int_def)
qed

text \<open>The \<open>%0wd\<close> conversion.\<close>

definition dec_pad :: "nat \<Rightarrow> int \<Rightarrow> string" where
  "dec_pad w i = (let d = dec_nat (nat \<bar>i\<bar>); n = (if i < 0 then 1 else 0)
     in (if i < 0 then ''-'' else []) @ replicate (w - n - length d) (CHR ''0'') @ d)"

section \<open>Files\<close>

text \<open>\<open>fgets (buffer, n, fp)\<close> on the rest of a file: \<open>None\<close> at its end.\<close>

fun file_line :: "nat \<Rightarrow> string \<Rightarrow> string \<times> string" where
  "file_line 0 bs = ([], bs)"
| "file_line (Suc n) [] = ([], [])"
| "file_line (Suc n) (c # cs) =
     (if c = LF then ([c], cs) else case file_line n cs of (l, r) \<Rightarrow> (c # l, r))"

definition file_gets :: "nat \<Rightarrow> string \<Rightarrow> (string \<times> string) option" where
  "file_gets n bs = (if bs = [] then None else Some (file_line (n - 1) bs))"

lemma file_line_append: "file_line n bs = (l, r) \<Longrightarrow> bs = l @ r \<and> length l \<le> n"
  by (induction n bs arbitrary: l r rule: file_line.induct) (auto split: if_splits prod.splits)

lemma file_gets_Some: "file_gets n bs = Some (l, r) \<Longrightarrow> bs = l @ r \<and> length l \<le> n - 1"
  by (auto simp: file_gets_def dest: file_line_append split: if_splits)

lemma file_line_progress: "file_line (Suc n) (c # cs) = (l, r) \<Longrightarrow> l \<noteq> []"
  by (auto split: if_splits prod.splits)

lemma file_gets_shorter:
  assumes "file_gets n bs = Some (l, r)" and "1 < n"
  shows "length r < length bs"
proof -
  obtain k c cs where "n - 1 = Suc k" "bs = c # cs"
    using assms by (cases bs; cases "n - 1") (auto simp: file_gets_def)
  then have "l \<noteq> []" using assms(1) file_line_progress by (auto simp: file_gets_def)
  with file_gets_Some [OF assms(1)] show ?thesis by (cases l) auto
qed

section \<open>Bytes\<close>

type_synonym byte = "8 word"
type_synonym uint32 = "32 word"

text \<open>The bytes of a string and the string of bytes.\<close>

definition bytes_of :: "string \<Rightarrow> byte list" where
  "bytes_of s = map (\<lambda>c. of_nat (ord c)) s"

lemma length_bytes_of [simp]: "length (bytes_of s) = length s"
  by (simp add: bytes_of_def)

lemma bytes_of_append [simp]: "bytes_of (a @ b) = bytes_of a @ bytes_of b"
  by (simp add: bytes_of_def)

text \<open>Reasoning about a byte bit by bit: eight cases, each decided by \<open>bit_simps\<close>.\<close>

lemma byte_cases: "(n::nat) < 8 \<longleftrightarrow> n = 0 \<or> n = 1 \<or> n = 2 \<or> n = 3 \<or> n = 4 \<or> n = 5 \<or> n = 6 \<or> n = 7"
  by auto

lemma bit_byte_high [simp]: "8 \<le> n \<Longrightarrow> \<not> bit (w :: 8 word) n"
  using bit_imp_le_length [of w n] by auto

lemma byte_eqI:
  fixes v w :: "8 word"
  assumes "bit v 0 = bit w 0" "bit v 1 = bit w 1" "bit v 2 = bit w 2" "bit v 3 = bit w 3"
    "bit v 4 = bit w 4" "bit v 5 = bit w 5" "bit v 6 = bit w 6" "bit v 7 = bit w 7"
  shows "v = w"
  using assms by (intro bit_word_eqI) (auto simp: byte_cases)

end
