(* ===== verification/Format.thy ===== *)
theory Format
  imports Prelude
begin

text \<open>
  String helpers of the shared library (\<open>src/src/libnullg/format.c\<close>) and of the server core
  (\<open>src/src/server/format.c\<close>): \<open>fixslashes\<close>, \<open>swapchar\<close>, the in-place loop of \<open>striprn\<close> on a
  buffer, and \<open>strncatf\<close>. \<open>striprn\<close> is the function the protocol modules call on every line
  they read; \<open>striprn_loop_eq\<close> shows that its backwards loop over an index is the
  functional \<open>striprn\<close> of the prelude.
\<close>

section \<open>Replacing characters\<close>

primrec swapchar :: "char \<Rightarrow> char \<Rightarrow> string \<Rightarrow> string" where
  "swapchar oldchar newchar [] = []"
| "swapchar oldchar newchar (c # s) =
     (if c = oldchar then newchar else c) # swapchar oldchar newchar s"

primrec fixslashes :: "string \<Rightarrow> string" where
  "fixslashes [] = []"
| "fixslashes (c # s) = (if c = CHR 0x5C then CHR ''/'' else c) # fixslashes s"

lemma fixslashes_swapchar: "fixslashes s = swapchar (CHR 0x5C) (CHR ''/'') s"
  by (induction s) simp_all

lemma swapchar_map: "swapchar a b s = map (\<lambda>c. if c = a then b else c) s"
  by (induction s) simp_all

lemma length_fixslashes [simp]: "length (fixslashes s) = length s"
  by (induction s) simp_all

lemma fixslashes_no_backslash: "CHR 0x5C \<notin> set (fixslashes s)"
  by (induction s) simp_all

lemma fixslashes_id: "CHR 0x5C \<notin> set s \<Longrightarrow> fixslashes s = s"
  by (induction s) auto

section \<open>Stripping line ends\<close>

text \<open>The loop of \<open>striprn\<close>: \<open>i\<close> is one more than the C index, so 0 is the exit for \<open>i < 0\<close>.\<close>

fun striprn_loop :: "string \<Rightarrow> nat \<Rightarrow> string" where
  "striprn_loop s 0 = s"
| "striprn_loop s (Suc i) =
     (if s ! i = CR then striprn_loop (s[i := NUL]) i
      else if s ! i = LF then striprn_loop (s[i := NUL]) i
      else s)"

definition striprn_buf :: "string \<Rightarrow> string" where
  "striprn_buf buf = striprn_loop buf (length (cstr buf))"

lemma striprn_loop_shape:
  "i \<le> length s \<Longrightarrow>
     striprn_loop s i = striprn (take i s) @ replicate (i - length (striprn (take i s))) NUL @ drop i s"
proof (induction i arbitrary: s)
  case 0
  then show ?case by simp
next
  case (Suc i)
  let ?t = "take i s"
  have tk: "take (Suc i) s = ?t @ [s ! i]"
    using Suc.prems by (simp add: take_Suc_conv_app_nth)
  show ?case
  proof (cases "s ! i = CR \<or> s ! i = LF")
    case True
    then have st: "striprn (take (Suc i) s) = striprn ?t" by (simp add: tk striprn_snoc)
    have len: "length (striprn ?t) \<le> i"
      using length_striprn [of ?t] Suc.prems by simp
    have "striprn_loop s (Suc i) = striprn_loop (s[i := NUL]) i" using True by auto
    also have "\<dots> = striprn ?t @ replicate (i - length (striprn ?t)) NUL @ NUL # drop (Suc i) s"
      using Suc by (simp add: Cons_nth_drop_Suc [symmetric])
    also have "replicate (i - length (striprn ?t)) NUL @ NUL # drop (Suc i) s
        = replicate (Suc i - length (striprn ?t)) NUL @ drop (Suc i) s"
      using len by (simp add: Suc_diff_le replicate_app_Cons_same)
    finally show ?thesis by (simp add: st)
  next
    case False
    then have "striprn (take (Suc i) s) = take (Suc i) s" by (simp add: tk striprn_snoc)
    with False Suc.prems show ?thesis by simp
  qed
qed

lemma is_cstr_cstr [simp]: "is_cstr (cstr s)"
  by (auto simp: is_cstr_def cstr_def dest: set_takeWhileD)

lemma cstr_append_NUL: "is_cstr s \<Longrightarrow> cstr (s @ NUL # t) = s"
  by (auto simp: is_cstr_def cstr_def takeWhile_tail takeWhile_append2)

lemma cstr_append_replicate: "is_cstr s \<Longrightarrow> cstr (s @ replicate n NUL @ t) =
    (if n = 0 then s @ cstr t else s)"
proof (cases n)
  case 0
  assume "is_cstr s"
  then have "\<And>x. x \<in> set s \<Longrightarrow> x \<noteq> NUL" by (auto simp: is_cstr_def)
  then have "cstr (s @ t) = s @ cstr t" by (simp add: cstr_def takeWhile_append2)
  with 0 show ?thesis by simp
qed (simp add: cstr_append_NUL)

lemma is_cstr_striprn [simp]: "is_cstr s \<Longrightarrow> is_cstr (striprn s)"
  using set_striprn [of s] by (auto simp: is_cstr_def)

lemma striprn_buf_decomp:
  "striprn_buf buf = striprn (cstr buf) @
     replicate (length (cstr buf) - length (striprn (cstr buf))) NUL @ drop (length (cstr buf)) buf"
proof -
  have "take (length (cstr buf)) buf = cstr buf"
    by (metis cstr_def takeWhile_eq_take length_takeWhile_le min.absorb2 length_take)
  moreover have "length (cstr buf) \<le> length buf" by (simp add: cstr_def length_takeWhile_le)
  ultimately show ?thesis
    using striprn_loop_shape [of "length (cstr buf)" buf] by (simp add: striprn_buf_def)
qed

lemma cstr_drop_cstr: "cstr (drop (length (cstr buf)) buf) = []"
  by (metis cstr_def dropWhile_eq_drop hd_dropWhile takeWhile.simps takeWhile_eq_Nil_iff)

lemma cstr_striprn_buf: "cstr (striprn_buf buf) = striprn (cstr buf)"
  using striprn_same_length [of "cstr buf"]
  by (simp add: striprn_buf_decomp cstr_append_replicate cstr_drop_cstr)

section \<open>Formatted concatenation\<close>

text \<open>
  \<open>strncatf (dest, maxlen, ...)\<close> writes at the end of \<open>dest\<close> with \<open>maxlen\<close> as the room, and then
  stores a NUL \<open>maxlen - 1\<close> bytes behind that end. The result is the C string now in the
  buffer; the second component is the highest offset from \<open>dest\<close> that was written.
\<close>

definition strncatf :: "string \<Rightarrow> nat \<Rightarrow> string \<Rightarrow> string \<times> nat" where
  "strncatf dest maxlen text = (dest @ snprintf maxlen text, length dest + maxlen - 1)"

end
