(* ===== verification/Tcp.thy ===== *)
theory Tcp
  imports Prelude
begin

text \<open>
  The socket layer of the server core (\<open>src/src/server/tcp.c\<close>): the receive buffer of
  \<open>TCP_SOCKET\<close>, \<open>tcp_recv\<close>, \<open>tcp_send_nolog\<close>, \<open>tcp_fprintf\<close>, \<open>tcp_fgets\<close> and \<open>tcp_close\<close>.
  The kernel is an environment: a list of the outcomes of the coming \<open>recv\<close> calls and a
  list of the outcomes of the coming \<open>send\<close> calls. The main result is that \<open>tcp_fgets\<close>
  frames lines independently of how the bytes were split into segments; it is stated as
  the interpretation of the locale \<open>line_reader\<close>, the interface the protocol modules use.
\<close>

section \<open>The socket\<close>

text \<open>
  Outcomes of \<open>recv\<close>: bytes (none: the call returned 0), \<open>EWOULDBLOCK\<close>, \<open>ECONNRESET\<close>, any other
  error. When the list is empty nothing more arrives and the idle check of the owning
  module has asked for the connection to be closed.
\<close>

datatype rx = RxData string | RxAgain | RxReset | RxError

text \<open>Outcomes of \<open>send\<close>: a number of bytes accepted, or an error. An empty list accepts everything.\<close>

datatype tx = TxOk nat | TxError

record tcp_socket =
  socket :: int
  ssl :: bool
  using_tls :: bool
  want_close :: bool
  bytes_in :: "32 word"
  bytes_out :: "32 word"
  recvbufsize :: nat
  recvbufoffset :: nat
  recvbuf :: string
  net :: "rx list"
  txres :: "tx list"
  sent :: string

definition RECVBUF :: nat where "RECVBUF = 4096"

definition tcp_close :: "bool \<Rightarrow> tcp_socket \<Rightarrow> tcp_socket" where
  "tcp_close owner_killed s =
     (if \<not> owner_killed then s\<lparr>want_close := True\<rparr>
      else s\<lparr>want_close := False, ssl := False, socket := -1\<rparr>)"

text \<open>\<open>tcp_recv\<close>: \<open>None\<close> is the return value -1; bytes come back as a nonempty list.\<close>

primrec tcp_recv_ev :: "nat \<Rightarrow> rx list \<Rightarrow> tcp_socket \<Rightarrow> string option \<times> tcp_socket" where
  "tcp_recv_ev len [] s =
     (if socket s = -1 then (None, s\<lparr>net := []\<rparr>) else (None, tcp_close True (s\<lparr>net := []\<rparr>)))"
| "tcp_recv_ev len (e # es) s =
     (if socket s = -1 then (None, s\<lparr>net := e # es\<rparr>)
      else if want_close s then (None, tcp_close True (s\<lparr>net := e # es\<rparr>))
      else case e of
        RxData bs \<Rightarrow>
          (if bs = [] then
             (if ssl s then (None, s\<lparr>net := es\<rparr>) else tcp_recv_ev len es s)
           else let n = min len 16384 in
             if n = 0 then (None, tcp_close True (s\<lparr>net := e # es\<rparr>))
             else (Some (take n bs),
               s\<lparr>net := (if n < length bs then RxData (drop n bs) # es else es),
                 bytes_in := bytes_in s + of_nat (length (take n bs))\<rparr>))
      | RxAgain \<Rightarrow> tcp_recv_ev len es s
      | RxReset \<Rightarrow> (None, tcp_close True (s\<lparr>net := es\<rparr>))
      | RxError \<Rightarrow> (None, s\<lparr>net := es\<rparr>))"

definition tcp_recv :: "nat \<Rightarrow> tcp_socket \<Rightarrow> string option \<times> tcp_socket" where
  "tcp_recv len s = tcp_recv_ev len (net s) s"

text \<open>\<open>tcp_send_nolog\<close> returns the number of bytes accepted, or -1.\<close>

definition tcp_send_nolog :: "string \<Rightarrow> tcp_socket \<Rightarrow> int \<times> tcp_socket" where
  "tcp_send_nolog buf s =
     (if socket s = -1 then (-1, s)
      else if want_close s then (-1, tcp_close True s)
      else case txres s of
        [] \<Rightarrow> (int (length buf),
               s\<lparr>sent := sent s @ buf, bytes_out := bytes_out s + of_nat (length buf)\<rparr>)
      | TxError # r \<Rightarrow> (-1, s\<lparr>txres := r\<rparr>)
      | TxOk n # r \<Rightarrow> (int (length (take n buf)),
               s\<lparr>txres := r, sent := sent s @ take n buf,
                 bytes_out := bytes_out s + of_nat (length (take n buf))\<rparr>))"

text \<open>\<open>tcp_fprintf\<close> formats into 2048 bytes with \<open>vsnprintf (buffer, 2047, ...)\<close>.\<close>

definition tcp_fprintf :: "string \<Rightarrow> tcp_socket \<Rightarrow> int \<times> tcp_socket" where
  "tcp_fprintf text s = tcp_send_nolog (snprintf 2047 text) s"

section \<open>Reading a line\<close>

text \<open>The inner \<open>while\<close> loop of \<open>tcp_fgets\<close>; \<open>acc\<close> holds the bytes already in the caller's buffer.\<close>

function fgets_copy :: "nat \<Rightarrow> string \<Rightarrow> tcp_socket \<Rightarrow> string \<times> bool \<times> tcp_socket" where
  "fgets_copy mx acc s =
     (if length acc < mx \<and> 0 < recvbufsize s then
        let c = recvbuf s ! recvbufoffset s;
            s' = s\<lparr>recvbufoffset := recvbufoffset s + 1, recvbufsize := recvbufsize s - 1\<rparr>;
            acc' = acc @ [c]
        in if c = LF \<or> recvbuf s' ! recvbufoffset s' = NUL then (acc', c = LF, s')
           else fgets_copy mx acc' s'
      else (acc, False, s))"
  by pat_completeness auto
termination
  by (relation "measure (\<lambda>(mx, acc, s). recvbufsize s)") auto

declare fgets_copy.simps [simp del]

definition zeros :: "nat \<Rightarrow> string" where
  "zeros n = replicate n NUL"

text \<open>Refilling an empty receive buffer; the room \<open>x\<close> leaves two bytes of the array unused.\<close>

definition fgets_reset :: "tcp_socket \<Rightarrow> tcp_socket" where
  "fgets_reset s =
     (if int RECVBUF - int (recvbufoffset s) - int (recvbufsize s) - 2 < 1
      then s\<lparr>recvbuf := zeros RECVBUF, recvbufoffset := 0, recvbufsize := 0\<rparr> else s)"

definition fgets_store :: "string \<Rightarrow> tcp_socket \<Rightarrow> tcp_socket" where
  "fgets_store bs s =
     (let p = recvbufoffset s + recvbufsize s
      in s\<lparr>recvbuf := take p (recvbuf s) @ bs @ drop (p + length bs) (recvbuf s),
           recvbufsize := recvbufsize s + length bs\<rparr>)"

definition fgets_fill :: "tcp_socket \<Rightarrow> bool \<times> tcp_socket" where
  "fgets_fill s =
     (if recvbufsize s \<noteq> 0 then (True, s)
      else let s1 = fgets_reset s;
               x = RECVBUF - recvbufoffset s1 - recvbufsize s1 - 2
           in case tcp_recv x s1 of
                (None, s2) \<Rightarrow> (False, s2)
              | (Some bs, s2) \<Rightarrow> (True, fgets_store bs s2))"

text \<open>Moving what is left of the buffer to its front before the next round.\<close>

definition fgets_compact :: "tcp_socket \<Rightarrow> tcp_socket" where
  "fgets_compact s =
     (if 0 < recvbufsize s then
        s\<lparr>recvbuf := take (recvbufsize s) (drop (recvbufoffset s) (recvbuf s))
            @ zeros (RECVBUF - recvbufsize s), recvbufoffset := 0\<rparr>
      else s\<lparr>recvbuf := zeros RECVBUF, recvbufoffset := 0, recvbufsize := 0\<rparr>)"

lemma fgets_copy_length: "fgets_copy mx acc s = (acc', lf, s') \<Longrightarrow> length acc \<le> length acc'"
proof (induction mx acc s rule: fgets_copy.induct)
  case (1 mx acc s)
  then show ?case
    by (subst (asm) (2) fgets_copy.simps) (fastforce simp: Let_def split: if_splits)
qed

lemma fgets_copy_progress:
  assumes "fgets_copy mx acc s = (acc', lf, s')" and "length acc < mx" and "0 < recvbufsize s"
  shows "length acc < length acc'"
  using assms
  by (subst (asm) fgets_copy.simps) (auto simp: Let_def split: if_splits dest: fgets_copy_length)

lemma tcp_recv_ev_nonempty: "tcp_recv_ev len es s = (Some bs, s') \<Longrightarrow> bs \<noteq> []"
  by (induction es) (auto simp: Let_def split: if_splits rx.splits)

lemma fgets_fill_nonempty: "fgets_fill s = (True, s') \<Longrightarrow> 0 < recvbufsize s'"
  by (auto simp: fgets_fill_def fgets_store_def tcp_recv_def Let_def
      dest: tcp_recv_ev_nonempty split: if_splits prod.splits option.splits)

text \<open>
  \<open>tcp_fgets (buffer, max, socket)\<close>: \<open>None\<close> is the return value -1, \<open>Some line\<close> the bytes
  stored in the caller's buffer. Every round copies at least one byte, so it ends.
\<close>

function tcp_fgets_loop :: "nat \<Rightarrow> string \<Rightarrow> tcp_socket \<Rightarrow> string option \<times> tcp_socket" where
  "tcp_fgets_loop mx acc s =
     (if want_close s then (None, tcp_close True s)
      else case fgets_fill s of
        (False, s1) \<Rightarrow> (None, s1)
      | (True, s1) \<Rightarrow>
          (case fgets_copy mx acc s1 of (acc', lf, s2) \<Rightarrow>
             if mx \<le> length acc' then (Some acc', s2)
             else if \<not> lf then tcp_fgets_loop mx acc' (fgets_compact s2)
             else (Some acc', s2)))"
  by pat_completeness auto
termination
proof (relation "measure (\<lambda>(mx, acc, s). mx - length acc)", goal_cases)
  case 1
  show ?case by simp
next
  case (2 mx acc s filled s1 acc' rest lf s2)
  then have "0 < recvbufsize s1"
    using fgets_fill_nonempty [of s s1] by (cases filled) auto
  moreover have "fgets_copy mx acc s1 = (acc', lf, s2)" and "length acc' < mx"
    using 2 by auto
  ultimately have "length acc < length acc'"
    using fgets_copy_length fgets_copy_progress by (metis le_less_trans)
  with \<open>length acc' < mx\<close> show ?case by simp
qed

declare tcp_fgets_loop.simps [simp del]

definition tcp_fgets :: "nat \<Rightarrow> tcp_socket \<Rightarrow> string option \<times> tcp_socket" where
  "tcp_fgets mx s = tcp_fgets_loop mx [] s"

text \<open>
  \<open>ssl_accept\<close> (\<open>src/src/server/ssl.c\<close>); the two flags say whether \<open>SSL_new\<close> and the
  handshake of \<open>SSL_accept\<close> succeed.
\<close>

definition ssl_accept :: "bool \<Rightarrow> bool \<Rightarrow> tcp_socket \<Rightarrow> int \<times> tcp_socket" where
  "ssl_accept new_ok hs_ok s =
     (if using_tls s then (-1, s)
      else if \<not> new_ok then (-1, s\<lparr>ssl := False\<rparr>)
      else if \<not> hs_ok then (-1, s\<lparr>ssl := True\<rparr>)
      else (0, s\<lparr>ssl := True, using_tls := True\<rparr>))"

section \<open>The byte stream behind a socket\<close>

definition pending :: "tcp_socket \<Rightarrow> string" where
  "pending s = take (recvbufsize s) (drop (recvbufoffset s) (recvbuf s))"

text \<open>The bytes that arrive before the first failure.\<close>

fun rx_bytes :: "bool \<Rightarrow> rx list \<Rightarrow> string" where
  "rx_bytes tls [] = []"
| "rx_bytes tls (RxData bs # es) =
     (if bs = [] \<and> tls then [] else bs @ rx_bytes tls es)"
| "rx_bytes tls (RxAgain # es) = rx_bytes tls es"
| "rx_bytes tls (_ # es) = []"

definition stream :: "tcp_socket \<Rightarrow> string" where
  "stream s = pending s @ rx_bytes (ssl s) (net s)"

definition open_sock :: "tcp_socket \<Rightarrow> bool" where
  "open_sock s \<longleftrightarrow> socket s \<noteq> -1 \<and> \<not> want_close s"

text \<open>
  The receive buffer: the array keeps its size, the unread bytes end two bytes before its
  end, and everything behind them is NUL.
\<close>

definition buf_ok :: "tcp_socket \<Rightarrow> bool" where
  "buf_ok s \<longleftrightarrow> length (recvbuf s) = RECVBUF
     \<and> recvbufoffset s + recvbufsize s + 2 \<le> RECVBUF
     \<and> (\<forall>i < RECVBUF. recvbufoffset s + recvbufsize s \<le> i \<longrightarrow> recvbuf s ! i = NUL)"

text \<open>What reading a line means on a byte stream: up to and including the first LF, at most \<open>mx\<close> bytes.\<close>

fun fgets_spec :: "nat \<Rightarrow> string \<Rightarrow> (string \<times> string) option" where
  "fgets_spec 0 bs = Some ([], bs)"
| "fgets_spec (Suc n) [] = None"
| "fgets_spec (Suc n) (c # cs) =
     (if c = LF then Some ([c], cs) else map_option (\<lambda>(l, r). (c # l, r)) (fgets_spec n cs))"

lemma fgets_spec_append:
  "LF \<notin> set l \<Longrightarrow> length l \<le> n \<Longrightarrow>
     fgets_spec n (l @ r) = map_option (\<lambda>(a, b). (l @ a, b)) (fgets_spec (n - length l) r)"
proof (induction l arbitrary: n)
  case Nil
  then show ?case by (simp add: option.map_ident case_prod_beta')
next
  case (Cons c l)
  then obtain m where "n = Suc m" by (cases n) auto
  with Cons show ?case
    by (cases "fgets_spec (m - length l) r") auto
qed

lemma fgets_spec_line:
  "LF \<notin> set l \<Longrightarrow> length l < n \<Longrightarrow> fgets_spec n (l @ LF # r) = Some (l @ [LF], r)"
  using fgets_spec_append [of l n "LF # r"] by (cases "n - length l") auto

lemma fgets_spec_Some:
  "fgets_spec n bs = Some (l, r) \<Longrightarrow> bs = l @ r \<and> length l \<le> n"
  by (induction n bs arbitrary: l r rule: fgets_spec.induct) (auto split: if_splits)

lemma tcp_recv_ev_Some:
  assumes "tcp_recv_ev len es s = (Some bs, s')" and "open_sock s"
  shows "rx_bytes (ssl s) es = bs @ rx_bytes (ssl s) (net s') \<and> length bs \<le> len
     \<and> s' = s\<lparr>net := net s', bytes_in := bytes_in s'\<rparr>"
  using assms
proof (induction es)
  case Nil
  then show ?case by (auto split: if_splits)
next
  case (Cons e es)
  show ?case
  proof (cases e)
    case (RxData b)
    with Cons show ?thesis
      by (cases "b = []") (auto simp: Let_def open_sock_def not_less split: if_splits)
  qed (use Cons in \<open>auto simp: open_sock_def\<close>)
qed

lemma tcp_recv_ev_None:
  assumes "tcp_recv_ev len es s = (None, s')" and "open_sock s" and "0 < len"
  shows "rx_bytes (ssl s) es = []"
  using assms
proof (induction es)
  case Nil
  then show ?case by simp
next
  case (Cons e es)
  then show ?case
    by (cases e) (auto simp: Let_def open_sock_def split: if_splits)
qed

lemma fgets_reset_ok:
  assumes "buf_ok s" and "recvbufsize s = 0"
  shows "buf_ok (fgets_reset s) \<and> recvbufsize (fgets_reset s) = 0
     \<and> recvbufoffset (fgets_reset s) + 2 < RECVBUF
     \<and> net (fgets_reset s) = net s \<and> ssl (fgets_reset s) = ssl s
     \<and> open_sock (fgets_reset s) = open_sock s"
  using assms by (auto simp: fgets_reset_def buf_ok_def RECVBUF_def zeros_def open_sock_def)

lemma fgets_store_ok:
  assumes "buf_ok s" and "recvbufsize s = 0" and "recvbufoffset s + length bs + 2 \<le> RECVBUF"
  shows "buf_ok (fgets_store bs s) \<and> pending (fgets_store bs s) = bs"
  using assms
  by (auto simp: fgets_store_def buf_ok_def pending_def RECVBUF_def Let_def nth_append)

lemma fgets_fill_True:
  assumes fill: "fgets_fill s = (True, s1)" and ok: "buf_ok s" and op: "open_sock s"
  shows "stream s1 = stream s \<and> buf_ok s1 \<and> open_sock s1"
proof (cases "recvbufsize s = 0")
  case False
  with fill ok op show ?thesis by (simp add: fgets_fill_def)
next
  case True
  let ?r = "fgets_reset s"
  from fgets_reset_ok [OF ok True] have r: "buf_ok ?r" "recvbufsize ?r = 0"
    "recvbufoffset ?r + 2 < RECVBUF" "net ?r = net s" "ssl ?r = ssl s" "open_sock ?r"
    using op by auto
  from fill True r obtain bs s2 where
    recv: "tcp_recv_ev (RECVBUF - recvbufoffset ?r - 2) (net s) ?r = (Some bs, s2)"
    and s1: "s1 = fgets_store bs s2"
    by (auto simp: fgets_fill_def tcp_recv_def Let_def split: prod.splits option.splits)
  from tcp_recv_ev_Some [OF recv r(6)] have
    s2: "rx_bytes (ssl s) (net s) = bs @ rx_bytes (ssl s) (net s2)"
    "length bs \<le> RECVBUF - recvbufoffset ?r - 2"
    "s2 = ?r\<lparr>net := net s2, bytes_in := bytes_in s2\<rparr>"
    by (simp_all add: r)
  then have f: "recvbuf s2 = recvbuf ?r" "recvbufsize s2 = 0" "recvbufoffset s2 = recvbufoffset ?r"
    "ssl s2 = ssl s" "socket s2 = socket ?r" "want_close s2 = want_close ?r"
    using r by (metis tcp_socket.select_convs tcp_socket.surjective tcp_socket.update_convs(10) tcp_socket.update_convs(5))+
  have "buf_ok s2" using r(1) f by (simp add: buf_ok_def r)
  with fgets_store_ok [of s2 bs] f s2(2) r(3) have
    st: "buf_ok s1" "pending s1 = bs" by (simp_all add: s1)
  have "net s1 = net s2" "ssl s1 = ssl s2" "open_sock s1 = open_sock s2"
    by (simp_all add: s1 fgets_store_def Let_def open_sock_def)
  moreover have "open_sock s2" using r(6) f by (simp add: open_sock_def)
  moreover have "pending s = []" using True by (simp add: pending_def)
  ultimately show ?thesis using st s2(1) f by (simp add: stream_def)
qed

lemma fgets_fill_False:
  assumes fill: "fgets_fill s = (False, s1)" and ok: "buf_ok s" and op: "open_sock s"
  shows "stream s = []"
proof -
  from fill have True: "recvbufsize s = 0" by (auto simp: fgets_fill_def split: if_splits)
  let ?r = "fgets_reset s"
  from fgets_reset_ok [OF ok True] op have r: "recvbufsize ?r = 0" "recvbufoffset ?r + 2 < RECVBUF"
    "net ?r = net s" "ssl ?r = ssl s" "open_sock ?r" by auto
  from fill True r obtain s2 where
    "tcp_recv_ev (RECVBUF - recvbufoffset ?r - 2) (net s) ?r = (None, s2)"
    by (auto simp: fgets_fill_def tcp_recv_def Let_def split: prod.splits option.splits)
  from tcp_recv_ev_None [OF this r(5)] r(2,4) have "rx_bytes (ssl s) (net s) = []" by simp
  with True show ?thesis by (simp add: stream_def pending_def)
qed

lemma pending_step:
  assumes "buf_ok s" and "0 < recvbufsize s"
  shows "pending s = recvbuf s ! recvbufoffset s #
     pending (s\<lparr>recvbufoffset := recvbufoffset s + 1, recvbufsize := recvbufsize s - 1\<rparr>)"
proof -
  obtain k where k: "recvbufsize s = Suc k" using assms(2) by (cases "recvbufsize s") auto
  have "recvbufoffset s < length (recvbuf s)" using assms by (simp add: buf_ok_def)
  then have "drop (recvbufoffset s) (recvbuf s)
      = recvbuf s ! recvbufoffset s # drop (Suc (recvbufoffset s)) (recvbuf s)"
    by (simp add: Cons_nth_drop_Suc)
  with k show ?thesis by (simp add: pending_def)
qed

lemma fgets_copy_spec:
  assumes "fgets_copy mx acc s = (acc', lf, s')" and "buf_ok s" and "length acc \<le> mx"
  shows "\<exists>l. acc' = acc @ l \<and> pending s = l @ pending s' \<and> buf_ok s' \<and> length acc' \<le> mx
     \<and> (if lf then \<exists>k. l = k @ [LF] \<and> LF \<notin> set k else LF \<notin> set l)
     \<and> net s' = net s \<and> ssl s' = ssl s \<and> open_sock s' = open_sock s"
  using assms
proof (induction mx acc s rule: fgets_copy.induct)
  case (1 mx acc s)
  let ?c = "recvbuf s ! recvbufoffset s"
  let ?s = "s\<lparr>recvbufoffset := recvbufoffset s + 1, recvbufsize := recvbufsize s - 1\<rparr>"
  show ?case
  proof (cases "length acc < mx \<and> 0 < recvbufsize s")
    case False
    with "1.prems" show ?thesis by (subst (asm) fgets_copy.simps) auto
  next
    case True
    note eq = "1.prems"(1) [unfolded fgets_copy.simps [of mx acc s]]
    have ok: "buf_ok ?s" using "1.prems"(2) True by (auto simp: buf_ok_def)
    note step = pending_step [OF "1.prems"(2) conjunct2 [OF True]]
    have frame: "net ?s = net s" "ssl ?s = ssl s" "open_sock ?s = open_sock s"
      by (simp_all add: open_sock_def)
    show ?thesis
    proof (cases "?c = LF \<or> recvbuf ?s ! recvbufoffset ?s = NUL")
      case stop: True
      with eq True have "acc' = acc @ [?c]" "lf \<longleftrightarrow> ?c = LF" "s' = ?s"
        by (auto simp: Let_def split: if_splits)
      with step ok frame True show ?thesis
        by (intro exI [of _ "[?c]"]) auto
    next
      case go: False
      with eq True have rec: "fgets_copy mx (acc @ [?c]) ?s = (acc', lf, s')"
        by (simp add: Let_def)
      have "length (acc @ [?c]) \<le> mx" using True by simp
      from "1.IH" [OF True refl refl refl go rec ok this] obtain l where
        l: "acc' = (acc @ [?c]) @ l" "pending ?s = l @ pending s'" "buf_ok s'" "length acc' \<le> mx"
        "if lf then \<exists>k. l = k @ [LF] \<and> LF \<notin> set k else LF \<notin> set l"
        "net s' = net s" "ssl s' = ssl s" "open_sock s' = open_sock s"
        using frame by auto
      have "if lf then \<exists>k. ?c # l = k @ [LF] \<and> LF \<notin> set k else LF \<notin> set (?c # l)"
      proof (cases lf)
        case True
        with l(5) obtain k where "l = k @ [LF]" "LF \<notin> set k" by auto
        with go True show ?thesis by (auto intro!: exI [of _ "?c # k"])
      qed (use l(5) go in auto)
      with l step show ?thesis by (intro exI [of _ "?c # l"]) auto
    qed
  qed
qed

lemma fgets_compact_ok:
  "buf_ok s \<Longrightarrow> buf_ok (fgets_compact s) \<and> pending (fgets_compact s) = pending s
     \<and> net (fgets_compact s) = net s \<and> ssl (fgets_compact s) = ssl s
     \<and> open_sock (fgets_compact s) = open_sock s"
  by (auto simp: fgets_compact_def buf_ok_def pending_def zeros_def RECVBUF_def open_sock_def nth_append)

lemma tcp_fgets_loop_spec:
  assumes "buf_ok s" and "open_sock s" and "length acc < mx"
  shows "case fgets_spec (mx - length acc) (stream s) of
     None \<Rightarrow> fst (tcp_fgets_loop mx acc s) = None
   | Some (l, r) \<Rightarrow> \<exists>s'. tcp_fgets_loop mx acc s = (Some (acc @ l), s')
        \<and> stream s' = r \<and> buf_ok s' \<and> open_sock s'"
  using assms
proof (induction mx acc s rule: tcp_fgets_loop.induct)
  case (1 mx acc s)
  note ok = "1.prems"(1) and op = "1.prems"(2) and len = "1.prems"(3)
  have nw: "\<not> want_close s" using op by (simp add: open_sock_def)
  obtain b s1 where fill: "fgets_fill s = (b, s1)" by (cases "fgets_fill s")
  show ?case
  proof (cases b)
    case False
    with fill fgets_fill_False [OF _ ok op] have "stream s = []" by simp
    moreover obtain m where "mx - length acc = Suc m" using len by (cases "mx - length acc") auto
    ultimately show ?thesis
      using False fill nw by (simp add: tcp_fgets_loop.simps [of mx acc s])
  next
    case True
    with fill fgets_fill_True [OF _ ok op] have s1: "stream s1 = stream s" "buf_ok s1" "open_sock s1"
      by simp_all
    obtain acc' lf s2 where copy: "fgets_copy mx acc s1 = (acc', lf, s2)"
      by (cases "fgets_copy mx acc s1")
    note unf = tcp_fgets_loop.simps [of mx acc s]
    from fgets_copy_spec [OF copy s1(2)] len obtain l where
      l: "acc' = acc @ l" "pending s1 = l @ pending s2" "buf_ok s2" "length acc' \<le> mx"
      "if lf then \<exists>k. l = k @ [LF] \<and> LF \<notin> set k else LF \<notin> set l"
      "net s2 = net s1" "ssl s2 = ssl s1" "open_sock s2" using s1(3) by auto
    have st: "stream s = l @ stream s2" using s1(1) l(2,6,7) by (simp add: stream_def)
    show ?thesis
    proof (cases lf)
      case lft: True
      with l(5) obtain k where k: "l = k @ [LF]" "LF \<notin> set k" by auto
      have "length k < mx - length acc" using l(1,4) k by simp
      with fgets_spec_line [OF k(2) this, of "stream s2"] st k
      have "fgets_spec (mx - length acc) (stream s) = Some (l, stream s2)" by simp
      with lft True fill copy nw l show ?thesis by (simp add: unf)
    next
      case lff: False
      with l(5) have nl: "LF \<notin> set l" by simp
      have ll: "length l \<le> mx - length acc" using l(1,4) by simp
      note sp = fgets_spec_append [OF nl ll, of "stream s2"]
      show ?thesis
      proof (cases "mx \<le> length acc'")
        case full: True
        then have "mx - length acc - length l = 0" using l(1) by simp
        with sp st have "fgets_spec (mx - length acc) (stream s) = Some (l, stream s2)" by simp
        with full True fill copy nw l show ?thesis by (simp add: unf)
      next
        case more: False
        from fgets_compact_ok [OF l(3)] have
          c: "buf_ok (fgets_compact s2)" "stream (fgets_compact s2) = stream s2"
          "open_sock (fgets_compact s2)" using l(8) by (simp_all add: stream_def)
        have rec: "tcp_fgets_loop mx acc s = tcp_fgets_loop mx acc' (fgets_compact s2)"
          using True fill copy nw more lff by (simp add: unf)
        have IH: "case fgets_spec (mx - length acc') (stream s2) of
           None \<Rightarrow> fst (tcp_fgets_loop mx acc' (fgets_compact s2)) = None
         | Some (l, r) \<Rightarrow> \<exists>s'. tcp_fgets_loop mx acc' (fgets_compact s2) = (Some (acc' @ l), s')
              \<and> stream s' = r \<and> buf_ok s' \<and> open_sock s'"
          using "1.IH" [OF nw fill [symmetric] eqTrueI [OF True] copy [symmetric] refl more lff c(1) c(3)] more c(2)
          by simp
        have "mx - length acc - length l = mx - length acc'" using l(1) by simp
        with sp st rec IH l(1) show ?thesis
          by (cases "fgets_spec (mx - length acc') (stream s2)") auto
      qed
    qed
  qed
qed

section \<open>Every line uses up input\<close>

primrec rx_total :: "rx list \<Rightarrow> nat" where
  "rx_total [] = 0"
| "rx_total (e # es) = (case e of RxData bs \<Rightarrow> length bs | _ \<Rightarrow> 0) + rx_total es"

definition avail :: "tcp_socket \<Rightarrow> nat" where
  "avail s = recvbufsize s + rx_total (net s)"

lemma tcp_recv_ev_avail:
  "tcp_recv_ev len es s = (Some bs, s') \<Longrightarrow>
     length bs + rx_total (net s') \<le> rx_total es \<and> recvbufsize s' = recvbufsize s"
  by (induction es) (auto simp: Let_def split: if_splits rx.splits)

lemma fgets_fill_avail: "fgets_fill s = (True, s') \<Longrightarrow> avail s' \<le> avail s"
  by (auto simp: fgets_fill_def fgets_store_def fgets_reset_def tcp_recv_def avail_def Let_def
      dest!: tcp_recv_ev_avail split: if_splits prod.splits option.splits)

lemma fgets_copy_avail:
  "fgets_copy mx acc s = (acc', lf, s') \<Longrightarrow> avail s' + length acc' = avail s + length acc"
proof (induction mx acc s rule: fgets_copy.induct)
  case (1 mx acc s)
  show ?case
  proof (cases "length acc < mx \<and> 0 < recvbufsize s")
    case True
    note eq = "1.prems" [unfolded fgets_copy.simps [of mx acc s]]
    show ?thesis
      using eq True "1.IH" [OF True refl refl refl]
      by (auto simp: Let_def avail_def split: if_splits)
  qed (use "1.prems" in \<open>auto simp: fgets_copy.simps [of mx acc s]\<close>)
qed

lemma fgets_compact_avail [simp]: "avail (fgets_compact s) = avail s"
  by (simp add: fgets_compact_def avail_def)

lemma tcp_fgets_loop_avail:
  "tcp_fgets_loop mx acc s = (Some l, s') \<Longrightarrow> avail s' + length l \<le> avail s + length acc"
proof (induction mx acc s rule: tcp_fgets_loop.induct)
  case (1 mx acc s)
  obtain b s1 where fill: "fgets_fill s = (b, s1)" by (cases "fgets_fill s")
  obtain acc' lf s2 where copy: "fgets_copy mx acc s1 = (acc', lf, s2)"
    by (cases "fgets_copy mx acc s1")
  have nw: "\<not> want_close s" and b: b
    using "1.prems" fill by (auto simp: tcp_fgets_loop.simps [of mx acc s] split: if_splits bool.splits)
  have le: "avail s2 + length acc' \<le> avail s + length acc"
    using fgets_fill_avail [of s s1] fgets_copy_avail [OF copy] fill b by simp
  show ?case
  proof (cases "\<not> mx \<le> length acc' \<and> \<not> lf")
    case True
    then have "tcp_fgets_loop mx acc' (fgets_compact s2) = (Some l, s')"
      using "1.prems" fill copy nw b by (simp add: tcp_fgets_loop.simps [of mx acc s])
    from "1.IH" [OF nw fill [symmetric] eqTrueI [OF b] copy [symmetric] refl conjunct1 [OF True]
        conjunct2 [OF True] this] True le
    show ?thesis by simp
  next
    case False
    then show ?thesis
      using "1.prems" fill copy nw b le
      by (auto simp: tcp_fgets_loop.simps [of mx acc s] split: if_splits)
  qed
qed

lemma tcp_fgets_loop_grows:
  "tcp_fgets_loop mx acc s = (Some l, s') \<Longrightarrow> length acc < mx \<Longrightarrow> length acc < length l"
proof (induction mx acc s rule: tcp_fgets_loop.induct)
  case (1 mx acc s)
  obtain b s1 where fill: "fgets_fill s = (b, s1)" by (cases "fgets_fill s")
  obtain acc' lf s2 where copy: "fgets_copy mx acc s1 = (acc', lf, s2)"
    by (cases "fgets_copy mx acc s1")
  have nw: "\<not> want_close s" and b: b
    using "1.prems" fill by (auto simp: tcp_fgets_loop.simps [of mx acc s] split: if_splits bool.splits)
  have gr: "length acc < length acc'"
    using fgets_copy_progress [OF copy "1.prems"(2)] fgets_fill_nonempty fill b by simp
  show ?case
  proof (cases "\<not> mx \<le> length acc' \<and> \<not> lf")
    case True
    then have "tcp_fgets_loop mx acc' (fgets_compact s2) = (Some l, s')"
      using "1.prems" fill copy nw b by (simp add: tcp_fgets_loop.simps [of mx acc s])
    from "1.IH" [OF nw fill [symmetric] eqTrueI [OF b] copy [symmetric] refl conjunct1 [OF True]
        conjunct2 [OF True] this] True gr
    show ?thesis by simp
  next
    case False
    then show ?thesis
      using "1.prems" fill copy nw b gr
      by (auto simp: tcp_fgets_loop.simps [of mx acc s] split: if_splits)
  qed
qed

lemma tcp_recv_ev_avail_None:
  "tcp_recv_ev len es s = (None, s') \<Longrightarrow> rx_total (net s') \<le> rx_total es \<and> recvbufsize s' = recvbufsize s"
  by (induction es) (auto simp: Let_def tcp_close_def split: if_splits rx.splits)

lemma fgets_fill_avail_le: "avail (snd (fgets_fill s)) \<le> avail s"
proof (cases "fst (fgets_fill s)")
  case True
  then show ?thesis using fgets_fill_avail [of s "snd (fgets_fill s)"] by (metis prod.collapse)
next
  case False
  then show ?thesis
    by (auto simp: fgets_fill_def fgets_reset_def tcp_recv_def avail_def Let_def
        dest!: tcp_recv_ev_avail_None split: if_splits prod.splits option.splits)
qed

text \<open>Reading never makes input appear, also when it fails.\<close>

lemma tcp_fgets_loop_avail_le: "avail (snd (tcp_fgets_loop mx acc s)) \<le> avail s"
proof (induction mx acc s rule: tcp_fgets_loop.induct)
  case (1 mx acc s)
  obtain b s1 where fill: "fgets_fill s = (b, s1)" by (cases "fgets_fill s")
  obtain acc' lf s2 where copy: "fgets_copy mx acc s1 = (acc', lf, s2)"
    by (cases "fgets_copy mx acc s1")
  have a1: "avail s1 \<le> avail s" using fgets_fill_avail_le [of s] fill by simp
  have "length acc \<le> length acc'" using fgets_copy_length [OF copy] .
  with a1 fgets_copy_avail [OF copy] have a2: "avail s2 \<le> avail s" by simp
  have tc: "avail (tcp_close True s) = avail s" by (simp add: avail_def tcp_close_def)
  have rec: "avail (snd (tcp_fgets_loop mx acc' (fgets_compact s2))) \<le> avail s"
    if "\<not> want_close s" "b" "\<not> mx \<le> length acc'" "\<not> lf"
    using "1.IH" [OF that(1) fill [symmetric] eqTrueI [OF that(2)] copy [symmetric] refl that(3,4)] a2 by simp
  show ?case
    using tc a1 a2 rec fill copy by (cases b) (auto simp: tcp_fgets_loop.simps [of mx acc s])
qed

lemma tcp_fgets_avail_le: "tcp_fgets mx s = (r, s') \<Longrightarrow> avail s' \<le> avail s"
  using tcp_fgets_loop_avail_le [of mx "[]" s] by (simp add: tcp_fgets_def)

lemma tcp_fgets_avail:
  assumes "tcp_fgets mx s = (Some l, s')" and "0 < mx"
  shows "avail s' < avail s"
proof -
  from assms(1) have "tcp_fgets_loop mx [] s = (Some l, s')" by (simp add: tcp_fgets_def)
  from tcp_fgets_loop_avail [OF this] tcp_fgets_loop_grows [OF this]
  have "avail s' + length l \<le> avail s" and "0 < length l" using assms(2) by simp_all
  then show ?thesis by linarith
qed

section \<open>The receive buffer stays inside its array\<close>

lemma tcp_recv_ev_frame:
  "tcp_recv_ev len es s = (r, s') \<Longrightarrow>
     recvbuf s' = recvbuf s \<and> recvbufoffset s' = recvbufoffset s \<and> recvbufsize s' = recvbufsize s
     \<and> (\<forall>bs. r = Some bs \<longrightarrow> length bs \<le> len)"
  by (induction es) (auto simp: Let_def tcp_close_def split: if_splits rx.splits)

lemma fgets_fill_buf_ok [inv_intros]:
  assumes "buf_ok s"
  shows "buf_ok (snd (fgets_fill s))"
proof (cases "recvbufsize s = 0")
  case False
  with assms show ?thesis by (simp add: fgets_fill_def)
next
  case True
  let ?r = "fgets_reset s"
  from fgets_reset_ok [OF assms True] have r: "buf_ok ?r" "recvbufsize ?r = 0"
    "recvbufoffset ?r + 2 < RECVBUF" by auto
  obtain res s2 where recv: "tcp_recv_ev (RECVBUF - recvbufoffset ?r - 2) (net ?r) ?r = (res, s2)"
    by (cases "tcp_recv_ev (RECVBUF - recvbufoffset ?r - 2) (net ?r) ?r")
  note f = tcp_recv_ev_frame [OF recv]
  have ok2: "buf_ok s2" using f r(1) by (simp add: buf_ok_def)
  show ?thesis
  proof (cases res)
    case None
    with True recv r ok2 show ?thesis by (simp add: fgets_fill_def tcp_recv_def)
  next
    case (Some bs)
    with f r have "recvbufoffset s2 + length bs + 2 \<le> RECVBUF" "recvbufsize s2 = 0" by auto
    from fgets_store_ok [OF ok2 this(2,1)] Some True recv r
    show ?thesis by (simp add: fgets_fill_def tcp_recv_def)
  qed
qed

lemma fgets_copy_buf_ok [inv_intros]: "buf_ok s \<Longrightarrow> buf_ok (snd (snd (fgets_copy mx acc s)))"
proof (induction mx acc s rule: fgets_copy.induct)
  case (1 mx acc s)
  show ?case
  proof (cases "length acc < mx \<and> 0 < recvbufsize s")
    case True
    let ?s = "s\<lparr>recvbufoffset := recvbufoffset s + 1, recvbufsize := recvbufsize s - 1\<rparr>"
    have "buf_ok ?s" using "1.prems" True by (auto simp: buf_ok_def)
    with True "1.IH" [OF True refl refl refl] show ?thesis
      by (simp add: fgets_copy.simps [of mx acc s] Let_def)
  qed (use "1.prems" in \<open>auto simp: fgets_copy.simps [of mx acc s]\<close>)
qed

lemma tcp_fgets_loop_buf_ok: "buf_ok s \<Longrightarrow> buf_ok (snd (tcp_fgets_loop mx acc s))"
proof (induction mx acc s rule: tcp_fgets_loop.induct)
  case (1 mx acc s)
  obtain b s1 where fill: "fgets_fill s = (b, s1)" by (cases "fgets_fill s")
  obtain acc' lf s2 where copy: "fgets_copy mx acc s1 = (acc', lf, s2)"
    by (cases "fgets_copy mx acc s1")
  have ok1: "buf_ok s1" using fgets_fill_buf_ok [OF "1.prems"] fill by simp
  have ok2: "buf_ok s2" using fgets_copy_buf_ok [OF ok1, of mx acc] copy by simp
  have ok3: "buf_ok (fgets_compact s2)" using fgets_compact_ok [OF ok2] by simp
  have okc: "buf_ok (tcp_close True s)" using "1.prems" by (simp add: buf_ok_def tcp_close_def)
  note rec = "1.IH" [OF _ fill [symmetric] _ copy [symmetric] refl _ _ ok3]
  show ?case
    using okc ok1 ok2 rec fill copy
    by (cases b) (auto simp: tcp_fgets_loop.simps [of mx acc s])
qed

text \<open>Reading a line leaves the sending side of the socket alone.\<close>

definition tx_same :: "tcp_socket \<Rightarrow> tcp_socket \<Rightarrow> bool" where
  "tx_same s s' \<longleftrightarrow> txres s' = txres s \<and> sent s' = sent s \<and> using_tls s' = using_tls s
     \<and> bytes_out s' = bytes_out s"

lemma tx_same_refl [simp]: "tx_same s s"
  by (simp add: tx_same_def)

lemma tx_same_trans: "tx_same s t \<Longrightarrow> tx_same t u \<Longrightarrow> tx_same s u"
  by (simp add: tx_same_def)

lemma tcp_recv_ev_tx: "tx_same s (snd (tcp_recv_ev len es s))"
  by (induction es) (auto simp: Let_def tcp_close_def tx_same_def split: rx.splits)

lemma fgets_fill_tx: "tx_same s (snd (fgets_fill s))"
proof -
  have reset: "tx_same s (fgets_reset s)" by (simp add: fgets_reset_def tx_same_def)
  have recv: "tx_same s s2" if "tcp_recv n (fgets_reset s) = (r, s2)" for n r s2
    using tcp_recv_ev_tx [of "fgets_reset s" n "net (fgets_reset s)"] that reset
    by (auto simp: tcp_recv_def intro: tx_same_trans)
  have store: "tx_same s (fgets_store bs s2) = tx_same s s2" for bs s2
    by (simp add: fgets_store_def Let_def tx_same_def)
  show ?thesis
    by (auto simp: fgets_fill_def Let_def store split: prod.splits option.splits intro: recv)
qed

lemma fgets_copy_tx: "tx_same s (snd (snd (fgets_copy mx acc s)))"
proof (induction mx acc s rule: fgets_copy.induct)
  case (1 mx acc s)
  then show ?case by (subst fgets_copy.simps) (auto simp: Let_def tx_same_def)
qed

lemma tcp_fgets_tx: "tx_same s (snd (tcp_fgets_loop mx acc s))"
proof (induction mx acc s rule: tcp_fgets_loop.induct)
  case (1 mx acc s)
  obtain b s1 where fill: "fgets_fill s = (b, s1)" by (cases "fgets_fill s")
  obtain acc' lf s2 where copy: "fgets_copy mx acc s1 = (acc', lf, s2)"
    by (cases "fgets_copy mx acc s1")
  have t1: "tx_same s s1" using fgets_fill_tx [of s] fill by simp
  have t2: "tx_same s s2" using fgets_copy_tx [of s1 mx acc] copy t1 by (auto intro: tx_same_trans)
  have "tx_same s2 (fgets_compact s2)" by (simp add: fgets_compact_def tx_same_def)
  with t2 have t3: "tx_same s (fgets_compact s2)" by (rule tx_same_trans)
  have tc: "tx_same s (tcp_close True s)" by (simp add: tx_same_def tcp_close_def)
  note rec = tx_same_trans [OF t3 "1.IH" [OF _ fill [symmetric] _ copy [symmetric] refl]]
  show ?case
    using tc t1 t2 rec fill copy
    by (cases b) (auto simp: tcp_fgets_loop.simps [of mx acc s])
qed

lemma tcp_fgets_frame: "tcp_fgets mx s = (r, s') \<Longrightarrow> tx_same s s'"
  using tcp_fgets_tx [of s mx "[]"] by (simp add: tcp_fgets_def)

lemma tcp_fgets_length: "tcp_fgets_loop mx acc s = (Some l, s') \<Longrightarrow> length acc \<le> mx \<Longrightarrow> length l \<le> mx"
proof (induction mx acc s rule: tcp_fgets_loop.induct)
  case (1 mx acc s)
  obtain b s1 where fill: "fgets_fill s = (b, s1)" by (cases "fgets_fill s")
  obtain acc' lf s2 where copy: "fgets_copy mx acc s1 = (acc', lf, s2)"
    by (cases "fgets_copy mx acc s1")
  have "length acc' \<le> mx"
    using copy "1.prems"(2)
  proof (induction mx acc s1 rule: fgets_copy.induct)
    case (1 mx acc s)
    then show ?case
      by (cases "length acc < mx \<and> 0 < recvbufsize s")
        (auto simp: fgets_copy.simps [of mx acc s] Let_def split: if_splits)
  qed
  with "1.prems" "1.IH" [OF _ fill [symmetric] _ copy [symmetric] refl] fill copy show ?case
    by (cases b) (auto simp: tcp_fgets_loop.simps [of mx acc s] split: if_splits)
qed

section \<open>The interface the protocol modules use\<close>

text \<open>
  A line reader: a \<open>fgets\<close> over a state that stands for a byte stream. The client lemma
  says that reading takes the lines of the stream one after the other, whatever the state
  does internally.
\<close>

locale line_reader =
  fixes fgets :: "nat \<Rightarrow> 's \<Rightarrow> string option \<times> 's"
    and bytes :: "'s \<Rightarrow> string"
    and ready :: "'s \<Rightarrow> bool"
  assumes fgets_line: "ready s \<Longrightarrow> 0 < mx \<Longrightarrow> fgets_spec mx (bytes s) = Some (l, r) \<Longrightarrow>
     \<exists>s'. fgets mx s = (Some l, s') \<and> bytes s' = r \<and> ready s'"
    and fgets_end: "ready s \<Longrightarrow> 0 < mx \<Longrightarrow> fgets_spec mx (bytes s) = None \<Longrightarrow> fst (fgets mx s) = None"
begin

lemma fgets_first_line:
  assumes "ready s" and "bytes s = l @ LF # r" and "LF \<notin> set l" and "length l < mx"
  shows "\<exists>s'. fgets mx s = (Some (l @ [LF]), s') \<and> bytes s' = r \<and> ready s'"
  using fgets_line [OF assms(1), of mx "l @ [LF]" r] fgets_spec_line [OF assms(3,4), of r] assms
  by simp

lemma fgets_deterministic:
  assumes "ready s" and "ready t" and "bytes s = bytes t" and "0 < mx"
  shows "fst (fgets mx s) = fst (fgets mx t)"
proof (cases "fgets_spec mx (bytes s)")
  case None
  with assms show ?thesis using fgets_end [of s mx] fgets_end [of t mx] by simp
next
  case (Some lr)
  then obtain l r where lr: "fgets_spec mx (bytes s) = Some (l, r)" by (cases lr) auto
  with assms obtain s' t' where "fgets mx s = (Some l, s')" "fgets mx t = (Some l, t')"
    using fgets_line [of s mx l r] fgets_line [of t mx l r] by auto
  then show ?thesis by simp
qed

end

interpretation tcp: line_reader tcp_fgets stream "\<lambda>s. buf_ok s \<and> open_sock s"
proof
  fix s mx l r
  assume "buf_ok s \<and> open_sock s" and "0 < mx" and "fgets_spec mx (stream s) = Some (l, r)"
  then show "\<exists>s'. tcp_fgets mx s = (Some l, s') \<and> stream s' = r \<and> buf_ok s' \<and> open_sock s'"
    using tcp_fgets_loop_spec [of s "[]" mx] by (simp add: tcp_fgets_def)
next
  fix s mx
  assume "buf_ok s \<and> open_sock s" and "0 < mx" and "fgets_spec mx (stream s) = None"
  then show "fst (tcp_fgets mx s) = None"
    using tcp_fgets_loop_spec [of s "[]" mx] by (simp add: tcp_fgets_def)
qed

section \<open>Replies on a healthy link\<close>

definition link_up :: "tcp_socket \<Rightarrow> bool" where
  "link_up s \<longleftrightarrow> open_sock s \<and> txres s = []"

definition push :: "string \<Rightarrow> tcp_socket \<Rightarrow> tcp_socket" where
  "push t s = s\<lparr>sent := sent s @ t, bytes_out := bytes_out s + of_nat (length t)\<rparr>"

lemma push_push [simp]: "push u (push t s) = push (t @ u) s"
  by (simp add: push_def)

lemma push_Nil [simp]: "push [] s = s"
  by (simp add: push_def)

lemma push_link [simp]:
  "link_up (push t s) = link_up s" "buf_ok (push t s) = buf_ok s" "stream (push t s) = stream s"
  "open_sock (push t s) = open_sock s" "sent (push t s) = sent s @ t"
  by (simp_all add: push_def link_up_def open_sock_def buf_ok_def stream_def pending_def)

lemma send_push: "link_up s \<Longrightarrow> tcp_send_nolog t s = (int (length t), push t s)"
  by (simp add: tcp_send_nolog_def push_def link_up_def open_sock_def)

text \<open>The next line, with what reading it leaves alone.\<close>

lemma read_body_line:
  assumes "buf_ok s" and "open_sock s" and "stream s = l @ rest" and "\<exists>t. l = t @ [LF] \<and> LF \<notin> set t"
    and "length l \<le> 1023"
  shows "\<exists>s'. tcp_fgets 1023 s = (Some l, s') \<and> stream s' = rest \<and> buf_ok s' \<and> open_sock s' \<and> tx_same s s'"
proof -
  from assms(4) obtain t where t: "l = t @ [LF]" "LF \<notin> set t" by blast
  then have "length t < 1023" using assms(5) by simp
  with tcp.fgets_first_line [of s t rest 1023] t assms obtain s' where
    "tcp_fgets 1023 s = (Some l, s')" "stream s' = rest" "buf_ok s' \<and> open_sock s'" by auto
  with tcp_fgets_frame show ?thesis by blast
qed

section \<open>Properties\<close>


text \<open>Two segments, the second holding the end of one command and the start of the next.\<close>

definition demo_socket :: tcp_socket where
  "demo_socket = \<lparr>socket = 5, ssl = False, using_tls = False, want_close = False,
     bytes_in = 0, bytes_out = 0, recvbufsize = 0, recvbufoffset = 0, recvbuf = zeros RECVBUF,
     net = [RxData ''US'', RxAgain, RxData (''ER bob'' @ CRLF @ ''PASS x'' @ CRLF)],
     txres = [], sent = []\<rparr>"

lemma demo_socket_ok: "buf_ok demo_socket" "open_sock demo_socket"
  "stream demo_socket = ''USER bob'' @ CRLF @ ''PASS x'' @ CRLF"
  by (simp_all add: demo_socket_def buf_ok_def open_sock_def stream_def pending_def zeros_def RECVBUF_def)


text \<open>
  C18. The receive buffer of a socket stays inside its 4096-byte array whatever the kernel
  delivers and whatever the caller's limit is: offset plus size never passes the array's
  last two bytes, and the bytes behind the unread data are NUL.
\<close>

theorem tcp_fgets_buffer_safe:
  assumes "buf_ok s"
  shows "buf_ok (snd (tcp_fgets mx s))"
  using tcp_fgets_loop_buf_ok [OF assms] by (simp add: tcp_fgets_def)

theorem tcp_fgets_buffer_safe_witness: "buf_ok (snd (tcp_fgets 3 demo_socket))"
  by (rule tcp_fgets_buffer_safe [OF demo_socket_ok(1)])

text \<open>
  The caller's buffer is never overrun, and reading always makes progress: a call that
  returns a line stores at least one and at most \<open>mx\<close> bytes, and it uses up at least as
  many bytes of buffered or arriving input.
\<close>

theorem tcp_fgets_bounds:
  assumes "tcp_fgets mx s = (Some line, s')" and "0 < mx"
  shows "0 < length line \<and> length line \<le> mx \<and> avail s' + length line \<le> avail s"
proof -
  from assms(1) have "tcp_fgets_loop mx [] s = (Some line, s')" by (simp add: tcp_fgets_def)
  from tcp_fgets_loop_avail [OF this] tcp_fgets_loop_grows [OF this] tcp_fgets_length [OF this] assms(2)
  show ?thesis by simp
qed

theorem tcp_fgets_bounds_witness:
  "\<exists>line s'. tcp_fgets 127 demo_socket = (Some line, s') \<and> 0 < length line \<and> length line \<le> 127
     \<and> avail s' + length line \<le> avail demo_socket"
proof -
  have "fgets_spec 127 (stream demo_socket) = Some (''USER bob'' @ CRLF, ''PASS x'' @ CRLF)"
    unfolding demo_socket_ok(3) by code_simp
  then obtain s' where "tcp_fgets 127 demo_socket = (Some (''USER bob'' @ CRLF), s')"
    using tcp.fgets_line [of demo_socket 127] demo_socket_ok by auto
  then show ?thesis using tcp_fgets_bounds [of 127 demo_socket] by auto
qed

text \<open>
  C19. Bytes that arrived in clear text before a TLS handshake are still delivered after it:
  \<open>ssl_accept\<close> leaves the receive buffer as it is, so a command line buffered before the
  handshake is the next line \<open>tcp_fgets\<close> returns on the encrypted connection.
\<close>

theorem ssl_accept_keeps_plaintext:
  assumes "buf_ok s" and "open_sock s" and "pending s = cmd @ LF # rest" and "LF \<notin> set cmd"
    and "length cmd < mx"
  shows "\<exists>s'. tcp_fgets mx (snd (ssl_accept True True s)) = (Some (cmd @ [LF]), s')"
proof -
  let ?s = "snd (ssl_accept True True s)"
  have f: "recvbuf ?s = recvbuf s" "recvbufoffset ?s = recvbufoffset s"
    "recvbufsize ?s = recvbufsize s" "socket ?s = socket s" "want_close ?s = want_close s"
    by (simp_all add: ssl_accept_def)
  with assms have "buf_ok ?s" "open_sock ?s" by (simp_all add: buf_ok_def open_sock_def)
  moreover have "stream ?s = cmd @ LF # (rest @ rx_bytes (ssl ?s) (net ?s))"
    using assms(3) f by (simp add: stream_def pending_def)
  ultimately show ?thesis
    using tcp.fgets_first_line [of ?s cmd _ mx] assms(4,5) by blast
qed

definition demo_injected :: tcp_socket where
  "demo_injected = demo_socket\<lparr>recvbuf := ''PASS x'' @ [LF] @ zeros (RECVBUF - 7), recvbufsize := 7\<rparr>"

theorem ssl_accept_keeps_plaintext_witness:
  "\<exists>s'. tcp_fgets 127 (snd (ssl_accept True True demo_injected)) = (Some (''PASS x'' @ [LF]), s')"
proof (rule ssl_accept_keeps_plaintext [of demo_injected "''PASS x''" "[]" 127])
  show "buf_ok demo_injected"
    by (auto simp: demo_injected_def demo_socket_def buf_ok_def zeros_def RECVBUF_def nth_append nth_Cons'
        LF_def NUL_def)
  show "open_sock demo_injected"
    by (simp add: demo_injected_def demo_socket_def open_sock_def)
  show "pending demo_injected = ''PASS x'' @ LF # []"
    by (simp add: demo_injected_def demo_socket_def pending_def)
qed (simp_all add: LF_def)

end
