(* ===== verification/Base64.thy ===== *)
theory Base64
  imports Prelude
begin

unbundle bit_operations_syntax

text \<open>
  Base64: the encoder and decoder of the NSP base library
  (\<open>src/src/nsp/src/libs/base/base64.c\<close>) and the bounded decoder of the server core
  (\<open>decode_base64\<close> in \<open>src/src/server/format.c\<close>). Bytes are \<open>8 word\<close>s; the decoders keep the
  finished bytes and the byte under construction apart (\<open>dest[destidx]\<close> in C).
\<close>

definition b64chars :: string where
  "b64chars = ''ABCDEFGHIJKLMNOPQRSTUVWXYZabcdefghijklmnopqrstuvwxyz0123456789+/''"

section \<open>Encoding\<close>

definition b64_char :: "byte \<Rightarrow> char" where
  "b64_char x = b64chars ! unat x"

text \<open>The four characters of a full group of three bytes.\<close>

definition b64_quantum :: "byte \<Rightarrow> byte \<Rightarrow> byte \<Rightarrow> string" where
  "b64_quantum p q r =
     [b64_char (drop_bit 2 p),
      b64_char ((push_bit 4 p AND 0x30) OR drop_bit 4 q),
      b64_char ((push_bit 2 q AND 0x3C) OR drop_bit 6 r),
      b64_char (r AND 0x3F)]"

text \<open>
  The encoder: \<open>maxline\<close> and \<open>linelen\<close> put a CR LF behind a group once the line is full. The
  last group is padded and never followed by a line end.
\<close>

fun base64_encode_loop :: "int \<Rightarrow> int \<Rightarrow> byte list \<Rightarrow> string" where
  "base64_encode_loop maxline linelen (p # q # r # cp) =
     b64_quantum p q r @
     (if 0 < maxline \<and> maxline \<le> linelen + 4
      then [CR, LF] @ base64_encode_loop maxline 0 cp
      else base64_encode_loop maxline (linelen + 4) cp)"
| "base64_encode_loop maxline linelen [p] =
     [b64_char (drop_bit 2 p), b64_char (push_bit 4 p AND 0x30), CHR ''='', CHR ''='']"
| "base64_encode_loop maxline linelen [p, q] =
     [b64_char (drop_bit 2 p), b64_char ((push_bit 4 p AND 0x30) OR drop_bit 4 q),
      b64_char (push_bit 2 q AND 0x3C), CHR ''='']"
| "base64_encode_loop maxline linelen [] = []"

definition base64_encode :: "int \<Rightarrow> byte list \<Rightarrow> string" where
  "base64_encode maxline bs = (if bs = [] then [] else base64_encode_loop maxline 0 bs)"

section \<open>Decoding\<close>

definition b64_val :: "char \<Rightarrow> byte option" where
  "b64_val ch =
     (if isupper ch then Some (of_nat (ord ch - 65))
      else if islower ch then Some (of_nat (ord ch - 97 + 26))
      else if isdigit ch then Some (of_nat (ord ch - 48 + 52))
      else if ch = CHR ''+'' then Some 62
      else if ch = CHR ''/'' then Some 63
      else None)"

text \<open>One step of the decoder's state machine: state, finished bytes, byte under construction.\<close>

type_synonym b64_state = "nat \<times> byte list \<times> byte"

fun b64_step :: "byte \<Rightarrow> b64_state \<Rightarrow> b64_state" where
  "b64_step x (st, dest, cur) =
     (if st = 0 then (1, dest, push_bit 2 x)
      else if st = 1 then (2, dest @ [cur OR drop_bit 4 x], push_bit 4 (x AND 0x0F))
      else if st = 2 then (3, dest @ [cur OR drop_bit 2 x], push_bit 6 (x AND 0x03))
      else (0, dest @ [cur OR x], 0))"

text \<open>The library's loop; \<open>None\<close> is the return on a character outside the alphabet.\<close>

fun base64_decode_loop :: "string \<Rightarrow> b64_state \<Rightarrow> byte list option" where
  "base64_decode_loop [] (st, dest, cur) = Some dest"
| "base64_decode_loop (ch # src) (st, dest, cur) =
     (if nc_isspace ch then base64_decode_loop src (st, dest, cur)
      else if ch = CHR ''='' then Some dest
      else case b64_val ch of
        None \<Rightarrow> None
      | Some x \<Rightarrow> base64_decode_loop src (b64_step x (st, dest, cur)))"

definition base64_decode :: "string \<Rightarrow> byte list option" where
  "base64_decode src = base64_decode_loop src (0, [], 0)"

text \<open>
  The server's decoder works in a buffer of \<open>szdest\<close> bytes and stops when the next store
  would not fit. The result is the buffer's content.
\<close>

definition b64_fits :: "nat \<Rightarrow> b64_state \<Rightarrow> bool" where
  "b64_fits szdest s = (case s of (st, dest, cur) \<Rightarrow>
     if st = 1 \<or> st = 2 then length dest + 1 < szdest else length dest < szdest)"

fun decode_base64_loop :: "nat \<Rightarrow> string \<Rightarrow> b64_state \<Rightarrow> byte list" where
  "decode_base64_loop szdest [] (st, dest, cur) = dest @ [cur]"
| "decode_base64_loop szdest (ch # src) (st, dest, cur) =
     (if isspace ch then decode_base64_loop szdest src (st, dest, cur)
      else if ch = CHR ''='' then dest @ [cur]
      else case b64_val ch of
        None \<Rightarrow> dest @ [cur]
      | Some x \<Rightarrow>
          (if \<not> b64_fits szdest (st, dest, cur) then dest @ [cur]
           else decode_base64_loop szdest src (b64_step x (st, dest, cur))))"

definition decode_base64 :: "nat \<Rightarrow> string \<Rightarrow> byte list" where
  "decode_base64 szdest src = decode_base64_loop szdest src (0, [], 0)"

section \<open>Lemmas\<close>

lemma b64_val_table: "\<forall>n \<in> set [0..<64]. b64_val (b64chars ! n) = Some (of_nat n)
    \<and> \<not> nc_isspace (b64chars ! n) \<and> \<not> isspace (b64chars ! n) \<and> b64chars ! n \<noteq> CHR ''=''"
  by code_simp

lemma b64_char_props:
  assumes "x < 64"
  shows "b64_val (b64_char x) = Some x" "\<not> nc_isspace (b64_char x)" "b64_char x \<noteq> CHR ''=''"
    "\<not> isspace (b64_char x)"
proof -
  have "unat x < unat (64 :: byte)" using assms by (simp only: word_less_nat_alt)
  then have "unat x \<in> set [0..<64]" by simp
  from b64_val_table [rule_format, OF this]
  show "b64_val (b64_char x) = Some x" "\<not> nc_isspace (b64_char x)" "b64_char x \<noteq> CHR ''=''"
    "\<not> isspace (b64_char x)"
    by (simp_all add: b64_char_def)
qed

text \<open>The six-bit groups are below 64, and putting them together again gives the bytes back.\<close>

lemma byte_less_64: "(x :: byte) = x AND 0x3F \<Longrightarrow> x < 64"
proof -
  assume "x = x AND 0x3F"
  then have "x \<le> 0x3F" using word_and_le1 [of x "0x3F"] by simp
  then show ?thesis by (simp add: word_le_nat_alt word_less_nat_alt)
qed

lemma sextet_bounds:
  fixes p q r :: byte
  shows "drop_bit 2 p < 64" "(push_bit 4 p AND 0x30) OR drop_bit 4 q < 64"
    "(push_bit 2 q AND 0x3C) OR drop_bit 6 r < 64" "r AND 0x3F < 64"
    "push_bit 4 p AND 0x30 < 64" "push_bit 2 q AND 0x3C < 64"
  by (rule byte_less_64, rule byte_eqI; simp add: bit_simps)+

lemma sextet_join:
  fixes p q r :: byte
  shows "push_bit 2 (drop_bit 2 p) OR drop_bit 4 ((push_bit 4 p AND 0x30) OR drop_bit 4 q) = p"
    "push_bit 4 (((push_bit 4 p AND 0x30) OR drop_bit 4 q) AND 0x0F) OR
       drop_bit 2 ((push_bit 2 q AND 0x3C) OR drop_bit 6 r) = q"
    "push_bit 6 (((push_bit 2 q AND 0x3C) OR drop_bit 6 r) AND 0x03) OR (r AND 0x3F) = r"
    "push_bit 2 (drop_bit 2 p) OR drop_bit 4 (push_bit 4 p AND 0x30) = p"
    "push_bit 4 (((push_bit 4 p AND 0x30) OR drop_bit 4 q) AND 0x0F) OR
       drop_bit 2 (push_bit 2 q AND 0x3C) = q"
  by (rule byte_eqI; simp add: bit_simps)+

lemma b64_char_step:
  "x < 64 \<Longrightarrow> base64_decode_loop (b64_char x # src) s = base64_decode_loop src (b64_step x s)"
  by (cases s) (simp add: b64_char_props)

lemma decode_pad: "base64_decode_loop (CHR ''='' # src) (st, dest, cur) = Some dest"
  by (simp add: nc_isspace_def control_chars)

lemma decode_sextets:
  "a < 64 \<Longrightarrow> b < 64 \<Longrightarrow> base64_decode_loop (b64_char a # b64_char b # src) (0, dest, cur) =
      base64_decode_loop src (2, dest @ [push_bit 2 a OR drop_bit 4 b], push_bit 4 (b AND 0x0F))"
  "c < 64 \<Longrightarrow> base64_decode_loop (b64_char c # src) (2, dest, cur) =
      base64_decode_loop src (3, dest @ [cur OR drop_bit 2 c], push_bit 6 (c AND 0x03))"
  "d < 64 \<Longrightarrow> base64_decode_loop (b64_char d # src) (3, dest, cur) =
      base64_decode_loop src (0, dest @ [cur OR d], 0)"
  by (simp_all add: b64_char_step del: base64_decode_loop.simps)

lemma decode_quantum:
  "base64_decode_loop (b64_quantum p q r @ src) (0, dest, cur) = base64_decode_loop src (0, dest @ [p, q, r], 0)"
  by (simp only: b64_quantum_def append_Cons append_Nil append_assoc decode_sextets sextet_bounds sextet_join)

lemma decode_CRLF: "base64_decode_loop ([CR, LF] @ src) s = base64_decode_loop src s"
  by (cases s) (simp add: nc_isspace_def)

lemma decode_encode_loop:
  "base64_decode_loop (base64_encode_loop maxline linelen bs) (0, dest, 0) = Some (dest @ bs)"
proof (induction maxline linelen bs arbitrary: dest rule: base64_encode_loop.induct)
  case (1 maxline linelen p q r cp)
  then show ?case by (simp add: decode_quantum decode_CRLF del: append_Cons append_Nil)
next
  case (2 maxline linelen p)
  then show ?case
    by (simp only: base64_encode_loop.simps decode_sextets decode_pad sextet_bounds sextet_join)
next
  case (3 maxline linelen p q)
  then show ?case
    by (simp only: base64_encode_loop.simps decode_sextets decode_pad sextet_bounds sextet_join
        append_Cons append_Nil append_assoc)
next
  case (4 maxline linelen)
  then show ?case by simp
qed

lemma decode_prefix:
  "base64_decode_loop src (st, dest, cur) = Some out \<Longrightarrow> \<exists>t. out = dest @ t"
proof (induction src "(st, dest, cur)" arbitrary: st dest cur rule: base64_decode_loop.induct)
  case 1
  then show ?case by simp
next
  case (2 ch src st dest cur)
  then show ?case
    by (fastforce split: if_splits option.splits)
qed

lemma decoders_agree:
  assumes "base64_decode_loop src (st, dest, cur) = Some out" and "length out < szdest"
    and "st < 4" and "\<forall>ch \<in> set src. isspace ch \<longrightarrow> nc_isspace ch"
  shows "\<exists>cur'. decode_base64_loop szdest src (st, dest, cur) = out @ [cur']"
  using assms
proof (induction src "(st, dest, cur)" arbitrary: st dest cur rule: base64_decode_loop.induct)
  case 1
  then show ?case by simp
next
  case (2 ch src st dest cur)
  have sp: "isspace ch \<longleftrightarrow> nc_isspace ch"
    using "2.prems"(4) by (auto simp: nc_isspace_def isspace_def control_chars)
  show ?case
  proof (cases "nc_isspace ch \<or> ch = CHR ''=''")
    case True
    with 2 sp show ?thesis by (cases "nc_isspace ch") auto
  next
    case False
    with "2.prems" obtain x where x: "b64_val ch = Some x" by (auto split: option.splits)
    obtain st' dest' cur' where s': "b64_step x (st, dest, cur) = (st', dest', cur')"
      by (cases "b64_step x (st, dest, cur)")
    have rec: "base64_decode_loop src (st', dest', cur') = Some out"
      using "2.prems"(1) False x s' by simp
    have "st' < 4" "length dest \<le> length dest'" using s' "2.prems"(3) by (auto split: if_splits)
    moreover have "st = 1 \<or> st = 2 \<Longrightarrow> length dest' = length dest + 1"
      using s' by (auto split: if_splits)
    moreover obtain t where "out = dest' @ t" using decode_prefix [OF rec] by blast
    ultimately have "b64_fits szdest (st, dest, cur)" and "st' < 4"
      using "2.prems"(2) by (auto simp: b64_fits_def)
    moreover have "\<exists>c. decode_base64_loop szdest src (st', dest', cur') = out @ [c]"
    proof (rule "2.hyps"(2) [OF _ _ x s' rec "2.prems"(2) \<open>st' < 4\<close>])
      show "\<not> nc_isspace ch" "ch \<noteq> CHR ''=''" using False by simp_all
      show "\<forall>ch \<in> set src. isspace ch \<longrightarrow> nc_isspace ch" using "2.prems"(4) by simp
    qed
    ultimately show ?thesis using False x s' sp by simp
  qed
qed

section \<open>Properties\<close>


text \<open>
  The server's bounded decoder agrees with the library's: if the library decodes a
  text to \<open>out\<close> and \<open>out\<close> is shorter than the buffer, then \<open>decode_base64\<close> leaves \<open>out\<close> at the
  front of the buffer, followed only by the byte under construction.
\<close>

theorem decode_base64_agrees:
  assumes "base64_decode src = Some out" and "length out < szdest"
    and "\<forall>ch \<in> set src. isspace ch \<longrightarrow> nc_isspace ch"
  shows "\<exists>cur. decode_base64 szdest src = out @ [cur]"
  using decoders_agree [of src 0 "[]" 0 out szdest] assms
  by (simp add: base64_decode_def decode_base64_def)

theorem decode_base64_agrees_witness:
  "\<exists>cur. decode_base64 99 (base64_encode 0 [109, 115, 103]) = [109, 115, 103] @ [cur]"
proof (rule decode_base64_agrees)
  show "base64_decode (base64_encode 0 [109, 115, 103]) = Some [109, 115, 103]"
    by code_simp
  show "\<forall>ch \<in> set (base64_encode 0 [109, 115, 103]). isspace ch \<longrightarrow> nc_isspace ch"
    by code_simp
qed simp

end
