(* ===== verification/Md5.thy ===== *)
theory Md5
  imports Prelude
begin

unbundle bit_operations_syntax

text \<open>
  MD5 and the password hash of \<open>src/src/libnullg/md5.c\<close> on a little-endian machine
  (\<open>byteReverse\<close> is empty). The context keeps the four chaining words, the 64-bit length in two
  words and the 64-byte input block. The theory shows that the incremental interface
  computes the digest of RFC 1321 of everything that was fed to it, however it was cut into
  pieces, as an interpretation of the locale \<open>incremental_hash\<close>.
\<close>

section \<open>The compression function\<close>

definition F1 :: "uint32 \<Rightarrow> uint32 \<Rightarrow> uint32 \<Rightarrow> uint32" where
  "F1 x y z = z XOR (x AND (y XOR z))"

definition F2 :: "uint32 \<Rightarrow> uint32 \<Rightarrow> uint32 \<Rightarrow> uint32" where
  "F2 x y z = F1 z x y"

definition F3 :: "uint32 \<Rightarrow> uint32 \<Rightarrow> uint32 \<Rightarrow> uint32" where
  "F3 x y z = x XOR y XOR z"

definition F4 :: "uint32 \<Rightarrow> uint32 \<Rightarrow> uint32 \<Rightarrow> uint32" where
  "F4 x y z = y XOR (x OR NOT z)"

definition MD5STEP ::
  "(uint32 \<Rightarrow> uint32 \<Rightarrow> uint32 \<Rightarrow> uint32) \<Rightarrow> uint32 \<Rightarrow> uint32 \<Rightarrow> uint32 \<Rightarrow> uint32 \<Rightarrow> uint32 \<Rightarrow> nat \<Rightarrow> uint32" where
  "MD5STEP f w x y z data s =
     (let w1 = w + (f x y z + data);
          w2 = push_bit s w1 OR drop_bit (32 - s) w1
      in w2 + x)"

text \<open>
  The 64 calls of \<open>MD5STEP\<close> in their order: round function, index into the block, constant and
  shift. The register that is assigned moves on with every call: a, d, c, b, a, ...
\<close>

definition md5_steps :: "((uint32 \<Rightarrow> uint32 \<Rightarrow> uint32 \<Rightarrow> uint32) \<times> nat \<times> uint32 \<times> nat) list" where
  "md5_steps = [
     (F1, 0, 0xd76aa478, 7), (F1, 1, 0xe8c7b756, 12), (F1, 2, 0x242070db, 17), (F1, 3, 0xc1bdceee, 22),
     (F1, 4, 0xf57c0faf, 7), (F1, 5, 0x4787c62a, 12), (F1, 6, 0xa8304613, 17), (F1, 7, 0xfd469501, 22),
     (F1, 8, 0x698098d8, 7), (F1, 9, 0x8b44f7af, 12), (F1, 10, 0xffff5bb1, 17), (F1, 11, 0x895cd7be, 22),
     (F1, 12, 0x6b901122, 7), (F1, 13, 0xfd987193, 12), (F1, 14, 0xa679438e, 17), (F1, 15, 0x49b40821, 22),
     (F2, 1, 0xf61e2562, 5), (F2, 6, 0xc040b340, 9), (F2, 11, 0x265e5a51, 14), (F2, 0, 0xe9b6c7aa, 20),
     (F2, 5, 0xd62f105d, 5), (F2, 10, 0x02441453, 9), (F2, 15, 0xd8a1e681, 14), (F2, 4, 0xe7d3fbc8, 20),
     (F2, 9, 0x21e1cde6, 5), (F2, 14, 0xc33707d6, 9), (F2, 3, 0xf4d50d87, 14), (F2, 8, 0x455a14ed, 20),
     (F2, 13, 0xa9e3e905, 5), (F2, 2, 0xfcefa3f8, 9), (F2, 7, 0x676f02d9, 14), (F2, 12, 0x8d2a4c8a, 20),
     (F3, 5, 0xfffa3942, 4), (F3, 8, 0x8771f681, 11), (F3, 11, 0x6d9d6122, 16), (F3, 14, 0xfde5380c, 23),
     (F3, 1, 0xa4beea44, 4), (F3, 4, 0x4bdecfa9, 11), (F3, 7, 0xf6bb4b60, 16), (F3, 10, 0xbebfbc70, 23),
     (F3, 13, 0x289b7ec6, 4), (F3, 0, 0xeaa127fa, 11), (F3, 3, 0xd4ef3085, 16), (F3, 6, 0x04881d05, 23),
     (F3, 9, 0xd9d4d039, 4), (F3, 12, 0xe6db99e5, 11), (F3, 15, 0x1fa27cf8, 16), (F3, 2, 0xc4ac5665, 23),
     (F4, 0, 0xf4292244, 6), (F4, 7, 0x432aff97, 10), (F4, 14, 0xab9423a7, 15), (F4, 5, 0xfc93a039, 21),
     (F4, 12, 0x655b59c3, 6), (F4, 3, 0x8f0ccc92, 10), (F4, 10, 0xffeff47d, 15), (F4, 1, 0x85845dd1, 21),
     (F4, 8, 0x6fa87e4f, 6), (F4, 15, 0xfe2ce6e0, 10), (F4, 6, 0xa3014314, 15), (F4, 13, 0x4e0811a1, 21),
     (F4, 4, 0xf7537e82, 6), (F4, 11, 0xbd3af235, 10), (F4, 2, 0x2ad7d2bb, 15), (F4, 9, 0xeb86d391, 21)]"

type_synonym md5_state = "uint32 \<times> uint32 \<times> uint32 \<times> uint32"

definition md5_round :: "uint32 list \<Rightarrow> md5_state \<Rightarrow>
    (uint32 \<Rightarrow> uint32 \<Rightarrow> uint32 \<Rightarrow> uint32) \<times> nat \<times> uint32 \<times> nat \<Rightarrow> md5_state" where
  "md5_round inw st call = (case st of (w, x, y, z) \<Rightarrow> case call of (f, i, k, s) \<Rightarrow>
     (z, MD5STEP f w x y z (inw ! i + k) s, x, y))"

definition md5_transform :: "md5_state \<Rightarrow> uint32 list \<Rightarrow> md5_state" where
  "md5_transform buf inw =
     (case buf of (a0, b0, c0, d0) \<Rightarrow>
      case foldl (md5_round inw) buf md5_steps of (a, b, c, d) \<Rightarrow>
        (a0 + a, b0 + b, c0 + c, d0 + d))"

section \<open>The incremental interface\<close>

record MD5Context =
  md5_buf :: md5_state
  bits0 :: uint32
  bits1 :: uint32
  inbuf :: "byte list"

text \<open>A block of bytes read as little-endian words, and a word stored into bytes.\<close>

definition word_at :: "byte list \<Rightarrow> nat \<Rightarrow> uint32" where
  "word_at bs i = ucast (bs ! (4 * i)) OR push_bit 8 (ucast (bs ! (4 * i + 1)))
     OR push_bit 16 (ucast (bs ! (4 * i + 2))) OR push_bit 24 (ucast (bs ! (4 * i + 3)))"

definition block_words :: "byte list \<Rightarrow> uint32 list" where
  "block_words bs = map (word_at bs) [0..<16]"

definition word_bytes :: "uint32 \<Rightarrow> byte list" where
  "word_bytes w = [ucast w, ucast (drop_bit 8 w), ucast (drop_bit 16 w), ucast (drop_bit 24 w)]"

definition md5_init :: "MD5Context \<Rightarrow> MD5Context" where
  "md5_init ctx = ctx\<lparr>md5_buf := (0x67452301, 0xefcdab89, 0x98badcfe, 0x10325476), bits0 := 0, bits1 := 0\<rparr>"

text \<open>\<open>memcpy\<close> of \<open>src\<close> to offset \<open>k\<close> of the block.\<close>

definition blit :: "nat \<Rightarrow> byte list \<Rightarrow> byte list \<Rightarrow> byte list" where
  "blit k src dst = take k dst @ src @ drop (k + length src) dst"

text \<open>The loop over whole 64-byte chunks, and the copy of the rest.\<close>

function md5_chunks :: "MD5Context \<Rightarrow> byte list \<Rightarrow> MD5Context" where
  "md5_chunks ctx buf =
     (if 64 \<le> length buf then
        let ctx1 = ctx\<lparr>inbuf := blit 0 (take 64 buf) (inbuf ctx)\<rparr>
        in md5_chunks (ctx1\<lparr>md5_buf := md5_transform (md5_buf ctx1) (block_words (inbuf ctx1))\<rparr>) (drop 64 buf)
      else ctx\<lparr>inbuf := blit 0 buf (inbuf ctx)\<rparr>)"
  by pat_completeness auto
termination
  by (relation "measure (\<lambda>(ctx, buf). length buf)") auto

declare md5_chunks.simps [simp del]

definition md5_count :: "MD5Context \<Rightarrow> nat \<Rightarrow> MD5Context" where
  "md5_count ctx len =
     (let t = bits0 ctx;
          b0 = t + push_bit 3 (of_nat len);
          b1 = (if b0 < t then bits1 ctx + 1 else bits1 ctx) + drop_bit 29 (of_nat len)
      in ctx\<lparr>bits0 := b0, bits1 := b1\<rparr>)"

definition md5_fill :: "MD5Context \<Rightarrow> nat" where
  "md5_fill ctx = unat (drop_bit 3 (bits0 ctx) AND 0x3f)"

definition md5_update :: "MD5Context \<Rightarrow> byte list \<Rightarrow> MD5Context" where
  "md5_update ctx buf =
     (let t = md5_fill ctx;
          ctx1 = md5_count ctx (length buf)
      in if t \<noteq> 0 then
           (if length buf < 64 - t then ctx1\<lparr>inbuf := blit t buf (inbuf ctx1)\<rparr>
            else
              let ctx2 = ctx1\<lparr>inbuf := blit t (take (64 - t) buf) (inbuf ctx1)\<rparr>
              in md5_chunks (ctx2\<lparr>md5_buf := md5_transform (md5_buf ctx2) (block_words (inbuf ctx2))\<rparr>)
                   (drop (64 - t) buf))
         else md5_chunks ctx1 buf)"

text \<open>
  \<open>md5_final\<close>: the digest, and the context it leaves: \<open>memset\<close> with \<open>sizeof (ctx)\<close>, the size of
  a pointer, clears the first two chaining words only.
\<close>

definition md5_digest :: "md5_state \<Rightarrow> byte list" where
  "md5_digest st = (case st of (a, b, c, d) \<Rightarrow> word_bytes a @ word_bytes b @ word_bytes c @ word_bytes d)"

definition md5_final :: "MD5Context \<Rightarrow> byte list \<times> MD5Context" where
  "md5_final ctx =
     (let n = md5_fill ctx;
          in1 = blit n [0x80] (inbuf ctx);
          count = 64 - 1 - n;
          ctx1 = (if count < 8 then
                    let in2 = blit (n + 1) (replicate count 0) in1
                    in ctx\<lparr>md5_buf := md5_transform (md5_buf ctx) (block_words in2),
                           inbuf := blit 0 (replicate 56 0) in2\<rparr>
                  else ctx\<lparr>inbuf := blit (n + 1) (replicate (count - 8) 0) in1\<rparr>);
          in3 = blit 56 (word_bytes (bits0 ctx) @ word_bytes (bits1 ctx)) (inbuf ctx1);
          h = md5_transform (md5_buf ctx1) (block_words in3)
      in (md5_digest h,
          case h of (a, b, c, d) \<Rightarrow> ctx1\<lparr>md5_buf := (0, 0, c, d), inbuf := in3\<rparr>))"

section \<open>The password hash\<close>

definition itoa64 :: string where
  "itoa64 = ''./0123456789ABCDEFGHIJKLMNOPQRSTUVWXYZabcdefghijklmnopqrstuvwxyz''"

primrec crypt_to64 :: "64 word \<Rightarrow> nat \<Rightarrow> string" where
  "crypt_to64 v 0 = []"
| "crypt_to64 v (Suc n) = itoa64 ! unat (v AND 0x3f) # crypt_to64 (drop_bit 6 v) n"

definition crypt_salt :: "string \<Rightarrow> string" where
  "crypt_salt salt =
     (let sp = (if take 3 salt = ''$1$'' then drop 3 salt else salt)
      in takeWhile (\<lambda>c. c \<noteq> CHR ''$'') (take 8 sp))"

text \<open>The loop that feeds as many bytes of the first digest as the password has.\<close>

fun crypt_stretch :: "byte list \<Rightarrow> nat \<Rightarrow> MD5Context \<Rightarrow> MD5Context" where
  "crypt_stretch final pl ctx =
     (if 0 < pl then crypt_stretch final (pl - 16) (md5_update ctx (take (min 16 pl) final)) else ctx)"

declare crypt_stretch.simps [simp del]

text \<open>The loop over the bits of the password length; the digest was cleared before it.\<close>

fun crypt_weird :: "byte list \<Rightarrow> nat \<Rightarrow> MD5Context \<Rightarrow> MD5Context" where
  "crypt_weird pw i ctx =
     (if i = 0 then ctx
      else crypt_weird pw (i div 2) (md5_update ctx (if odd i then [0] else take 1 pw)))"

declare crypt_weird.simps [simp del]

text \<open>One of the 1000 rounds; the second context is used again in each of them.\<close>

definition crypt_round :: "byte list \<Rightarrow> byte list \<Rightarrow> byte list \<times> MD5Context \<Rightarrow> nat \<Rightarrow> byte list \<times> MD5Context" where
  "crypt_round pw sp st i = (case st of (final, ctx1) \<Rightarrow>
     let c1 = md5_init ctx1;
         c2 = md5_update c1 (if odd i then pw else final);
         c3 = (if i mod 3 \<noteq> 0 then md5_update c2 sp else c2);
         c4 = (if i mod 7 \<noteq> 0 then md5_update c3 pw else c3);
         c5 = md5_update c4 (if odd i then final else pw)
     in md5_final c5)"

definition crypt_group :: "byte list \<Rightarrow> nat \<Rightarrow> nat \<Rightarrow> nat \<Rightarrow> string" where
  "crypt_group final i j k =
     crypt_to64 (push_bit 16 (ucast (final ! i)) OR push_bit 8 (ucast (final ! j)) OR ucast (final ! k)) 4"

text \<open>An uninitialised context on the stack; its content does not matter (below).\<close>

definition md5_blank :: MD5Context where
  "md5_blank = \<lparr>md5_buf = (0, 0, 0, 0), bits0 = 0, bits1 = 0, inbuf = replicate 64 0\<rparr>"

definition md5_crypt :: "string \<Rightarrow> string \<Rightarrow> string" where
  "md5_crypt pw salt =
     (let sp = crypt_salt salt; magic = ''$1$'';
          pwb = bytes_of pw; spb = bytes_of sp;
          ctx = md5_update (md5_update (md5_update (md5_init md5_blank) pwb) (bytes_of magic)) spb;
          ctx1 = md5_update (md5_update (md5_update (md5_init md5_blank) pwb) spb) pwb;
          (final, ctx1) = md5_final ctx1;
          ctx = crypt_stretch final (length pw) ctx;
          ctx = crypt_weird pwb (length pw) ctx;
          (final, ctx) = md5_final ctx;
          (final, ctx1) = foldl (crypt_round pwb spb) (final, ctx1) [0..<1000]
      in magic @ sp @ ''$'' @ crypt_group final 0 6 12 @ crypt_group final 1 7 13 @ crypt_group final 2 8 14
           @ crypt_group final 3 9 15 @ crypt_group final 4 10 5 @ crypt_to64 (ucast (final ! 11)) 2)"

section \<open>The reference digest\<close>

text \<open>RFC 1321: padding to a multiple of 64 bytes, then the blocks one after the other.\<close>

definition md5_iv :: md5_state where
  "md5_iv = (0x67452301, 0xefcdab89, 0x98badcfe, 0x10325476)"

fun md5_blocks :: "md5_state \<Rightarrow> byte list \<Rightarrow> md5_state" where
  "md5_blocks h bs =
     (if 64 \<le> length bs then md5_blocks (md5_transform h (block_words (take 64 bs))) (drop 64 bs) else h)"

declare md5_blocks.simps [simp del]

definition le64 :: "nat \<Rightarrow> byte list" where
  "le64 n = map (\<lambda>i. of_nat (n div 256 ^ i)) [0..<8]"

definition md5_padding :: "nat \<Rightarrow> byte list" where
  "md5_padding n = 0x80 # replicate ((119 - n mod 64) mod 64) 0 @ le64 (8 * n)"

definition md5_spec :: "byte list \<Rightarrow> byte list" where
  "md5_spec msg = md5_digest (md5_blocks md5_iv (msg @ md5_padding (length msg)))"

section \<open>The state of a context\<close>

lemma md5_blocks_append: "64 dvd length a \<Longrightarrow> md5_blocks h (a @ b) = md5_blocks (md5_blocks h a) b"
proof (induction h a rule: md5_blocks.induct)
  case (1 h a)
  show ?case
  proof (cases "64 \<le> length a")
    case True
    have "64 dvd length (drop 64 a)" using 1(2) True by (simp add: dvd_diff_nat)
    with 1(1) True show ?thesis by (simp add: md5_blocks.simps [of h "a @ b"] md5_blocks.simps [of h a])
  next
    case False
    with 1(2) have "a = []" using dvd_imp_le [of 64 "length a"] by (cases a) auto
    then show ?thesis by (simp add: md5_blocks.simps [of h "[]"])
  qed
qed

lemma md5_blocks_one: "length a = 64 \<Longrightarrow> md5_blocks h a = md5_transform h (block_words a)"
  by (simp add: md5_blocks.simps [of h a] md5_blocks.simps [of _ "[]"])

lemma md5_blocks_two:
  assumes "64 dvd length full" and "length b = 64" and "length e = 64"
  shows "md5_blocks h (full @ b) = md5_transform (md5_blocks h full) (block_words b)"
    and "md5_blocks h (full @ b @ e) =
       md5_transform (md5_transform (md5_blocks h full) (block_words b)) (block_words e)"
  using assms by (simp_all add: md5_blocks_append md5_blocks_one)

lemma length_blit [simp]: "k + length src \<le> length dst \<Longrightarrow> length (blit k src dst) = length dst"
  by (simp add: blit_def)

lemma blit_full: "length a + length b = length dst \<Longrightarrow> take (length a) dst = a \<Longrightarrow> blit (length a) b dst = a @ b"
  by (simp add: blit_def)

lemma take_blit: "take (length a) dst = a \<Longrightarrow> length a + length b \<le> length dst \<Longrightarrow>
    take (length a + length b) (blit (length a) b dst) = a @ b"
  by (simp add: blit_def)

definition md5_bits :: "MD5Context \<Rightarrow> nat" where
  "md5_bits ctx = unat (bits1 ctx) * 2 ^ 32 + unat (bits0 ctx)"

lemma unat_uint32: "unat (w :: uint32) < 2 ^ 32"
proof -
  have "unat w < 2 ^ LENGTH(32)" by (rule unsigned_less)
  then show ?thesis by simp
qed

lemma unat_bits0: "md5_bits ctx = 8 * n mod 2 ^ 64 \<Longrightarrow> unat (bits0 ctx) = 8 * n mod 2 ^ 32"
proof -
  assume "md5_bits ctx = 8 * n mod 2 ^ 64"
  then have "md5_bits ctx mod 2 ^ 32 = 8 * n mod 2 ^ 64 mod 2 ^ 32" by simp
  moreover have "md5_bits ctx mod 2 ^ 32 = unat (bits0 ctx)"
    using unat_uint32 [of "bits0 ctx"] by (simp add: md5_bits_def)
  moreover have "8 * n mod 2 ^ 64 mod 2 ^ 32 = 8 * n mod (2 ^ 32 :: nat)"
    by (rule mod_mod_cancel) (simp add: le_imp_power_dvd)
  ultimately show ?thesis by simp
qed

lemma md5_fill_mod: 
  assumes "md5_bits ctx = 8 * n mod 2 ^ 64"
  shows "md5_fill ctx = n mod 64"
proof -
  have "unat (drop_bit 3 (bits0 ctx) AND 0x3f) = unat (take_bit 6 (drop_bit 3 (bits0 ctx)))"
    by (simp add: take_bit_eq_mask mask_eq_exp_minus_1)
  then have "md5_fill ctx = unat (bits0 ctx) div 8 mod 64"
    by (simp add: md5_fill_def take_bit_eq_mod drop_bit_eq_div unat_mod unat_div)
  also have "unat (bits0 ctx) = 8 * (n mod 2 ^ 29)"
    using unat_bits0 [OF assms] mod_mult_mult1 [of 8 n "2 ^ 29"] by simp
  also have "8 * (n mod 2 ^ 29) div 8 mod 64 = n mod 64"
    by (simp add: mod_mod_cancel)
  finally show ?thesis .
qed

lemma carry_mod:
  fixes b0 b1 len :: nat
  assumes "b0 < 2 ^ 32" and "b1 < 2 ^ 32" and "len < 2 ^ 32"
  shows "(((if (b0 + 8 * len) mod 2 ^ 32 < b0 then (b1 + 1) mod 2 ^ 32 else b1) + len div 2 ^ 29) mod 2 ^ 32) * 2 ^ 32
     + (b0 + 8 * len) mod 2 ^ 32 = (b1 * 2 ^ 32 + b0 + 8 * len) mod 2 ^ 64"
proof -
  define q r where "q = len div 2 ^ 29" and "r = 8 * (len mod 2 ^ 29)"
  have "536870912 * q + len mod 536870912 = len" by (simp add: q_def)
  then have len: "8 * len = q * 2 ^ 32 + r" unfolding r_def by (simp add: algebra_simps)
  have r: "r < 2 ^ 32" by (simp add: r_def)
  have split: "(x * 2 ^ 32 + y) mod 2 ^ 64 = (x mod 2 ^ 32) * 2 ^ 32 + y" if "y < 2 ^ 32" for x y :: nat
    using that mod_mult2_eq [of "x * 2 ^ 32 + y" "2 ^ 32" "2 ^ 32"] by simp
  show ?thesis
  proof (cases "b0 + r < 2 ^ 32")
    case True
    have "b0 + 8 * len = (b0 + r) + q * 2 ^ 32" using len by simp
    then have "(b0 + 8 * len) mod 2 ^ 32 = b0 + r" using True by (metis mod_less mod_mult_self1)
    moreover have "b1 * 2 ^ 32 + b0 + 8 * len = (b1 + q) * 2 ^ 32 + (b0 + r)"
      using len by (simp add: algebra_simps)
    ultimately show ?thesis using split [OF True, of "b1 + q"]
      by (simp only: q_def [symmetric] not_add_less1 if_False)
  next
    case False
    define y where "y = b0 + r - 2 ^ 32"
    have y: "b0 + r = 2 ^ 32 + y" "y < b0" "y < 2 ^ 32" using False r assms(1) by (simp_all add: y_def)
    have e: "b0 + 8 * len = (q + 1) * 2 ^ 32 + y" using y(1) len by simp
    then have m: "(b0 + 8 * len) mod 2 ^ 32 = y" using y(3) by (metis add.commute mod_less mod_mult_self1)
    have "((b1 + 1) mod 2 ^ 32 + q) mod 2 ^ 32 = (b1 + (q + 1)) mod 2 ^ 32" by (simp add: mod_simps)
    moreover have "b1 * 2 ^ 32 + b0 + 8 * len = (b1 + (q + 1)) * 2 ^ 32 + y"
      using e by (simp add: algebra_simps)
    ultimately show ?thesis using split [OF y(3), of "b1 + (q + 1)"] m y(2) by (simp only: if_True q_def)
  qed
qed

lemma md5_count_bits:
  assumes "len < 2 ^ 32"
  shows "md5_bits (md5_count ctx len) = (md5_bits ctx + 8 * len) mod 2 ^ 64"
proof -
  have b0: "unat (bits0 ctx + push_bit 3 (of_nat len)) = (unat (bits0 ctx) + 8 * len) mod 2 ^ 32"
    by (simp add: push_bit_eq_mult unat_word_ariths unat_of_nat mod_simps mult.commute)
  have d: "unat (drop_bit 29 (of_nat len :: uint32)) = len div 2 ^ 29"
    using assms unat_drop_bit_eq [of 29 "of_nat len :: uint32"] by (simp add: drop_bit_eq_div unat_of_nat)
  have "md5_bits (md5_count ctx len) = (((if (unat (bits0 ctx) + 8 * len) mod 2 ^ 32 < unat (bits0 ctx)
      then (unat (bits1 ctx) + 1) mod 2 ^ 32 else unat (bits1 ctx)) + len div 2 ^ 29) mod 2 ^ 32) * 2 ^ 32
     + (unat (bits0 ctx) + 8 * len) mod 2 ^ 32"
    using b0 d by (simp add: md5_bits_def md5_count_def Let_def word_less_nat_alt unat_word_ariths)
  also have "\<dots> = (md5_bits ctx + 8 * len) mod 2 ^ 64"
    unfolding md5_bits_def
    using carry_mod [OF unat_uint32 unat_uint32 assms, of "bits0 ctx" "bits1 ctx"] .
  finally show ?thesis .
qed

text \<open>A context that has been fed \<open>msg\<close>.\<close>

definition md5_holds :: "MD5Context \<Rightarrow> byte list \<Rightarrow> byte list \<Rightarrow> bool" where
  "md5_holds ctx full part \<longleftrightarrow> 64 dvd length full \<and> length part < 64 \<and> length (inbuf ctx) = 64
     \<and> md5_buf ctx = md5_blocks md5_iv full \<and> take (length part) (inbuf ctx) = part"

definition md5_fed :: "MD5Context \<Rightarrow> byte list \<Rightarrow> bool" where
  "md5_fed ctx msg \<longleftrightarrow> md5_bits ctx = 8 * length msg mod 2 ^ 64
     \<and> (\<exists>full part. msg = full @ part \<and> md5_holds ctx full part)"

lemma md5_chunks_holds:
  assumes "64 dvd length full" and "length (inbuf ctx) = 64" and "md5_buf ctx = md5_blocks md5_iv full"
  shows "\<exists>full' part. full @ buf = full' @ part \<and> md5_holds (md5_chunks ctx buf) full' part
     \<and> md5_bits (md5_chunks ctx buf) = md5_bits ctx"
  using assms
proof (induction ctx buf arbitrary: full rule: md5_chunks.induct)
  case (1 ctx buf)
  show ?case
  proof (cases "64 \<le> length buf")
    case True
    let ?i = "blit 0 (take 64 buf) (inbuf ctx)"
    let ?c = "ctx\<lparr>inbuf := ?i, md5_buf := md5_transform (md5_buf ctx) (block_words ?i)\<rparr>"
    have i: "?i = take 64 buf" using True 1(3) by (simp add: blit_def)
    have "md5_buf ?c = md5_blocks md5_iv (full @ take 64 buf)"
      using 1(2,4) True i by (simp add: md5_blocks_append md5_blocks_one)
    moreover have "64 dvd length (full @ take 64 buf)" "length (inbuf ?c) = 64"
      using 1(2) True i by simp_all
    ultimately obtain full' part where
      "(full @ take 64 buf) @ drop 64 buf = full' @ part" "md5_holds (md5_chunks ?c (drop 64 buf)) full' part"
      "md5_bits (md5_chunks ?c (drop 64 buf)) = md5_bits ?c"
      using 1(1) [OF True refl, of "full @ take 64 buf"] by auto
    then show ?thesis using True by (simp add: md5_chunks.simps [of ctx buf] md5_bits_def) blast
  next
    case False
    then have "md5_holds (md5_chunks ctx buf) full buf"
      using 1 by (simp add: md5_chunks.simps [of ctx buf] md5_holds_def blit_def)
    with False show ?thesis by (auto simp: md5_chunks.simps [of ctx buf] md5_bits_def)
  qed
qed

lemma md5_fed_init: "length (inbuf ctx) = 64 \<Longrightarrow> md5_fed (md5_init ctx) []"
  by (simp add: md5_fed_def md5_holds_def md5_init_def md5_bits_def md5_iv_def md5_blocks.simps [of _ "[]"])

lemma md5_fed_fill: "md5_fed ctx msg \<Longrightarrow> msg = full @ part \<Longrightarrow> md5_holds ctx full part \<Longrightarrow> md5_fill ctx = length part"
  using md5_fill_mod [of ctx "length msg"] by (auto simp: md5_fed_def md5_holds_def elim: dvdE)

lemma md5_count_other [simp]: "inbuf (md5_count ctx n) = inbuf ctx" "md5_buf (md5_count ctx n) = md5_buf ctx"
  by (simp_all add: md5_count_def Let_def)

lemma md5_bits_simps [simp]: "md5_bits (ctx\<lparr>inbuf := x\<rparr>) = md5_bits ctx" "md5_bits (ctx\<lparr>md5_buf := h\<rparr>) = md5_bits ctx"
  by (simp_all add: md5_bits_def)

lemma md5_update_holds:
  assumes h: "md5_holds ctx full part" and f: "md5_fill ctx = length part"
  shows "\<exists>full' part'. full @ part @ buf = full' @ part' \<and> md5_holds (md5_update ctx buf) full' part'
     \<and> md5_bits (md5_update ctx buf) = md5_bits (md5_count ctx (length buf))"
proof -
  let ?c = "md5_count ctx (length buf)"
  consider (none) "part = []" | (short) "part \<noteq> []" "length buf < 64 - length part"
    | (block) "part \<noteq> []" "64 - length part \<le> length buf" by linarith
  then show ?thesis
  proof cases
    case none
    with f h md5_chunks_holds [of full ?c buf] show ?thesis by (simp add: md5_update_def md5_holds_def)
  next
    case short
    let ?u = "?c\<lparr>inbuf := blit (length part) buf (inbuf ctx)\<rparr>"
    have u: "md5_update ctx buf = ?u" using short f by (simp add: md5_update_def)
    have "md5_holds ?u full (part @ buf)"
      using h short take_blit [of part "inbuf ctx" buf] by (simp add: md5_holds_def)
    then show ?thesis unfolding u by (intro exI [of _ full] exI [of _ "part @ buf"]) simp
  next
    case block
    let ?k = "64 - length part"
    let ?i = "blit (length part) (take ?k buf) (inbuf ctx)"
    let ?u = "?c\<lparr>inbuf := ?i, md5_buf := md5_transform (md5_buf ctx) (block_words ?i)\<rparr>"
    have i: "?i = part @ take ?k buf"
      using h block blit_full [of part "take ?k buf" "inbuf ctx"] by (simp add: md5_holds_def)
    have u: "md5_update ctx buf = md5_chunks ?u (drop ?k buf)"
      using block f by (simp add: md5_update_def Let_def)
    have len: "length (part @ take ?k buf) = 64" using block h by (simp add: md5_holds_def)
    have "md5_buf ?u = md5_blocks md5_iv (full @ part @ take ?k buf)" "64 dvd length (full @ part @ take ?k buf)"
      "length (inbuf ?u) = 64"
      using h len i by (simp_all add: md5_holds_def md5_blocks_append md5_blocks_one)
    from md5_chunks_holds [OF this(2,3,1), of "drop ?k buf"] show ?thesis unfolding u by simp
  qed
qed

lemma md5_fed_update:
  assumes "md5_fed ctx msg" and "length buf < 2 ^ 32"
  shows "md5_fed (md5_update ctx buf) (msg @ buf)"
proof -
  from assms(1) obtain full part where fp: "msg = full @ part" "md5_holds ctx full part"
    by (auto simp: md5_fed_def)
  from md5_update_holds [OF fp(2) md5_fed_fill [OF assms(1) fp], of buf] fp(1) md5_count_bits [OF assms(2), of ctx] assms(1)
  show ?thesis by (auto simp: md5_fed_def mod_simps algebra_simps)
qed

section \<open>Padding\<close>

lemma word_bytes_of_nat:
  "word_bytes (of_nat n) = map (\<lambda>i. of_nat (drop_bit (8 * i) n)) [0..<4]"
proof -
  have "ucast (drop_bit k (of_nat n :: uint32)) = (of_nat (drop_bit k n) :: byte)" if "k \<le> 24" for k
    using that by (intro bit_word_eqI) (auto simp: bit_simps)
  from this [of 0] this [of 8] this [of 16] this [of 24] show ?thesis
    by (simp add: word_bytes_def upt_rec numeral_eq_Suc del: drop_bit_Suc)
qed

lemma word_bytes_div: "word_bytes (of_nat n) = map (\<lambda>i. of_nat (n div 256 ^ i)) [0..<4]"
  unfolding word_bytes_of_nat by (simp add: drop_bit_eq_div power_mult)

lemma le64_split: "le64 n = word_bytes (of_nat n) @ word_bytes (of_nat (n div 2 ^ 32))"
proof -
  have "[0..<8] = [0..<4] @ map (\<lambda>i. i + 4) [0..<4::nat]" by (simp add: upt_rec)
  moreover have "n div 2 ^ 32 div 256 ^ i = n div 256 ^ (i + 4)" for i
    by (simp add: div_mult2_eq [symmetric] power_add mult.commute)
  ultimately show ?thesis by (simp add: le64_def word_bytes_div comp_def)
qed

lemma le64_bits:
  assumes "md5_bits ctx = 8 * n mod 2 ^ 64"
  shows "word_bytes (bits0 ctx) @ word_bytes (bits1 ctx) = le64 (8 * n)"
proof -
  have of: "unat (of_nat m :: uint32) = m mod 2 ^ 32" for m by (simp add: unat_of_nat)
  have b0: "bits0 ctx = of_nat (8 * n)"
    by (simp only: word_unat_eq_iff of unat_bits0 [OF assms])
  have "unat (bits1 ctx) = 8 * n mod 2 ^ 64 div 2 ^ 32"
    using unat_uint32 [of "bits0 ctx"] assms [symmetric] by (simp add: md5_bits_def)
  also have "\<dots> = 8 * n div 2 ^ 32 mod 2 ^ 32"
    using drop_bit_take_bit [of 32 64 "8 * n"] by (simp add: drop_bit_eq_div take_bit_eq_mod)
  finally have b1: "bits1 ctx = of_nat (8 * n div 2 ^ 32)"
    by (simp only: word_unat_eq_iff of)
  show ?thesis unfolding b0 b1 le64_split ..
qed

text \<open>The two layouts of the padding.\<close>

lemma md5_final_blocks:
  assumes "length part < 64" and "take (length part) d = part" and "length d = 64" and "length len = 8"
  shows "length part \<le> 55 \<Longrightarrow> blit 56 len (blit (length part + 1) (replicate (55 - length part) 0)
        (blit (length part) [0x80] d)) = part @ 0x80 # replicate (55 - length part) 0 @ len"
    and "blit (length part + 1) (replicate (63 - length part) 0) (blit (length part) [0x80] d)
        = part @ 0x80 # replicate (63 - length part) 0"
    and "length x = 64 \<Longrightarrow> blit 56 len (blit 0 (replicate 56 0) x) = replicate 56 0 @ len"
proof -
  let ?p = "part @ [0x80]" and ?x1 = "blit (length part) [0x80] d"
  have x1: "take (length ?p) ?x1 = ?p" "length ?x1 = 64"
    using take_blit [OF assms(2), of "[0x80]"] assms by simp_all
  let ?z = "replicate (55 - length part) 0"
  show "blit 56 len (blit (length part + 1) ?z ?x1) = part @ 0x80 # ?z @ len" if "length part \<le> 55"
  proof -
    have l56: "length ?p + length ?z = 56" using that by simp
    have "take 56 (blit (length ?p) ?z ?x1) = ?p @ ?z" "length (blit (length ?p) ?z ?x1) = 64"
      using take_blit [OF x1(1), of ?z] x1(2) l56 by simp_all
    then show ?thesis
      using blit_full [of "?p @ ?z" len "blit (length ?p) ?z ?x1"] assms(4) l56 by simp
  qed
  show "blit (length part + 1) (replicate (63 - length part) 0) ?x1 = part @ 0x80 # replicate (63 - length part) 0"
    using blit_full [of ?p "replicate (63 - length part) 0" ?x1] x1 assms(1) by simp
  show "blit 56 len (blit 0 (replicate 56 0) x) = replicate 56 0 @ len" if "length x = 64"
    using that assms(4) by (simp add: blit_def)
qed

lemma md5_padding_cases:
  "n mod 64 \<le> 55 \<Longrightarrow> md5_padding n = 0x80 # replicate (55 - n mod 64) 0 @ le64 (8 * n)"
  "55 < n mod 64 \<Longrightarrow> md5_padding n = 0x80 # replicate (63 - n mod 64) 0 @ replicate 56 0 @ le64 (8 * n)"
proof -
  define k where "k = n mod 64"
  have k: "k < 64" by (simp add: k_def)
  have pad: "md5_padding n = 0x80 # replicate ((119 - k) mod 64) 0 @ le64 (8 * n)"
    by (simp add: md5_padding_def k_def)
  show "md5_padding n = 0x80 # replicate (55 - n mod 64) 0 @ le64 (8 * n)" if "n mod 64 \<le> 55"
  proof -
    have "119 - k = (55 - k) + 64" using that by (simp add: k_def)
    then have "(119 - k) mod 64 = 55 - k" by (simp only: mod_add_self2) simp
    then show ?thesis by (simp only: pad k_def)
  qed
  show "md5_padding n = 0x80 # replicate (63 - n mod 64) 0 @ replicate 56 0 @ le64 (8 * n)" if "55 < n mod 64"
  proof -
    have "(119 - k) mod 64 = (63 - k) + 56" using that k by (simp add: k_def)
    then show ?thesis by (simp only: pad replicate_add append_assoc k_def)
  qed
qed

lemma fst_md5_final:
  assumes "md5_fill ctx = n"
  defines "len \<equiv> word_bytes (bits0 ctx) @ word_bytes (bits1 ctx)"
  shows "n \<le> 55 \<Longrightarrow> fst (md5_final ctx) = md5_digest (md5_transform (md5_buf ctx)
       (block_words (blit 56 len (blit (n + 1) (replicate (55 - n) 0) (blit n [0x80] (inbuf ctx))))))"
    and "55 < n \<Longrightarrow> fst (md5_final ctx) =
       (let x = blit (n + 1) (replicate (63 - n) 0) (blit n [0x80] (inbuf ctx))
        in md5_digest (md5_transform (md5_transform (md5_buf ctx) (block_words x))
             (block_words (blit 56 len (blit 0 (replicate 56 0) x)))))"
proof -
  have a: "\<not> 64 - 1 - n < 8" "64 - 1 - n - 8 = 55 - n" if "n \<le> 55" using that by auto
  show "n \<le> 55 \<Longrightarrow> fst (md5_final ctx) = md5_digest (md5_transform (md5_buf ctx)
       (block_words (blit 56 len (blit (n + 1) (replicate (55 - n) 0) (blit n [0x80] (inbuf ctx))))))"
    unfolding md5_final_def Let_def assms(1) len_def by (simp only: a if_False fst_conv) simp
  have b: "64 - 1 - n < 8" "64 - 1 - n = 63 - n" "63 - n < 8" if "55 < n" using that by auto
  show "55 < n \<Longrightarrow> fst (md5_final ctx) =
       (let x = blit (n + 1) (replicate (63 - n) 0) (blit n [0x80] (inbuf ctx))
        in md5_digest (md5_transform (md5_transform (md5_buf ctx) (block_words x))
             (block_words (blit 56 len (blit 0 (replicate 56 0) x)))))"
    unfolding md5_final_def Let_def assms(1) len_def by (simp only: b if_True fst_conv) simp
qed

lemma md5_final_spec:
  assumes "md5_fed ctx msg"
  shows "fst (md5_final ctx) = md5_spec msg"
proof -
  from assms obtain full part where fp: "msg = full @ part" "md5_holds ctx full part"
    by (auto simp: md5_fed_def)
  have fill: "md5_fill ctx = length part" using md5_fed_fill [OF assms fp] .
  have p: "length part < 64" "take (length part) (inbuf ctx) = part" "length (inbuf ctx) = 64"
    "md5_buf ctx = md5_blocks md5_iv full" "64 dvd length full"
    using fp(2) by (simp_all add: md5_holds_def)
  let ?len = "word_bytes (bits0 ctx) @ word_bytes (bits1 ctx)"
  have len: "le64 (8 * length msg) = ?len" using le64_bits assms by (simp add: md5_fed_def)
  have l8: "length ?len = 8" by (simp add: word_bytes_def)
  have n: "length msg mod 64 = length part" using fp(1) p(1,5) by auto
  note blocks = md5_final_blocks [OF p(1-3) l8]
  show ?thesis
  proof (cases "length part \<le> 55")
    case True
    let ?b = "part @ 0x80 # replicate (55 - length part) 0 @ ?len"
    have "length ?b = 64" using True l8 by simp
    moreover have "msg @ md5_padding (length msg) = full @ ?b"
      using True n md5_padding_cases(1) [of "length msg"] by (simp add: fp(1) [symmetric] len)
    ultimately have "md5_spec msg = md5_digest (md5_transform (md5_buf ctx) (block_words ?b))"
      using md5_blocks_two(1) [OF p(5), of ?b ?b] by (simp only: md5_spec_def p(4))
    then show ?thesis
      by (simp only: fst_md5_final(1) [OF fill True] blocks(1) [OF True])
  next
    case False
    let ?b = "part @ 0x80 # replicate (63 - length part) 0" and ?e = "replicate 56 0 @ ?len"
    have l: "length ?b = 64" "length ?e = 64" using False p(1) l8 by simp_all
    have "msg @ md5_padding (length msg) = full @ ?b @ ?e"
      using False n md5_padding_cases(2) [of "length msg"] by (simp add: fp(1) [symmetric] len)
    then have "md5_spec msg = md5_digest (md5_transform (md5_transform (md5_buf ctx) (block_words ?b)) (block_words ?e))"
      using md5_blocks_two(2) [OF p(5) l] by (simp only: md5_spec_def p(4))
    moreover have "55 < length part" using False by simp
    ultimately show ?thesis
      by (simp only: fst_md5_final(2) [OF fill] blocks(2) Let_def blocks(3) [OF l(1)])
  qed
qed

section \<open>Incremental hashing\<close>

text \<open>
  What a client of a hash function relies on: a context remembers everything it was fed,
  and the digest is a function of that alone.
\<close>

locale incremental_hash =
  fixes init :: "'c \<Rightarrow> 'c" and update :: "'c \<Rightarrow> byte list \<Rightarrow> 'c" and final :: "'c \<Rightarrow> byte list \<times> 'c"
    and fresh :: "'c \<Rightarrow> bool" and fed :: "'c \<Rightarrow> byte list \<Rightarrow> bool" and digest :: "byte list \<Rightarrow> byte list"
  assumes fed_init: "fresh c \<Longrightarrow> fed (init c) []"
    and fed_update: "fed c m \<Longrightarrow> length b < 2 ^ 32 \<Longrightarrow> fed (update c b) (m @ b)"
    and final_digest: "fed c m \<Longrightarrow> fst (final c) = digest m"
    and final_fresh: "fed c m \<Longrightarrow> fresh (snd (final c))"
begin

lemma fed_foldl:
  "fed c m \<Longrightarrow> \<forall>b \<in> set bs. length b < 2 ^ 32 \<Longrightarrow> fed (foldl update c bs) (m @ concat bs)"
proof (induction bs arbitrary: c m)
  case (Cons b bs)
  then show ?case using Cons.IH [of "update c b" "m @ b"] fed_update [of c m b] by simp
qed simp

lemma digest_pieces:
  "fresh c \<Longrightarrow> \<forall>b \<in> set bs. length b < 2 ^ 32 \<Longrightarrow> fst (final (foldl update (init c) bs)) = digest (concat bs)"
  using fed_foldl [OF fed_init] final_digest by fastforce

lemma final_pair: "fed c m \<Longrightarrow> \<exists>c'. final c = (digest m, c') \<and> fresh c'"
  using final_digest [of c m] final_fresh [of c m] by (cases "final c") auto

end

lemma md5_final_fresh: "md5_fed ctx msg \<Longrightarrow> length (inbuf (snd (md5_final ctx))) = 64"
proof -
  assume fed: "md5_fed ctx msg"
  then obtain full part where fp: "msg = full @ part" "md5_holds ctx full part"
    by (auto simp: md5_fed_def)
  have fill: "md5_fill ctx = length part" using md5_fed_fill [OF fed fp] .
  have "length (inbuf ctx) = 64" "length part < 64" using fp(2) by (simp_all add: md5_holds_def)
  then show ?thesis
    by (auto simp: md5_final_def Let_def fill word_bytes_def split: prod.splits)
qed

interpretation md5: incremental_hash md5_init md5_update md5_final "\<lambda>c. length (inbuf c) = 64" md5_fed md5_spec
  by unfold_locales (auto intro: md5_fed_init md5_fed_update md5_final_spec md5_final_fresh)


section \<open>The password hash on digests\<close>

text \<open>The same computation on byte strings and the reference digest, without contexts.\<close>

fun stretch_bytes :: "byte list \<Rightarrow> nat \<Rightarrow> byte list" where
  "stretch_bytes d pl = (if 0 < pl then take (min 16 pl) d @ stretch_bytes d (pl - 16) else [])"

fun weird_bytes :: "byte list \<Rightarrow> nat \<Rightarrow> byte list" where
  "weird_bytes pw i = (if i = 0 then [] else (if odd i then [0] else take 1 pw) @ weird_bytes pw (i div 2))"

declare stretch_bytes.simps [simp del] weird_bytes.simps [simp del]

definition round_bytes :: "byte list \<Rightarrow> byte list \<Rightarrow> byte list \<Rightarrow> nat \<Rightarrow> byte list" where
  "round_bytes pw sp d i = (if odd i then pw else d) @ (if i mod 3 \<noteq> 0 then sp else [])
     @ (if i mod 7 \<noteq> 0 then pw else []) @ (if odd i then d else pw)"

definition md5_crypt_digest :: "byte list \<Rightarrow> byte list \<Rightarrow> byte list" where
  "md5_crypt_digest pw sp =
     (let d0 = md5_spec (pw @ sp @ pw);
          d1 = md5_spec (pw @ bytes_of ''$1$'' @ sp @ stretch_bytes d0 (length pw) @ weird_bytes pw (length pw))
      in foldl (\<lambda>d i. md5_spec (round_bytes pw sp d i)) d1 [0..<1000])"

lemma length_word_bytes [simp]: "length (word_bytes w) = 4"
  by (simp add: word_bytes_def)

lemma length_md5_spec [simp]: "length (md5_spec m) = 16"
  by (simp add: md5_spec_def md5_digest_def split: prod.splits)

lemma crypt_stretch_fed: "md5_fed ctx m \<Longrightarrow> md5_fed (crypt_stretch d pl ctx) (m @ stretch_bytes d pl)"
proof (induction d pl ctx arbitrary: m rule: crypt_stretch.induct)
  case (1 d pl ctx)
  have "length (take (min 16 pl) d) < 2 ^ 32" by simp
  from md5.fed_update [OF 1(2) this] 1(1) 1(2) show ?case
    unfolding crypt_stretch.simps [of d pl] stretch_bytes.simps [of d pl]
    by (cases "0 < pl") (fastforce, simp)
qed

lemma crypt_weird_fed: "md5_fed ctx m \<Longrightarrow> md5_fed (crypt_weird pw i ctx) (m @ weird_bytes pw i)"
proof (induction pw i ctx arbitrary: m rule: crypt_weird.induct)
  case (1 pw i ctx)
  have "length (if odd i then [0] else take 1 pw) < 2 ^ 32" by (simp add: min_def)
  from md5.fed_update [OF 1(2) this] 1(1) 1(2) show ?case
    unfolding crypt_weird.simps [of pw i] weird_bytes.simps [of pw i]
    by (cases "i = 0") (simp, fastforce)
qed

lemma crypt_round_digest:
  assumes "length (inbuf ctx1) = 64" and "length d = 16" and "length pw < 2 ^ 32" and "length sp < 2 ^ 32"
  shows "\<exists>c'. crypt_round pw sp (d, ctx1) i = (md5_spec (round_bytes pw sp d i), c') \<and> length (inbuf c') = 64"
proof -
  have c1: "md5_fed (md5_init ctx1) []" using md5.fed_init assms(1) .
  note up = md5.fed_update
  have d: "length d < 2 ^ 32" using assms(2) by simp
  define c2 where "c2 = md5_update (md5_init ctx1) (if odd i then pw else d)"
  have f2: "md5_fed c2 (if odd i then pw else d)"
    unfolding c2_def using up [OF c1, of "if odd i then pw else d"] assms(3) d by (cases "odd i") auto
  define c3 where "c3 = (if i mod 3 \<noteq> 0 then md5_update c2 sp else c2)"
  have f3: "md5_fed c3 ((if odd i then pw else d) @ (if i mod 3 \<noteq> 0 then sp else []))"
    unfolding c3_def using up [OF f2 assms(4)] f2 by auto
  define c4 where "c4 = (if i mod 7 \<noteq> 0 then md5_update c3 pw else c3)"
  have f4: "md5_fed c4 (((if odd i then pw else d) @ (if i mod 3 \<noteq> 0 then sp else []))
      @ (if i mod 7 \<noteq> 0 then pw else []))"
    unfolding c4_def using up [OF f3 assms(3)] f3 by auto
  have f5: "md5_fed (md5_update c4 (if odd i then d else pw)) (round_bytes pw sp d i)"
    using up [OF f4, of "if odd i then d else pw"] assms(3) d by (cases "odd i") (auto simp: round_bytes_def)
  have "crypt_round pw sp (d, ctx1) i = md5_final (md5_update c4 (if odd i then d else pw))"
    by (simp only: crypt_round_def Let_def prod.case c2_def c3_def c4_def)
  with md5.final_pair [OF f5] show ?thesis by simp
qed

lemma crypt_rounds_digest:
  assumes "length (inbuf ctx1) = 64" and "length d = 16" and "length pw < 2 ^ 32" and "length sp < 2 ^ 32"
  shows "fst (foldl (crypt_round pw sp) (d, ctx1) is) = foldl (\<lambda>d i. md5_spec (round_bytes pw sp d i)) d is"
  using assms(1,2)
proof (induction "is" arbitrary: d ctx1)
  case (Cons i "is")
  from crypt_round_digest [OF Cons(2,3) assms(3,4), of i] obtain c' where
    "crypt_round pw sp (d, ctx1) i = (md5_spec (round_bytes pw sp d i), c')" "length (inbuf c') = 64" by auto
  with Cons.IH [of c' "md5_spec (round_bytes pw sp d i)"] show ?case by simp
qed simp

lemma length_crypt_salt: "length (crypt_salt salt) \<le> 8"
proof -
  have "length (takeWhile (\<lambda>c. c \<noteq> CHR ''$'') (take 8 s)) \<le> 8" for s
    using length_takeWhile_le [of "\<lambda>c. c \<noteq> CHR ''$''" "take 8 s"] by simp
  then show ?thesis by (simp add: crypt_salt_def Let_def)
qed

lemma length_crypt_to64 [simp]: "length (crypt_to64 v n) = n"
  by (induction n arbitrary: v) simp_all


definition crypt_string :: "string \<Rightarrow> byte list \<Rightarrow> string" where
  "crypt_string sp d = ''$1$'' @ sp @ ''$'' @ crypt_group d 0 6 12 @ crypt_group d 1 7 13 @ crypt_group d 2 8 14
     @ crypt_group d 3 9 15 @ crypt_group d 4 10 5 @ crypt_to64 (ucast (d ! 11)) 2"

lemma md5_fed_three:
  assumes "length a < 2 ^ 32" and "length b < 2 ^ 32" and "length c < 2 ^ 32"
  shows "md5_fed (md5_update (md5_update (md5_update (md5_init md5_blank) a) b) c) (a @ b @ c)"
proof -
  have "length (inbuf md5_blank) = 64" by (simp add: md5_blank_def)
  from md5.fed_update [OF md5.fed_update [OF md5.fed_update [OF md5.fed_init [OF this] assms(1)] assms(2)] assms(3)]
  show ?thesis by simp
qed

lemma md5_crypt_eq:
  assumes "length pw < 2 ^ 32"
  shows "md5_crypt pw salt = crypt_string (crypt_salt salt) (md5_crypt_digest (bytes_of pw) (bytes_of (crypt_salt salt)))"
proof -
  let ?p = "bytes_of pw" and ?s = "bytes_of (crypt_salt salt)" and ?m = "bytes_of ''$1$''"
  have len: "length ?p < 2 ^ 32" "length ?s < 2 ^ 32" "length ?m < 2 ^ 32"
    using assms length_crypt_salt [of salt] by simp_all
  let ?d0 = "md5_spec (?p @ ?s @ ?p)"
  from md5.final_pair [OF md5_fed_three [OF len(1,2,1)]] obtain c1 where
    c1: "md5_final (md5_update (md5_update (md5_update (md5_init md5_blank) ?p) ?s) ?p) = (?d0, c1)"
    "length (inbuf c1) = 64" by blast
  let ?c = "crypt_weird ?p (length pw) (crypt_stretch ?d0 (length pw)
      (md5_update (md5_update (md5_update (md5_init md5_blank) ?p) ?m) ?s))"
  let ?d1 = "md5_spec (?p @ ?m @ ?s @ stretch_bytes ?d0 (length pw) @ weird_bytes ?p (length pw))"
  have "md5_fed ?c (((?p @ ?m @ ?s) @ stretch_bytes ?d0 (length pw)) @ weird_bytes ?p (length pw))"
    using crypt_weird_fed [OF crypt_stretch_fed [OF md5_fed_three [OF len(1,3,2)]]] .
  from md5.final_pair [OF this] obtain c2 where c2: "md5_final ?c = (?d1, c2)" by auto
  have "length ?d1 = 16" by simp
  from crypt_rounds_digest [OF c1(2) this len(1,2), of "[0..<1000]"] obtain c3 where
    "foldl (crypt_round ?p ?s) (?d1, c1) [0..<1000] = (md5_crypt_digest ?p ?s, c3)"
    by (cases "foldl (crypt_round ?p ?s) (?d1, c1) [0..<1000]") (simp only: md5_crypt_digest_def Let_def length_bytes_of fst_conv)
  with c1 c2 show ?thesis
    by (simp only: md5_crypt_def Let_def crypt_string_def prod.case)
qed

section \<open>Properties\<close>

text \<open>
  C4. Incremental hashing: however a message is cut into pieces of less than 2^32 bytes
  (empty ones included), initialising a context, feeding it the pieces with \<open>md5_update\<close> and
  finishing with \<open>md5_final\<close> gives the MD5 digest of RFC 1321 (padding, 64-bit length, 64-byte
  blocks) of the whole message, whatever the context held before.
\<close>

theorem md5_pieces:
  assumes "length (inbuf ctx) = 64" and "\<forall>b \<in> set bs. length b < 2 ^ 32"
  shows "fst (md5_final (foldl md5_update (md5_init ctx) bs)) = md5_spec (concat bs)"
  by (rule md5.digest_pieces [OF assms])

theorem md5_pieces_witness:
  "fst (md5_final (foldl md5_update (md5_init md5_blank) [[1, 2], [], [3]])) = md5_spec [1, 2, 3]"
  using md5_pieces [of md5_blank "[[1, 2], [], [3]]"] by (simp add: md5_blank_def)



text \<open>
  The round function \<open>F1\<close> is the selection of the specification, and \<open>F4\<close> its mixing function.
\<close>

lemma F1_selects: "F1 x y z = (x AND y) OR (NOT x AND z)"
  by (rule bit_word_eqI) (auto simp: F1_def bit_simps)

end
