(* ===== verification/Accounts.thy ===== *)
theory Accounts
  imports Format Md5
begin

text \<open>
  The database the mail modules share. The SQL server is not part of the sources; what the
  modules read from it are query results, the fields of the record \<open>database\<close>, and the one
  table they also write, \<open>gw_smtp_relayrules\<close>, is a list of rows on which the SQL statements
  of the sources act. Modelled here: \<open>domain_getid\<close> (\<open>src/src/server/domains.c\<close>),
  \<open>auth_checkpass\<close> and \<open>auth_login\<close> of the POP3 module, the relay rule statements of
  \<open>pop3_dorequest\<close> and \<open>allow_relay\<close> of the SMTP module.
\<close>

section \<open>Query results\<close>

record user_row =
  u_userid :: int
  u_groupid :: int
  u_username :: string
  u_password :: string

text \<open>
  A query is \<open>None\<close> when \<open>sql_queryf\<close> returns a negative value, else the rows.
\<close>

record database =
  q_domains :: "string \<Rightarrow> int list option"
  q_aliases :: "string \<Rightarrow> int list option"
  q_users :: "string \<Rightarrow> int \<Rightarrow> user_row list option"
  q_accounts :: "int \<Rightarrow> int \<Rightarrow> int \<Rightarrow> nat option"
  q_smtp_aliases :: "string \<Rightarrow> int \<Rightarrow> int list option"
  q_userid :: "int \<Rightarrow> int \<Rightarrow> (int \<times> string) list option"
  q_username :: "string \<Rightarrow> int \<Rightarrow> int list option"

definition domain_getid :: "database \<Rightarrow> string \<Rightarrow> int" where
  "domain_getid db domainname =
     (case q_domains db domainname of
        None \<Rightarrow> -1
      | Some rows \<Rightarrow>
          (let domainid = (case rows of [] \<Rightarrow> -1 | d # _ \<Rightarrow> d)
           in if 0 < domainid then domainid
              else case q_aliases db domainname of
                None \<Rightarrow> -1
              | Some arows \<Rightarrow> (case arows of [] \<Rightarrow> domainid | d # _ \<Rightarrow> d)))"

section \<open>Logging in\<close>

text \<open>The session data of a connection (\<open>CONNDATA\<close>); identifiers are \<open>short int\<close>.\<close>

record conndata =
  d_username :: string
  RemoteAddr :: string
  d_uid :: int
  d_gid :: int
  d_did :: int
  mailcurrent :: int

definition auth_checkpass :: "string \<Rightarrow> string \<Rightarrow> int" where
  "auth_checkpass rpassword cpassword =
     (if take 3 cpassword = ''$1$'' then
        (if cpassword \<noteq> md5_crypt rpassword (take 8 (drop 3 cpassword)) then -1 else 0)
      else -1)"

definition login_domainid :: "database \<Rightarrow> string \<Rightarrow> int" where
  "login_domainid db domain = (let domainid = domain_getid db domain in if domainid < 0 then 1 else domainid)"

definition auth_login ::
  "database \<Rightarrow> conndata \<Rightarrow> string \<Rightarrow> string \<Rightarrow> string \<Rightarrow> int \<Rightarrow> int \<times> conndata" where
  "auth_login db dat username domain password mbox =
     (if username = [] then (-1, dat)
      else
        let domainid = login_domainid db domain;
            dat = dat\<lparr>d_did := i16 domainid\<rparr>
        in case q_users db username domainid of
             None \<Rightarrow> (-1, dat)
           | Some rows \<Rightarrow>
               (case rows of
                  [row] \<Rightarrow>
                    (if auth_checkpass password (u_password row) \<noteq> 0 then (-1, dat)
                     else
                       let dat = dat\<lparr>d_uid := i16 (u_userid row), d_gid := i16 (u_groupid row)\<rparr>
                       in if mbox = 0 then
                            (0, dat\<lparr>d_username := snprintf 63 (u_username row), mailcurrent := 0\<rparr>)
                          else case q_accounts db mbox (d_uid dat) (d_did dat) of
                            None \<Rightarrow> (-1, dat)
                          | Some i \<Rightarrow> (if i \<noteq> 1 then (-1, dat)
                                       else (0, dat\<lparr>mailcurrent := i16 mbox\<rparr>)))
                | _ \<Rightarrow> (-1, dat)))"

text \<open>
  The mutual dependence of a login on its parts: what holds when \<open>auth_login\<close> answers 0.
\<close>

lemma auth_checkpass_0:
  "auth_checkpass r c = 0 \<longleftrightarrow> take 3 c = ''$1$'' \<and> c = md5_crypt r (take 8 (drop 3 c))"
  by (auto simp: auth_checkpass_def)

lemma crypt_salt_prefix:
  assumes "sp = crypt_salt salt" and "sp \<noteq> []"
  shows "crypt_salt (take 8 (sp @ CHR ''$'' # rest)) = sp"
proof -
  have nd: "\<forall>c \<in> set sp. c \<noteq> CHR ''$''" using assms(1) by (auto simp: crypt_salt_def Let_def dest: set_takeWhileD)
  have len: "length sp \<le> 8" using assms(1) length_crypt_salt by simp
  obtain c cs where sp: "sp = c # cs" using assms(2) by (cases sp) auto
  then have "take 3 (take 8 (sp @ CHR ''$'' # rest)) \<noteq> ''$1$''" using nd by auto
  moreover have "takeWhile (\<lambda>c. c \<noteq> CHR ''$'') (take 8 (sp @ CHR ''$'' # rest)) = sp"
    using nd len by (cases "8 - length sp") (auto simp: takeWhile_append2 takeWhile_eq_all_conv)
  ultimately show ?thesis by (simp only: crypt_salt_def Let_def if_False take_take min.idem)
qed

lemma auth_checkpass_crypt:
  assumes "length pw < 2 ^ 32" and "crypt_salt salt \<noteq> []"
  shows "auth_checkpass pw (md5_crypt pw salt) = 0"
proof -
  let ?sp = "crypt_salt salt"
  obtain rest where c: "md5_crypt pw salt = ''$1$'' @ ?sp @ CHR ''$'' # rest"
    using md5_crypt_eq [OF assms(1)] by (simp add: crypt_string_def)
  then have "crypt_salt (take 8 (drop 3 (md5_crypt pw salt))) = ?sp"
    using crypt_salt_prefix [OF refl assms(2), of rest] by simp
  then have "md5_crypt pw (take 8 (drop 3 (md5_crypt pw salt))) = md5_crypt pw salt"
    by (simp only: md5_crypt_eq [OF assms(1)])
  with c show ?thesis by (simp add: auth_checkpass_0)
qed

lemma auth_login_0:
  assumes "auth_login db dat username domain password mbox = (0, dat')"
  shows "username \<noteq> [] \<and> (\<exists>row. q_users db username (login_domainid db domain) = Some [row]
     \<and> auth_checkpass password (u_password row) = 0
     \<and> d_uid dat' = i16 (u_userid row) \<and> d_did dat' = i16 (login_domainid db domain)
     \<and> (mbox \<noteq> 0 \<longrightarrow> q_accounts db mbox (d_uid dat') (d_did dat') = Some 1))"
  using assms
  by (auto simp: auth_login_def Let_def split: if_splits option.splits list.splits)

lemma auth_login_RemoteAddr:
  "RemoteAddr (snd (auth_login db dat username domain password mbox)) = RemoteAddr dat"
  by (auto simp: auth_login_def Let_def split: option.splits list.splits)

section \<open>The relay rule table\<close>

datatype ruletype = RAllow | RDeny | ROther string
datatype persistence = Perm | Temp | POther string

record relayrule =
  relayruleid :: int
  ruletype :: ruletype
  persistence :: persistence
  expires :: int
  ipaddress :: string
  rr_did :: int
  rr_uid :: int
  reason :: string

type_synonym relayrules = "relayrule list"

text \<open>\<open>DELETE FROM gw_smtp_relayrules WHERE persistence <> 'perm' AND expires < now\<close>.\<close>

definition rr_purge :: "int \<Rightarrow> relayrules \<Rightarrow> relayrules" where
  "rr_purge now rules = filter (\<lambda>r. \<not> (persistence r \<noteq> Perm \<and> expires r < now)) rules"

text \<open>
  \<open>SELECT relayruleid ... WHERE ruletype = 'allow' AND persistence = 'temp' AND ipaddress = ...
  ORDER BY relayruleid ASC\<close>, of which the code takes the first row; 0 when there is none.
\<close>

definition rr_find_temp :: "string \<Rightarrow> relayrules \<Rightarrow> int" where
  "rr_find_temp ip rules =
     (case sort (map relayruleid
        (filter (\<lambda>r. ruletype r = RAllow \<and> persistence r = Temp \<and> ipaddress r = ip) rules)) of
        [] \<Rightarrow> 0 | i # _ \<Rightarrow> i)"

definition rr_touch :: "int \<Rightarrow> int \<Rightarrow> int \<Rightarrow> string \<Rightarrow> relayrules \<Rightarrow> relayrules" where
  "rr_touch ruleid did expdate why rules =
     map (\<lambda>r. if relayruleid r = ruleid then r\<lparr>rr_did := did, expires := expdate, reason := why\<rparr> else r) rules"

definition rr_fresh :: "relayrules \<Rightarrow> int" where
  "rr_fresh rules = foldr (\<lambda>r m. max (relayruleid r) m) rules 0 + 1"

definition rr_insert :: "int \<Rightarrow> int \<Rightarrow> int \<Rightarrow> string \<Rightarrow> string \<Rightarrow> relayrules \<Rightarrow> relayrules" where
  "rr_insert uid did expdate ip why rules =
     rules @ [\<lparr>relayruleid = rr_fresh rules, ruletype = RAllow, persistence = Temp, expires = expdate,
       ipaddress = ip, rr_did = did, rr_uid = uid, reason = why\<rparr>]"

text \<open>
  The statements of \<open>pop3_dorequest\<close> behind a successful login (POP before SMTP): expired rules
  go, and the client's address gets a temporary rule that lasts 1800 seconds.
\<close>

definition pop3_relay_window :: "int \<Rightarrow> conndata \<Rightarrow> string \<Rightarrow> relayrules \<Rightarrow> relayrules" where
  "pop3_relay_window now dat why rules =
     (let expdate = now + 1800;
          rules = rr_purge now rules;
          ruleid = rr_find_temp (RemoteAddr dat) rules
      in if 0 < ruleid then rr_touch ruleid (d_did dat) expdate why rules
         else rr_insert (d_uid dat) (d_did dat) expdate (RemoteAddr dat) why rules)"

text \<open>
  \<open>allow_relay\<close> of the SMTP module: -1 denied, 1 allowed, 0 neither. The local host is
  allowed before the rules are read; \<open>query_ok\<close> is False when the query fails.
\<close>

definition rr_matching :: "int \<Rightarrow> string \<Rightarrow> relayrules \<Rightarrow> relayrules" where
  "rr_matching now ip rules =
     filter (\<lambda>r. ipaddress r = ip \<and> (persistence r = Perm \<or> now < expires r)) rules"

definition allow_relay :: "bool \<Rightarrow> int \<Rightarrow> string \<Rightarrow> relayrules \<Rightarrow> int \<times> relayrules" where
  "allow_relay query_ok now ip rules =
     (let rules = rr_purge now rules
      in if ip = ''127.0.0.1'' then (1, rules)
         else if \<not> query_ok then (0, rules)
         else
           let rows = rr_matching now ip rules;
               allowed = (\<exists>r \<in> set rows. ruletype r = RAllow);
               denied = (\<exists>r \<in> set rows. ruletype r = RDeny)
           in (if denied then -1 else if allowed then 1 else 0, rules))"

subsection \<open>Lemmas\<close>

lemma set_rr_purge: "r \<in> set (rr_purge now rules) \<longleftrightarrow>
    r \<in> set rules \<and> (persistence r = Perm \<or> now \<le> expires r)"
  by (auto simp: rr_purge_def)

lemma rr_purge_idem [simp]: "rr_purge now (rr_purge now rules) = rr_purge now rules"
  by (simp add: rr_purge_def)

lemma rr_find_temp_pos:
  assumes "0 < rr_find_temp ip rules"
  obtains r where "r \<in> set rules" "relayruleid r = rr_find_temp ip rules"
    "ruletype r = RAllow" "persistence r = Temp" "ipaddress r = ip"
proof -
  let ?f = "filter (\<lambda>r. ruletype r = RAllow \<and> persistence r = Temp \<and> ipaddress r = ip) rules"
  obtain i is' where srt: "sort (map relayruleid ?f) = i # is'"
    using assms by (cases "sort (map relayruleid ?f)") (simp_all add: rr_find_temp_def)
  then have "rr_find_temp ip rules = i" by (simp add: rr_find_temp_def)
  moreover have "i \<in> set (sort (map relayruleid ?f))"
    by (simp only: srt list.set_intros)
  then obtain r where "r \<in> set ?f" "i = relayruleid r" by auto
  ultimately show thesis using that [of r] by simp
qed

lemma rr_window_grants:
  "\<exists>r \<in> set (pop3_relay_window now dat why rules).
     ruletype r = RAllow \<and> persistence r = Temp \<and> ipaddress r = RemoteAddr dat \<and> expires r = now + 1800"
proof (cases "0 < rr_find_temp (RemoteAddr dat) (rr_purge now rules)")
  case True
  then obtain r where "r \<in> set (rr_purge now rules)"
    "relayruleid r = rr_find_temp (RemoteAddr dat) (rr_purge now rules)"
    "ruletype r = RAllow" "persistence r = Temp" "ipaddress r = RemoteAddr dat"
    by (rule rr_find_temp_pos)
  with True show ?thesis
    by (auto simp: pop3_relay_window_def rr_touch_def Let_def
        intro!: bexI [of _ "r\<lparr>rr_did := d_did dat, expires := now + 1800, reason := why\<rparr>"] image_eqI [of _ _ r])
next
  case False
  then show ?thesis
    by (simp add: pop3_relay_window_def rr_insert_def Let_def)
qed

text \<open>The window adds no deny rule and touches no permanent one.\<close>

lemma rr_window_deny:
  assumes "r \<in> set (pop3_relay_window now dat why rules)" and "ruletype r = RDeny"
  shows "\<exists>r' \<in> set rules. ruletype r' = RDeny \<and> ipaddress r' = ipaddress r"
  using assms
  by (auto simp: pop3_relay_window_def rr_touch_def rr_insert_def Let_def set_rr_purge split: if_splits)

section \<open>Properties\<close>

text \<open>
  C14. A POP3 login succeeds only with the right password: \<open>auth_login\<close> answers 0 only for a
  nonempty user name that selects exactly one row of the domain, whose stored password is
  an MD5-crypt entry that the given password hashes to, and with an extra mailbox only if
  the account query confirms that the mailbox belongs to that user.
\<close>

theorem auth_login_sound:
  assumes "auth_login db dat username domain password mbox = (0, dat')"
  shows "username \<noteq> [] \<and> (\<exists>row. q_users db username (login_domainid db domain) = Some [row]
     \<and> take 3 (u_password row) = ''$1$''
     \<and> u_password row = md5_crypt password (take 8 (drop 3 (u_password row)))
     \<and> d_uid dat' = i16 (u_userid row)
     \<and> (mbox \<noteq> 0 \<longrightarrow> q_accounts db mbox (d_uid dat') (d_did dat') = Some 1))"
  using auth_login_0 [OF assms] by (auto simp: auth_checkpass_0)

text \<open>
  Storing and checking a password agree: for every password and every salt that is not
  empty once the magic is skipped and it is cut at a dollar sign, \<open>auth_checkpass\<close> accepts the
  password against the entry that \<open>md5_crypt\<close> produces, although it takes the salt back out
  of the entry by position.
\<close>

theorem auth_checkpass_accepts:
  assumes "length pw < 2 ^ 32" and "crypt_salt salt \<noteq> []"
  shows "auth_checkpass pw (md5_crypt pw salt) = 0"
  by (rule auth_checkpass_crypt [OF assms])

theorem auth_checkpass_accepts_witness: "auth_checkpass ''visual'' (md5_crypt ''visual'' ''$1$ab$'') = 0"
  by (rule auth_checkpass_accepts) (simp_all add: crypt_salt_def)

text \<open>A database with one domain, one user and one extra mailbox.\<close>

definition demo_db :: database where
  "demo_db = \<lparr>q_domains = (\<lambda>d. Some (if d = ''example.org'' then [1] else [])),
     q_aliases = (\<lambda>d. Some []),
     q_users = (\<lambda>u d. Some (if u = ''bob'' \<and> d = 1 then
        [\<lparr>u_userid = 7, u_groupid = 2, u_username = ''bob'', u_password = md5_crypt ''pw'' ''saltsalt''\<rparr>] else [])),
     q_accounts = (\<lambda>m u d. Some (if m = 3 \<and> u = 7 \<and> d = 1 then 1 else 0)),
     q_smtp_aliases = (\<lambda>u d. Some (if u = ''postmaster'' \<and> d = 1 then [7] else [])),
     q_userid = (\<lambda>i d. Some (if i = 7 \<and> d = 1 then [(7, ''bob'')] else [])),
     q_username = (\<lambda>u d. Some (if u = ''bob'' \<and> d = 1 then [7] else []))\<rparr>"

definition demo_dat :: conndata where
  "demo_dat = \<lparr>d_username = [], RemoteAddr = ''10.0.0.9'', d_uid = 0, d_gid = 0, d_did = 0, mailcurrent = 0\<rparr>"

lemma demo_login:
  "auth_login demo_db demo_dat ''bob'' ''example.org'' ''pw'' 0 =
     (0, demo_dat\<lparr>d_username := ''bob'', d_uid := 7, d_gid := 2, d_did := 1\<rparr>)"
proof -
  have "crypt_salt ''saltsalt'' \<noteq> []" by (simp add: crypt_salt_def)
  then have "auth_checkpass ''pw'' (md5_crypt ''pw'' ''saltsalt'') = 0"
    by (intro auth_checkpass_crypt) simp_all
  then show ?thesis
    by (simp add: auth_login_def demo_db_def demo_dat_def domain_getid_def login_domainid_def i16_def snprintf_def)
qed

theorem auth_login_sound_witness:
  "\<exists>row. q_users demo_db ''bob'' (login_domainid demo_db ''example.org'') = Some [row]
     \<and> u_password row = md5_crypt ''pw'' (take 8 (drop 3 (u_password row)))"
  using auth_login_sound [OF demo_login] by blast

text \<open>
  C15. POP before SMTP: a successful POP3 login at time \<open>t0\<close> lets the client's address relay
  through the SMTP module for the next 1800 seconds (\<open>allow_relay\<close> answers 1), unless a rule
  for that address denies it.
\<close>

theorem pop_before_smtp:
  assumes "t0 \<le> now" and "now < t0 + 1800"
    and "\<forall>r \<in> set rules. ruletype r = RDeny \<longrightarrow> ipaddress r \<noteq> RemoteAddr dat"
  shows "fst (allow_relay True now (RemoteAddr dat) (pop3_relay_window t0 dat why rules)) = 1"
proof -
  let ?w = "pop3_relay_window t0 dat why rules"
  let ?rows = "rr_matching now (RemoteAddr dat) (rr_purge now ?w)"
  obtain r where "r \<in> set ?w" "ruletype r = RAllow" "ipaddress r = RemoteAddr dat" "expires r = t0 + 1800"
    using rr_window_grants by blast
  with assms(2) have "\<exists>r \<in> set ?rows. ruletype r = RAllow"
    by (auto simp: rr_matching_def set_rr_purge intro!: bexI [of _ r])
  moreover have "r \<in> set ?w \<Longrightarrow> ruletype r = RDeny \<Longrightarrow> ipaddress r \<noteq> RemoteAddr dat" for r
    using rr_window_deny [of r t0 dat why rules] assms(3) by auto
  then have "\<not> (\<exists>r \<in> set ?rows. ruletype r = RDeny)"
    by (auto simp: rr_matching_def set_rr_purge)
  ultimately show ?thesis by (simp add: allow_relay_def Let_def)
qed

theorem pop_before_smtp_witness:
  "fst (allow_relay True 2000 (RemoteAddr demo_dat) (pop3_relay_window 1000 demo_dat ''POP3 Login'' [])) = 1"
  by (rule pop_before_smtp) simp_all

text \<open>
  The relay window closes: from 1800 seconds after the login on, the rule of that login
  no longer allows relaying, so an address without another rule is answered 0, and the
  purge of \<open>allow_relay\<close> removes every expired temporary rule one second later.
\<close>

theorem relay_window_expires:
  assumes "t0 + 1800 \<le> now" and "\<forall>r \<in> set rules. ipaddress r \<noteq> RemoteAddr dat"
    and "RemoteAddr dat \<noteq> ''127.0.0.1''"
  shows "fst (allow_relay q now (RemoteAddr dat) (pop3_relay_window t0 dat why rules)) = 0
    \<and> (t0 + 1800 < now \<longrightarrow> (\<forall>r \<in> set (snd (allow_relay q now (RemoteAddr dat)
          (pop3_relay_window t0 dat why rules))). ipaddress r \<noteq> RemoteAddr dat))"
proof -
  let ?w = "pop3_relay_window t0 dat why rules"
  have "\<not> 0 < rr_find_temp (RemoteAddr dat) (rr_purge t0 rules)"
  proof
    assume "0 < rr_find_temp (RemoteAddr dat) (rr_purge t0 rules)"
    then obtain r where "r \<in> set (rr_purge t0 rules)" "ipaddress r = RemoteAddr dat"
      by (rule rr_find_temp_pos)
    with assms(2) show False by (simp add: set_rr_purge)
  qed
  then have w: "?w = rr_insert (d_uid dat) (d_did dat) (t0 + 1800) (RemoteAddr dat) why (rr_purge t0 rules)"
    by (simp add: pop3_relay_window_def Let_def)
  have only: "r \<in> set ?w \<Longrightarrow> ipaddress r = RemoteAddr dat \<Longrightarrow> persistence r = Temp \<and> expires r = t0 + 1800" for r
    using assms(2) by (auto simp: w rr_insert_def set_rr_purge)
  then have "rr_matching now (RemoteAddr dat) (rr_purge now ?w) = []"
    using assms(1) by (auto simp: rr_matching_def filter_empty_conv set_rr_purge)
  moreover have "t0 + 1800 < now \<Longrightarrow> r \<in> set (rr_purge now ?w) \<Longrightarrow> ipaddress r \<noteq> RemoteAddr dat" for r
    using only [of r] by (auto simp: set_rr_purge)
  ultimately show ?thesis using assms(3) by (auto simp: allow_relay_def Let_def)
qed

theorem relay_window_expires_witness:
  "fst (allow_relay True 2800 (RemoteAddr demo_dat) (pop3_relay_window 1000 demo_dat ''POP3 Login'' [])) = 0"
  using relay_window_expires [of 1000 2800 "[]" demo_dat True "''POP3 Login''"]
  by (simp add: demo_dat_def)

end
