(* ===== verification/Pop3.thy ===== *)
theory Pop3
  imports Tcp Accounts Base64
begin

text \<open>
  The POP3 module (\<open>src/src/modules/core/pop3d/pop3d_server.c\<close>): the mailbox \<open>MDIR\<close>, one
  definition per command handler, the command loop of \<open>pop3_local\<close> and \<open>pop3_remote\<close>, and
  \<open>pop3_dorequest\<close> with its authorization loop. A connection holds its socket, so every reply
  goes through \<open>tcp_fprintf\<close> and every command line comes from \<open>tcp_fgets\<close>. The file system is a
  map from names to contents; \<open>stat\<close>, \<open>readdir\<close> and the header query of a remote mailbox are
  functions of the environment.
\<close>

section \<open>State\<close>

record mdirent =
  localid :: int
  deleted :: bool
  filesize :: int
  filename :: string
  uidl :: string

record mdir =
  mboxtotal :: int
  mboxcount :: int
  lastmsg :: int
  msgs :: "mdirent list"

record pop3_conn =
  cstate :: int
  sock :: tcp_socket
  dat :: conndata
  files :: "string \<rightharpoonup> string"
  moved :: "int list"
  rules :: relayrules

text \<open>
  The environment of a session: configuration, what the operating system answers, the
  outcome of a TLS handshake, and the clock.
\<close>

record pop3_env =
  ssl_is_loaded :: bool
  require_tls :: bool
  tls_new_ok :: bool
  tls_hs_ok :: bool
  var_path :: string
  stat_file :: "string \<Rightarrow> (int \<times> bool) option"
  mkdir_ok :: "string \<Rightarrow> bool"
  read_dir :: "string \<Rightarrow> string list"
  q_headers :: "int \<Rightarrow> int \<Rightarrow> (int \<times> int \<times> string) list option"
  relay_query_ok :: bool
  clock :: int

definition say :: "pop3_conn \<Rightarrow> string \<Rightarrow> pop3_conn" where
  "say c text = c\<lparr>sock := snd (tcp_fprintf text (sock c))\<rparr>"

text \<open>The pointer behind the four letters of a command, with blanks skipped.\<close>

definition arg4 :: "string \<Rightarrow> string" where
  "arg4 line = skip_blanks (cstr (drop 4 line))"

definition arg_number :: "string \<Rightarrow> int \<Rightarrow> int" where
  "arg_number p dflt = (if isdigit (hd0 p) then atoi p else dflt)"

definition nth_msg :: "mdir \<Rightarrow> int \<Rightarrow> mdirent" where
  "nth_msg m n = msgs m ! nat (n - 1)"

definition box :: "mdir \<Rightarrow> mdirent list" where
  "box m = take (nat (mboxtotal m)) (msgs m)"

section \<open>Command handlers\<close>

fun sum_sizes :: "int \<Rightarrow> mdirent list \<Rightarrow> int" where
  "sum_sizes n [] = n"
| "sum_sizes n (e # es) = (if deleted e then sum_sizes n es else sum_sizes (i32 (n + filesize e)) es)"

definition pop3_stat :: "pop3_conn \<Rightarrow> mdir \<Rightarrow> pop3_conn" where
  "pop3_stat c m =
     say c (''+OK '' @ dec_int (mboxcount m) @ '' '' @ dec_int (sum_sizes 0 (box m)) @ CRLF)"

definition no_such_message :: string where
  "no_such_message = ''-ERR No such message'' @ CRLF"

text \<open>The loop of LIST and UIDL over the mailbox; \<open>i\<close> is the index of the loop.\<close>

fun list_lines :: "(int \<Rightarrow> mdirent \<Rightarrow> string) \<Rightarrow> int \<Rightarrow> mdirent list \<Rightarrow> pop3_conn \<Rightarrow> pop3_conn" where
  "list_lines f i [] c = c"
| "list_lines f i (e # es) c =
     (if deleted e then list_lines f (i + 1) es c
      else list_lines f (i + 1) es (say c (f (i + 1) e)))"

definition list_line :: "int \<Rightarrow> mdirent \<Rightarrow> string" where
  "list_line n e = dec_int n @ '' '' @ dec_int (filesize e) @ CRLF"

definition uidl_line :: "int \<Rightarrow> mdirent \<Rightarrow> string" where
  "uidl_line n e = dec_int n @ '' '' @ uidl e @ CRLF"

definition list_head :: "mdir \<Rightarrow> string" where
  "list_head m = ''+OK '' @ dec_int (mboxcount m) @ '' messages ('' @ dec_int (sum_sizes 0 (box m))
     @ '' octets)'' @ CRLF"

definition pop3_list :: "pop3_conn \<Rightarrow> mdir \<Rightarrow> string \<Rightarrow> pop3_conn" where
  "pop3_list c m line =
     (let n = arg_number (arg4 line) (-1)
      in if 0 < n \<and> n < mboxtotal m + 1 then
           (if deleted (nth_msg m n) then say c no_such_message
            else say c (''+OK '' @ dec_int n @ '' '' @ dec_int (filesize (nth_msg m n)) @ CRLF))
         else if n = -1 then
           say (list_lines list_line 0 (box m) (say c (list_head m))) (''.'' @ CRLF)
         else say c no_such_message)"

definition pop3_uidl :: "pop3_conn \<Rightarrow> mdir \<Rightarrow> string \<Rightarrow> pop3_conn" where
  "pop3_uidl c m line =
     (let n = arg_number (arg4 line) (-1)
      in if 0 < n \<and> n < mboxtotal m + 1 then
           (if deleted (nth_msg m n) then say c no_such_message
            else say c (''+OK '' @ dec_int n @ '' '' @ uidl (nth_msg m n) @ CRLF))
         else if n = -1 then
           say (list_lines uidl_line 0 (box m) (say c (list_head m))) (''.'' @ CRLF)
         else say c no_such_message)"

text \<open>The copy loop of RETR with its 1024-byte output buffer; the result is what is left in it.\<close>

function retr_loop :: "string \<Rightarrow> string \<Rightarrow> tcp_socket \<Rightarrow> string \<times> tcp_socket" where
  "retr_loop body outbuf s =
     (case file_gets 1023 body of
        None \<Rightarrow> (outbuf, s)
      | Some (l, rest) \<Rightarrow>
          (let buffer = cstr l
           in if length buffer + length outbuf > 1022 then
                (case tcp_send_nolog outbuf s of (rc, s') \<Rightarrow>
                   if rc < 0 then (outbuf, s') else retr_loop rest buffer s')
              else retr_loop rest (outbuf @ buffer) s))"
  by pat_completeness auto
termination
  by (relation "measure (\<lambda>(body, outbuf, s). length body)") (auto dest!: file_gets_shorter)

declare retr_loop.simps [simp del]

definition octets_line :: "mdirent \<Rightarrow> string" where
  "octets_line e = ''+OK '' @ dec_int (filesize e) @ '' octets'' @ CRLF"

definition seen :: "mdir \<Rightarrow> int \<Rightarrow> mdir" where
  "seen m n = (if lastmsg m < n then m\<lparr>lastmsg := n\<rparr> else m)"

definition pop3_retr :: "pop3_conn \<Rightarrow> mdir \<Rightarrow> string \<Rightarrow> pop3_conn \<times> mdir" where
  "pop3_retr c m line =
     (let n = arg_number (arg4 line) 0
      in if n < 1 \<or> mboxtotal m < n then (say c no_such_message, m)
         else if deleted (nth_msg m n) then (say c no_such_message, m)
         else case files c (filename (nth_msg m n)) of
           None \<Rightarrow> (say c (''-ERR Error opening msg file'' @ CRLF), m)
         | Some body \<Rightarrow>
             (let c1 = say c (octets_line (nth_msg m n));
                  (outbuf, s1) = retr_loop body [] (sock c1);
                  s2 = snd (tcp_send_nolog outbuf s1)
              in (say (c1\<lparr>sock := s2\<rparr>) (''.'' @ CRLF), seen m n)))"

definition pop3_dele :: "pop3_conn \<Rightarrow> mdir \<Rightarrow> string \<Rightarrow> pop3_conn \<times> mdir" where
  "pop3_dele c m line =
     (let n = arg_number (arg4 line) 0
      in if n < 1 \<or> mboxtotal m < n then (say c no_such_message, m)
         else if deleted (nth_msg m n) then
           (say c (''-ERR Message '' @ dec_int n @ '' already deleted'' @ CRLF), m)
         else
           let m1 = m\<lparr>msgs := (msgs m)[nat (n - 1) := (nth_msg m n)\<lparr>deleted := True\<rparr>],
                      mboxcount := mboxcount m - 1\<rparr>
           in (say c (''+OK Message '' @ dec_int n @ '' deleted'' @ CRLF), seen m1 n))"

definition pop3_capa :: "pop3_conn \<Rightarrow> pop3_conn" where
  "pop3_capa c = foldl say c [''+OK Capability list follows'' @ CRLF, ''USER'' @ CRLF, ''TOP'' @ CRLF,
     ''UIDL'' @ CRLF, ''STLS'' @ CRLF, ''.'' @ CRLF]"

definition pop3_noop :: "pop3_conn \<Rightarrow> pop3_conn" where
  "pop3_noop c = say c (''+OK'' @ CRLF)"

definition pop3_last :: "pop3_conn \<Rightarrow> mdir \<Rightarrow> pop3_conn" where
  "pop3_last c m = say c (''+OK '' @ dec_int (lastmsg m) @ CRLF)"

definition pop3_rset :: "pop3_conn \<Rightarrow> mdir \<Rightarrow> pop3_conn \<times> mdir" where
  "pop3_rset c m =
     (say c (''+OK'' @ CRLF),
      m\<lparr>msgs := map (\<lambda>e. e\<lparr>deleted := False\<rparr>) (box m) @ drop (nat (mboxtotal m)) (msgs m),
        mboxcount := mboxtotal m\<rparr>)"

definition pop3_stls :: "pop3_env \<Rightarrow> pop3_conn \<Rightarrow> pop3_conn" where
  "pop3_stls env c =
     (if ssl_is_loaded env \<and> \<not> using_tls (sock c) then
        let c1 = (say c (''+OK'' @ CRLF))\<lparr>cstate := 0\<rparr>
        in c1\<lparr>sock := snd (ssl_accept (tls_new_ok env) (tls_hs_ok env) (sock c1))\<rparr>
      else say c (''-ERR'' @ CRLF))"

text \<open>The two loops of TOP: the header up to the first blank line, then a number of body lines.\<close>

function top_header :: "string \<Rightarrow> pop3_conn \<Rightarrow> string \<times> pop3_conn" where
  "top_header body c =
     (case file_gets 1023 body of
        None \<Rightarrow> (body, c)
      | Some (l, rest) \<Rightarrow>
          (let c' = say c (cstr l)
           in if striprn (cstr l) = [] then (rest, c') else top_header rest c'))"
  by pat_completeness auto
termination
  by (relation "measure (\<lambda>(body, c). length body)") (auto dest!: file_gets_shorter)

declare top_header.simps [simp del]

fun top_body :: "nat \<Rightarrow> string \<Rightarrow> pop3_conn \<Rightarrow> pop3_conn" where
  "top_body 0 body c = c"
| "top_body (Suc k) body c =
     (case file_gets 1023 body of
        None \<Rightarrow> c
      | Some (l, rest) \<Rightarrow> top_body k rest (say c (cstr l)))"

definition pop3_top :: "pop3_conn \<Rightarrow> mdir \<Rightarrow> string \<Rightarrow> pop3_conn \<times> mdir" where
  "pop3_top c m line =
     (let p = arg4 line;
          n = arg_number p 0;
          q = skip_blanks (dropWhile isdigit p);
          k = arg_number q 0
      in if n < 1 \<or> mboxtotal m < n then (say c no_such_message, m)
         else if deleted (nth_msg m n) then (say c no_such_message, m)
         else case files c (filename (nth_msg m n)) of
           None \<Rightarrow> (say c (''-ERR Error opening msg file'' @ CRLF), m)
         | Some body \<Rightarrow>
             (let (rest, c1) = top_header body (say c (octets_line (nth_msg m n)));
                  c2 = top_body (nat k) rest c1
              in (say c2 (''.'' @ CRLF), seen m n)))"

section \<open>The command loop\<close>

text \<open>The chain of comparisons shared by \<open>pop3_local\<close> and \<open>pop3_remote\<close>, without QUIT.\<close>

definition pop3_command :: "pop3_conn \<Rightarrow> mdir \<Rightarrow> string \<Rightarrow> pop3_conn \<times> mdir" where
  "pop3_command c m line =
     (let l = cstr line
      in if strcaseeq l ''capa'' then (pop3_capa c, m)
         else if strcaseeq l ''stat'' then (pop3_stat c m, m)
         else if strncaseeq l ''list'' 4 then (pop3_list c m line, m)
         else if strncaseeq l ''retr'' 4 then pop3_retr c m line
         else if strncaseeq l ''dele'' 4 then pop3_dele c m line
         else if strcaseeq l ''noop'' then (pop3_noop c, m)
         else if strcaseeq l ''last'' then (pop3_last c m, m)
         else if strcaseeq l ''rset'' then pop3_rset c m
         else if strncaseeq l ''top'' 3 then pop3_top c m line
         else if strncaseeq l ''uidl'' 4 then (pop3_uidl c m line, m)
         else (say c (''-ERR Unknown Command'' @ CRLF), m))"

lemma tcp_send_avail [simp]: "avail (snd (tcp_send_nolog buf s)) = avail s"
  by (auto simp: tcp_send_nolog_def tcp_close_def avail_def split: list.splits tx.splits)

lemma say_avail [simp]: "avail (sock (say c text)) = avail (sock c)"
  by (simp add: say_def tcp_fprintf_def)

lemma foldl_say_avail [simp]: "avail (sock (foldl say c ts)) = avail (sock c)"
  by (induction ts arbitrary: c) simp_all

lemma list_lines_avail [simp]: "avail (sock (list_lines f i es c)) = avail (sock c)"
  by (induction f i es c rule: list_lines.induct) simp_all

lemma retr_loop_avail: "avail (snd (retr_loop body outbuf s)) = avail s"
proof (induction body outbuf s rule: retr_loop.induct)
  case (1 body outbuf s)
  have send: "avail s' = avail s" if "tcp_send_nolog outbuf s = (rc, s')" for rc s'
    using tcp_send_avail [of outbuf s] that by simp
  show ?case
    by (subst retr_loop.simps)
      (auto simp: Let_def 1 send split: option.splits prod.splits)
qed

lemma top_header_avail: "avail (sock (snd (top_header body c))) = avail (sock c)"
proof (induction body c rule: top_header.induct)
  case (1 body c)
  then show ?case
    by (subst top_header.simps) (auto simp: Let_def split: option.splits)
qed

lemma top_body_avail [simp]: "avail (sock (top_body k body c)) = avail (sock c)"
  by (induction k body c rule: top_body.induct) (auto split: option.splits)

lemma pop3_retr_avail: "avail (sock (fst (pop3_retr c m line))) = avail (sock c)"
proof -
  have "avail s1 = avail (sock c)" if "retr_loop body [] (sock (say c t)) = (ob, s1)" for body t ob s1
    using retr_loop_avail [of body "[]" "sock (say c t)"] that by simp
  then show ?thesis
    by (auto simp: pop3_retr_def Let_def split: option.splits prod.splits)
qed

lemma pop3_top_avail: "avail (sock (fst (pop3_top c m line))) = avail (sock c)"
proof -
  have "avail (sock c1) = avail (sock c)" if "top_header body (say c t) = (r, c1)" for body t r c1
    using top_header_avail [of body "say c t"] that by simp
  then show ?thesis
    by (auto simp: pop3_top_def Let_def split: option.splits prod.splits)
qed

lemma pop3_command_avail: "avail (sock (fst (pop3_command c m line))) = avail (sock c)"
  by (simp add: pop3_command_def Let_def pop3_capa_def pop3_stat_def pop3_list_def pop3_dele_def
      pop3_noop_def pop3_last_def pop3_rset_def pop3_uidl_def pop3_retr_avail pop3_top_avail)

text \<open>
  The \<open>do ... while (1)\<close> loop: True with QUIT, False when reading fails. It ends because every
  line read uses up input of the socket.
\<close>

function pop3_loop :: "pop3_conn \<Rightarrow> mdir \<Rightarrow> bool \<times> pop3_conn \<times> mdir" where
  "pop3_loop c m =
     (case tcp_fgets 127 (sock c) of
        (None, s) \<Rightarrow> (False, c\<lparr>sock := s\<rparr>, m)
      | (Some raw, s) \<Rightarrow>
          (let line = striprn_buf raw; c1 = c\<lparr>sock := s\<rparr>
           in if strcaseeq (cstr line) ''quit'' then (True, say c1 (''+OK Goodbye'' @ CRLF), m)
              else pop3_loop (fst (pop3_command c1 m line)) (snd (pop3_command c1 m line))))"
  by pat_completeness auto
termination
proof (relation "measure (\<lambda>(c, m). avail (sock c))", goal_cases)
  case (2 c m res s raw line c1)
  then have "tcp_fgets 127 (sock c) = (Some raw, s)" by simp
  from tcp_fgets_avail [OF this] 2 show ?case by (simp add: pop3_command_avail case_prod_beta)
qed simp

declare pop3_loop.simps [simp del]

section \<open>Opening and closing a mailbox\<close>

text \<open>The directory scan of \<open>pop3_local\<close>; \<open>k\<close> is the number of entries found so far.\<close>

fun mbox_scan :: "pop3_env \<Rightarrow> string \<Rightarrow> string list \<Rightarrow> int \<Rightarrow> mdirent list" where
  "mbox_scan env dirname [] k = []"
| "mbox_scan env dirname (name # names) k =
     (if name = ''.'' \<or> name = ''..'' then mbox_scan env dirname names k
      else
        let tmpname = fixslashes (snprintf 255 (dirname @ ''/'' @ name))
        in case stat_file env tmpname of
             None \<Rightarrow> mbox_scan env dirname names k
           | Some (sz, isdir) \<Rightarrow>
               (if isdir then mbox_scan env dirname names k
                else \<lparr>localid = k + 1, deleted = False, filesize = i32 sz,
                       filename = snprintf 511 tmpname, uidl = snprintf 99 name\<rparr>
                     # mbox_scan env dirname names (k + 1)))"

definition open_box :: "mdirent list \<Rightarrow> mdir" where
  "open_box es = \<lparr>mboxtotal = int (length es), mboxcount = int (length es), lastmsg = 0, msgs = es\<rparr>"

text \<open>After QUIT a local mailbox removes the files of its deleted messages.\<close>

fun unlink_deleted :: "mdirent list \<Rightarrow> (string \<rightharpoonup> string) \<Rightarrow> (string \<rightharpoonup> string)" where
  "unlink_deleted [] fs = fs"
| "unlink_deleted (e # es) fs = unlink_deleted es (if deleted e then fs(filename e := None) else fs)"

definition local_dirname :: "pop3_env \<Rightarrow> conndata \<Rightarrow> string" where
  "local_dirname env d =
     snprintf 255 (var_path env @ ''/domains/'' @ dec_pad 4 (d_did d) @ ''/mailspool/'' @ d_username d)"

definition pop3_local :: "pop3_env \<Rightarrow> pop3_conn \<Rightarrow> pop3_conn" where
  "pop3_local env c =
     (let dirname = local_dirname env (dat c)
      in if stat_file env dirname = None \<and> \<not> mkdir_ok env dirname then c
         else
           let m = open_box (mbox_scan env dirname (read_dir env dirname) 0);
               (quit, c1, m1) = pop3_loop c m
           in if quit then c1\<lparr>files := unlink_deleted (box m1) (files c1)\<rparr> else c1)"

text \<open>A remote mailbox comes from the header query; QUIT moves deleted messages to folder 4.\<close>

definition remote_filename :: "pop3_env \<Rightarrow> conndata \<Rightarrow> int \<Rightarrow> string" where
  "remote_filename env d i =
     fixslashes (snprintf 511 (var_path env @ ''/domains/'' @ dec_pad 4 (d_did d) @ ''/''
       @ dec_pad 4 (mailcurrent d) @ ''/'' @ dec_pad 4 1 @ ''/'' @ dec_pad 6 i @ ''.msg''))"

definition bytes_string :: "byte list \<Rightarrow> string" where
  "bytes_string bs = cstr (map (\<lambda>b. char_of (unat b)) bs)"

definition remote_entry :: "pop3_env \<Rightarrow> conndata \<Rightarrow> int \<times> int \<times> string \<Rightarrow> mdirent" where
  "remote_entry env d row = (case row of (i, sz, u) \<Rightarrow>
     \<lparr>localid = i, deleted = False, filesize = sz, filename = remote_filename env d i,
       uidl = bytes_string (decode_base64 99 u)\<rparr>)"

definition move_deleted :: "mdirent list \<Rightarrow> int list" where
  "move_deleted es = map localid (filter deleted es)"

definition pop3_remote :: "pop3_env \<Rightarrow> pop3_conn \<Rightarrow> pop3_conn" where
  "pop3_remote env c =
     (case q_headers env (mailcurrent (dat c)) (d_uid (dat c)) of
        None \<Rightarrow> c
      | Some rows \<Rightarrow>
          (let m = open_box (map (remote_entry env (dat c)) rows);
               (quit, c1, m1) = pop3_loop c m
           in if quit then c1\<lparr>moved := moved c1 @ move_deleted (box m1)\<rparr> else c1))"

section \<open>Authorization\<close>

text \<open>The local variables of \<open>pop3_dorequest\<close>.\<close>

record pop3_auth =
  a_username :: string
  a_domain :: string
  a_password :: string
  a_mbox :: int

definition no_auth :: pop3_auth where
  "no_auth = \<lparr>a_username = [], a_domain = [], a_password = [], a_mbox = 0\<rparr>"

datatype auth_result = Continue pop3_conn pop3_auth | Finished pop3_conn | LoggedIn pop3_conn pop3_auth

definition tls_missing :: "pop3_env \<Rightarrow> pop3_conn \<Rightarrow> bool" where
  "tls_missing env c \<longleftrightarrow> ssl_is_loaded env \<and> \<not> using_tls (sock c) \<and> require_tls env"

definition pop3_user :: "string \<Rightarrow> pop3_auth \<Rightarrow> pop3_auth" where
  "pop3_user arg a =
     (let username = snprintf 63 arg;
          (username, mbox) = (case strchr username (CHR '':'') of
             None \<Rightarrow> (username, a_mbox a)
           | Some (u, p) \<Rightarrow> (u, if atoi p < 0 then 0 else atoi p));
          (username, domain) = (case strchr username (CHR ''@'') of
             None \<Rightarrow> (username, a_domain a)
           | Some (u, p) \<Rightarrow> (u, snprintf 63 p))
      in a\<lparr>a_username := username, a_domain := domain, a_mbox := mbox\<rparr>)"

definition pop3_auth_step ::
  "pop3_env \<Rightarrow> database \<Rightarrow> pop3_conn \<Rightarrow> pop3_auth \<Rightarrow> string \<Rightarrow> auth_result" where
  "pop3_auth_step env db c a line =
     (let l = cstr line
      in if strcaseeq l ''quit'' then Finished (say c (''+OK Goodbye'' @ CRLF))
         else if strcaseeq l ''capa'' then Continue (pop3_capa c) a
         else if strcaseeq l ''stls'' then Continue (pop3_stls env c) a
         else if strncaseeq l ''user'' 4 then
           (if tls_missing env c then Continue (say c (''-ERR TLS Required'' @ CRLF)) a
            else
              let a1 = pop3_user (arg4 line) a
              in Continue (say c (''+OK USER '' @ [CHR 0x27] @ a_username a1 @ [CHR 0x27] @ '' MBOX ''
                   @ [CHR 0x27] @ dec_int (a_mbox a1) @ [CHR 0x27] @ CRLF)) a1)
         else if strncaseeq l ''pass'' 4 then
           (if tls_missing env c then Continue (say c (''-ERR TLS Required'' @ CRLF)) a
            else
              let a1 = a\<lparr>a_password := snprintf 63 (arg4 line)\<rparr>;
                  (rc, dat1) = auth_login db (dat c) (a_username a1) (a_domain a1) (a_password a1) (a_mbox a1);
                  c1 = c\<lparr>dat := dat1\<rparr>
              in if rc = 0 then LoggedIn (say c1 (''+OK PASS accepted'' @ CRLF)) a1
                 else Continue (say c1 (''-ERR Bad Password'' @ CRLF)) no_auth)
         else Continue (say c (''-ERR Unknown Command'' @ CRLF)) a)"

lemma ssl_accept_avail [simp]: "avail (snd (ssl_accept a b s)) = avail s"
  by (simp add: ssl_accept_def avail_def)

lemma pop3_stls_avail [simp]: "avail (sock (pop3_stls env c)) = avail (sock c)"
  by (simp add: pop3_stls_def Let_def say_def tcp_fprintf_def)

lemma pop3_auth_step_avail:
  "pop3_auth_step env db c a line = Continue c' a' \<Longrightarrow> avail (sock c') = avail (sock c)"
  by (auto simp: pop3_auth_step_def Let_def pop3_capa_def split: if_splits prod.splits)

function pop3_auth_loop ::
  "pop3_env \<Rightarrow> database \<Rightarrow> pop3_conn \<Rightarrow> pop3_auth \<Rightarrow> auth_result" where
  "pop3_auth_loop env db c a =
     (case tcp_fgets 127 (sock c) of
        (None, s) \<Rightarrow> Finished (c\<lparr>sock := s\<rparr>)
      | (Some raw, s) \<Rightarrow>
          (case pop3_auth_step env db (c\<lparr>sock := s\<rparr>) a (striprn_buf raw) of
             Continue c1 a1 \<Rightarrow> pop3_auth_loop env db c1 a1
           | r \<Rightarrow> r))"
  by pat_completeness auto
termination
proof (relation "measure (\<lambda>(env, db, c, a). avail (sock c))", goal_cases)
  case (2 env db c a res s raw c1 a1)
  then have "tcp_fgets 127 (sock c) = (Some raw, s)" by simp
  from tcp_fgets_avail [OF this] pop3_auth_step_avail [OF 2(3)] show ?case by simp
qed simp

declare pop3_auth_loop.simps [simp del]

definition relay_reason :: "pop3_auth \<Rightarrow> string" where
  "relay_reason a = ''POP3 Login: '' @ a_username a @ ''@'' @ a_domain a"

definition pop3_dorequest :: "pop3_env \<Rightarrow> database \<Rightarrow> pop3_conn \<Rightarrow> pop3_conn" where
  "pop3_dorequest env db c =
     (case pop3_auth_loop env db (say c (''+OK Welcome to NullLogic GroupServer POP3d'' @ CRLF)) no_auth of
        LoggedIn c1 a \<Rightarrow>
          (let c2 = c1\<lparr>cstate := 1\<rparr>
           in if \<not> relay_query_ok env then c2\<lparr>rules := rr_purge (clock env) (rules c2)\<rparr>
              else
                let c3 = c2\<lparr>rules := pop3_relay_window (clock env) (dat c2) (relay_reason a) (rules c2)\<rparr>
                in if 0 < a_mbox a then pop3_remote env c3 else pop3_local env c3)
      | Continue c1 a \<Rightarrow> c1
      | Finished c1 \<Rightarrow> c1)"

end
