(* ===== verification/Pop3_Session.thy ===== *)
theory Pop3_Session
  imports Pop3
begin

text \<open>
  Correctness of the POP3 session. On a link that accepts everything, a reply is an append to
  the bytes sent, so each handler has an equation for the whole connection. The mailbox is
  refined to its set of marked messages: a command changes that set as the maildrop of
  RFC 1939 does, QUIT applies it to the file system, and a lost connection does not.
\<close>

section \<open>Replies\<close>

lemma say_push: "link_up (sock c) \<Longrightarrow> say c t = c\<lparr>sock := push (snprintf 2047 t) (sock c)\<rparr>"
  by (simp add: say_def tcp_fprintf_def send_push)

lemma say_link [simp]: "link_up (sock c) \<Longrightarrow> link_up (sock (say c t))"
  by (simp add: say_push)

section \<open>RETR\<close>

lemma file_gets_cstr:
  assumes "file_gets n bs = Some (l, r)" and "is_cstr bs"
  shows "cstr l = l \<and> is_cstr r \<and> bs = l @ r \<and> length l \<le> n - 1"
  using file_gets_Some [OF assms(1)] assms(2) by (auto intro: cstr_id)

text \<open>
  The copy loop sends every byte of a text file in order, and what it keeps in the output
  buffer always leaves room for the terminating NUL.
\<close>

lemma retr_loop_delivers:
  assumes "link_up s" and "is_cstr body" and "length outbuf \<le> 1022"
  shows "\<exists>done rest. retr_loop body outbuf s = (rest, push done s) \<and> done @ rest = outbuf @ body
     \<and> length rest \<le> 1022"
  using assms
proof (induction body outbuf s rule: retr_loop.induct)
  case (1 body outbuf s)
  show ?case
  proof (cases "file_gets 1023 body")
    case None
    then have "body = []" by (simp add: file_gets_def split: if_splits)
    with None 1 show ?thesis
      by (subst retr_loop.simps) (auto intro: exI [of _ "[]"])
  next
    case (Some lr)
    then obtain l r where g: "file_gets 1023 body = Some (l, r)" by (cases lr) auto
    from file_gets_cstr [OF g 1(4)] have
      l: "cstr l = l" "is_cstr r" "body = l @ r" "length l \<le> 1022" by simp_all
    show ?thesis
    proof (cases "length l + length outbuf > 1022")
      case True
      have "\<exists>d rest. retr_loop r l (push outbuf s) = (rest, push d (push outbuf s)) \<and> d @ rest = l @ r
          \<and> length rest \<le> 1022"
        using 1(1) [OF g refl refl, of "int (length outbuf)" "push outbuf s"] True l 1(3)
        by (simp add: send_push)
      then obtain d rest where "retr_loop r l (push outbuf s) = (rest, push (outbuf @ d) s)"
        "d @ rest = l @ r" "length rest \<le> 1022" by auto
      moreover have "retr_loop body outbuf s = retr_loop r l (push outbuf s)"
        using g True l 1(3) by (subst retr_loop.simps) (simp add: send_push)
      ultimately show ?thesis using l(3) by (metis append.assoc)
    next
      case False
      have "\<exists>d rest. retr_loop r (outbuf @ l) s = (rest, push d s) \<and> d @ rest = (outbuf @ l) @ r
          \<and> length rest \<le> 1022"
        using 1(2) [OF g refl refl] False l 1(3) by simp
      moreover have "retr_loop body outbuf s = retr_loop r (outbuf @ l) s"
        using g False l by (subst retr_loop.simps) simp
      ultimately show ?thesis using l(3) by simp
    qed
  qed
qed

lemma octets_line_short: "int_range (filesize e) \<Longrightarrow> snprintf 2047 (octets_line e) = octets_line e"
  using dec_int_length [of "filesize e"] by (simp add: octets_line_def snprintf_short)

lemma snprintf_CRLF: "length t < n - 2 \<Longrightarrow> snprintf n (t @ CRLF) = t @ CRLF"
  by (simp add: snprintf_short)

lemma retr_all:
  assumes "link_up s" and "is_cstr body"
  shows "\<exists>rest done. retr_loop body [] s = (rest, push done s) \<and> done @ rest = body"
  using retr_loop_delivers [OF assms, of "[]"] by auto

definition readable :: "pop3_conn \<Rightarrow> mdir \<Rightarrow> int \<Rightarrow> string \<Rightarrow> bool" where
  "readable c m n body \<longleftrightarrow> 1 \<le> n \<and> n \<le> mboxtotal m \<and> \<not> deleted (nth_msg m n)
     \<and> files c (filename (nth_msg m n)) = Some body \<and> is_cstr body \<and> int_range (filesize (nth_msg m n))"


lemma pop3_retr_reply:
  assumes "link_up (sock c)" and "readable c m n body" and "arg_number (arg4 line) 0 = n"
  shows "pop3_retr c m line =
     (c\<lparr>sock := push (octets_line (nth_msg m n) @ body @ ''.'' @ CRLF) (sock c)\<rparr>, seen m n)"
proof -
  let ?o = "octets_line (nth_msg m n)"
  from assms(1) retr_all [of "push ?o (sock c)" body] assms(2) obtain rest "done" where
    loop: "retr_loop body [] (push ?o (sock c)) = (rest, push done (push ?o (sock c)))" "done @ rest = body"
    by (auto simp: readable_def)
  have join: "done @ rest @ x = body @ x" for x using loop(2) by (metis append.assoc)
  show ?thesis
    using assms
    by (simp add: pop3_retr_def readable_def say_push octets_line_short send_push snprintf_short
        loop(1) join)
qed

section \<open>The maildrop\<close>

text \<open>The messages marked for deletion, by number, and the invariant of the mailbox.\<close>

definition marks :: "mdir \<Rightarrow> int set" where
  "marks m = {n. 1 \<le> n \<and> n \<le> mboxtotal m \<and> deleted (nth_msg m n)}"

definition live :: "mdirent list \<Rightarrow> nat" where
  "live es = length (filter (\<lambda>e. \<not> deleted e) es)"

definition mdir_ok :: "mdir \<Rightarrow> bool" where
  "mdir_ok m \<longleftrightarrow> mboxtotal m = int (length (msgs m)) \<and> mboxcount m = int (live (msgs m))
     \<and> 0 \<le> lastmsg m \<and> lastmsg m \<le> mboxtotal m"

text \<open>Two mailboxes with the same messages up to the deletion marks.\<close>

definition same_mail :: "mdir \<Rightarrow> mdir \<Rightarrow> bool" where
  "same_mail m m' \<longleftrightarrow> map (deleted_update (\<lambda>_. False)) (msgs m) = map (deleted_update (\<lambda>_. False)) (msgs m')"

text \<open>What a command does to the marks of a maildrop of \<open>cnt\<close> messages.\<close>

definition maildrop_step :: "int \<Rightarrow> string \<Rightarrow> int set \<Rightarrow> int set" where
  "maildrop_step cnt line D =
     (let l = cstr line; n = arg_number (arg4 line) 0
      in if strncaseeq l ''dele'' 4 \<and> 1 \<le> n \<and> n \<le> cnt then insert n D
         else if strcaseeq l ''rset'' then {}
         else D)"

lemma live_update:
  "i < length es \<Longrightarrow> \<not> deleted (es ! i) \<Longrightarrow> int (live (es[i := (es ! i)\<lparr>deleted := True\<rparr>])) = int (live es) - 1"
proof (induction es arbitrary: i)
  case (Cons e es)
  then show ?case by (cases i) (auto simp: live_def)
qed simp

lemma live_reset [simp]: "live (map (deleted_update (\<lambda>_. False)) es) = length es"
  by (induction es) (simp_all add: live_def)

lemma mdir_ok_box: "mdir_ok m \<Longrightarrow> box m = msgs m"
  by (simp add: mdir_ok_def box_def)

lemma mdir_ok_seen [inv_intros]: "mdir_ok m \<Longrightarrow> 1 \<le> n \<Longrightarrow> n \<le> mboxtotal m \<Longrightarrow> mdir_ok (seen m n)"
  by (simp add: mdir_ok_def seen_def)

lemma seen_fields [simp]: "msgs (seen m n) = msgs m" "mboxtotal (seen m n) = mboxtotal m"
  "mboxcount (seen m n) = mboxcount m" "marks (seen m n) = marks m"
  by (simp_all add: seen_def marks_def nth_msg_def)

lemma snd_pop3_retr:
  "snd (pop3_retr c m line) = m \<or> (\<exists>n. 1 \<le> n \<and> n \<le> mboxtotal m \<and> snd (pop3_retr c m line) = seen m n)"
  by (auto simp: pop3_retr_def Let_def not_less split: option.splits prod.splits)

lemma snd_pop3_top:
  "snd (pop3_top c m line) = m \<or> (\<exists>n. 1 \<le> n \<and> n \<le> mboxtotal m \<and> snd (pop3_top c m line) = seen m n)"
  by (auto simp: pop3_top_def Let_def not_less split: option.splits prod.splits)

definition mark :: "int \<Rightarrow> mdir \<Rightarrow> mdir" where
  "mark n m = m\<lparr>msgs := (msgs m)[nat (n - 1) := (nth_msg m n)\<lparr>deleted := True\<rparr>], mboxcount := mboxcount m - 1\<rparr>"

lemma snd_pop3_dele:
  "snd (pop3_dele c m line) =
     (let n = arg_number (arg4 line) 0
      in if 1 \<le> n \<and> n \<le> mboxtotal m \<and> \<not> deleted (nth_msg m n) then seen (mark n m) n else m)"
  by (auto simp: pop3_dele_def Let_def mark_def)

lemma snd_pop3_rset:
  "mdir_ok m \<Longrightarrow> snd (pop3_rset c m) =
     m\<lparr>msgs := map (deleted_update (\<lambda>_. False)) (msgs m), mboxcount := mboxtotal m\<rparr>"
  by (simp add: pop3_rset_def mdir_ok_box) (simp add: mdir_ok_def)

lemma mark_ok:
  assumes "mdir_ok m" and "1 \<le> n" and "n \<le> mboxtotal m" and "\<not> deleted (nth_msg m n)"
  shows "mdir_ok (mark n m)" and "marks (mark n m) = insert n (marks m)" and "same_mail m (mark n m)"
proof -
  have i: "nat (n - 1) < length (msgs m)" using assms by (simp add: mdir_ok_def)
  show "mdir_ok (mark n m)"
    using assms i live_update [OF i] by (simp add: mdir_ok_def mark_def nth_msg_def)
  show "same_mail m (mark n m)"
    by (simp add: same_mail_def mark_def nth_msg_def map_update)
      (metis (no_types, lifting) i length_map list_update_id mdirent.unfold_congs(2) nth_map)
  show "marks (mark n m) = insert n (marks m)"
    using assms i by (auto simp: marks_def mark_def nth_msg_def nth_list_update)
qed


lemma same_mail_refl [simp]: "same_mail m m"
  by (simp add: same_mail_def)

lemma same_mail_trans: "same_mail m m1 \<Longrightarrow> same_mail m1 m2 \<Longrightarrow> same_mail m m2"
  by (simp add: same_mail_def)

lemma same_mail_seen [simp]: "same_mail m (seen m' n) = same_mail m m'"
  by (simp add: same_mail_def)

lemma command_words_distinct:
  "strncaseeq l ''dele'' 4 \<Longrightarrow> \<not> strcaseeq l ''rset''"
  "strcaseeq l ''rset'' \<Longrightarrow> \<not> strncaseeq l ''list'' 4 \<and> \<not> strncaseeq l ''retr'' 4 \<and> \<not> strncaseeq l ''dele'' 4"
  "strncaseeq l ''dele'' 4 \<Longrightarrow> \<not> strcaseeq l ''capa'' \<and> \<not> strcaseeq l ''stat'' \<and> \<not> strncaseeq l ''list'' 4
     \<and> \<not> strncaseeq l ''retr'' 4"
  "strcaseeq l ''rset'' \<Longrightarrow> \<not> strcaseeq l ''capa'' \<and> \<not> strcaseeq l ''stat'' \<and> \<not> strcaseeq l ''noop''
     \<and> \<not> strcaseeq l ''last''"
  by (auto simp: strcaseeq_def strncaseeq_def take_map tolower_def isupper_def)

lemma pop3_rset_ok:
  assumes "mdir_ok m"
  shows "mdir_ok (snd (pop3_rset c m))" and "marks (snd (pop3_rset c m)) = {}"
    and "same_mail m (snd (pop3_rset c m))"
  using assms
  by (auto simp: snd_pop3_rset mdir_ok_def marks_def nth_msg_def same_mail_def)

lemma pop3_command_cases:
  obtains (dele) "strncaseeq (cstr line) ''dele'' 4" "pop3_command c m line = pop3_dele c m line"
  | (rset) "strcaseeq (cstr line) ''rset''" "\<not> strncaseeq (cstr line) ''dele'' 4"
      "pop3_command c m line = pop3_rset c m"
  | (other) "\<not> strncaseeq (cstr line) ''dele'' 4" "\<not> strcaseeq (cstr line) ''rset''"
      "snd (pop3_command c m line) = m \<or>
       (\<exists>n. 1 \<le> n \<and> n \<le> mboxtotal m \<and> snd (pop3_command c m line) = seen m n)"
proof (cases "strncaseeq (cstr line) ''dele'' 4")
  case True
  then have "pop3_command c m line = pop3_dele c m line"
    using command_words_distinct [of "cstr line"] by (simp add: pop3_command_def)
  with True show ?thesis by (rule that(1))
next
  case nd: False
  show ?thesis
  proof (cases "strcaseeq (cstr line) ''rset''")
    case True
    then have "pop3_command c m line = pop3_rset c m"
      using command_words_distinct [of "cstr line"] by (simp add: pop3_command_def)
    with True nd show ?thesis using that(2) by blast
  next
    case False
    have "snd (pop3_command c m line) = m \<or>
       (\<exists>n. 1 \<le> n \<and> n \<le> mboxtotal m \<and> snd (pop3_command c m line) = seen m n)"
      using nd False snd_pop3_retr [of c m line] snd_pop3_top [of c m line]
      by (simp add: pop3_command_def Let_def)
    with False nd show ?thesis using that(3) by blast
  qed
qed

text \<open>One command refines one step of the maildrop.\<close>

lemma pop3_command_mail:
  assumes "mdir_ok m"
  shows "mdir_ok (snd (pop3_command c m line))
    \<and> marks (snd (pop3_command c m line)) = maildrop_step (mboxtotal m) line (marks m)
    \<and> same_mail m (snd (pop3_command c m line))"
proof (cases rule: pop3_command_cases [of line c m])
  case dele
  let ?n = "arg_number (arg4 line) 0"
  show ?thesis
  proof (cases "1 \<le> ?n \<and> ?n \<le> mboxtotal m \<and> \<not> deleted (nth_msg m ?n)")
    case True
    then have ok: "mdir_ok (seen (mark ?n m) ?n)"
      using mark_ok(1) [OF assms, of ?n] by (intro mdir_ok_seen) (simp_all add: mark_def)
    with True show ?thesis
      using dele mark_ok [OF assms, of ?n]
      by (simp add: snd_pop3_dele maildrop_step_def Let_def)
  next
    case False
    then have "1 \<le> ?n \<Longrightarrow> ?n \<le> mboxtotal m \<Longrightarrow> ?n \<in> marks m" by (simp add: marks_def)
    with False show ?thesis
      using dele assms command_words_distinct(1) [OF dele(1)]
      by (auto simp: snd_pop3_dele maildrop_step_def Let_def)
  qed
next
  case rset
  then show ?thesis
    using pop3_rset_ok [OF assms] by (simp add: maildrop_step_def)
next
  case other
  then show ?thesis
    using assms by (auto simp: maildrop_step_def Let_def intro: mdir_ok_seen)
qed

section \<open>A session\<close>

text \<open>The commands that the loop of a session reads, and how it ends.\<close>

inductive pop3_run :: "pop3_conn \<Rightarrow> mdir \<Rightarrow> string list \<Rightarrow> bool \<Rightarrow> pop3_conn \<Rightarrow> mdir \<Rightarrow> bool" where
  run_lost: "tcp_fgets 127 (sock c) = (None, s) \<Longrightarrow> pop3_run c m [] False (c\<lparr>sock := s\<rparr>) m"
| run_quit: "tcp_fgets 127 (sock c) = (Some raw, s) \<Longrightarrow> strcaseeq (cstr (striprn_buf raw)) ''quit'' \<Longrightarrow>
     pop3_run c m [] True (say (c\<lparr>sock := s\<rparr>) (''+OK Goodbye'' @ CRLF)) m"
| run_step: "tcp_fgets 127 (sock c) = (Some raw, s) \<Longrightarrow> \<not> strcaseeq (cstr (striprn_buf raw)) ''quit'' \<Longrightarrow>
     pop3_command (c\<lparr>sock := s\<rparr>) m (striprn_buf raw) = (c1, m1) \<Longrightarrow> pop3_run c1 m1 ls q c2 m2 \<Longrightarrow>
     pop3_run c m (striprn_buf raw # ls) q c2 m2"

lemma pop3_loop_run: "pop3_loop c m = (q, c2, m2) \<Longrightarrow> \<exists>ls. pop3_run c m ls q c2 m2"
proof (induction c m rule: pop3_loop.induct)
  case (1 c m)
  obtain r s where f: "tcp_fgets 127 (sock c) = (r, s)" by fastforce
  show ?case
  proof (cases r)
    case None
    with f 1(2) show ?thesis
      by (subst (asm) pop3_loop.simps) (auto intro: run_lost)
  next
    case (Some raw)
    let ?l = "striprn_buf raw" and ?c = "c\<lparr>sock := s\<rparr>"
    show ?thesis
    proof (cases "strcaseeq (cstr ?l) ''quit''")
      case True
      with f Some 1(2) show ?thesis
        using run_quit [of c raw s m] by (subst (asm) pop3_loop.simps) auto
    next
      case False
      obtain c1 m1 where cmd: "pop3_command ?c m ?l = (c1, m1)" by fastforce
      with f Some False 1(2) have "pop3_loop c1 m1 = (q, c2, m2)"
        by (subst (asm) pop3_loop.simps) simp
      with 1(1) [OF f [symmetric] Some refl refl False] cmd obtain ls where "pop3_run c1 m1 ls q c2 m2" by auto
      with f Some False cmd show ?thesis by (metis run_step)
    qed
  qed
qed

lemma pop3_run_loop: "pop3_run c m ls q c2 m2 \<Longrightarrow> pop3_loop c m = (q, c2, m2)"
  by (induction rule: pop3_run.induct) (subst pop3_loop.simps; simp)+

definition marks_after :: "int \<Rightarrow> int set \<Rightarrow> string list \<Rightarrow> int set" where
  "marks_after cnt D ls = foldl (\<lambda>D l. maildrop_step cnt l D) D ls"

lemma same_mail_total: "mdir_ok m \<Longrightarrow> mdir_ok m' \<Longrightarrow> same_mail m m' \<Longrightarrow> mboxtotal m' = mboxtotal m"
  unfolding same_mail_def mdir_ok_def by (metis length_map)

lemma pop3_run_mail:
  assumes "pop3_run c m ls q c2 m2" and "mdir_ok m"
  shows "mdir_ok m2 \<and> marks m2 = marks_after (mboxtotal m) (marks m) ls \<and> same_mail m m2"
  using assms
proof (induction rule: pop3_run.induct)
  case (run_step c raw s m c1 m1 ls q c2 m2)
  from pop3_command_mail [OF run_step.prems, of "c\<lparr>sock := s\<rparr>" "striprn_buf raw"] run_step.hyps(3)
  have m1: "mdir_ok m1" "marks m1 = maildrop_step (mboxtotal m) (striprn_buf raw) (marks m)"
    "same_mail m m1" by auto
  from run_step.IH [OF m1(1)] m1 same_mail_total [OF run_step.prems m1(1,3)] show ?case
    by (auto simp: marks_after_def intro: same_mail_trans)
qed (simp_all add: marks_after_def)


section \<open>Frame conditions\<close>

text \<open>A command touches nothing of the connection but its socket.\<close>

definition sock_only :: "pop3_conn \<Rightarrow> pop3_conn \<Rightarrow> bool" where
  "sock_only c c' \<longleftrightarrow> c' = c\<lparr>sock := sock c'\<rparr>"

lemma sock_only_refl [simp]: "sock_only c c"
  by (simp add: sock_only_def)

lemma sock_only_upd [simp]: "sock_only c (c'\<lparr>sock := s\<rparr>) = sock_only c c'"
  by (auto simp: sock_only_def) (metis pop3_conn.surjective pop3_conn.update_convs(2))+

lemma sock_only_trans: "sock_only c c1 \<Longrightarrow> sock_only c1 c2 \<Longrightarrow> sock_only c c2"
  by (auto simp: sock_only_def) (metis pop3_conn.surjective pop3_conn.update_convs(2))

lemma sock_only_say [simp]: "sock_only c (say c' t) = sock_only c c'"
  by (simp add: say_def)

lemma sock_only_foldl [simp]: "sock_only c (foldl say c' ts) = sock_only c c'"
  by (induction ts arbitrary: c') simp_all

lemma sock_only_list_lines [simp]: "sock_only c (list_lines f i es c') = sock_only c c'"
  by (induction f i es c' rule: list_lines.induct) simp_all

lemma sock_only_top_header: "sock_only c (snd (top_header body c')) = sock_only c c'"
proof (induction body c' rule: top_header.induct)
  case (1 body c')
  then show ?case by (subst top_header.simps) (auto simp: Let_def split: option.splits)
qed

lemma sock_only_top_body [simp]: "sock_only c (top_body k body c') = sock_only c c'"
  by (induction k body c' rule: top_body.induct) (auto split: option.splits)

lemma sock_only_top: "sock_only c (fst (pop3_top c m line))"
proof -
  have "sock_only c c1" if "top_header body (say c t) = (r, c1)" for body t r c1
    using sock_only_top_header [of c body "say c t"] that by simp
  then show ?thesis by (auto simp: pop3_top_def Let_def split: option.splits prod.splits)
qed

lemma sock_only_retr: "sock_only c (fst (pop3_retr c m line))"
  by (auto simp: pop3_retr_def Let_def split: option.splits prod.splits)

lemma sock_only_command: "sock_only c (fst (pop3_command c m line))"
  by (simp add: pop3_command_def Let_def pop3_capa_def pop3_stat_def pop3_list_def pop3_dele_def
      pop3_noop_def pop3_last_def pop3_rset_def pop3_uidl_def sock_only_top sock_only_retr)

lemma sock_only_run: "pop3_run c m ls q c2 m2 \<Longrightarrow> sock_only c c2"
proof (induction rule: pop3_run.induct)
  case (run_step c raw s m c1 m1 ls q c2 m2)
  have "sock_only c (c\<lparr>sock := s\<rparr>)" by simp
  moreover have "sock_only (c\<lparr>sock := s\<rparr>) c1"
    using sock_only_command [of "c\<lparr>sock := s\<rparr>" m "striprn_buf raw"] run_step.hyps(3) by simp
  ultimately show ?case using run_step.IH by (blast intro: sock_only_trans)
qed simp_all

lemma sock_only_fields: "sock_only c c' \<Longrightarrow> files c' = files c \<and> rules c' = rules c \<and> moved c' = moved c
    \<and> dat c' = dat c \<and> cstate c' = cstate c"
  unfolding sock_only_def by (metis pop3_conn.select_convs pop3_conn.simps(6-12) pop3_conn.surjective
      pop3_conn.update_convs(2))


section \<open>A script of commands\<close>

text \<open>On a healthy link a command only appends to what was sent.\<close>

definition pushes :: "tcp_socket \<Rightarrow> pop3_conn \<Rightarrow> bool" where
  "pushes s c \<longleftrightarrow> (\<exists>t. sock c = push t s)"

lemma pushes_self [simp]: "pushes (sock c) c"
  unfolding pushes_def by (metis push_Nil)

lemma pushes_say [simp]: "link_up s \<Longrightarrow> pushes s c \<Longrightarrow> pushes s (say c t)"
  unfolding pushes_def by (auto simp: say_push)

lemma pushes_foldl [simp]: "link_up s \<Longrightarrow> pushes s c \<Longrightarrow> pushes s (foldl say c ts)"
  by (induction ts arbitrary: c) simp_all

lemma pushes_list_lines [simp]: "link_up s \<Longrightarrow> pushes s c \<Longrightarrow> pushes s (list_lines f i es c)"
  by (induction f i es c rule: list_lines.induct) simp_all

lemma pushes_top_header: "link_up s \<Longrightarrow> pushes s c \<Longrightarrow> pushes s (snd (top_header body c))"
proof (induction body c rule: top_header.induct)
  case (1 body c)
  then show ?case by (subst top_header.simps) (auto simp: Let_def split: option.splits)
qed

lemma pushes_top_body [simp]: "link_up s \<Longrightarrow> pushes s c \<Longrightarrow> pushes s (top_body k body c)"
  by (induction k body c rule: top_body.induct) (auto split: option.splits)

lemma retr_loop_push: "link_up s \<Longrightarrow> \<exists>t. snd (retr_loop body outbuf s) = push t s"
proof (induction body outbuf s rule: retr_loop.induct)
  case (1 body outbuf s)
  show ?case
  proof (cases "file_gets 1023 body")
    case None
    then show ?thesis by (subst retr_loop.simps) (auto intro: exI [of _ "[]"])
  next
    case (Some lr)
    then obtain l r where g: "file_gets 1023 body = Some (l, r)" by (cases lr) auto
    have "\<exists>t. snd (retr_loop r (cstr l) (push outbuf s)) = push t s"
      if "length (cstr l) + length outbuf > 1022"
      using 1(1) [OF g refl refl that, of "int (length outbuf)" "push outbuf s"] 1(3)
      by (auto simp: send_push)
    moreover have "\<exists>t. snd (retr_loop r (outbuf @ cstr l) s) = push t s"
      if "\<not> length (cstr l) + length outbuf > 1022"
      using 1(2) [OF g refl refl that] 1(3) by auto
    ultimately show ?thesis
      using g 1(3) by (subst retr_loop.simps) (auto simp: send_push Let_def)
  qed
qed

lemma pushes_retr: 
  assumes "link_up (sock c)"
  shows "pushes (sock c) (fst (pop3_retr c m line))"
proof -
  have "pushes (sock c) (say ((say c t)\<lparr>sock := snd (tcp_send_nolog ob s1)\<rparr>) u)"
    if r: "retr_loop body [] (sock (say c t)) = (ob, s1)" for body t u ob s1
  proof -
    obtain v where "s1 = push v (sock c)"
      using retr_loop_push [of "sock (say c t)" body "[]"] assms r by (auto simp: say_push)
    then have "pushes (sock c) ((say c t)\<lparr>sock := snd (tcp_send_nolog ob s1)\<rparr>)"
      using assms by (auto simp: pushes_def send_push)
    with assms show ?thesis by simp
  qed
  with assms show ?thesis
    by (auto simp: pop3_retr_def Let_def split: option.splits prod.splits)
qed

lemma pushes_top:
  assumes "link_up (sock c)"
  shows "pushes (sock c) (fst (pop3_top c m line))"
proof -
  have "pushes (sock c) c1" if "top_header body (say c t) = (r, c1)" for body t r c1
    using pushes_top_header [of "sock c" "say c t" body] that assms by simp
  with assms show ?thesis by (auto simp: pop3_top_def Let_def split: option.splits prod.splits)
qed

lemma pushes_command: "link_up (sock c) \<Longrightarrow> pushes (sock c) (fst (pop3_command c m line))"
  by (simp add: pop3_command_def Let_def pop3_capa_def pop3_stat_def pop3_list_def pop3_dele_def
      pop3_noop_def pop3_last_def pop3_rset_def pop3_uidl_def pushes_top pushes_retr)

lemma pushes_link:
  assumes "pushes s c"
  shows "link_up (sock c) = link_up s" "buf_ok (sock c) = buf_ok s" "stream (sock c) = stream s"
  using assms by (auto simp: pushes_def)


text \<open>A line that a client can send as one command other than QUIT.\<close>

definition command_line :: "string \<Rightarrow> bool" where
  "command_line l \<longleftrightarrow> is_cstr l \<and> LF \<notin> set l \<and> striprn l = l \<and> length l < 126 \<and> \<not> strcaseeq l ''quit''"

definition script :: "string list \<Rightarrow> string" where
  "script ls = concat (map (\<lambda>l. l @ CRLF) ls)"

definition session_ready :: "tcp_socket \<Rightarrow> bool" where
  "session_ready s \<longleftrightarrow> link_up s \<and> buf_ok s"

lemma script_simps [simp]: "script [] = []" "script (l # ls) = l @ CRLF @ script ls"
  by (simp_all add: script_def)

lemma read_command:
  assumes "session_ready s" and "stream s = l @ CRLF @ rest" and "is_cstr l" and "LF \<notin> set l"
    and "striprn l = l" and "length l < 126"
  shows "\<exists>raw s'. tcp_fgets 127 s = (Some raw, s') \<and> cstr (striprn_buf raw) = l
     \<and> stream s' = rest \<and> session_ready s' \<and> tx_same s s'"
proof -
  have "stream s = (l @ [CR]) @ LF # rest" "LF \<notin> set (l @ [CR])" "length (l @ [CR]) < 127"
    using assms by (simp_all add: control_chars)
  then obtain s' where f: "tcp_fgets 127 s = (Some (l @ CRLF), s')" "stream s' = rest"
    "buf_ok s'" "open_sock s'"
    using tcp.fgets_first_line [of s "l @ [CR]" rest 127] assms(1)
    by (auto simp: session_ready_def link_up_def control_chars)
  have "is_cstr (l @ CRLF)" using assms(3) by (simp add: control_chars)
  then have "cstr (striprn_buf (l @ CRLF)) = l"
    using assms(5) by (simp add: cstr_striprn_buf cstr_id)
  moreover have "tx_same s s'" using tcp_fgets_frame [OF f(1)] .
  ultimately show ?thesis
    using f assms(1) by (auto simp: session_ready_def link_up_def tx_same_def)
qed

lemma takeWhile_drop: "n \<le> length (takeWhile P xs) \<Longrightarrow> takeWhile P (drop n xs) = drop n (takeWhile P xs)"
proof (induction xs arbitrary: n)
  case (Cons x xs)
  then show ?case by (cases n) (auto split: if_splits)
qed simp

lemma arg4_cstr: "4 \<le> length (cstr line) \<Longrightarrow> arg4 (cstr line) = arg4 line"
  using cstr_id [of "drop 4 (cstr line)"] by (simp add: arg4_def) (simp add: cstr_def takeWhile_drop)

lemma strncaseeq_length: "strncaseeq l w 4 \<Longrightarrow> length w = 4 \<Longrightarrow> 4 \<le> length l"
  unfolding strncaseeq_def by (metis le_cases length_map length_take min.absorb1 min.absorb2 order_refl)

lemma maildrop_step_cstr: "maildrop_step cnt line D = maildrop_step cnt (cstr line) D"
proof (cases "strncaseeq (cstr line) ''dele'' 4")
  case True
  from strncaseeq_length [OF this] have "arg4 line = arg4 (cstr line)" by (simp add: arg4_cstr)
  then show ?thesis by (simp add: maildrop_step_def cstr_id)
qed (simp add: maildrop_step_def cstr_id)

lemma marks_after_cstr: "marks_after cnt D ls = marks_after cnt D (map cstr ls)"
  by (induction ls arbitrary: D) (simp_all add: marks_after_def maildrop_step_cstr [symmetric])

lemma pop3_run_prefix:
  assumes "session_ready (sock c)" and "stream (sock c) = script ls @ rest"
    and "\<forall>l \<in> set ls. command_line l"
  shows "\<exists>bufs c1 m1. map cstr bufs = ls \<and> session_ready (sock c1) \<and> stream (sock c1) = rest
     \<and> (\<forall>bs q c2 m2. pop3_run c1 m1 bs q c2 m2 \<longrightarrow> pop3_run c m (bufs @ bs) q c2 m2)"
  using assms
proof (induction ls arbitrary: c m)
  case Nil
  then show ?case by (intro exI [of _ "[]"] exI [of _ c] exI [of _ m]) simp
next
  case (Cons l ls)
  have cl: "command_line l" using Cons.prems by simp
  with read_command [OF Cons(2), of l] Cons(3) obtain raw s where
    f: "tcp_fgets 127 (sock c) = (Some raw, s)" "cstr (striprn_buf raw) = l"
    "stream s = script ls @ rest" "session_ready s"
    by (auto simp: command_line_def)
  obtain c1 m1 where cmd: "pop3_command (c\<lparr>sock := s\<rparr>) m (striprn_buf raw) = (c1, m1)" by fastforce
  have "pushes s c1"
    using pushes_command [of "c\<lparr>sock := s\<rparr>" m "striprn_buf raw"] f(4) cmd by (simp add: session_ready_def)
  from pushes_link [OF this] f have "session_ready (sock c1)"
    "stream (sock c1) = script ls @ rest" by (simp_all add: session_ready_def)
  from Cons.IH [OF this, of m1] Cons.prems obtain bufs c2 m2 where
    b: "map cstr bufs = ls" "session_ready (sock c2)" "stream (sock c2) = rest"
    "\<And>bs q c3 m3. pop3_run c2 m2 bs q c3 m3 \<Longrightarrow> pop3_run c1 m1 (bufs @ bs) q c3 m3" by auto
  have "\<not> strcaseeq (cstr (striprn_buf raw)) ''quit''" using cl f(2) by (simp add: command_line_def)
  from run_step [OF f(1) this cmd] b f(2) show ?case
    by (intro exI [of _ "striprn_buf raw # bufs"] exI [of _ c2] exI [of _ m2]) auto
qed

text \<open>A script that ends with QUIT is executed to its end.\<close>

lemma pop3_run_script:
  assumes "session_ready (sock c)" and "stream (sock c) = script ls @ ''QUIT'' @ CRLF @ rest"
    and "\<forall>l \<in> set ls. command_line l"
  shows "\<exists>bufs c2 m2. pop3_run c m bufs True c2 m2 \<and> map cstr bufs = ls"
proof -
  from pop3_run_prefix [OF assms] obtain bufs c1 m1 where
    b: "map cstr bufs = ls" "session_ready (sock c1)" "stream (sock c1) = ''QUIT'' @ CRLF @ rest"
    "\<And>bs q c2 m2. pop3_run c1 m1 bs q c2 m2 \<Longrightarrow> pop3_run c m (bufs @ bs) q c2 m2" by blast
  have "striprn ''QUIT'' = ''QUIT''" by code_simp
  with read_command [OF b(2), of "''QUIT''" rest] b(3) obtain raw s where
    f: "tcp_fgets 127 (sock c1) = (Some raw, s)" "cstr (striprn_buf raw) = ''QUIT''"
    by (auto simp: control_chars)
  have "strcaseeq (cstr (striprn_buf raw)) ''quit''" unfolding f(2) by code_simp
  from b(4) [OF run_quit [OF f(1) this]] b(1) show ?thesis by auto
qed

lemma fgets_spec_partial: "LF \<notin> set l \<Longrightarrow> length l < n \<Longrightarrow> fgets_spec n l = None"
  by (induction n l rule: fgets_spec.induct) auto

text \<open>A script that stops short of QUIT is a lost connection.\<close>

lemma pop3_run_cut:
  assumes "session_ready (sock c)" and "stream (sock c) = script ls @ part"
    and "\<forall>l \<in> set ls. command_line l" and "LF \<notin> set part" and "length part < 127"
  shows "\<exists>bufs c2 m2. pop3_run c m bufs False c2 m2 \<and> map cstr bufs = ls"
proof -
  from pop3_run_prefix [OF assms(1-3)] obtain bufs c1 m1 where
    b: "map cstr bufs = ls" "session_ready (sock c1)" "stream (sock c1) = part"
    "\<And>bs q c2 m2. pop3_run c1 m1 bs q c2 m2 \<Longrightarrow> pop3_run c m (bufs @ bs) q c2 m2" by blast
  have "fst (tcp_fgets 127 (sock c1)) = None"
    using tcp.fgets_end [of "sock c1" 127] b(2,3) fgets_spec_partial [OF assms(4,5)]
    by (simp add: session_ready_def link_up_def)
  then obtain s where "tcp_fgets 127 (sock c1) = (None, s)" by (cases "tcp_fgets 127 (sock c1)") auto
  from b(4) [OF run_lost [OF this]] b(1) show ?thesis by auto
qed

section \<open>Closing the mailbox\<close>

lemma unlink_deleted_spec:
  "unlink_deleted es fs f = (if \<exists>e \<in> set es. deleted e \<and> filename e = f then None else fs f)"
  by (induction es fs rule: unlink_deleted.induct) auto

lemma open_box_ok: "mdir_ok (open_box es)"
  if "\<forall>e \<in> set es. \<not> deleted e"
  using that by (simp add: open_box_def mdir_ok_def live_def)

lemma marks_fresh: "\<forall>e \<in> set (msgs m). \<not> deleted e \<Longrightarrow> mdir_ok m \<Longrightarrow> marks m = {}"
  by (auto simp: marks_def mdir_ok_def nth_msg_def)

lemma mbox_scan_fresh: "\<forall>e \<in> set (mbox_scan env d ns k). \<not> deleted e"
  by (induction env d ns k rule: mbox_scan.induct) (auto simp: Let_def split: option.splits)

lemma msg_index: "mdir_ok m \<Longrightarrow> 1 \<le> n \<Longrightarrow> n \<le> mboxtotal m \<Longrightarrow> nat (n - 1) < length (msgs m)"
  by (simp add: mdir_ok_def)

lemma marks_nth: "mdir_ok m \<Longrightarrow> (\<exists>e \<in> set (msgs m). deleted e \<and> P e) \<longleftrightarrow> (\<exists>n \<in> marks m. P (nth_msg m n))"
proof -
  assume ok: "mdir_ok m"
  have "\<exists>n \<in> marks m. P (nth_msg m n)" if "i < length (msgs m)" "deleted (msgs m ! i)" "P (msgs m ! i)" for i
    using that ok by (intro bexI [of _ "int i + 1"]) (simp_all add: marks_def nth_msg_def mdir_ok_def)
  moreover have "nth_msg m n \<in> set (msgs m)" if "n \<in> marks m" for n
    using that msg_index [OF ok, of n] by (simp add: marks_def nth_msg_def)
  ultimately show ?thesis by (auto simp: in_set_conv_nth marks_def)
qed

lemma same_mail_filename:
  assumes "same_mail m m'" and "mdir_ok m" and "mdir_ok m'" and "1 \<le> n" and "n \<le> mboxtotal m"
  shows "filename (nth_msg m' n) = filename (nth_msg m n)" and "localid (nth_msg m' n) = localid (nth_msg m n)"
proof -
  have "map f (msgs m) = map f (msgs m')" if "\<And>e. f (deleted_update (\<lambda>_. False) e) = f e" for f :: "mdirent \<Rightarrow> 'x"
    using arg_cong [OF assms(1) [unfolded same_mail_def], of "map f"] that by (simp add: comp_def)
  note proj = this
  have i: "nat (n - 1) < length (msgs m)" using msg_index assms by blast
  moreover have "length (msgs m') = length (msgs m)" using assms(1) by (metis length_map same_mail_def)
  ultimately show "filename (nth_msg m' n) = filename (nth_msg m n)"
    using arg_cong [OF proj [of filename], of "\<lambda>xs. xs ! nat (n - 1)"] by (simp add: nth_msg_def)
  from i \<open>length (msgs m') = length (msgs m)\<close> show "localid (nth_msg m' n) = localid (nth_msg m n)"
    using arg_cong [OF proj [of localid], of "\<lambda>xs. xs ! nat (n - 1)"] by (simp add: nth_msg_def)
qed


definition box_there :: "pop3_env \<Rightarrow> pop3_conn \<Rightarrow> bool" where
  "box_there env c \<longleftrightarrow> (let d = local_dirname env (dat c) in stat_file env d \<noteq> None \<or> mkdir_ok env d)"

definition local_box :: "pop3_env \<Rightarrow> pop3_conn \<Rightarrow> mdir" where
  "local_box env c = (let d = local_dirname env (dat c) in open_box (mbox_scan env d (read_dir env d) 0))"

lemma local_box_ok: "mdir_ok (local_box env c)" "marks (local_box env c) = {}"
  using open_box_ok [OF mbox_scan_fresh] marks_fresh [OF _ open_box_ok [OF mbox_scan_fresh]]
  by (auto simp: local_box_def Let_def) (simp add: open_box_def mbox_scan_fresh)+

lemma pop3_local_run:
  assumes "box_there env c" and "pop3_run c (local_box env c) bufs q c1 m1"
  shows "pop3_local env c = (if q then c1\<lparr>files := unlink_deleted (box m1) (files c1)\<rparr> else c1)"
  using assms pop3_run_loop [OF assms(2)]
  by (auto simp: pop3_local_def box_there_def local_box_def Let_def)

section \<open>Properties of a session\<close>

text \<open>
  C1. A POP3 session on a local mailbox commits exactly its deletions: when the client sends
  the commands \<open>ls\<close> and then QUIT, the file of a message is removed if and only if the
  maildrop of RFC 1939 marks that message after \<open>ls\<close> (DELE marks, RSET clears, everything
  else, DELE of a number out of range included, changes nothing), and every other file
  stays.
\<close>

theorem pop3_local_commits:
  assumes "session_ready (sock c)" and "box_there env c"
    and "stream (sock c) = script ls @ ''QUIT'' @ CRLF @ rest" and "\<forall>l \<in> set ls. command_line l"
  shows "files (pop3_local env c) f =
     (if \<exists>n \<in> marks_after (mboxtotal (local_box env c)) {} ls. filename (nth_msg (local_box env c) n) = f
      then None else files c f)"
proof -
  let ?m = "local_box env c"
  from pop3_run_script [OF assms(1,3,4)] obtain bufs c1 m1 where
    run: "pop3_run c ?m bufs True c1 m1" and bufs: "map cstr bufs = ls" by blast
  have m1: "mdir_ok m1" "marks m1 = marks_after (mboxtotal ?m) {} ls" "same_mail ?m m1"
    using pop3_run_mail [OF run local_box_ok(1)] bufs marks_after_cstr [of "mboxtotal ?m" "{}" bufs]
    by (simp_all add: local_box_ok(2))
  have "files (pop3_local env c) f = unlink_deleted (msgs m1) (files c) f"
    using pop3_local_run [OF assms(2) run] sock_only_fields [OF sock_only_run [OF run]]
    by (simp add: mdir_ok_box [OF m1(1)])
  also have "\<dots> = (if \<exists>n \<in> marks m1. filename (nth_msg m1 n) = f then None else files c f)"
    using marks_nth [OF m1(1), of "\<lambda>e. filename e = f"] by (simp add: unlink_deleted_spec)
  also have "(\<exists>n \<in> marks m1. filename (nth_msg m1 n) = f) \<longleftrightarrow> (\<exists>n \<in> marks m1. filename (nth_msg ?m n) = f)"
    using same_mail_filename(1) [OF m1(3) local_box_ok(1) m1(1)] same_mail_total [OF local_box_ok(1) m1(1,3)]
    by (auto simp: marks_def)
  finally show ?thesis by (simp add: m1(2))
qed

text \<open>
  C10. A lost connection deletes nothing: when the client's bytes end before a QUIT line,
  whatever it has marked with DELE, every file of the mailbox is still there.
\<close>

theorem pop3_local_lost_keeps_mail:
  assumes "session_ready (sock c)" and "stream (sock c) = script ls @ part"
    and "\<forall>l \<in> set ls. command_line l" and "LF \<notin> set part" and "length part < 127"
  shows "files (pop3_local env c) = files c"
proof (cases "box_there env c")
  case True
  from pop3_run_cut [OF assms] obtain bufs c1 m1 where
    run: "pop3_run c (local_box env c) bufs False c1 m1" by blast
  show ?thesis
    using pop3_local_run [OF True run] sock_only_fields [OF sock_only_run [OF run]] by simp
qed (simp add: pop3_local_def box_there_def Let_def)



lemma arg_number_default: "arg_number p 0 = n \<Longrightarrow> 1 \<le> n \<Longrightarrow> arg_number p (-1) = n"
  by (auto simp: arg_number_def split: if_splits)

lemma no_such_message_short: "snprintf 2047 no_such_message = no_such_message"
  by (simp add: no_such_message_def snprintf_short)

lemma dec_int_short: "int_range n \<Longrightarrow> length (dec_int n) < 2000"
  using dec_int_length [of n] by simp


text \<open>The lines of a listing: the unmarked messages with their numbers, in order.\<close>

definition listing :: "(int \<Rightarrow> mdirent \<Rightarrow> string) \<Rightarrow> mdirent list \<Rightarrow> string" where
  "listing f es = concat (map (\<lambda>(i, e). f (int i + 1) e) (filter (\<lambda>(i, e). \<not> deleted e) (enumerate 0 es)))"

lemma list_lines_sent:
  assumes "link_up (sock c)" and "\<forall>e \<in> set es. \<forall>n. length (f n e) < 2047 \<or> \<not> int_range n"
    and "i + int (length es) < 2 ^ 31" and "0 \<le> i"
  shows "list_lines f i es c = c\<lparr>sock := push (concat (map (\<lambda>(k, e). f (int k + 1) e)
     (filter (\<lambda>(k, e). \<not> deleted e) (enumerate (nat i) es)))) (sock c)\<rparr>"
  using assms
proof (induction f i es c rule: list_lines.induct)
  case (2 f i e es c)
  have "int_range (i + 1)" using 2(5,6) by (simp add: int_range_def)
  then have sh: "snprintf 2047 (f (i + 1) e) = f (i + 1) e"
    using 2(4) by (auto intro: snprintf_short)
  have en: "nat (i + 1) = Suc (nat i)" "int (nat i) = i" using 2(6) by simp_all
  show ?case
    using 2 by (simp add: say_push sh en)
qed simp

lemma listing_sent:
  assumes "link_up (sock c)" and "\<forall>e \<in> set es. \<forall>n. length (f n e) < 2047 \<or> \<not> int_range n"
    and "length es < 2 ^ 31"
  shows "list_lines f 0 es c = c\<lparr>sock := push (listing f es) (sock c)\<rparr>"
  using list_lines_sent [of c es f 0] assms by (simp add: listing_def)

lemma sum_sizes_range: "int_range n \<Longrightarrow> int_range (sum_sizes n es)"
proof (induction n es rule: sum_sizes.induct)
  case (2 n e es)
  then show ?case using i32_bounds [of "n + filesize e"] by (simp add: int_range_def)
qed simp

lemma list_head_short:
  assumes "mdir_ok m" and "length (msgs m) < 2 ^ 31"
  shows "snprintf 2047 (list_head m) = list_head m"
proof -
  have "int (live (msgs m)) \<le> int (length (msgs m))" by (simp add: live_def)
  then have "int_range (mboxcount m)" "int_range (sum_sizes 0 (box m))"
    using assms sum_sizes_range [of 0 "box m"] by (auto simp: mdir_ok_def int_range_def)
  from this [THEN dec_int_length] show ?thesis
    by (simp add: list_head_def snprintf_short)
qed

lemma sum_sizes_exact:
  "sum_sizes n es = i32 (n + (\<Sum>e \<leftarrow> filter (\<lambda>e. \<not> deleted e) es. filesize e))" if "int_range n"
  using that
proof (induction n es rule: sum_sizes.induct)
  case (1 n)
  then show ?case by (simp add: int_range_def)
next
  case (2 n e es)
  have "int_range (i32 (n + filesize e))" using i32_bounds [of "n + filesize e"] by (simp add: int_range_def)
  with 2 show ?case by (simp add: i32_add_cong algebra_simps)
qed

text \<open>
  LIST without a number sends the status line with the number and the total size of
  the messages that are not marked (the size modulo 2^32, as the C \<open>int\<close> holds it), one
  line for each of them under its own number, and the terminator; UIDL sends the same with
  the unique identifiers.
\<close>

theorem pop3_list_all:
  assumes "link_up (sock c)" and "mdir_ok m" and "length (msgs m) < 2 ^ 31"
    and "\<forall>e \<in> set (msgs m). int_range (filesize e) \<and> length (uidl e) < 100" and "\<not> isdigit (hd0 (arg4 line))"
  shows "sent (sock (pop3_list c m line)) =
       sent (sock c) @ list_head m @ listing list_line (msgs m) @ ''.'' @ CRLF
     \<and> sent (sock (pop3_uidl c m line)) =
       sent (sock c) @ list_head m @ listing uidl_line (msgs m) @ ''.'' @ CRLF
     \<and> list_head m = ''+OK '' @ dec_int (int (live (msgs m))) @ '' messages ('' @
         dec_int (i32 (\<Sum>e \<leftarrow> filter (\<lambda>e. \<not> deleted e) (msgs m). filesize e)) @ '' octets)'' @ CRLF"
proof -
  have lens: "\<forall>e \<in> set (msgs m). \<forall>n. length (list_line n e) < 2047 \<or> \<not> int_range n"
    "\<forall>e \<in> set (msgs m). \<forall>n. length (uidl_line n e) < 2047 \<or> \<not> int_range n"
    using assms(4) by (fastforce simp: list_line_def uidl_line_def dest: dec_int_length)+
  have head: "snprintf 2047 (list_head m) = list_head m" using list_head_short assms(2,3) by simp
  have "list_head m = ''+OK '' @ dec_int (int (live (msgs m))) @ '' messages ('' @
         dec_int (i32 (\<Sum>e \<leftarrow> filter (\<lambda>e. \<not> deleted e) (msgs m). filesize e)) @ '' octets)'' @ CRLF"
    using assms(2) sum_sizes_exact [of 0 "msgs m"]
    by (simp add: list_head_def mdir_ok_box) (simp add: mdir_ok_def int_range_def)
  moreover have "sent (sock (pop3_list c m line)) =
       sent (sock c) @ list_head m @ listing list_line (msgs m) @ ''.'' @ CRLF"
    using assms listing_sent [OF _ lens(1)]
    by (simp add: pop3_list_def arg_number_def mdir_ok_box say_push head snprintf_short)
  moreover have "sent (sock (pop3_uidl c m line)) =
       sent (sock c) @ list_head m @ listing uidl_line (msgs m) @ ''.'' @ CRLF"
    using assms listing_sent [OF _ lens(2)]
    by (simp add: pop3_uidl_def arg_number_def mdir_ok_box say_push head snprintf_short)
  ultimately show ?thesis by blast
qed


section \<open>Authorization\<close>

text \<open>What the authorization phase may not touch: the mail, the moved messages, the relay rules.\<close>

definition stores_same :: "pop3_conn \<Rightarrow> pop3_conn \<Rightarrow> bool" where
  "stores_same c c' \<longleftrightarrow> files c' = files c \<and> moved c' = moved c \<and> rules c' = rules c"

lemma stores_same_simps [simp]:
  "stores_same c c" "stores_same c (say c' t) = stores_same c c'"
  "stores_same c (c'\<lparr>sock := s\<rparr>) = stores_same c c'" "stores_same c (c'\<lparr>dat := d\<rparr>) = stores_same c c'"
  "stores_same c (c'\<lparr>cstate := i\<rparr>) = stores_same c c'"
  "stores_same (c\<lparr>sock := s\<rparr>) c' = stores_same c c'" "stores_same (say c t) c' = stores_same c c'"
  by (simp_all add: stores_same_def say_def)

lemma stores_same_foldl [simp]: "stores_same c (foldl say c' ts) = stores_same c c'"
  by (induction ts arbitrary: c') simp_all

lemma stores_same_trans: "stores_same c c1 \<Longrightarrow> stores_same c1 c2 \<Longrightarrow> stores_same c c2"
  by (simp add: stores_same_def)

lemma pop3_auth_step_stores:
  "pop3_auth_step env db c a line = Continue c1 a1 \<Longrightarrow> stores_same c c1"
  "pop3_auth_step env db c a line = Finished c1 \<Longrightarrow> stores_same c c1"
  by (auto simp: pop3_auth_step_def pop3_capa_def pop3_stls_def Let_def split: if_splits prod.splits)

lemma using_tls_say [simp]: "using_tls (sock (say c t)) = using_tls (sock c)"
  by (auto simp: say_def tcp_fprintf_def tcp_send_nolog_def tcp_close_def split: list.splits tx.splits)

lemma dat_say [simp]: "dat (say c t) = dat c"
  by (simp add: say_def)

lemma pop3_auth_step_login:
  "pop3_auth_step env db c a line = LoggedIn c1 a1 \<Longrightarrow>
     \<not> tls_missing env c1 \<and>
     auth_login db (dat c) (a_username a1) (a_domain a1) (a_password a1) (a_mbox a1) = (0, dat c1)"
  by (auto simp: pop3_auth_step_def tls_missing_def Let_def split: if_splits prod.splits)

lemma pop3_auth_loop_result:
  "(\<forall>c1 a1. pop3_auth_loop env db c a \<noteq> Continue c1 a1)
   \<and> (\<forall>c1. pop3_auth_loop env db c a = Finished c1 \<longrightarrow> stores_same c c1)
   \<and> (\<forall>c1 a1. pop3_auth_loop env db c a = LoggedIn c1 a1 \<longrightarrow> \<not> tls_missing env c1 \<and>
        (\<exists>d. auth_login db d (a_username a1) (a_domain a1) (a_password a1) (a_mbox a1) = (0, dat c1)))"
proof (induction env db c a rule: pop3_auth_loop.induct)
  case (1 env db c a)
  obtain r s where f: "tcp_fgets 127 (sock c) = (r, s)" by fastforce
  show ?case
  proof (cases r)
    case None
    with f show ?thesis by (simp add: pop3_auth_loop.simps [of env db c])
  next
    case (Some raw)
    let ?r = "pop3_auth_step env db (c\<lparr>sock := s\<rparr>) a (striprn_buf raw)"
    have loop: "pop3_auth_loop env db c a =
        (case ?r of Continue c1 a1 \<Rightarrow> pop3_auth_loop env db c1 a1 | r \<Rightarrow> r)"
      using f Some by (simp add: pop3_auth_loop.simps [of env db c])
    show ?thesis
    proof (cases ?r)
      case (Continue c1 a1)
      with pop3_auth_step_stores(1) [OF Continue] 1 [OF f [symmetric] Some Continue] loop show ?thesis
        by (auto intro: stores_same_trans)
    next
      case (Finished c1)
      with pop3_auth_step_stores(2) [OF Finished] loop show ?thesis by simp
    next
      case (LoggedIn c1 a1)
      with pop3_auth_step_login [OF LoggedIn] loop show ?thesis by auto
    qed
  qed
qed

definition pop3_greeting :: string where
  "pop3_greeting = ''+OK Welcome to NullLogic GroupServer POP3d'' @ CRLF"

text \<open>
  C2. No effect without a login: if a POP3 connection changes a mail file, moves a remote
  message or touches the relay rules, then its authorization loop accepted a login: the
  database has exactly one user of that name in the domain, the stored hash is that of the
  password given, and the connection was encrypted whenever TLS is loaded and required.
\<close>

theorem pop3_login_required:
  assumes "\<not> stores_same c (pop3_dorequest env db c)"
  shows "\<exists>c1 a d row. pop3_auth_loop env db (say c pop3_greeting) no_auth = LoggedIn c1 a
     \<and> auth_login db d (a_username a) (a_domain a) (a_password a) (a_mbox a) = (0, dat c1)
     \<and> q_users db (a_username a) (login_domainid db (a_domain a)) = Some [row]
     \<and> auth_checkpass (a_password a) (u_password row) = 0
     \<and> (ssl_is_loaded env \<and> require_tls env \<longrightarrow> using_tls (sock c1))"
proof -
  let ?r = "pop3_auth_loop env db (say c pop3_greeting) no_auth"
  note res = pop3_auth_loop_result [of env db "say c pop3_greeting" no_auth]
  show ?thesis
  proof (cases ?r)
    case (LoggedIn c1 a)
    with res obtain d where "\<not> tls_missing env c1"
      and login: "auth_login db d (a_username a) (a_domain a) (a_password a) (a_mbox a) = (0, dat c1)" by auto
    with LoggedIn auth_login_0 [OF login] show ?thesis by (auto simp: tls_missing_def)
  next
    case (Finished c1)
    with res have "stores_same (say c pop3_greeting) c1" by auto
    then have "stores_same c c1" by (simp add: stores_same_def say_def)
    with Finished assms show ?thesis by (simp add: pop3_dorequest_def pop3_greeting_def)
  qed (use res in auto)
qed

text \<open>
  C13. The mailbox stays consistent through a session: after any sequence of commands, with
  or without QUIT, the total is the number of messages, the count is the number of those
  not marked, the last message accessed is a valid number or 0, and the messages themselves
  (size, file name, unique identifier, position) are those of the start.
\<close>

theorem pop3_loop_consistent:
  assumes "mdir_ok m"
  shows "mdir_ok (snd (snd (pop3_loop c m))) \<and> same_mail m (snd (snd (pop3_loop c m)))
     \<and> files (fst (snd (pop3_loop c m))) = files c"
proof -
  obtain q c2 m2 where l: "pop3_loop c m = (q, c2, m2)" by (cases "pop3_loop c m")
  from pop3_loop_run [OF l] obtain ls where run: "pop3_run c m ls q c2 m2" ..
  from pop3_run_mail [OF run assms] sock_only_fields [OF sock_only_run [OF run]] l show ?thesis by simp
qed

lemma filter_indices: "filter P xs = map ((!) xs) (filter (\<lambda>i. P (xs ! i)) [0..<length xs])"
  using filter_map [of P "(!) xs" "[0..<length xs]"] by (simp add: comp_def map_nth)

lemma filter_remote:
  assumes "length es = length rows" and "\<And>i. i < length rows \<Longrightarrow> localid (es ! i) = fst (rows ! i)"
  shows "move_deleted es = map (\<lambda>i. fst (rows ! i)) (filter (\<lambda>i. deleted (es ! i)) [0..<length rows])"
  using assms by (simp add: move_deleted_def filter_indices [of deleted es])

text \<open>
  QUIT in a remote mailbox moves exactly the marked messages to the trash folder, in
  the order of the mailbox, and deletes no file.
\<close>

theorem pop3_remote_moves:
  assumes "session_ready (sock c)" and "q_headers env (mailcurrent (dat c)) (d_uid (dat c)) = Some rows"
    and "stream (sock c) = script ls @ ''QUIT'' @ CRLF @ rest" and "\<forall>l \<in> set ls. command_line l"
  shows "moved (pop3_remote env c) = moved c @ map (\<lambda>i. fst (rows ! i))
        (filter (\<lambda>i. int i + 1 \<in> marks_after (int (length rows)) {} ls) [0..<length rows])
     \<and> files (pop3_remote env c) = files c"
proof -
  let ?es = "map (remote_entry env (dat c)) rows"
  let ?m = "open_box ?es"
  have fresh: "\<forall>e \<in> set ?es. \<not> deleted e" by (auto simp: remote_entry_def split: prod.splits)
  then have ok: "mdir_ok ?m" by (rule open_box_ok)
  have m0: "marks ?m = {}" using marks_fresh [OF _ ok] fresh by (simp add: open_box_def)
  from pop3_run_script [OF assms(1,3,4)] obtain bufs c1 m1 where
    run: "pop3_run c ?m bufs True c1 m1" and bufs: "map cstr bufs = ls" by blast
  have m1: "mdir_ok m1" "marks m1 = marks_after (int (length rows)) {} ls" "same_mail ?m m1"
    using pop3_run_mail [OF run ok] bufs marks_after_cstr [of "int (length rows)" "{}" bufs] m0
    by (simp_all add: open_box_def)
  have len: "length (msgs m1) = length rows" "mboxtotal m1 = int (length rows)"
    using same_mail_total [OF ok m1(1,3)] m1(1) by (simp_all add: open_box_def mdir_ok_def)
  have ids: "localid (msgs m1 ! i) = fst (rows ! i)" if "i < length rows" for i
    using same_mail_filename(2) [OF m1(3) ok m1(1), of "int i + 1"] that
    by (simp add: nth_msg_def open_box_def remote_entry_def split: prod.splits)
  have del: "deleted (msgs m1 ! i) \<longleftrightarrow> int i + 1 \<in> marks m1" if "i < length rows" for i
    using that len by (simp add: marks_def nth_msg_def)
  have eqf: "filter (\<lambda>i. deleted (msgs m1 ! i)) [0..<length rows] =
      filter (\<lambda>i. int i + 1 \<in> marks m1) [0..<length rows]"
    using del by (intro filter_cong) auto
  have "pop3_remote env c = c1\<lparr>moved := moved c1 @ move_deleted (msgs m1)\<rparr>"
    using assms(2) pop3_run_loop [OF run] by (simp add: pop3_remote_def mdir_ok_box [OF m1(1)])
  then show ?thesis
    using filter_remote [OF len(1) ids] eqf m1(2) sock_only_fields [OF sock_only_run [OF run]] by simp
qed


section \<open>A concrete session\<close>

text \<open>A spool with two messages, and clients that delete one of them.\<close>

definition demo_client :: "string \<Rightarrow> tcp_socket" where
  "demo_client bytes = demo_socket\<lparr>net := [RxData bytes]\<rparr>"

definition demo_conn :: "string \<Rightarrow> pop3_conn" where
  "demo_conn bytes = \<lparr>cstate = 0, sock = demo_client bytes, dat = demo_dat,
     files = [''/v/domains/0000/mailspool//a'' \<mapsto> ''Hi'', ''/v/domains/0000/mailspool//b'' \<mapsto> ''Ho''],
     moved = [], rules = []\<rparr>"

definition demo_env :: pop3_env where
  "demo_env = \<lparr>ssl_is_loaded = False, require_tls = False, tls_new_ok = False, tls_hs_ok = False,
     var_path = ''/v'', stat_file = (\<lambda>f. Some (2, f = ''/v/domains/0000/mailspool/'')),
     mkdir_ok = (\<lambda>_. False), read_dir = (\<lambda>_. [''.'', ''a'', ''b'']),
     q_headers = (\<lambda>_ _. Some [(31, 2, ''YQ==''), (32, 2, ''Yg=='')]), relay_query_ok = True, clock = 1000\<rparr>"

lemma demo_client_ready: "session_ready (demo_client bytes)" "stream (demo_client bytes) = bytes"
  using demo_socket_ok
  by (simp_all add: session_ready_def link_up_def buf_ok_def open_sock_def stream_def pending_def
      demo_client_def demo_socket_def)

lemma demo_dirname: "local_dirname demo_env demo_dat = ''/v/domains/0000/mailspool/''"
  by code_simp

lemma demo_box: "local_box demo_env (demo_conn bytes) = open_box
    [\<lparr>localid = 1, deleted = False, filesize = 2, filename = ''/v/domains/0000/mailspool//a'', uidl = ''a''\<rparr>,
     \<lparr>localid = 2, deleted = False, filesize = 2, filename = ''/v/domains/0000/mailspool//b'', uidl = ''b''\<rparr>]"
  using demo_dirname
  by (simp add: local_box_def demo_conn_def demo_env_def snprintf_def)

lemma demo_dele: "command_line ''DELE 1''" "marks_after 2 {} [''DELE 1''] = {1}"
  by code_simp+

theorem pop3_local_commits_witness:
  "files (pop3_local demo_env (demo_conn (script [''DELE 1''] @ ''QUIT'' @ CRLF))) ''/v/domains/0000/mailspool//a'' = None"
proof -
  let ?c = "demo_conn (script [''DELE 1''] @ ''QUIT'' @ CRLF)"
  have "session_ready (sock ?c)" "stream (sock ?c) = script [''DELE 1''] @ ''QUIT'' @ CRLF @ []"
    by (simp_all add: demo_conn_def demo_client_ready)
  moreover have "box_there demo_env ?c" by (simp add: box_there_def demo_env_def)
  ultimately show ?thesis
    using pop3_local_commits [of ?c demo_env "[''DELE 1'']" "[]"] demo_dele
    by (simp add: demo_box) (simp add: open_box_def nth_msg_def)
qed

theorem pop3_local_lost_keeps_mail_witness:
  "files (pop3_local demo_env (demo_conn (script [''DELE 1''] @ ''QU''))) ''/v/domains/0000/mailspool//a'' = Some ''Hi''"
proof -
  let ?c = "demo_conn (script [''DELE 1''] @ ''QU'')"
  have "session_ready (sock ?c)" "stream (sock ?c) = script [''DELE 1''] @ ''QU''"
    by (simp_all add: demo_conn_def demo_client_ready)
  then have "files (pop3_local demo_env ?c) = files ?c"
    using pop3_local_lost_keeps_mail [of ?c "[''DELE 1'']" "''QU''" demo_env] demo_dele(1)
    by (simp add: control_chars)
  then show ?thesis by (simp add: demo_conn_def)
qed

definition demo_mbox :: mdir where
  "demo_mbox = local_box demo_env (demo_conn [])"

lemma demo_mbox_eq: "demo_mbox = open_box
    [\<lparr>localid = 1, deleted = False, filesize = 2, filename = ''/v/domains/0000/mailspool//a'', uidl = ''a''\<rparr>,
     \<lparr>localid = 2, deleted = False, filesize = 2, filename = ''/v/domains/0000/mailspool//b'', uidl = ''b''\<rparr>]"
  by (simp only: demo_mbox_def demo_box)

lemma demo_link: "link_up (sock (demo_conn []))"
  using demo_client_ready(1) [of "[]"] by (simp add: demo_conn_def session_ready_def)



theorem pop3_list_all_witness:
  "sent (sock (pop3_list (demo_conn []) demo_mbox ''LIST'')) =
     list_head demo_mbox @ listing list_line (msgs demo_mbox) @ ''.'' @ CRLF"
proof -
  have "mdir_ok demo_mbox" by (simp add: demo_mbox_def local_box_ok)
  moreover have "\<not> isdigit (hd0 (arg4 ''LIST''))" by code_simp
  ultimately show ?thesis
    using pop3_list_all [OF demo_link, of demo_mbox "''LIST''"]
    by (simp add: demo_mbox_eq open_box_def int_range_def)
      (simp add: demo_conn_def demo_client_def demo_socket_def)
qed

theorem pop3_loop_consistent_witness: "mdir_ok (snd (snd (pop3_loop (demo_conn []) demo_mbox)))"
  using pop3_loop_consistent [of demo_mbox "demo_conn []"] local_box_ok(1) by (simp add: demo_mbox_def)

theorem pop3_remote_moves_witness:
  "moved (pop3_remote demo_env (demo_conn (script [''DELE 1''] @ ''QUIT'' @ CRLF))) = [31]"
proof -
  let ?c = "demo_conn (script [''DELE 1''] @ ''QUIT'' @ CRLF)"
  have "session_ready (sock ?c)" "stream (sock ?c) = script [''DELE 1''] @ ''QUIT'' @ CRLF @ []"
    by (simp_all add: demo_conn_def demo_client_ready)
  then show ?thesis
    using pop3_remote_moves [of ?c demo_env "[(31, 2, ''YQ==''), (32, 2, ''Yg=='')]" "[''DELE 1'']" "[]"] demo_dele
    by (simp add: demo_env_def demo_conn_def upt_rec)
qed


text \<open>A user name and a password that arrive unchanged.\<close>

definition login_word :: "string \<Rightarrow> bool" where
  "login_word w \<longleftrightarrow> w \<noteq> [] \<and> is_cstr w \<and> length w < 63 \<and> striprn w = w
     \<and> (\<forall>c \<in> set w. c \<noteq> CHR '' '' \<and> c \<noteq> TAB \<and> c \<noteq> CHR '':'' \<and> c \<noteq> CHR ''@'' \<and> c \<noteq> LF)"

lemma login_word_arg:
  assumes "login_word w" and "cstr line = cmd @ '' '' @ w" and "length cmd = 4"
  shows "arg4 line = w" and "snprintf 63 (arg4 line) = w"
proof -
  have "arg4 line = skip_blanks (cstr ('' '' @ w))"
    using arg4_cstr [of line] assms(2,3) by (simp add: arg4_def)
  also have "cstr ('' '' @ w) = '' '' @ w"
    using assms(1) by (intro cstr_id) (simp add: login_word_def NUL_def)
  also have "skip_blanks ('' '' @ w) = w"
    using assms(1) by (cases w) (auto simp: skip_blanks_def isblank_def login_word_def)
  finally show "arg4 line = w" .
  then show "snprintf 63 (arg4 line) = w" using assms(1) by (simp add: login_word_def snprintf_short)
qed

lemma login_command:
  assumes "login_word w" and "cmd = ''USER'' \<or> cmd = ''PASS''"
  shows "is_cstr (cmd @ '' '' @ w)" "LF \<notin> set (cmd @ '' '' @ w)" "striprn (cmd @ '' '' @ w) = cmd @ '' '' @ w"
    "length (cmd @ '' '' @ w) < 126"
proof -
  obtain a x where w: "w = a @ [x]" using assms(1) by (cases w rule: rev_cases) (auto simp: login_word_def)
  have "striprn w = w" using assms(1) by (simp add: login_word_def)
  then have "x \<noteq> CR \<and> x \<noteq> LF"
    using striprn_snoc [of a x] length_striprn [of a] unfolding w by (auto split: if_splits)
  then show "striprn (cmd @ '' '' @ w) = cmd @ '' '' @ w"
    using striprn_snoc [of "cmd @ '' '' @ a" x] by (simp add: w)
  have "is_cstr w" "LF \<notin> set w" "length w < 63" using assms(1) by (auto simp: login_word_def)
  with assms(2) show "is_cstr (cmd @ '' '' @ w)" "LF \<notin> set (cmd @ '' '' @ w)" "length (cmd @ '' '' @ w) < 126"
    by (elim disjE; simp add: NUL_def LF_def)+
qed

lemma pop3_user_plain: "login_word u \<Longrightarrow> pop3_user u no_auth = no_auth\<lparr>a_username := u\<rparr>"
proof -
  assume u: "login_word u"
  then have "snprintf 63 u = u" "strchr u (CHR '':'') = None" "strchr u (CHR ''@'') = None"
    by (auto simp: login_word_def strchr_None intro: snprintf_short)
  then show ?thesis by (simp add: pop3_user_def no_auth_def)
qed

lemma login_letters: "map tolower ''USER'' = ''user''" "map tolower ''PASS'' = ''pass''"
  "map tolower ''quit'' = ''quit''" "map tolower ''capa'' = ''capa''" "map tolower ''stls'' = ''stls''"
  "map tolower ''user'' = ''user''" "map tolower ''pass'' = ''pass''"
  by code_simp+

lemma login_words: "\<not> strcaseeq (''USER '' @ w) ''quit''" "\<not> strcaseeq (''USER '' @ w) ''capa''"
  "\<not> strcaseeq (''USER '' @ w) ''stls''" "strncaseeq (''USER '' @ w) ''user'' 4"
  "\<not> strcaseeq (''PASS '' @ w) ''quit''" "\<not> strcaseeq (''PASS '' @ w) ''capa''"
  "\<not> strcaseeq (''PASS '' @ w) ''stls''" "\<not> strncaseeq (''PASS '' @ w) ''user'' 4"
  "strncaseeq (''PASS '' @ w) ''pass'' 4"
  unfolding strcaseeq_def strncaseeq_def using login_letters by simp_all

text \<open>A client with the right password gets in, and the bytes behind its PASS line are the session's.\<close>

lemma pop3_login_works:
  assumes "session_ready (sock c)" and "stream (sock c) = (''USER '' @ u) @ CRLF @ (''PASS '' @ p) @ CRLF @ rest"
    and "login_word u" and "login_word p" and "\<not> ssl_is_loaded env"
    and "auth_login db (dat c) u [] p 0 = (0, d)"
  shows "\<exists>c1. pop3_auth_loop env db c no_auth = LoggedIn c1 (no_auth\<lparr>a_username := u, a_password := p\<rparr>)
     \<and> dat c1 = d \<and> session_ready (sock c1) \<and> stream (sock c1) = rest \<and> stores_same c c1"
proof -
  from read_command [OF assms(1), of "''USER'' @ '' '' @ u"] assms(2) login_command [OF assms(3), of "''USER''"]
  obtain raw s where f: "tcp_fgets 127 (sock c) = (Some raw, s)" "cstr (striprn_buf raw) = ''USER'' @ '' '' @ u"
    "stream s = (''PASS '' @ p) @ CRLF @ rest" "session_ready s" by auto
  have nt: "\<not> tls_missing env c'" for c' using assms(5) by (simp add: tls_missing_def)
  have "arg4 (striprn_buf raw) = u" using login_word_arg(1) [OF assms(3) f(2)] by simp
  with f(2) obtain t where step1: "pop3_auth_step env db (c\<lparr>sock := s\<rparr>) no_auth (striprn_buf raw) =
      Continue (say (c\<lparr>sock := s\<rparr>) t) (no_auth\<lparr>a_username := u\<rparr>)"
    using login_words [of u] pop3_user_plain [OF assms(3)] by (simp add: pop3_auth_step_def nt)
  let ?c1 = "say (c\<lparr>sock := s\<rparr>) t"
  have "session_ready (sock ?c1)" "stream (sock ?c1) = (''PASS'' @ '' '' @ p) @ CRLF @ rest"
    using f(3,4) by (simp_all add: session_ready_def say_push)
  from read_command [OF this(1), of "''PASS'' @ '' '' @ p"] this(2) login_command [OF assms(4), of "''PASS''"]
  obtain raw' s' where g: "tcp_fgets 127 (sock ?c1) = (Some raw', s')"
    "cstr (striprn_buf raw') = ''PASS'' @ '' '' @ p" "stream s' = rest" "session_ready s'" by auto
  have "snprintf 63 (arg4 (striprn_buf raw')) = p" using login_word_arg(2) [OF assms(4) g(2)] by simp
  with g(2) obtain t' where step2: "pop3_auth_step env db (?c1\<lparr>sock := s'\<rparr>) (no_auth\<lparr>a_username := u\<rparr>) (striprn_buf raw')
      = LoggedIn (say (?c1\<lparr>sock := s', dat := d\<rparr>) t') (no_auth\<lparr>a_username := u, a_password := p\<rparr>)"
    using login_words [of p] assms(6) by (simp add: pop3_auth_step_def nt no_auth_def)
  let ?c2 = "say (?c1\<lparr>sock := s', dat := d\<rparr>) t'"
  have "pop3_auth_loop env db c no_auth = LoggedIn ?c2 (no_auth\<lparr>a_username := u, a_password := p\<rparr>)"
    using f(1) step1 g(1) step2
    by (simp add: pop3_auth_loop.simps [of env db c] pop3_auth_loop.simps [of env db ?c1])
  moreover have "session_ready (sock ?c2)" "stream (sock ?c2) = rest"
    using g(3,4) by (simp_all add: session_ready_def say_push)
  ultimately show ?thesis by (intro exI [of _ ?c2]) simp
qed


lemma rules_run: "pop3_run c m ls q c1 m1 \<Longrightarrow> rules c1 = rules c"
  using sock_only_fields [OF sock_only_run] by blast

lemma rules_pop3_local: "rules (pop3_local env c) = rules c"
proof -
  obtain q c1 m1 where l: "pop3_loop c (local_box env c) = (q, c1, m1)" by (metis prod_cases3)
  from pop3_loop_run [OF l] rules_run have "rules c1 = rules c" by blast
  with l show ?thesis by (auto simp: pop3_local_def local_box_def Let_def)
qed

lemma pop3_dorequest_rules:
  assumes "pop3_auth_loop env db (say c pop3_greeting) no_auth = LoggedIn c1 a" and "relay_query_ok env"
    and "a_mbox a = 0"
  shows "rules (pop3_dorequest env db c) = pop3_relay_window (clock env) (dat c1) (relay_reason a) (rules c1)"
  using assms by (simp add: pop3_dorequest_def pop3_greeting_def rules_pop3_local Let_def)

theorem pop3_login_required_witness:
  "\<exists>c1 a d. auth_login demo_db d (a_username a) (a_domain a) (a_password a) (a_mbox a) = (0, dat c1)
     \<and> pop3_auth_loop demo_env demo_db (say (demo_conn (''USER bob'' @ CRLF @ ''PASS pw'' @ CRLF)) pop3_greeting) no_auth
         = LoggedIn c1 a"
proof -
  let ?c = "demo_conn (''USER bob'' @ CRLF @ ''PASS pw'' @ CRLF)"
  let ?greeted = "say ?c pop3_greeting"
  have ready: "session_ready (sock ?greeted)" "stream (sock ?greeted) = (''USER '' @ ''bob'') @ CRLF @ (''PASS '' @ ''pw'') @ CRLF @ []"
    using demo_client_ready [of "''USER bob'' @ CRLF @ ''PASS pw'' @ CRLF"]
    by (simp_all add: demo_conn_def session_ready_def say_push)
  have words: "login_word ''bob''" "login_word ''pw''" by code_simp+
  have "domain_getid demo_db [] = -1" by (simp add: domain_getid_def demo_db_def)
  then have "auth_login demo_db (dat ?greeted) ''bob'' [] ''pw'' 0 =
      (0, demo_dat\<lparr>d_username := ''bob'', d_uid := 7, d_gid := 2, d_did := 1\<rparr>)"
    using demo_login demo_dat_def
    by (simp add: demo_conn_def auth_login_def login_domainid_def domain_getid_def demo_db_def split: if_splits)
  from pop3_login_works [OF ready words, of demo_env demo_db, OF _ this] obtain c1 where
    c1: "pop3_auth_loop demo_env demo_db ?greeted no_auth = LoggedIn c1 (no_auth\<lparr>a_username := ''bob'', a_password := ''pw''\<rparr>)"
    "stores_same ?greeted c1"
    by (auto simp: demo_env_def)
  then have "rules c1 = []" by (simp add: stores_same_def demo_conn_def say_def)
  moreover have "pop3_relay_window t dt why [] \<noteq> []" for t dt why
    by (auto simp: pop3_relay_window_def rr_purge_def rr_find_temp_def rr_insert_def Let_def)
  moreover have "relay_query_ok demo_env" by (simp add: demo_env_def)
  ultimately have "rules (pop3_dorequest demo_env demo_db ?c) \<noteq> []"
    using pop3_dorequest_rules [OF c1(1)] by (simp add: no_auth_def)
  then have "\<not> stores_same ?c (pop3_dorequest demo_env demo_db ?c)"
    by (simp add: stores_same_def demo_conn_def)
  from pop3_login_required [OF this] show ?thesis by blast
qed

end
