(* ===== verification/Spool.thy ===== *)
theory Spool
  imports Accounts
begin

text \<open>
  The mail store the SMTP module writes: names of spool and queue files, the choice of an
  unused name by the clock, \<open>bounce_send\<close> (\<open>src/src/modules/core/smtpd/smtpd_bounce.c\<close>) and
  \<open>filter_scan\<close> (\<open>smtpd_filter.c\<close>). A name is taken from the time of day until no file has it;
  the readings of the clock are a list, and \<open>None\<close> is the loop that is still waiting when the
  list ends.
\<close>

record mail_env =
  var_dir :: string
  host_name :: string
  smtp_host :: string
  dir_there :: "string \<Rightarrow> bool"
  dir_make :: "string \<Rightarrow> bool"
  can_write :: "string \<Rightarrow> bool"
  date_mail :: string
  date_received :: string
  date_bounce :: string
  date_sql :: string
  unix_time :: int
  filter_program :: string
  sys_system :: "string \<Rightarrow> string \<Rightarrow> int"
  nsp_postfilter :: "string \<Rightarrow> string \<Rightarrow> string \<Rightarrow> string \<Rightarrow> int"
  nsp_init :: bool
  nsp_prefilter :: "string \<Rightarrow> bool"
  relay_query :: bool
  smtp_tls :: bool
  smtp_new_ok :: bool
  smtp_hs_ok :: bool

record mail_store =
  mail_files :: "string \<rightharpoonup> string"
  ticks :: "(int \<times> int) list"

section \<open>File names\<close>

definition spool_dir :: "mail_env \<Rightarrow> int \<Rightarrow> string \<Rightarrow> string" where
  "spool_dir env did user = snprintf 255 (var_dir env @ ''/domains/'' @ dec_pad 4 did @ ''/mailspool/'' @ user)"

definition spool_name :: "mail_env \<Rightarrow> int \<Rightarrow> string \<Rightarrow> int \<times> int \<Rightarrow> string" where
  "spool_name env did user t = fixslashes (snprintf 255 (var_dir env @ ''/domains/'' @ dec_pad 4 did
     @ ''/mailspool/'' @ user @ ''/'' @ dec_int (fst t) @ dec_pad 3 (snd t) @ ''.msg''))"

definition mqueue_name :: "mail_env \<Rightarrow> int \<times> int \<Rightarrow> string" where
  "mqueue_name env t = fixslashes (snprintf 255 (var_dir env @ ''/spool/mqueue/'' @ dec_int (fst t)
     @ dec_pad 3 (snd t) @ ''.msg''))"

definition mqinfo_name :: "mail_env \<Rightarrow> int \<times> int \<Rightarrow> string" where
  "mqinfo_name env t = fixslashes (snprintf 255 (var_dir env @ ''/spool/mqinfo/'' @ dec_int (fst t)
     @ dec_pad 3 (snd t) @ ''.dat''))"

text \<open>The \<open>retry\<close> loops: the first reading of the clock for which every name is unused.\<close>

fun pick_time :: "(int \<times> int \<Rightarrow> bool) \<Rightarrow> (int \<times> int) list \<Rightarrow> ((int \<times> int) \<times> (int \<times> int) list) option" where
  "pick_time taken [] = None"
| "pick_time taken (t # ts) = (if taken t then pick_time taken ts else Some (t, ts))"

definition pick_spool :: "mail_env \<Rightarrow> int \<Rightarrow> string \<Rightarrow> mail_store \<Rightarrow> (string \<times> mail_store) option" where
  "pick_spool env did user st =
     (case pick_time (\<lambda>t. mail_files st (spool_name env did user t) \<noteq> None) (ticks st) of
        None \<Rightarrow> None
      | Some (t, ts) \<Rightarrow> Some (spool_name env did user t, st\<lparr>ticks := ts\<rparr>))"

definition pick_queue :: "mail_env \<Rightarrow> mail_store \<Rightarrow> (string \<times> string \<times> mail_store) option" where
  "pick_queue env st =
     (case pick_time (\<lambda>t. mail_files st (mqueue_name env t) \<noteq> None \<or> mail_files st (mqinfo_name env t) \<noteq> None)
        (ticks st) of
        None \<Rightarrow> None
      | Some (t, ts) \<Rightarrow> Some (mqueue_name env t, mqinfo_name env t, st\<lparr>ticks := ts\<rparr>))"

definition put_file :: "string \<Rightarrow> string \<Rightarrow> mail_store \<Rightarrow> mail_store" where
  "put_file name text st = st\<lparr>mail_files := (mail_files st)(name \<mapsto> text)\<rparr>"

definition unlink_file :: "string \<Rightarrow> mail_store \<Rightarrow> mail_store" where
  "unlink_file name st = st\<lparr>mail_files := (mail_files st)(name := None)\<rparr>"

definition have_dir :: "mail_env \<Rightarrow> string \<Rightarrow> bool" where
  "have_dir env dir \<longleftrightarrow> dir_there env dir \<or> dir_make env dir"

section \<open>Bounces\<close>

text \<open>The address in front of the at sign and the domain behind it.\<close>

definition split_address :: "string \<Rightarrow> string \<times> string" where
  "split_address addr = (case strchr addr (CHR ''@'') of None \<Rightarrow> (addr, ''localhost'') | Some (u, h) \<Rightarrow> (u, h))"

text \<open>The copy of the original message stops at 32768 bytes, at the end of a line read.\<close>

function bounce_copy :: "nat \<Rightarrow> string \<Rightarrow> string" where
  "bounce_copy br body =
     (case file_gets 1023 body of
        None \<Rightarrow> []
      | Some (l, rest) \<Rightarrow>
          (let br = br + length (cstr l)
           in if br > 32768 then [] else cstr l @ bounce_copy br rest))"
  by pat_completeness auto
termination
  by (relation "measure (\<lambda>(br, body). length body)") (auto dest!: file_gets_shorter)

declare bounce_copy.simps [simp del]

definition bounce_text :: "mail_env \<Rightarrow> string \<Rightarrow> string \<Rightarrow> string option \<Rightarrow> string \<Rightarrow> string" where
  "bounce_text env from rcpt orig why =
     ''Date: '' @ date_bounce env @ CRLF @ ''From: MAILER-DAEMON <mailer-daemon@'' @ host_name env @ ''>'' @ CRLF
     @ ''Subject: failure notice'' @ CRLF @ ''To: <'' @ from @ ''>'' @ CRLF @ CRLF
     @ ''Your e-mail was undeliverable.  Sorry.'' @ CRLF @ CRLF
     @ ''Original recipient: <'' @ rcpt @ ''>'' @ CRLF @ ''['' @ why @ '']'' @ CRLF
     @ (case orig of None \<Rightarrow> [] | Some body \<Rightarrow>
          CRLF @ ''--- Below this line is a copy of the original message.'' @ CRLF @ CRLF @ bounce_copy 0 body)"

definition bounce_info :: "mail_env \<Rightarrow> string \<Rightarrow> string" where
  "bounce_info env from = ''MAIL:'' @ CRLF @ ''RCPT: '' @ from @ CRLF @ ''DATE: '' @ date_sql env @ CRLF"

definition bounce_send ::
  "mail_env \<Rightarrow> database \<Rightarrow> string \<Rightarrow> string \<Rightarrow> string option \<Rightarrow> string \<Rightarrow> mail_store \<Rightarrow> (int \<times> mail_store) option" where
  "bounce_send env db from rcpt orig_msg why st =
     (if from = [] then Some (0, st)
      else
        let (user, host) = split_address (snprintf 127 from);
            did = domain_getid db host;
            orig = (case orig_msg of None \<Rightarrow> None | Some f \<Rightarrow> mail_files st f);
            text = bounce_text env from rcpt orig why
        in if 0 < did then
             (case q_username db user did of
                None \<Rightarrow> Some (-1, st)
              | Some rows \<Rightarrow>
                  (let userid = (case rows of [u] \<Rightarrow> u | _ \<Rightarrow> 0)
                   in if userid < 1 then Some (-1, st)
                      else if \<not> have_dir env (spool_dir env did user) then Some (-1, st)
                      else case pick_spool env did user st of
                        None \<Rightarrow> None
                      | Some (name, st1) \<Rightarrow>
                          (if can_write env name then Some (0, put_file name text st1) else Some (-1, st1))))
           else
             case pick_queue env st of
               None \<Rightarrow> None
             | Some (name, info, st1) \<Rightarrow>
                 (if can_write env name then
                    let st2 = put_file name text st1
                    in if can_write env info then Some (0, put_file info (bounce_info env from) st2)
                       else Some (-1, unlink_file name st2)
                  else Some (-1, st1)))"

section \<open>The external filter\<close>

definition filter_scan :: "mail_env \<Rightarrow> string \<Rightarrow> string \<Rightarrow> int" where
  "filter_scan env name text =
     (if filter_program env = [] then 0
      else
        let err = i16 (sys_system env name text);
            err = (if 255 < err then err div 256 else err)
        in if err = 1 \<or> err = 2 \<or> err = 3 then err else 0)"

section \<open>Lemmas\<close>

lemma pick_time_Some: "pick_time taken ts = Some (t, r) \<Longrightarrow> \<not> taken t \<and> t \<in> set ts \<and> set r \<subseteq> set ts"
  by (induction ts) (auto split: if_splits)

lemma pick_time_exists: "t \<in> set ts \<Longrightarrow> \<not> taken t \<Longrightarrow> \<exists>t' r. pick_time taken ts = Some (t', r)"
  by (induction ts) auto

lemma pick_spool_Some:
  "pick_spool env did user st = Some (name, st') \<Longrightarrow>
     mail_files st name = None \<and> mail_files st' = mail_files st \<and> set (ticks st') \<subseteq> set (ticks st)
     \<and> (\<exists>t \<in> set (ticks st). name = spool_name env did user t)"
  by (auto simp: pick_spool_def dest!: pick_time_Some split: option.splits)

lemma pick_queue_Some:
  "pick_queue env st = Some (name, info, st') \<Longrightarrow>
     mail_files st name = None \<and> mail_files st info = None \<and> mail_files st' = mail_files st \<and> set (ticks st') \<subseteq> set (ticks st)
     \<and> (\<exists>t. name = mqueue_name env t \<and> info = mqinfo_name env t)"
  by (auto simp: pick_queue_def dest!: pick_time_Some split: option.splits)

lemma put_file_simps [simp]: "mail_files (put_file n t st) = (mail_files st)(n \<mapsto> t)" "ticks (put_file n t st) = ticks st"
  "mail_files (unlink_file n st) = (mail_files st)(n := None)" "ticks (unlink_file n st) = ticks st"
  by (simp_all add: put_file_def unlink_file_def)

text \<open>A bounce never overwrites a file: what it adds is its own text or queue entry.\<close>

definition bounce_made :: "mail_env \<Rightarrow> string \<Rightarrow> bool" where
  "bounce_made env text \<longleftrightarrow> (\<exists>from rcpt orig why. text = bounce_text env from rcpt orig why)
     \<or> (\<exists>from. text = bounce_info env from)"

lemma bounce_made_simps [simp]: "bounce_made env (bounce_text env from rcpt orig why)" "bounce_made env (bounce_info env from)"
  unfolding bounce_made_def by blast+

definition bounce_only :: "mail_env \<Rightarrow> mail_store \<Rightarrow> mail_store \<Rightarrow> bool" where
  "bounce_only env st st' \<longleftrightarrow> (\<forall>f. mail_files st' f = mail_files st f
     \<or> mail_files st f = None \<and> (\<exists>text. mail_files st' f = Some text \<and> bounce_made env text))
     \<and> set (ticks st') \<subseteq> set (ticks st)"

lemma bounce_send_only: "bounce_send env db from rcpt orig why st = Some (rc, st') \<Longrightarrow> bounce_only env st st'"
  by (auto simp: bounce_send_def Let_def bounce_only_def split: if_splits prod.splits option.splits
      dest!: pick_spool_Some pick_queue_Some)

lemma filter_scan_range: "filter_scan env name text \<in> {0, 1, 2, 3}"
  by (simp add: filter_scan_def Let_def)

end
