(* ===== verification/Smtp.thy ===== *)
theory Smtp
  imports Tcp Spool
begin

text \<open>
  The SMTP module (\<open>src/src/modules/core/smtpd/smtpd_server.c\<close>): the envelope \<open>MAILCONN\<close>, one
  definition per command, the delivery of \<open>smtp_accept\<close>, the loop of DATA and the command loop
  of \<open>smtp_dorequest\<close>. The filters written in NSP are functions of the environment: a
  connection filter, a delivery filter, and the list of reasons handed to \<open>addfilter\<close>.
\<close>

section \<open>State\<close>

record MAILCONN =
  sender_can_relay :: int
  sender_is_blank :: bool
  helo :: string
  mfrom :: string
  msgbody :: string
  rcpt :: "string list"

definition no_mailconn :: MAILCONN where
  "no_mailconn = \<lparr>sender_can_relay = 0, sender_is_blank = False, helo = [], mfrom = [], msgbody = [], rcpt = []\<rparr>"

definition rcptalloc :: nat where "rcptalloc = 50"

record smtp_conn =
  ss_state :: int
  ss_sock :: tcp_socket
  ss_addr :: string
  ss_store :: mail_store
  ss_rules :: relayrules
  ss_times :: "int list"
  ss_filtered :: "string list"

definition smtp_send :: "smtp_conn \<Rightarrow> string \<Rightarrow> smtp_conn" where
  "smtp_send c line = c\<lparr>ss_sock := snd (tcp_fprintf (line @ CRLF) (ss_sock c))\<rparr>"

definition smtp_nsp_addfilter :: "smtp_conn \<Rightarrow> string \<Rightarrow> smtp_conn" where
  "smtp_nsp_addfilter c why = c\<lparr>ss_filtered := ss_filtered c @ [why]\<rparr>"

text \<open>\<open>allow_relay\<close> on the connection: it reads the clock, and its purge changes the rule table.\<close>

definition conn_allow_relay :: "mail_env \<Rightarrow> smtp_conn \<Rightarrow> int \<times> smtp_conn" where
  "conn_allow_relay env c =
     (let now = (case ss_times c of [] \<Rightarrow> unix_time env | t # _ \<Rightarrow> t)
      in case allow_relay (relay_query env) now (ss_addr c) (ss_rules c) of (r, rs) \<Rightarrow>
           (r, c\<lparr>ss_rules := rs, ss_times := tl (ss_times c)\<rparr>))"

section \<open>Delivery\<close>

text \<open>
  Finding the mailbox of a local recipient: an alias, else a user of that name. \<open>None\<close> is a
  failed query; the number is the user id, less than 1 when there is no such mailbox.
\<close>

definition alias_user :: "database \<Rightarrow> string \<Rightarrow> int \<Rightarrow> (int \<times> string) option" where
  "alias_user db addr did =
     (case q_smtp_aliases db addr did of
        None \<Rightarrow> None
      | Some rows \<Rightarrow>
          (case rows of
             [uid] \<Rightarrow>
               (case q_userid db uid did of
                  None \<Rightarrow> None
                | Some rows2 \<Rightarrow> (case rows2 of [(u, name)] \<Rightarrow> Some (u, name) | _ \<Rightarrow> Some (0, addr)))
           | _ \<Rightarrow> Some (0, addr)))"

definition local_user :: "database \<Rightarrow> string \<Rightarrow> int \<Rightarrow> (int \<times> string) option" where
  "local_user db addr did =
     (case alias_user db addr did of
        None \<Rightarrow> None
      | Some (userid, addr) \<Rightarrow>
          (if userid < 1 then
             (case q_users db addr did of
                None \<Rightarrow> None
              | Some rows \<Rightarrow> (case rows of [row] \<Rightarrow> Some (u_userid row, u_username row) | _ \<Rightarrow> Some (userid, addr)))
           else Some (userid, addr)))"

definition received_header :: "mail_env \<Rightarrow> string \<Rightarrow> MAILCONN \<Rightarrow> string \<Rightarrow> string" where
  "received_header env addr m r =
     ''Received: from '' @ helo m @ '' (['' @ addr @ ''])'' @ CRLF @ [TAB] @ ''by '' @ smtp_host env
     @ '' for '' @ r @ '';'' @ CRLF @ [TAB] @ date_received env @ CRLF"

definition queue_info :: "mail_env \<Rightarrow> MAILCONN \<Rightarrow> string \<Rightarrow> string" where
  "queue_info env m r = ''MAIL: '' @ mfrom m @ CRLF @ ''RCPT: '' @ r @ CRLF @ ''DATE: '' @ date_sql env @ CRLF"

text \<open>
  Writing one copy: \<open>Inl\<close> ends \<open>smtp_accept\<close> with that value, \<open>Inr\<close> goes on with the next
  recipient. \<open>info\<close> is the name of the queue entry of a remote recipient.
\<close>

definition accept_write ::
  "mail_env \<Rightarrow> string \<Rightarrow> MAILCONN \<Rightarrow> string \<Rightarrow> string \<Rightarrow> string option \<Rightarrow> mail_store \<Rightarrow> (int \<times> mail_store) + mail_store" where
  "accept_write env addr m r name info st =
     (if \<not> can_write env name then Inl (-1, st)
      else
        let text = received_header env addr m r @ msgbody m;
            st1 = put_file name text st;
            err = nsp_postfilter env (mfrom m) r name text
        in if err \<noteq> 0 then Inl (err, unlink_file name st1)
           else
             let err = filter_scan env name text
             in if 0 < err then Inl (err, unlink_file name st1)
                else case info of
                  None \<Rightarrow> Inr st1
                | Some f \<Rightarrow>
                    (if can_write env f then Inr (put_file f (queue_info env m r) st1)
                     else Inr (unlink_file name st1)))"

text \<open>One recipient; \<open>None\<close> is the loop that waits for an unused name.\<close>

definition accept_one ::
  "mail_env \<Rightarrow> database \<Rightarrow> string \<Rightarrow> MAILCONN \<Rightarrow> string \<Rightarrow> mail_store \<Rightarrow> ((int \<times> mail_store) + mail_store) option" where
  "accept_one env db addr m r st =
     (let (user, host) = split_address (snprintf 127 r);
          did = domain_getid db host
      in if 0 < did then
           (let user = (case strchr user (CHR ''+'') of None \<Rightarrow> user | Some (u, _) \<Rightarrow> u)
            in case local_user db user did of
                 None \<Rightarrow> Some (Inl (-1, st))
               | Some (userid, user) \<Rightarrow>
                   (if userid < 1 then
                      map_option (\<lambda>(_, st1). Inr st1) (bounce_send env db (mfrom m) r None ''554 no such mailbox'' st)
                    else if \<not> have_dir env (spool_dir env did user) then Some (Inr st)
                    else map_option (\<lambda>(name, st1). accept_write env addr m r name None st1)
                           (pick_spool env did user st)))
         else if sender_can_relay m = 1 then
           map_option (\<lambda>(name, info, st1). accept_write env addr m r name (Some info) st1) (pick_queue env st)
         else Some (Inr st))"

fun accept_loop ::
  "mail_env \<Rightarrow> database \<Rightarrow> string \<Rightarrow> MAILCONN \<Rightarrow> string list \<Rightarrow> mail_store \<Rightarrow> (int \<times> mail_store) option" where
  "accept_loop env db addr m [] st = Some (0, st)"
| "accept_loop env db addr m (r # rs) st =
     (case accept_one env db addr m r st of
        None \<Rightarrow> None
      | Some (Inl res) \<Rightarrow> Some res
      | Some (Inr st1) \<Rightarrow> accept_loop env db addr m rs st1)"

definition smtp_accept :: "mail_env \<Rightarrow> database \<Rightarrow> string \<Rightarrow> MAILCONN \<Rightarrow> mail_store \<Rightarrow> (int \<times> mail_store) option" where
  "smtp_accept env db addr m st = accept_loop env db addr m (rcpt m) st"

section \<open>DATA\<close>

record MSGHEADER =
  h_From :: string
  h_Date :: string
  h_MessageID :: string

definition no_header :: MSGHEADER where
  "no_header = \<lparr>h_From = [], h_Date = [], h_MessageID = []\<rparr>"

definition end_of_data :: "string \<Rightarrow> bool" where
  "end_of_data line \<longleftrightarrow> line = ''.'' @ CRLF \<or> line = ''.'' @ [LF]"

definition end_of_header :: "string \<Rightarrow> bool" where
  "end_of_header line \<longleftrightarrow> line = CRLF \<or> line = [LF] \<or> end_of_data line"

text \<open>The header fields that are inserted when the message has none.\<close>

definition header_lines :: "mail_env \<Rightarrow> MAILCONN \<Rightarrow> MSGHEADER \<Rightarrow> string" where
  "header_lines env m h =
     (let cat = (\<lambda>out text. fst (strncatf out 1024 text));
          out = (if h_From h = [] then cat [] (''From: '' @ mfrom m @ CRLF) else []);
          out = (if h_Date h = [] then
                   cat (cat out (''Date: '' @ date_mail env @ CRLF))
                     (''Date-warning: Date header was inserted by '' @ smtp_host env @ CRLF) else out)
      in if h_MessageID h = []
         then cat out (''Message-id: <'' @ dec_int (i32 (unix_time env)) @ ''@'' @ smtp_host env @ ''>'' @ CRLF)
         else out)"

text \<open>
  What one line of the message does to the header and the flag \<open>header_done\<close>, and the text
  inserted in front of it.
\<close>

definition data_header ::
  "mail_env \<Rightarrow> MAILCONN \<Rightarrow> bool \<times> MSGHEADER \<Rightarrow> string \<Rightarrow> (bool \<times> MSGHEADER) \<times> string" where
  "data_header env m st line = (case st of (header_done, h) \<Rightarrow>
     if header_done then ((True, h), [])
     else if strncaseeq line ''From: '' 6 then
       ((False, h\<lparr>h_From := striprn (take 79 (drop 6 line))\<rparr>), [])
     else if strncaseeq line ''Date: '' 6 then
       ((False, h\<lparr>h_Date := striprn (take 79 (drop 6 line))\<rparr>), [])
     else if strncaseeq line ''Message-ID: '' 12 then
       ((False, h\<lparr>h_MessageID := striprn (take 79 (drop 12 line))\<rparr>), [])
     else if end_of_header line then ((True, h), header_lines env m h)
     else ((False, h), []))"

text \<open>The loop: whether the end of the data was seen, and the body so far.\<close>

function data_loop ::
  "mail_env \<Rightarrow> MAILCONN \<Rightarrow> bool \<times> MSGHEADER \<Rightarrow> string \<Rightarrow> tcp_socket \<Rightarrow> bool \<times> string \<times> tcp_socket" where
  "data_loop env m st body s =
     (case tcp_fgets 1023 s of
        (None, s1) \<Rightarrow> (False, body, s1)
      | (Some raw, s1) \<Rightarrow>
          (let line = cstr raw;
               (st1, ins) = data_header env m st line
           in if end_of_data line then (True, body @ ins, s1)
              else data_loop env m st1 (body @ ins @ line) s1))"
  by pat_completeness auto
termination
proof (relation "measure (\<lambda>(env, m, st, body, s). avail s)", goal_cases)
  case (2 env m st body s res s1 raw line p st1 ins)
  then have "tcp_fgets 1023 s = (Some raw, s1)" by simp
  from tcp_fgets_avail [OF this] show ?case by simp
qed simp

declare data_loop.simps [simp del]

definition data_reply :: "int \<Rightarrow> string" where
  "data_reply rc = (if rc = 0 then ''250 Message accepted for delivery''
     else if rc = 1 then ''554 Message is permanently rejected (spam)''
     else if rc = 2 \<or> rc = 3 then ''554 Message is permanently rejected (virus)''
     else ''451 Temporary failure - try again later'')"

definition has_sender :: "MAILCONN \<Rightarrow> bool" where
  "has_sender m \<longleftrightarrow> mfrom m \<noteq> [] \<or> sender_is_blank m"

text \<open>\<open>None\<close> is a delivery that waits for an unused name.\<close>

definition smtp_data :: "mail_env \<Rightarrow> database \<Rightarrow> smtp_conn \<Rightarrow> MAILCONN \<Rightarrow> (smtp_conn \<times> MAILCONN) option" where
  "smtp_data env db c m =
     (if \<not> has_sender m then Some (smtp_send c ''503 No sender'', m)
      else if rcpt m = [] then Some (smtp_send c ''503 No valid recipient'', m)
      else
        let c1 = smtp_send c ''354 Send the mail data, end with .''
        in case data_loop env m (False, no_header) [] (ss_sock c1) of
             (False, body, s) \<Rightarrow> Some (c1\<lparr>ss_sock := s\<rparr>, m\<lparr>msgbody := body\<rparr>)
           | (True, body, s) \<Rightarrow>
               (case smtp_accept env db (ss_addr c) (m\<lparr>msgbody := body\<rparr>) (ss_store c1) of
                  None \<Rightarrow> None
                | Some (rc, st) \<Rightarrow>
                    Some (smtp_send (c1\<lparr>ss_sock := s, ss_store := st\<rparr>) (data_reply rc), m\<lparr>msgbody := []\<rparr>)))"

section \<open>The other commands\<close>

text \<open>The address in angle brackets, or the whole argument; 119 bytes of it.\<close>

definition mail_address :: "string \<Rightarrow> string" where
  "mail_address line =
     (let address = snprintf 119 (skip_blanks line);
          address = (case strchr address (CHR ''>'') of None \<Rightarrow> address | Some (a, _) \<Rightarrow> a)
      in case strchr address (CHR ''<'') of None \<Rightarrow> address | Some (_, p) \<Rightarrow> p)"

definition smtp_from :: "smtp_conn \<Rightarrow> MAILCONN \<Rightarrow> string \<Rightarrow> smtp_conn \<times> MAILCONN" where
  "smtp_from c m line =
     (let m1 = m\<lparr>rcpt := [], mfrom := snprintf 1023 (mail_address line)\<rparr>
      in if mfrom m1 \<noteq> [] then
           (smtp_send c (snprintf 255 (''250 Sender '' @ [CHR 0x27] @ mfrom m1 @ [CHR 0x27] @ '' OK'')), m1)
         else (smtp_send c (''250 Sender '' @ [CHR 0x27] @ ''NULL'' @ [CHR 0x27] @ '' OK''),
               m1\<lparr>sender_is_blank := True\<rparr>))"

definition smtp_rcpt :: "database \<Rightarrow> smtp_conn \<Rightarrow> MAILCONN \<Rightarrow> string \<Rightarrow> smtp_conn \<times> MAILCONN" where
  "smtp_rcpt db c m line =
     (if \<not> has_sender m then (smtp_send c ''503 No sender'', m)
      else
        let addr = mail_address line
        in case strchr addr (CHR ''@'') of
             None \<Rightarrow> (smtp_send c ''553 Recipient Invalid'', m)
           | Some (_, host) \<Rightarrow>
               (if domain_getid db host < 1 \<and> sender_can_relay m \<noteq> 1 then
                  (smtp_nsp_addfilter (smtp_send c ''553 Relaying denied'') ''553 Relaying denied'', m)
                else
                  let m1 = m\<lparr>rcpt := rcpt m @ [snprintf 127 addr]\<rparr>
                  in (smtp_send c (snprintf 255 (''250 Recipient '' @ [CHR 0x27] @ snprintf 127 addr
                        @ [CHR 0x27] @ '' OK'')), m1)))"

definition smtp_rset :: "mail_env \<Rightarrow> smtp_conn \<Rightarrow> MAILCONN \<Rightarrow> bool \<Rightarrow> smtp_conn \<times> MAILCONN" where
  "smtp_rset env c m quiet =
     (let (r, c1) = conn_allow_relay env c;
          m1 = m\<lparr>rcpt := [], mfrom := [], sender_can_relay := r, sender_is_blank := False\<rparr>
      in (if quiet then c1 else smtp_send c1 ''250 Reset OK'', m1))"

definition smtp_noop :: "smtp_conn \<Rightarrow> smtp_conn" where
  "smtp_noop c = smtp_send c ''220 OK''"

definition smtp_turn :: "smtp_conn \<Rightarrow> smtp_conn" where
  "smtp_turn c = smtp_send c ''502 No''"

section \<open>The command loop\<close>

definition smtp_helo :: "mail_env \<Rightarrow> smtp_conn \<Rightarrow> MAILCONN \<Rightarrow> string \<Rightarrow> smtp_conn \<times> MAILCONN" where
  "smtp_helo env c m line =
     (let name = snprintf 1023 (skip_blanks (cstr (drop 4 line)));
          c1 = smtp_send c (snprintf 255 (''250-'' @ smtp_host env @ '' Hello, '' @ name @ '' ['' @ ss_addr c @ '']''));
          c2 = smtp_send c1 (if smtp_tls env \<and> \<not> using_tls (ss_sock c1) then ''250 STARTTLS'' else ''250 AUTH PLAIN'')
      in (if name \<noteq> [] then c2\<lparr>ss_state := 1\<rparr> else c2, m\<lparr>helo := name\<rparr>))"

definition smtp_starttls :: "mail_env \<Rightarrow> smtp_conn \<Rightarrow> MAILCONN \<Rightarrow> smtp_conn \<times> MAILCONN" where
  "smtp_starttls env c m =
     (let (c1, m1) = smtp_rset env (smtp_send c ''220 Ready to start TLS'') m True
      in (c1\<lparr>ss_state := 0, ss_sock := snd (ssl_accept (smtp_new_ok env) (smtp_hs_ok env) (ss_sock c1))\<rparr>, m1))"

text \<open>One command other than QUIT.\<close>

definition smtp_command ::
  "mail_env \<Rightarrow> database \<Rightarrow> smtp_conn \<Rightarrow> MAILCONN \<Rightarrow> string \<Rightarrow> (smtp_conn \<times> MAILCONN) option" where
  "smtp_command env db c m line =
     (let l = cstr line
      in if strncaseeq l ''helo'' 4 \<or> strncaseeq l ''ehlo'' 4 then Some (smtp_helo env c m line)
         else if strncaseeq l ''starttls'' 8 \<and> smtp_tls env \<and> \<not> using_tls (ss_sock c) then
           Some (smtp_starttls env c m)
         else if ss_state c = 1 then
           (if strncaseeq l ''auth'' 4 then
              Some (smtp_nsp_addfilter (smtp_send c ''502 Unknown Command'') ''AUTH LOGIN ATTEMPT'', m)
            else if strncaseeq l ''mail from:'' 10 then Some (smtp_from c m (drop 10 l))
            else if strncaseeq l ''rcpt to:'' 8 then Some (smtp_rcpt db c m (drop 8 l))
            else if strcaseeq l ''data'' then smtp_data env db c m
            else if strcaseeq l ''rset'' then Some (smtp_rset env c m False)
            else if strcaseeq l ''turn'' then Some (smtp_turn c, m)
            else if strcaseeq l ''noop'' then Some (smtp_noop c, m)
            else Some (smtp_nsp_addfilter (smtp_send c ''502 Unknown Command'') ''502 Unknown Command'', m))
         else Some (smtp_send c ''500 Some people still say hello'', m))"


lemma send_avail [simp]: "avail (snd (tcp_send_nolog buf s)) = avail s"
  by (auto simp: tcp_send_nolog_def tcp_close_def avail_def split: list.splits tx.splits)

lemma smtp_send_avail [simp]: "avail (ss_sock (smtp_send c t)) = avail (ss_sock c)"
  by (simp add: smtp_send_def tcp_fprintf_def)

lemma data_loop_avail: "data_loop env m st body s = (ok, body', s') \<Longrightarrow> avail s' \<le> avail s"
proof (induction env m st body s rule: data_loop.induct)
  case (1 env m st body s)
  obtain r s1 where f: "tcp_fgets 1023 s = (r, s1)" by fastforce
  show ?case
  proof (cases r)
    case None
    with f 1(2) tcp_fgets_avail_le [OF f] show ?thesis by (subst (asm) data_loop.simps) auto
  next
    case (Some raw)
    obtain st1 ins where h: "data_header env m st (cstr raw) = (st1, ins)" by fastforce
    have le: "avail s1 \<le> avail s" using tcp_fgets_avail_le [OF f] .
    show ?thesis
    proof (cases "end_of_data (cstr raw)")
      case True
      with f Some h 1(2) le show ?thesis by (subst (asm) data_loop.simps) auto
    next
      case False
      then have "data_loop env m st1 (body @ ins @ cstr raw) s1 = (ok, body', s')"
        using f Some h 1(2) by (subst (asm) data_loop.simps) auto
      with 1(1) [OF f [symmetric] Some refl h [symmetric] refl False] le show ?thesis by simp
    qed
  qed
qed


lemma addfilter_sock [simp]: "ss_sock (smtp_nsp_addfilter c w) = ss_sock c"
  by (simp add: smtp_nsp_addfilter_def)

lemma conn_allow_relay_sock [simp]: "ss_sock (snd (conn_allow_relay env c)) = ss_sock c"
  by (simp add: conn_allow_relay_def Let_def split: prod.splits)

lemma smtp_rset_avail: "avail (ss_sock (fst (smtp_rset env c m quiet))) = avail (ss_sock c)"
  using conn_allow_relay_sock [of env c] by (cases "conn_allow_relay env c") (simp add: smtp_rset_def)

lemma ssl_accept_avail_eq [simp]: "avail (snd (ssl_accept a b s)) = avail s"
  by (simp add: ssl_accept_def avail_def)

lemma smtp_starttls_avail: "avail (ss_sock (fst (smtp_starttls env c m))) = avail (ss_sock c)"
proof -
  obtain c1 m1 where r: "smtp_rset env (smtp_send c ''220 Ready to start TLS'') m True = (c1, m1)" by fastforce
  from smtp_rset_avail [of env "smtp_send c ''220 Ready to start TLS''" m True] r
  show ?thesis unfolding smtp_starttls_def r by simp
qed

lemma smtp_data_avail: "smtp_data env db c m = Some (c', m') \<Longrightarrow> avail (ss_sock c') \<le> avail (ss_sock c)"
  using data_loop_avail [of env m "(False, no_header)" "[]" "ss_sock (smtp_send c ''354 Send the mail data, end with .'')"]
  by (auto simp: smtp_data_def Let_def split: if_splits prod.splits bool.splits option.splits)

lemma smtp_command_avail:
  assumes "smtp_command env db c m line = Some (c', m')"
  shows "avail (ss_sock c') \<le> avail (ss_sock c)"
proof -
  have a: "avail (ss_sock (fst (smtp_helo env c m line))) = avail (ss_sock c)"
    "avail (ss_sock (fst (smtp_from c m x))) = avail (ss_sock c)"
    "avail (ss_sock (fst (smtp_rcpt db c m x))) = avail (ss_sock c)" for x
    by (auto simp: smtp_helo_def smtp_from_def smtp_rcpt_def Let_def split: option.splits)
  from assms a smtp_data_avail [of env db c m] smtp_rset_avail [of env c m False] smtp_starttls_avail [of env c m]
  show ?thesis
    by (auto simp: smtp_command_def Let_def smtp_turn_def smtp_noop_def split: if_splits) (metis fst_conv order_refl)+
qed

text \<open>
  The loop of \<open>smtp_dorequest\<close>. \<open>None\<close> is a delivery that waits for ever; otherwise it ends with
  QUIT or when reading fails, because every command line uses up input.
\<close>

function smtp_loop :: "mail_env \<Rightarrow> database \<Rightarrow> smtp_conn \<Rightarrow> MAILCONN \<Rightarrow> (smtp_conn \<times> MAILCONN) option" where
  "smtp_loop env db c m =
     (case tcp_fgets 255 (ss_sock c) of
        (None, s) \<Rightarrow> Some (c\<lparr>ss_sock := s\<rparr>, m)
      | (Some raw, s) \<Rightarrow>
          (let line = striprn_buf raw; c1 = c\<lparr>ss_sock := s\<rparr>
           in if strcaseeq (cstr line) ''quit'' then Some (smtp_send c1 ''221 Goodbye'', m)
              else case smtp_command env db c1 m line of
                None \<Rightarrow> None
              | Some r \<Rightarrow> smtp_loop env db (fst r) (snd r)))"
  by pat_completeness auto
termination
proof (relation "measure (\<lambda>(env, db, c, m). avail (ss_sock c))", goal_cases)
  case (2 env db c m res s raw line c1 r)
  then have f: "tcp_fgets 255 (ss_sock c) = (Some raw, s)" by simp
  have "smtp_command env db (c\<lparr>ss_sock := s\<rparr>) m line = Some (fst r, snd r)" using 2 by simp
  from smtp_command_avail [OF this] tcp_fgets_avail [OF f] show ?case by (simp add: case_prod_beta)
qed simp

declare smtp_loop.simps [simp del]

definition smtp_greeting :: "mail_env \<Rightarrow> string" where
  "smtp_greeting env = snprintf 255 (''220 '' @ smtp_host env @ '' - NullLogic GroupServer SMTPd'')"

definition smtp_dorequest :: "mail_env \<Rightarrow> database \<Rightarrow> smtp_conn \<Rightarrow> smtp_conn option" where
  "smtp_dorequest env db c =
     (if \<not> nsp_init env then Some c
      else
        let (r, c1) = conn_allow_relay env c;
            m = no_mailconn\<lparr>sender_can_relay := r\<rparr>
        in if r = -1 \<or> nsp_prefilter env (ss_addr c1) then
             Some (smtp_send c1 (snprintf 255 (''550 5.3.2 Service currently unavailable; client '' @ ss_addr c1
               @ '' temporarily blocked'')))
           else map_option fst (smtp_loop env db (smtp_send c1 (smtp_greeting env)) m))"

end
