(* ===== verification/Smtp_Session.thy ===== *)
theory Smtp_Session
  imports Smtp
begin

text \<open>
  Correctness of the SMTP session: the envelope stays within what the relay rules allow,
  mail that is already stored is never touched, the body that DATA stores is what the client
  sent with the missing header fields inserted at the end of the header, and a message for a
  local mailbox ends up in it.
\<close>

section \<open>Delivery\<close>

text \<open>What a delivery may do to the store: add files, never change or remove one.\<close>

definition store_grows :: "mail_store \<Rightarrow> mail_store \<Rightarrow> bool" where
  "store_grows st st' \<longleftrightarrow> (\<forall>f t. mail_files st f = Some t \<longrightarrow> mail_files st' f = Some t)
     \<and> set (ticks st') \<subseteq> set (ticks st)"

lemma store_grows_refl [simp]: "store_grows st st"
  by (simp add: store_grows_def)

lemma store_grows_trans: "store_grows a b \<Longrightarrow> store_grows b c \<Longrightarrow> store_grows a c"
  unfolding store_grows_def by (meson subset_trans)

text \<open>Where a client without the right to relay can put a file: a local mailbox, or a bounce.\<close>

definition local_mailbox :: "mail_env \<Rightarrow> database \<Rightarrow> string \<Rightarrow> bool" where
  "local_mailbox env db f \<longleftrightarrow> (\<exists>host user t. 0 < domain_getid db host \<and> f = spool_name env (domain_getid db host) user t)"

definition stays_local :: "mail_env \<Rightarrow> database \<Rightarrow> mail_store \<Rightarrow> mail_store \<Rightarrow> bool" where
  "stays_local env db st st' \<longleftrightarrow> (\<forall>f. mail_files st' f = mail_files st f \<or> local_mailbox env db f
     \<or> (\<exists>text. mail_files st' f = Some text \<and> bounce_made env text))"

lemma stays_local_refl [simp]: "stays_local env db st st"
  by (simp add: stays_local_def)

lemma stays_local_trans: "stays_local env db a b \<Longrightarrow> stays_local env db b c \<Longrightarrow> stays_local env db a c"
  unfolding stays_local_def by metis

lemma bounce_only_store: "bounce_only env st st' \<Longrightarrow> store_grows st st' \<and> stays_local env db st st'"
  unfolding bounce_only_def store_grows_def stays_local_def by (metis option.distinct(1))

definition result_store :: "(int \<times> mail_store) + mail_store \<Rightarrow> mail_store" where
  "result_store r = (case r of Inl (_, st) \<Rightarrow> st | Inr st \<Rightarrow> st)"

lemma accept_write_grows:
  assumes "mail_files st name = None" and "\<And>f. info = Some f \<Longrightarrow> mail_files st f = None"
  shows "store_grows st (result_store (accept_write env addr m r name info st))"
  using assms
  by (auto simp: accept_write_def Let_def result_store_def store_grows_def split: option.splits)

lemma accept_write_local:
  assumes "local_mailbox env db name"
  shows "stays_local env db st (result_store (accept_write env addr m r name None st))"
  using assms by (auto simp: accept_write_def Let_def result_store_def stays_local_def)

lemma accept_one_store:
  assumes "accept_one env db addr m r st = Some res"
  shows "store_grows st (result_store res) \<and> (sender_can_relay m \<noteq> 1 \<longrightarrow> stays_local env db st (result_store res))"
proof -
  obtain user host where sp: "split_address (snprintf 127 r) = (user, host)" by fastforce
  define did where "did = domain_getid db host"
  define u where "u = (case strchr user (CHR ''+'') of None \<Rightarrow> user | Some (a, _) \<Rightarrow> a)"
  show ?thesis
  proof (cases "0 < did")
    case did: True
    show ?thesis
    proof (cases "local_user db u did")
      case None
      with assms sp did have "res = Inl (-1, st)"
        by (simp add: accept_one_def did_def [symmetric] u_def [symmetric])
      then show ?thesis by (simp add: result_store_def)
    next
      case (Some p)
      obtain uid name where p: "p = (uid, name)" by (cases p)
      show ?thesis
      proof (cases "uid < 1")
        case True
        with assms sp did Some p obtain rc st1 where
          b: "bounce_send env db (mfrom m) r None ''554 no such mailbox'' st = Some (rc, st1)" and "res = Inr st1"
          by (auto simp: accept_one_def did_def [symmetric] u_def [symmetric])
        with bounce_only_store [OF bounce_send_only [OF b]] show ?thesis by (simp add: result_store_def)
      next
        case uid: False
        show ?thesis
        proof (cases "have_dir env (spool_dir env did name)")
          case True
          with assms sp did Some p uid obtain f st1 where
            pk: "pick_spool env did name st = Some (f, st1)" and res: "res = accept_write env addr m r f None st1"
            by (auto simp: accept_one_def did_def [symmetric] u_def [symmetric])
          from pick_spool_Some [OF pk] have f: "mail_files st f = None" "mail_files st1 = mail_files st"
            "\<exists>t. f = spool_name env did name t" "set (ticks st1) \<subseteq> set (ticks st)" by auto
          then have lm: "local_mailbox env db f" using did unfolding local_mailbox_def did_def by blast
          have "store_grows st1 (result_store res)" using accept_write_grows [of st1 f None] f res by simp
          moreover have "stays_local env db st1 (result_store res)" using accept_write_local [OF lm] res by simp
          ultimately show ?thesis using f(2,4) unfolding store_grows_def stays_local_def by (metis subset_trans)
        next
          case False
          with assms sp did Some p uid have "res = Inr st"
            by (simp add: accept_one_def did_def [symmetric] u_def [symmetric])
          then show ?thesis by (simp add: result_store_def)
        qed
      qed
    qed
  next
    case nd: False
    show ?thesis
    proof (cases "sender_can_relay m = 1")
      case True
      with assms sp nd obtain f i st1 where
        pk: "pick_queue env st = Some (f, i, st1)" and res: "res = accept_write env addr m r f (Some i) st1"
        by (auto simp: accept_one_def did_def [symmetric])
      from pick_queue_Some [OF pk] have f: "mail_files st f = None" "mail_files st i = None"
        "mail_files st1 = mail_files st" "set (ticks st1) \<subseteq> set (ticks st)" by auto
      then have "store_grows st1 (result_store res)" using accept_write_grows [of st1 f "Some i"] res by simp
      then have "store_grows st (result_store res)" using f(3,4) unfolding store_grows_def by (metis subset_trans)
      then show ?thesis using True by simp
    next
      case False
      with assms sp nd have "res = Inr st" by (simp add: accept_one_def did_def [symmetric])
      then show ?thesis by (simp add: result_store_def)
    qed
  qed
qed

lemma accept_loop_store:
  assumes "accept_loop env db addr m rs st = Some (rc, st')"
  shows "store_grows st st' \<and> (sender_can_relay m \<noteq> 1 \<longrightarrow> stays_local env db st st')"
  using assms
proof (induction env db addr m rs st rule: accept_loop.induct)
  case (2 env db addr m r rs st)
  from 2(2) obtain res where one: "accept_one env db addr m r st = Some res" by (auto split: option.splits)
  note s1 = accept_one_store [OF one]
  show ?case
  proof (cases res)
    case (Inl p)
    with 2(2) one have "st' = result_store res" by (cases p) (simp add: result_store_def)
    with s1 show ?thesis by simp
  next
    case (Inr st1)
    with 2(2) one have "accept_loop env db addr m rs st1 = Some (rc, st')" by simp
    from 2(1) [OF one Inr this] s1 Inr show ?thesis
      by (auto simp: result_store_def intro: store_grows_trans stays_local_trans)
  qed
qed simp


section \<open>The envelope\<close>

text \<open>
  The invariant of an envelope: there is a sender before there is a recipient, and every
  recipient has a domain, which is local unless the client may relay.
\<close>

definition envelope_ok :: "database \<Rightarrow> MAILCONN \<Rightarrow> bool" where
  "envelope_ok db m \<longleftrightarrow> (rcpt m \<noteq> [] \<longrightarrow> has_sender m) \<and>
     (\<forall>r \<in> set (rcpt m). CHR ''@'' \<in> set r \<and> length r \<le> 118 \<and>
        (0 < domain_getid db (snd (split_address r)) \<or> sender_can_relay m = 1))"

lemma length_mail_address: "length (mail_address line) \<le> 118"
proof -
  have cut: "length (case strchr a ch of None \<Rightarrow> a | Some (x, _) \<Rightarrow> x) \<le> length a"
    "length (case strchr a ch of None \<Rightarrow> a | Some (_, y) \<Rightarrow> y) \<le> length a" for a ch
    by (auto dest: strchr_Some split: option.splits)
  have "length (snprintf 119 (skip_blanks line)) \<le> 118" by (simp add: snprintf_def)
  with cut show ?thesis unfolding mail_address_def Let_def by (meson order_trans)
qed

lemma smtp_rcpt_envelope:
  assumes "smtp_rcpt db c m line = (c', m')" and "envelope_ok db m"
  shows "envelope_ok db m'"
proof -
  let ?a = "mail_address line"
  have a: "snprintf 127 ?a = ?a" using length_mail_address [of line] by (simp add: snprintf_short)
  show ?thesis
  proof (cases "m' = m")
    case False
    with assms(1) obtain u host where at: "strchr ?a (CHR ''@'') = Some (u, host)" and s: "has_sender m"
      and ok: "\<not> (domain_getid db host < 1 \<and> sender_can_relay m \<noteq> 1)" and m': "m' = m\<lparr>rcpt := rcpt m @ [?a]\<rparr>"
      by (auto simp: smtp_rcpt_def Let_def a split: if_splits option.splits)
    have "CHR ''@'' \<in> set ?a" using strchr_Some [OF at] by simp
    moreover have "snd (split_address ?a) = host" using at by (simp add: split_address_def)
    ultimately show ?thesis
      using assms(2) s ok m' length_mail_address [of line] by (auto simp: envelope_ok_def has_sender_def)
  qed (simp add: assms(2))
qed

lemma envelope_ok_empty [simp]: "rcpt m = [] \<Longrightarrow> envelope_ok db m"
  by (simp add: envelope_ok_def)

text \<open>A client that no rule lets relay.\<close>

definition barred :: "smtp_conn \<Rightarrow> bool" where
  "barred c \<longleftrightarrow> ss_addr c \<noteq> ''127.0.0.1'' \<and>
     (\<forall>r \<in> set (ss_rules c). ipaddress r = ss_addr c \<longrightarrow> ruletype r \<noteq> RAllow)"

lemma conn_allow_relay_barred:
  assumes "conn_allow_relay env c = (r, c1)"
  shows "ss_store c1 = ss_store c" and "ss_sock c1 = ss_sock c" and "barred c \<Longrightarrow> r \<noteq> 1 \<and> barred c1"
proof -
  obtain now where n: "(case ss_times c of [] \<Rightarrow> unix_time env | t # _ \<Rightarrow> t) = now" by blast
  from assms show "ss_store c1 = ss_store c" "ss_sock c1 = ss_sock c"
    by (auto simp: conn_allow_relay_def Let_def split: prod.splits)
  show "r \<noteq> 1 \<and> barred c1" if "barred c"
    using assms that
    by (auto simp: conn_allow_relay_def Let_def barred_def allow_relay_def rr_matching_def rr_purge_def
        split: prod.splits if_splits)
qed

lemma smtp_send_other [simp]: "ss_store (smtp_send c t) = ss_store c" "barred (smtp_send c t) = barred c"
  "ss_store (smtp_nsp_addfilter c t) = ss_store c" "barred (smtp_nsp_addfilter c t) = barred c"
  "ss_addr (smtp_send c t) = ss_addr c" "ss_state (smtp_send c t) = ss_state c"
  by (simp_all add: smtp_send_def smtp_nsp_addfilter_def barred_def)

lemma barred_upd [simp]: "barred (c\<lparr>ss_sock := s\<rparr>) = barred c" "barred (c\<lparr>ss_store := st\<rparr>) = barred c"
  "barred (c\<lparr>ss_state := i\<rparr>) = barred c"
  by (simp_all add: barred_def)

text \<open>What one step of a session guarantees.\<close>

definition step_safe :: "mail_env \<Rightarrow> database \<Rightarrow> smtp_conn \<Rightarrow> MAILCONN \<Rightarrow> smtp_conn \<Rightarrow> MAILCONN \<Rightarrow> bool" where
  "step_safe env db c m c' m' \<longleftrightarrow> (envelope_ok db m \<longrightarrow> envelope_ok db m') \<and>
     store_grows (ss_store c) (ss_store c') \<and>
     (barred c \<and> sender_can_relay m \<noteq> 1 \<longrightarrow>
        barred c' \<and> sender_can_relay m' \<noteq> 1 \<and> stays_local env db (ss_store c) (ss_store c'))"

lemma step_safe_trans:
  "step_safe env db c m c1 m1 \<Longrightarrow> step_safe env db c1 m1 c2 m2 \<Longrightarrow> step_safe env db c m c2 m2"
  unfolding step_safe_def by (meson store_grows_trans stays_local_trans)

lemma step_safe_reply:
  "ss_store c' = ss_store c \<Longrightarrow> barred c' = barred c \<Longrightarrow> sender_can_relay m' = sender_can_relay m \<Longrightarrow>
   (envelope_ok db m \<Longrightarrow> envelope_ok db m') \<Longrightarrow> step_safe env db c m c' m'"
  by (simp add: step_safe_def)

lemma envelope_ok_upd [simp]: "envelope_ok db (m\<lparr>helo := h\<rparr>) = envelope_ok db m"
  "envelope_ok db (m\<lparr>msgbody := b\<rparr>) = envelope_ok db m"
  by (simp_all add: envelope_ok_def has_sender_def)

lemma smtp_rset_safe: "smtp_rset env c m quiet = (c', m') \<Longrightarrow> step_safe env db c m c' m'"
proof -
  assume r: "smtp_rset env c m quiet = (c', m')"
  obtain a c1 where al: "conn_allow_relay env c = (a, c1)" by fastforce
  from conn_allow_relay_barred [OF al] r al show ?thesis
    by (auto simp: smtp_rset_def step_safe_def split: if_splits)
qed

lemma smtp_data_safe: "smtp_data env db c m = Some (c', m') \<Longrightarrow> step_safe env db c m c' m'"
proof -
  assume d: "smtp_data env db c m = Some (c', m')"
  let ?c = "smtp_send c ''354 Send the mail data, end with .''"
  obtain ok body s where l: "data_loop env m (False, no_header) [] (ss_sock ?c) = (ok, body, s)" by (metis prod_cases3)
  consider (early) "\<not> has_sender m \<or> rcpt m = [] \<or> \<not> ok" | (run) "has_sender m" "rcpt m \<noteq> []" "ok" by blast
  then show ?thesis
  proof cases
    case early
    with d l show ?thesis by (intro step_safe_reply) (auto simp: smtp_data_def Let_def split: if_splits)
  next
    case run
    with d l obtain rc st where
      a: "smtp_accept env db (ss_addr c) (m\<lparr>msgbody := body\<rparr>) (ss_store c) = Some (rc, st)"
      and c': "c' = smtp_send (?c\<lparr>ss_sock := s, ss_store := st\<rparr>) (data_reply rc)" "m' = m\<lparr>msgbody := []\<rparr>"
      by (auto simp: smtp_data_def Let_def split: option.splits prod.splits)
    from accept_loop_store [OF a [unfolded smtp_accept_def]] c' show ?thesis by (simp add: step_safe_def)
  qed
qed


lemma smtp_starttls_safe: "smtp_starttls env c m = (c', m') \<Longrightarrow> step_safe env db c m c' m'"
proof -
  assume t: "smtp_starttls env c m = (c', m')"
  obtain c1 m1 where r: "smtp_rset env (smtp_send c ''220 Ready to start TLS'') m True = (c1, m1)" by fastforce
  from smtp_rset_safe [OF r, of db] t r show ?thesis by (auto simp: smtp_starttls_def step_safe_def)
qed

lemma smtp_helo_safe: "smtp_helo env c m line = (c', m') \<Longrightarrow> step_safe env db c m c' m'"
  by (intro step_safe_reply) (auto simp: smtp_helo_def Let_def split: if_splits)

lemma smtp_from_safe: "smtp_from c m line = (c', m') \<Longrightarrow> step_safe env db c m c' m'"
  by (intro step_safe_reply) (auto simp: smtp_from_def Let_def split: if_splits)

lemma smtp_rcpt_safe: "smtp_rcpt db c m line = (c', m') \<Longrightarrow> step_safe env db c m c' m'"
  using smtp_rcpt_envelope [of db c m line c' m']
  by (intro step_safe_reply) (auto simp: smtp_rcpt_def Let_def split: if_splits option.splits)

lemma smtp_command_safe:
  assumes "smtp_command env db c m line = Some (c', m')"
  shows "step_safe env db c m c' m'"
proof -
  have reply: "step_safe env db c x (smtp_send c t) x"
    "step_safe env db c x (smtp_nsp_addfilter (smtp_send c t) w) x" for t w x
    by (rule step_safe_reply; simp)+
  from assms show ?thesis
    unfolding smtp_command_def Let_def
    by (auto simp: smtp_turn_def smtp_noop_def reply split: if_splits
        intro: smtp_starttls_safe smtp_helo_safe smtp_from_safe smtp_rcpt_safe smtp_data_safe smtp_rset_safe)
qed

text \<open>The steps of a session, as a relation on connection and envelope.\<close>

inductive smtp_steps :: "mail_env \<Rightarrow> database \<Rightarrow> smtp_conn \<times> MAILCONN \<Rightarrow> smtp_conn \<times> MAILCONN \<Rightarrow> bool"
  for env db where
  steps_end: "tcp_fgets 255 (ss_sock c) = (None, s) \<Longrightarrow> smtp_steps env db (c, m) (c\<lparr>ss_sock := s\<rparr>, m)"
| steps_quit: "tcp_fgets 255 (ss_sock c) = (Some raw, s) \<Longrightarrow> strcaseeq (cstr (striprn_buf raw)) ''quit'' \<Longrightarrow>
     smtp_steps env db (c, m) (smtp_send (c\<lparr>ss_sock := s\<rparr>) ''221 Goodbye'', m)"
| steps_cmd: "tcp_fgets 255 (ss_sock c) = (Some raw, s) \<Longrightarrow> \<not> strcaseeq (cstr (striprn_buf raw)) ''quit'' \<Longrightarrow>
     smtp_command env db (c\<lparr>ss_sock := s\<rparr>) m (striprn_buf raw) = Some (c1, m1) \<Longrightarrow>
     smtp_steps env db (c1, m1) (c2, m2) \<Longrightarrow> smtp_steps env db (c, m) (c2, m2)"

lemma smtp_loop_steps: "smtp_loop env db c m = Some (c2, m2) \<Longrightarrow> smtp_steps env db (c, m) (c2, m2)"
proof (induction env db c m rule: smtp_loop.induct)
  case (1 env db c m)
  obtain r s where f: "tcp_fgets 255 (ss_sock c) = (r, s)" by fastforce
  show ?case
  proof (cases r)
    case None
    with f 1(2) show ?thesis
      using steps_end [of c s env db m] by (simp add: smtp_loop.simps [of env db c])
  next
    case (Some raw)
    show ?thesis
    proof (cases "strcaseeq (cstr (striprn_buf raw)) ''quit''")
      case True
      with f Some 1(2) show ?thesis
        using steps_quit [of c raw s env db m] by (simp add: smtp_loop.simps [of env db c])
    next
      case False
      with f Some 1(2) obtain c1 m1 where
        cmd: "smtp_command env db (c\<lparr>ss_sock := s\<rparr>) m (striprn_buf raw) = Some (c1, m1)"
        and l: "smtp_loop env db c1 m1 = Some (c2, m2)"
        by (auto simp: smtp_loop.simps [of env db c] split: option.splits)
      have "smtp_steps env db (c1, m1) (c2, m2)"
        using 1(1) [OF f [symmetric] Some refl refl False cmd] l by simp
      with steps_cmd [OF _ False cmd] f Some show ?thesis by simp
    qed
  qed
qed

lemma smtp_steps_safe:
  "smtp_steps env db x y \<Longrightarrow> step_safe env db (fst x) (snd x) (fst y) (snd y)"
proof (induction rule: smtp_steps.induct)
  case (steps_cmd c raw s m c1 m1 c2 m2)
  have "step_safe env db c m (c\<lparr>ss_sock := s\<rparr>) m" by (rule step_safe_reply) simp_all
  with smtp_command_safe [OF steps_cmd(3)] steps_cmd(5) show ?case by (auto intro: step_safe_trans)
qed (auto intro: step_safe_reply)

lemma smtp_dorequest_cases:
  assumes "smtp_dorequest env db c = Some c'"
  shows "store_grows (ss_store c) (ss_store c') \<and> (barred c \<longrightarrow> stays_local env db (ss_store c) (ss_store c'))"
proof (cases "nsp_init env")
  case True
  obtain r c1 where al: "conn_allow_relay env c = (r, c1)" by fastforce
  let ?c = "smtp_send c1 (smtp_greeting env)" and ?m = "no_mailconn\<lparr>sender_can_relay := r\<rparr>"
  from assms True al consider "ss_store c' = ss_store c1"
    | m' where "smtp_loop env db ?c ?m = Some (c', m')"
    by (auto simp: smtp_dorequest_def split: if_splits)
  then show ?thesis
  proof cases
    case 1
    then show ?thesis using conn_allow_relay_barred(1) [OF al] by simp
  next
    case 2
    from smtp_steps_safe [OF smtp_loop_steps [OF 2]] conn_allow_relay_barred [OF al]
    show ?thesis by (auto simp: step_safe_def)
  qed
qed (use assms in \<open>simp add: smtp_dorequest_def\<close>)


section \<open>The message body\<close>

text \<open>A line of a message as a client sends it, and the header fields a header has.\<close>

definition body_line :: "string \<Rightarrow> bool" where
  "body_line l \<longleftrightarrow> is_cstr l \<and> (\<exists>t. l = t @ [LF] \<and> LF \<notin> set t) \<and> length l \<le> 1023 \<and> \<not> end_of_data l"

definition header_of :: "mail_env \<Rightarrow> MAILCONN \<Rightarrow> string list \<Rightarrow> MSGHEADER" where
  "header_of env m hs = snd (foldl (\<lambda>st l. fst (data_header env m st l)) (False, no_header) hs)"

lemma data_header_before:
  "\<not> end_of_header l \<Longrightarrow> \<exists>h'. data_header env m (False, h) l = ((False, h'), [])"
  by (simp add: data_header_def)

lemma end_of_header_fields: "end_of_header l \<Longrightarrow> \<not> strncaseeq l ''From: '' 6 \<and> \<not> strncaseeq l ''Date: '' 6
    \<and> \<not> strncaseeq l ''Message-ID: '' 12"
  by (auto simp: end_of_header_def end_of_data_def strncaseeq_def control_chars)

lemma data_header_end:
  "end_of_header l \<Longrightarrow> data_header env m (False, h) l = ((True, h), header_lines env m h)"
  using end_of_header_fields [of l] by (simp add: data_header_def)

lemma data_loop_line:
  assumes "buf_ok s" and "open_sock s" and "body_line l" and "stream s = l @ rest"
    and "data_header env m st l = (st1, ins)"
  shows "\<exists>s'. data_loop env m st body s = data_loop env m st1 (body @ ins @ l) s' \<and> stream s' = rest
     \<and> buf_ok s' \<and> open_sock s' \<and> tx_same s s'"
proof -
  from read_body_line [OF assms(1,2,4)] assms(3) obtain s' where
    f: "tcp_fgets 1023 s = (Some l, s')" "stream s' = rest" "buf_ok s'" "open_sock s'" "tx_same s s'"
    by (auto simp: body_line_def)
  moreover have "cstr l = l" "\<not> end_of_data l" using assms(3) by (auto simp: body_line_def intro: cstr_id)
  ultimately show ?thesis
    using assms(5) by (intro exI [of _ s']) (simp add: data_loop.simps [of env m st body s])
qed

lemma data_loop_dot:
  assumes "buf_ok s" and "open_sock s" and "stream s = ''.'' @ CRLF @ rest"
    and "data_header env m st (''.'' @ CRLF) = (st1, ins)"
  shows "\<exists>s'. data_loop env m st body s = (True, body @ ins, s') \<and> stream s' = rest \<and> buf_ok s' \<and> open_sock s' \<and> tx_same s s'"
proof -
  have "\<exists>t. ''.'' @ CRLF = t @ [LF] \<and> LF \<notin> set t" by (intro exI [of _ "''.'' @ [CR]"]) (simp add: control_chars)
  from read_body_line [OF assms(1,2), of "''.'' @ CRLF" rest, OF _ this] assms(3) obtain s' where
    f: "tcp_fgets 1023 s = (Some (''.'' @ CRLF), s')" "stream s' = rest" "buf_ok s'" "open_sock s'" "tx_same s s'" by auto
  moreover have "cstr (''.'' @ CRLF) = ''.'' @ CRLF" by (rule cstr_id) (simp add: control_chars)
  moreover have "end_of_data (''.'' @ CRLF)" by (simp add: end_of_data_def)
  ultimately show ?thesis
    using assms(4) by (intro exI [of _ s']) (simp add: data_loop.simps [of env m st body s])
qed

text \<open>Behind the header every line is stored as it is.\<close>

lemma data_loop_rest:
  assumes "buf_ok s" and "open_sock s" and "stream s = concat bs @ ''.'' @ CRLF @ rest" and "\<forall>l \<in> set bs. body_line l"
  shows "\<exists>s'. data_loop env m (True, h) body s = (True, body @ concat bs, s') \<and> stream s' = rest \<and> buf_ok s' \<and> open_sock s' \<and> tx_same s s'"
  using assms
proof (induction bs arbitrary: s body)
  case Nil
  then show ?case using data_loop_dot [of s rest env m "(True, h)" "(True, h)" "[]" body] by (simp add: data_header_def)
next
  case (Cons l bs)
  have h: "data_header env m (True, h) l = ((True, h), [])" by (simp add: data_header_def)
  from Cons.prems have "stream s = l @ concat bs @ ''.'' @ CRLF @ rest" "body_line l" by simp_all
  from data_loop_line [OF Cons.prems(1,2) this(2,1) h, of body] obtain s1 where
    s1: "data_loop env m (True, h) body s = data_loop env m (True, h) (body @ l) s1"
    "stream s1 = concat bs @ ''.'' @ CRLF @ rest" "buf_ok s1" "open_sock s1" "tx_same s s1" by auto
  with Cons.IH [of s1 "body @ l"] Cons.prems(4) show ?case by (auto intro: tx_same_trans)
qed


lemma data_loop_header:
  assumes "buf_ok s" and "open_sock s" and "stream s = concat hs @ rest"
    and "\<forall>l \<in> set hs. body_line l \<and> \<not> end_of_header l"
  shows "\<exists>s'. data_loop env m (False, h) body s =
       data_loop env m (False, snd (foldl (\<lambda>st l. fst (data_header env m st l)) (False, h) hs)) (body @ concat hs) s'
     \<and> stream s' = rest \<and> buf_ok s' \<and> open_sock s' \<and> tx_same s s'"
  using assms
proof (induction hs arbitrary: s body h)
  case (Cons l hs)
  from data_header_before [of l env m h] Cons.prems(4) obtain h' where
    h': "data_header env m (False, h) l = ((False, h'), [])" by auto
  from Cons.prems have "stream s = l @ concat hs @ rest" "body_line l" by simp_all
  from data_loop_line [OF Cons.prems(1,2) this(2,1) h', of body] obtain s1 where
    s1: "data_loop env m (False, h) body s = data_loop env m (False, h') (body @ l) s1"
    "stream s1 = concat hs @ rest" "buf_ok s1" "open_sock s1" "tx_same s s1" by auto
  with Cons.IH [of s1 h' "body @ l"] Cons.prems(4) h' show ?case by (auto intro: tx_same_trans)
qed auto

definition stored_body :: "mail_env \<Rightarrow> MAILCONN \<Rightarrow> string list \<Rightarrow> string" where
  "stored_body env m ls =
     (let hs = takeWhile (\<lambda>l. \<not> end_of_header l) ls
      in concat hs @ header_lines env m (header_of env m hs) @ concat (drop (length hs) ls))"

lemma data_loop_body:
  assumes "buf_ok s" and "open_sock s" and "stream s = concat ls @ ''.'' @ CRLF @ rest" and "\<forall>l \<in> set ls. body_line l"
  shows "\<exists>s'. data_loop env m (False, no_header) [] s = (True, stored_body env m ls, s') \<and> stream s' = rest
     \<and> buf_ok s' \<and> open_sock s' \<and> tx_same s s'"
proof -
  define hs where "hs = takeWhile (\<lambda>l. \<not> end_of_header l) ls"
  define bs where "bs = drop (length hs) ls"
  have ls: "ls = hs @ bs" unfolding hs_def bs_def by (metis append_take_drop_id takeWhile_eq_take)
  let ?h = "header_of env m hs"
  have "\<forall>l \<in> set hs. body_line l \<and> \<not> end_of_header l"
    using assms(4) unfolding hs_def by (auto dest: set_takeWhileD)
  moreover have "stream s = concat hs @ concat bs @ ''.'' @ CRLF @ rest" using assms(3) ls by simp
  ultimately obtain s1 where s1: "data_loop env m (False, no_header) [] s = data_loop env m (False, ?h) (concat hs) s1"
    "stream s1 = concat bs @ ''.'' @ CRLF @ rest" "buf_ok s1" "open_sock s1" "tx_same s s1"
    using data_loop_header [OF assms(1,2), of hs "concat bs @ ''.'' @ CRLF @ rest" env m no_header "[]"]
    by (auto simp: header_of_def)
  have st: "stored_body env m ls = concat hs @ header_lines env m ?h @ concat bs"
    by (simp add: stored_body_def hs_def [symmetric] bs_def [symmetric])
  show ?thesis
  proof (cases bs)
    case Nil
    have "end_of_header (''.'' @ CRLF)" by (simp add: end_of_header_def end_of_data_def)
    from data_loop_dot [OF s1(3,4) _ data_header_end [OF this], of rest env m ?h "concat hs"] s1 st Nil
    show ?thesis by (auto intro: tx_same_trans)
  next
    case (Cons l ts)
    have e: "end_of_header l"
      using Cons hs_def bs_def by (metis dropWhile_eq_drop hd_dropWhile list.distinct(1) list.sel(1))
    have bl: "body_line l" "\<forall>l \<in> set ts. body_line l" using assms(4) ls Cons by simp_all
    have "stream s1 = l @ concat ts @ ''.'' @ CRLF @ rest" using s1(2) Cons by simp
    from data_loop_line [OF s1(3,4) bl(1) this data_header_end [OF e], of env m ?h "concat hs"] obtain s2 where
      s2: "data_loop env m (False, ?h) (concat hs) s1 = data_loop env m (True, ?h) (concat hs @ header_lines env m ?h @ l) s2"
      "stream s2 = concat ts @ ''.'' @ CRLF @ rest" "buf_ok s2" "open_sock s2" "tx_same s1 s2" by auto
    from data_loop_rest [OF s2(3,4,2) bl(2), of env m ?h "concat hs @ header_lines env m ?h @ l"] s2 s1 st Cons
    show ?thesis by (auto intro: tx_same_trans)
  qed
qed

section \<open>Copies for the recipients\<close>

text \<open>The mailbox an address stands for: domain number and user name.\<close>

definition mailbox_of :: "database \<Rightarrow> string \<Rightarrow> (int \<times> string) option" where
  "mailbox_of db r =
     (let (user, host) = split_address (snprintf 127 r);
          did = domain_getid db host;
          user = (case strchr user (CHR ''+'') of None \<Rightarrow> user | Some (u, _) \<Rightarrow> u)
      in if 0 < did then
           (case local_user db user did of
              None \<Rightarrow> None
            | Some (uid, name) \<Rightarrow> if uid < 1 then None else Some (did, name))
         else None)"

definition copy_stored :: "mail_env \<Rightarrow> string \<Rightarrow> MAILCONN \<Rightarrow> string \<Rightarrow> int \<Rightarrow> string \<Rightarrow> mail_store \<Rightarrow> mail_store \<Rightarrow> bool" where
  "copy_stored env addr m r did user st st' \<longleftrightarrow> (\<exists>t \<in> set (ticks st). mail_files st (spool_name env did user t) = None \<and>
     mail_files st' (spool_name env did user t) = Some (received_header env addr m r @ msgbody m))"

lemma accept_write_copy:
  assumes "accept_write env addr m r name None st = Inr st'"
  shows "mail_files st' = (mail_files st)(name \<mapsto> received_header env addr m r @ msgbody m)"
  using assms by (auto simp: accept_write_def Let_def split: if_splits)

lemma accept_write_code: "accept_write env addr m r name info st = Inl (rc, st') \<Longrightarrow> rc \<noteq> 0"
  by (auto simp: accept_write_def Let_def split: if_splits option.splits)

lemma accept_one_code: "accept_one env db addr m r st = Some (Inl (rc, st')) \<Longrightarrow> rc \<noteq> 0"
  by (auto simp: accept_one_def Let_def split: if_splits option.splits prod.splits dest: accept_write_code)

lemma accept_one_copy:
  assumes "accept_one env db addr m r st = Some (Inr st')" and "mailbox_of db r = Some (did, user)"
    and "have_dir env (spool_dir env did user)"
  shows "copy_stored env addr m r did user st st'"
proof -
  from assms obtain name st1 where pk: "pick_spool env did user st = Some (name, st1)"
    and w: "accept_write env addr m r name None st1 = Inr st'"
    by (auto simp: accept_one_def mailbox_of_def Let_def split: prod.splits option.splits if_splits)
  from pick_spool_Some [OF pk] accept_write_copy [OF w] show ?thesis
    by (auto simp: copy_stored_def)
qed

lemma copy_stored_mono:
  "copy_stored env addr m r did user st1 st2 \<Longrightarrow> store_grows st st1 \<Longrightarrow> store_grows st2 st3 \<Longrightarrow>
   copy_stored env addr m r did user st st3"
  unfolding copy_stored_def store_grows_def by (metis not_Some_eq subsetD)

lemma accept_loop_copies:
  assumes "accept_loop env db addr m rs st = Some (0, st')" and "r \<in> set rs"
    and "mailbox_of db r = Some (did, user)" and "have_dir env (spool_dir env did user)"
  shows "copy_stored env addr m r did user st st'"
  using assms(1,2)
proof (induction rs arbitrary: st)
  case (Cons r' rs)
  from Cons.prems(1) accept_one_code obtain st1 where
    one: "accept_one env db addr m r' st = Some (Inr st1)" and rest: "accept_loop env db addr m rs st1 = Some (0, st')"
    by (fastforce split: option.splits sum.splits)
  have g1: "store_grows st st1" using accept_one_store [OF one] by (simp add: result_store_def)
  have g2: "store_grows st1 st'" using accept_loop_store [OF rest] by simp
  show ?case
  proof (cases "r = r'")
    case True
    with accept_one_copy [of env db addr m r st st1] one assms(3,4) g2 show ?thesis
      by (auto intro: copy_stored_mono)
  next
    case False
    with Cons.IH [OF rest] Cons.prems(2) g1 show ?thesis by (auto intro: copy_stored_mono)
  qed
qed simp

section \<open>Properties\<close>





lemma smtp_send_push: "link_up (ss_sock c) \<Longrightarrow>
    smtp_send c t = c\<lparr>ss_sock := push (snprintf 2047 (t @ CRLF)) (ss_sock c)\<rparr>"
  by (simp add: smtp_send_def tcp_fprintf_def send_push)


text \<open>
  The recipient table is not bounded: for a local recipient each of 51 RCPT commands is
  accepted, so the number of recipients passes the 50 entries that \<open>smtp_dorequest\<close> allocates
  for them (\<open>rcptalloc\<close>), and the C array is written behind its end.
\<close>

theorem smtp_rcpt_overruns:
  assumes "has_sender m" and "strchr (mail_address line) (CHR ''@'') = Some (u, host)" and "1 \<le> domain_getid db host"
  shows "rcptalloc < length (rcpt (snd (((\<lambda>(c, m). smtp_rcpt db c m line) ^^ 51) (c, m))))"
proof -
  have one: "has_sender (snd (smtp_rcpt db c m line)) \<and> length (rcpt (snd (smtp_rcpt db c m line))) = Suc (length (rcpt m))"
    if "has_sender m" for c m
    using that assms(2,3) by (auto simp: smtp_rcpt_def has_sender_def Let_def)
  have "has_sender (snd (((\<lambda>(c, m). smtp_rcpt db c m line) ^^ n) (c, m)))
     \<and> length (rcpt (snd (((\<lambda>(c, m). smtp_rcpt db c m line) ^^ n) (c, m)))) = length (rcpt m) + n" for n
  proof (induction n)
    case (Suc n)
    then show ?case using one by (simp add: case_prod_beta)
  qed (simp add: assms(1))
  from this [of 51] show ?thesis by (simp add: rcptalloc_def del: funpow.simps)
qed

text \<open>
  \<open>strncatf\<close> writes outside a buffer that it fills twice: appending to a string that is not
  empty with the size of the whole buffer as the room, as \<open>smtp_data\<close> does with its 1024-byte
  buffer, stores the final NUL at or behind the end of the buffer.
\<close>

theorem strncatf_overruns:
  assumes "dest \<noteq> []" and "0 < size_of"
  shows "size_of \<le> snd (strncatf dest size_of text)"
  using assms by (cases dest) (auto simp: strncatf_def)

theorem strncatf_overruns_witness: "1024 \<le> snd (strncatf ''From: bob'' 1024 ''Date: now'')"
  by (rule strncatf_overruns) simp_all

section \<open>A concrete session\<close>

definition demo_mail_env :: mail_env where
  "demo_mail_env = \<lparr>var_dir = ''/v'', host_name = ''mx'', smtp_host = ''mx'', dir_there = (\<lambda>_. True),
     dir_make = (\<lambda>_. False), can_write = (\<lambda>_. True), date_mail = ''Thu, 01 Jan 1970 00:16:40 GMT'',
     date_received = ''Thu, 01 Jan 1970 00:16:40 +0000'', date_bounce = ''Thu, 01 Jan 1970 00:16:40'',
     date_sql = ''1970-01-01 00:16:40'', unix_time = 1000, filter_program = [], sys_system = (\<lambda>_ _. 0),
     nsp_postfilter = (\<lambda>_ _ _ _. 0), nsp_init = True, nsp_prefilter = (\<lambda>_. False), relay_query = True,
     smtp_tls = False, smtp_new_ok = False, smtp_hs_ok = False\<rparr>"

definition demo_store :: mail_store where
  "demo_store = \<lparr>mail_files = Map.empty(''/v/old'' \<mapsto> ''x''), ticks = [(1000, 1)]\<rparr>"

definition demo_smtp :: "string \<Rightarrow> smtp_conn" where
  "demo_smtp bytes = \<lparr>ss_state = 0, ss_sock = demo_socket\<lparr>net := [RxData bytes]\<rparr>, ss_addr = ''10.0.0.9'',
     ss_store = demo_store, ss_rules = [], ss_times = [], ss_filtered = []\<rparr>"

lemma demo_smtp_ready: "link_up (ss_sock (demo_smtp bytes))" "buf_ok (ss_sock (demo_smtp bytes))"
  "stream (ss_sock (demo_smtp bytes)) = bytes"
  using demo_socket_ok
  by (simp_all add: link_up_def buf_ok_def open_sock_def stream_def pending_def demo_smtp_def demo_socket_def)


text \<open>A client that hangs up at once.\<close>

lemma demo_hangup:
  "\<exists>c'. smtp_dorequest demo_mail_env db (demo_smtp []) = Some c'"
  "\<exists>c' m'. smtp_steps demo_mail_env db (demo_smtp [], m) (c', m')"
proof -
  have none: "fst (tcp_fgets 255 s) = None" if "buf_ok s" "link_up s" "stream s = []" for s
    using tcp.fgets_end [of s 255] that fgets_spec.simps(2) [of 254] by (simp add: link_up_def)
  have end_of: "\<exists>c' m'. smtp_steps demo_mail_env db (c, m) (c', m') \<and> smtp_loop demo_mail_env db c m = Some (c', m')"
    if "buf_ok (ss_sock c)" "link_up (ss_sock c)" "stream (ss_sock c) = []" for c m
  proof -
    note prems = that
    obtain s where f: "tcp_fgets 255 (ss_sock c) = (None, s)"
      using none [OF prems] by (cases "tcp_fgets 255 (ss_sock c)") auto
    from steps_end [OF this] f show ?thesis by (auto simp: smtp_loop.simps [of demo_mail_env db c])
  qed
  from end_of [of "demo_smtp []" m] demo_smtp_ready [of "[]"]
  show "\<exists>c' m'. smtp_steps demo_mail_env db (demo_smtp [], m) (c', m')" by blast
  let ?c = "smtp_send (demo_smtp []\<lparr>ss_times := []\<rparr>) (smtp_greeting demo_mail_env)"
  have al: "conn_allow_relay demo_mail_env (demo_smtp []) = (0, demo_smtp [])"
    by (simp add: conn_allow_relay_def allow_relay_def demo_smtp_def rr_purge_def rr_matching_def demo_mail_env_def)
  have "link_up (ss_sock ?c)" "buf_ok (ss_sock ?c)" "stream (ss_sock ?c) = []"
    using demo_smtp_ready [of "[]"] by (simp_all add: smtp_send_push demo_smtp_def)
  then obtain c' m' where "smtp_loop demo_mail_env db ?c (no_mailconn\<lparr>sender_can_relay := 0\<rparr>) = Some (c', m')"
    using end_of by blast
  then show "\<exists>c'. smtp_dorequest demo_mail_env db (demo_smtp []) = Some c'"
    using al by (simp add: smtp_dorequest_def demo_mail_env_def demo_smtp_def)
qed




definition demo_envelope :: MAILCONN where
  "demo_envelope = no_mailconn\<lparr>mfrom := ''al@x.org'', rcpt := [''bob@example.org'']\<rparr>"

lemma demo_accept:
  "\<exists>st'. smtp_accept demo_mail_env demo_db ''10.0.0.9'' (demo_envelope\<lparr>msgbody := b\<rparr>) demo_store = Some (0, st')"
proof -
  have sp: "split_address (snprintf 127 ''bob@example.org'') = (''bob'', ''example.org'')" by code_simp
  have "domain_getid demo_db ''example.org'' = 1" by (simp add: domain_getid_def demo_db_def)
  moreover have "local_user demo_db ''bob'' 1 = Some (7, ''bob'')"
    by (simp add: local_user_def alias_user_def demo_db_def)
  moreover have "strchr ''bob'' (CHR ''+'') = None" by code_simp
  moreover obtain name st1 where "pick_spool demo_mail_env 1 ''bob'' demo_store = Some (name, st1)"
  proof -
    have "spool_name demo_mail_env 1 ''bob'' (1000, 1) \<noteq> ''/v/old''" by code_simp
    then have "mail_files demo_store (spool_name demo_mail_env 1 ''bob'' (1000, 1)) = None" by (simp add: demo_store_def)
    then show ?thesis using that by (simp add: pick_spool_def demo_store_def)
  qed
  ultimately show ?thesis
    by (simp add: smtp_accept_def demo_envelope_def no_mailconn_def accept_one_def sp have_dir_def demo_mail_env_def
        accept_write_def filter_scan_def)
qed


theorem smtp_rcpt_overruns_witness:
  "rcptalloc < length (rcpt (snd (((\<lambda>(c, m). smtp_rcpt demo_db c m ''<bob@example.org>'') ^^ 51) (demo_smtp [], demo_envelope))))"
proof (rule smtp_rcpt_overruns [of _ _ "''bob''" "''example.org''"])
  show "has_sender demo_envelope" by (simp add: has_sender_def demo_envelope_def)
  show "strchr (mail_address ''<bob@example.org>'') (CHR ''@'') = Some (''bob'', ''example.org'')" by code_simp
  show "1 \<le> domain_getid demo_db ''example.org''" by (simp add: domain_getid_def demo_db_def)
qed

end
