(* ===== verification/NspOps.thy ===== *)
theory NspOps
  imports Prelude
begin

text \<open>
  The opcodes of the NSP script language: \<open>src/src/nsp/src/libnsp/opcodes.h\<close> and \<open>opcodes.c\<close>. An opcode is a
  number below 256; source text and compiled code are byte strings, and a pointer into
  compiled code is an index. A read outside the code makes the whole walk \<open>None\<close>.
\<close>

section \<open>Opcodes\<close>

abbreviation OP_UNDEFINED :: nat where "OP_UNDEFINED \<equiv> 255"
abbreviation OP_POBRACE :: nat where "OP_POBRACE \<equiv> 254"
abbreviation OP_POPAREN :: nat where "OP_POPAREN \<equiv> 253"
abbreviation OP_POBRACKET :: nat where "OP_POBRACKET \<equiv> 252"
abbreviation OP_PCBRACE :: nat where "OP_PCBRACE \<equiv> 251"
abbreviation OP_PCPAREN :: nat where "OP_PCPAREN \<equiv> 250"
abbreviation OP_PCBRACKET :: nat where "OP_PCBRACKET \<equiv> 249"
abbreviation OP_PCOMMA :: nat where "OP_PCOMMA \<equiv> 248"
abbreviation OP_PSEMICOL :: nat where "OP_PSEMICOL \<equiv> 247"
abbreviation OP_PDOT :: nat where "OP_PDOT \<equiv> 246"
abbreviation OP_PLQUOTE :: nat where "OP_PLQUOTE \<equiv> 245"
abbreviation OP_PSQUOTE :: nat where "OP_PSQUOTE \<equiv> 244"
abbreviation OP_PDQUOTE :: nat where "OP_PDQUOTE \<equiv> 243"
abbreviation OP_PAT :: nat where "OP_PAT \<equiv> 242"
abbreviation OP_PHASH :: nat where "OP_PHASH \<equiv> 241"
abbreviation OP_MEQ :: nat where "OP_MEQ \<equiv> 240"
abbreviation OP_MADD :: nat where "OP_MADD \<equiv> 239"
abbreviation OP_MSUB :: nat where "OP_MSUB \<equiv> 238"
abbreviation OP_MMUL :: nat where "OP_MMUL \<equiv> 237"
abbreviation OP_MDIV :: nat where "OP_MDIV \<equiv> 236"
abbreviation OP_MADDEQ :: nat where "OP_MADDEQ \<equiv> 235"
abbreviation OP_MSUBEQ :: nat where "OP_MSUBEQ \<equiv> 234"
abbreviation OP_MMULEQ :: nat where "OP_MMULEQ \<equiv> 233"
abbreviation OP_MDIVEQ :: nat where "OP_MDIVEQ \<equiv> 232"
abbreviation OP_MADDADD :: nat where "OP_MADDADD \<equiv> 231"
abbreviation OP_MSUBSUB :: nat where "OP_MSUBSUB \<equiv> 230"
abbreviation OP_MMOD :: nat where "OP_MMOD \<equiv> 229"
abbreviation OP_MAND :: nat where "OP_MAND \<equiv> 228"
abbreviation OP_MOR :: nat where "OP_MOR \<equiv> 227"
abbreviation OP_MXOR :: nat where "OP_MXOR \<equiv> 226"
abbreviation OP_MLAND :: nat where "OP_MLAND \<equiv> 225"
abbreviation OP_MLOR :: nat where "OP_MLOR \<equiv> 224"
abbreviation OP_MLNOT :: nat where "OP_MLNOT \<equiv> 223"
abbreviation OP_MCEQ :: nat where "OP_MCEQ \<equiv> 222"
abbreviation OP_MCEEQ :: nat where "OP_MCEEQ \<equiv> 221"
abbreviation OP_MCNE :: nat where "OP_MCNE \<equiv> 220"
abbreviation OP_MCLE :: nat where "OP_MCLE \<equiv> 219"
abbreviation OP_MCGE :: nat where "OP_MCGE \<equiv> 218"
abbreviation OP_MCLT :: nat where "OP_MCLT \<equiv> 217"
abbreviation OP_MCGT :: nat where "OP_MCGT \<equiv> 216"
abbreviation OP_MSHIFTR :: nat where "OP_MSHIFTR \<equiv> 215"
abbreviation OP_MSHIFTL :: nat where "OP_MSHIFTL \<equiv> 214"
abbreviation OP_MCOLON :: nat where "OP_MCOLON \<equiv> 213"
abbreviation OP_MQUESTION :: nat where "OP_MQUESTION \<equiv> 212"
abbreviation OP_KBREAK :: nat where "OP_KBREAK \<equiv> 211"
abbreviation OP_KCONT :: nat where "OP_KCONT \<equiv> 210"
abbreviation OP_KRET :: nat where "OP_KRET \<equiv> 209"
abbreviation OP_KDELETE :: nat where "OP_KDELETE \<equiv> 208"
abbreviation OP_KNEW :: nat where "OP_KNEW \<equiv> 207"
abbreviation OP_KNAMESPACE :: nat where "OP_KNAMESPACE \<equiv> 206"
abbreviation OP_KCLASS :: nat where "OP_KCLASS \<equiv> 205"
abbreviation OP_KFUNC :: nat where "OP_KFUNC \<equiv> 204"
abbreviation OP_KGLOB :: nat where "OP_KGLOB \<equiv> 203"
abbreviation OP_KLOCAL :: nat where "OP_KLOCAL \<equiv> 202"
abbreviation OP_KVAR :: nat where "OP_KVAR \<equiv> 201"
abbreviation OP_KIF :: nat where "OP_KIF \<equiv> 200"
abbreviation OP_KELSE :: nat where "OP_KELSE \<equiv> 199"
abbreviation OP_KFOR :: nat where "OP_KFOR \<equiv> 198"
abbreviation OP_KFOREACH :: nat where "OP_KFOREACH \<equiv> 197"
abbreviation OP_KDO :: nat where "OP_KDO \<equiv> 196"
abbreviation OP_KWHILE :: nat where "OP_KWHILE \<equiv> 195"
abbreviation OP_KSWITCH :: nat where "OP_KSWITCH \<equiv> 194"
abbreviation OP_KCASE :: nat where "OP_KCASE \<equiv> 193"
abbreviation OP_KDEFAULT :: nat where "OP_KDEFAULT \<equiv> 192"
abbreviation OP_KTRY :: nat where "OP_KTRY \<equiv> 191"
abbreviation OP_KCATCH :: nat where "OP_KCATCH \<equiv> 190"
abbreviation OP_KFINALLY :: nat where "OP_KFINALLY \<equiv> 189"
abbreviation OP_KTHROW :: nat where "OP_KTHROW \<equiv> 188"
abbreviation OP_KEXIT :: nat where "OP_KEXIT \<equiv> 187"
abbreviation OP_LINENUM :: nat where "OP_LINENUM \<equiv> 186"
abbreviation OP_LABEL :: nat where "OP_LABEL \<equiv> 185"
abbreviation OP_STRDATA :: nat where "OP_STRDATA \<equiv> 184"
abbreviation OP_ESTRDATA :: nat where "OP_ESTRDATA \<equiv> 183"
abbreviation OP_NUMDATA :: nat where "OP_NUMDATA \<equiv> 182"

definition OP_ISPUNC :: "nat \<Rightarrow> bool" where
  "OP_ISPUNC opc \<longleftrightarrow> OP_PHASH \<le> opc \<and> opc \<le> OP_POBRACE"

definition OP_ISMATH :: "nat \<Rightarrow> bool" where
  "OP_ISMATH opc \<longleftrightarrow> OP_MQUESTION \<le> opc \<and> opc \<le> OP_MEQ"

definition OP_ISKEY :: "nat \<Rightarrow> bool" where
  "OP_ISKEY opc \<longleftrightarrow> OP_KEXIT \<le> opc \<and> opc \<le> OP_KBREAK"

definition OP_ISEND :: "nat \<Rightarrow> bool" where
  "OP_ISEND opc \<longleftrightarrow> OP_PSEMICOL \<le> opc \<and> opc \<le> OP_PCBRACE"

record optab =
  op_name :: "string option"
  op_value :: nat
  op_priority :: nat

definition no_op :: optab where
  "no_op = \<lparr>op_name = None, op_value = OP_UNDEFINED, op_priority = 255\<rparr>"

text \<open>The named part of \<open>oplist\<close>, index 187 to 254; a priority of -1 is the byte 255.\<close>

definition oplist_named :: "(string \<times> nat \<times> nat) list" where
  "oplist_named = [
    (''exit'', OP_KEXIT, 255),
    (''throw'', OP_KTHROW, 255),
    (''finally'', OP_KFINALLY, 255),
    (''catch'', OP_KCATCH, 255),
    (''try'', OP_KTRY, 255),
    (''default'', OP_KDEFAULT, 255),
    (''case'', OP_KCASE, 255),
    (''switch'', OP_KSWITCH, 255),
    (''while'', OP_KWHILE, 255),
    (''do'', OP_KDO, 255),
    (''foreach'', OP_KFOREACH, 255),
    (''for'', OP_KFOR, 255),
    (''else'', OP_KELSE, 255),
    (''if'', OP_KIF, 255),
    (''var'', OP_KVAR, 255),
    (''local'', OP_KLOCAL, 255),
    (''global'', OP_KGLOB, 255),
    (''function'', OP_KFUNC, 255),
    (''class'', OP_KCLASS, 255),
    (''namespace'', OP_KNAMESPACE, 255),
    (''new'', OP_KNEW, 255),
    (''delete'', OP_KDELETE, 255),
    (''return'', OP_KRET, 255),
    (''continue'', OP_KCONT, 255),
    (''break'', OP_KBREAK, 255),
    (''?'', OP_MQUESTION, 1),
    ('':'', OP_MCOLON, 1),
    (''<<'', OP_MSHIFTL, 3),
    (''>>'', OP_MSHIFTR, 3),
    (''>'', OP_MCGT, 2),
    (''<'', OP_MCLT, 2),
    (''>='', OP_MCGE, 2),
    (''<='', OP_MCLE, 2),
    (''!='', OP_MCNE, 2),
    (''==='', OP_MCEEQ, 2),
    (''=='', OP_MCEQ, 2),
    (''!'', OP_MLNOT, 1),
    (''||'', OP_MLOR, 1),
    (''&&'', OP_MLAND, 1),
    (''^'', OP_MXOR, 5),
    (''|'', OP_MOR, 5),
    (''&'', OP_MAND, 5),
    (''%'', OP_MMOD, 4),
    (''--'', OP_MSUBSUB, 3),
    (''++'', OP_MADDADD, 3),
    (''/='', OP_MDIVEQ, 0),
    (''*='', OP_MMULEQ, 0),
    (''-='', OP_MSUBEQ, 0),
    (''+='', OP_MADDEQ, 0),
    (''/'', OP_MDIV, 4),
    (''*'', OP_MMUL, 4),
    (''-'', OP_MSUB, 3),
    (''+'', OP_MADD, 3),
    (''='', OP_MEQ, 0),
    (''#'', OP_PHASH, 255),
    (''@'', OP_PAT, 255),
    ([CHR 0x22], OP_PDQUOTE, 255),
    ([CHR 0x27], OP_PSQUOTE, 255),
    ([CHR 0x60], OP_PLQUOTE, 255),
    (''.'', OP_PDOT, 255),
    ('';'', OP_PSEMICOL, 255),
    ('','', OP_PCOMMA, 255),
    ('']'', OP_PCBRACKET, 255),
    ('')'', OP_PCPAREN, 255),
    (''}'', OP_PCBRACE, 255),
    (''['', OP_POBRACKET, 255),
    (''('', OP_POPAREN, 255),
    (''{'', OP_POBRACE, 255)]"

definition oplist :: "nat \<Rightarrow> optab" where
  "oplist i = (if 187 \<le> i \<and> i \<le> 254
     then case oplist_named ! (i - 187) of
       (n, v, p) \<Rightarrow> \<lparr>op_name = Some n, op_value = v, op_priority = p\<rparr>
     else no_op)"

definition IS_MATHOP :: "char \<Rightarrow> bool" where
  "IS_MATHOP c \<longleftrightarrow> c \<in> set ''=+-*/%&|^!<>:?''"

definition IS_PUNCOP :: "char \<Rightarrow> bool" where
  "IS_PUNCOP c \<longleftrightarrow> c \<in> set ''(),{};.[]''"

definition IS_QUOTE :: "char \<Rightarrow> bool" where
  "IS_QUOTE c \<longleftrightarrow> c = CHR 0x27 \<or> c = CHR 0x22 \<or> c = CHR 0x60"

definition IS_DATA :: "char \<Rightarrow> bool" where
  "IS_DATA c \<longleftrightarrow> c = CHR ''@'' \<or> IS_QUOTE c \<or> isdigit c"

definition IS_LABEL :: "char \<Rightarrow> bool" where
  "IS_LABEL c \<longleftrightarrow> c = CHR ''_'' \<or> c = CHR ''$'' \<or> isalpha c"

definition MAX_OBJNAMELEN :: nat where "MAX_OBJNAMELEN = 64"

section \<open>Reading the next operator\<close>

text \<open>The search of \<open>oplist\<close> between two indices.\<close>

definition op_lookup :: "nat \<Rightarrow> nat \<Rightarrow> string \<Rightarrow> nat option" where
  "op_lookup lo hi s = map_option (\<lambda>i. op_value (oplist i))
     (List.find (\<lambda>i. op_name (oplist i) = Some s) [lo..<Suc hi])"

definition n_iskeyword :: "string \<Rightarrow> nat" where
  "n_iskeyword s = (case op_lookup OP_KEXIT OP_KBREAK s of Some v \<Rightarrow> v | None \<Rightarrow> 0)"

definition label_char :: "char \<Rightarrow> bool" where
  "label_char c \<longleftrightarrow> IS_LABEL c \<or> isdigit c"

text \<open>The loop that reads a label: at most \<open>n\<close> more bytes.\<close>

fun label_rest :: "nat \<Rightarrow> string \<Rightarrow> string \<times> string" where
  "label_rest 0 s = ([], s)"
| "label_rest (Suc n) [] = ([], [])"
| "label_rest (Suc n) (c # s) =
     (if label_char c then case label_rest n s of (a, r) \<Rightarrow> (c # a, r) else ([], c # s))"

text \<open>The characters of an operator: one, two, or three for \<open>===\<close>.\<close>

definition math_rest :: "char \<Rightarrow> string \<Rightarrow> string \<times> string" where
  "math_rest c s =
     (if IS_MATHOP (hd0 s)
      then if c = CHR ''=''
        then if hd0 s = CHR ''=''
          then if hd0 (tl s) = CHR ''='' then (''=='', tl (tl s)) else (''='', tl s)
          else ([], s)
        else ([hd0 s], tl s)
      else ([], s))"

text \<open>
  \<open>n_getop\<close>: the operator, the text stored in \<open>name\<close>, and the rest of the source. Data is
  recognised but not consumed.
\<close>

definition n_getop :: "string \<Rightarrow> nat \<times> string \<times> string" where
  "n_getop s =
     (let c = hd0 s; t = tl s in
      if 127 < ord c then (ord c, [], t)
      else if IS_DATA c then
        (if c = CHR 0x27 \<or> c = CHR 0x22 then OP_STRDATA
         else if c = CHR 0x60 then OP_ESTRDATA
         else if c = CHR ''@'' then
           (if hd0 t = CHR 0x27 \<or> hd0 t = CHR 0x22 then OP_STRDATA
            else if hd0 t = CHR 0x60 then OP_ESTRDATA else OP_UNDEFINED)
         else OP_NUMDATA, [], s)
      else if IS_LABEL c then
        (case label_rest (MAX_OBJNAMELEN - 1) t of (a, r) \<Rightarrow>
          (case op_lookup OP_KEXIT OP_KBREAK (c # a) of Some v \<Rightarrow> v | None \<Rightarrow> OP_LABEL, c # a, r))
      else if IS_PUNCOP c then
        (case op_lookup OP_PHASH OP_POBRACE [c] of Some v \<Rightarrow> v | None \<Rightarrow> OP_UNDEFINED, [c], t)
      else if IS_MATHOP c then
        (case math_rest c t of (a, r) \<Rightarrow>
          (case op_lookup OP_MQUESTION OP_MEQ (c # a) of Some v \<Rightarrow> v | None \<Rightarrow> OP_UNDEFINED, c # a, r))
      else (OP_UNDEFINED, [], s))"

definition n_getsym :: "nat \<Rightarrow> string" where
  "n_getsym opc =
     (if opc = OP_STRDATA then ''string''
      else if opc = OP_ESTRDATA then ''estring''
      else if opc = OP_NUMDATA then ''number''
      else if opc = OP_LABEL then ''label''
      else if OP_LABEL < opc \<and> opc < OP_UNDEFINED
        then (case op_name (oplist opc) of Some n \<Rightarrow> n | None \<Rightarrow> [])
      else ''(unknown)'')"

section \<open>Compiled code\<close>

text \<open>The byte at an index, \<open>None\<close> outside the code.\<close>

definition rd :: "string \<Rightarrow> int \<Rightarrow> nat option" where
  "rd code p = (if 0 \<le> p \<and> p < int (length code) then Some (ord (code ! nat p)) else None)"

definition readi4 :: "string \<Rightarrow> int \<Rightarrow> int option" where
  "readi4 code p = (case (rd code p, rd code (p + 1), rd code (p + 2), rd code (p + 3)) of
     (Some a, Some b, Some c, Some d) \<Rightarrow>
       Some (i32 (int a + int b * 2 ^ 8 + int c * 2 ^ 16 + int d * 2 ^ 24))
   | _ \<Rightarrow> None)"

definition readi2 :: "string \<Rightarrow> int \<Rightarrow> int option" where
  "readi2 code p = (case (rd code p, rd code (p + 1)) of
     (Some a, Some b) \<Rightarrow> Some (int a + int b * 2 ^ 8) | _ \<Rightarrow> None)"

definition byte_at :: "int \<Rightarrow> nat \<Rightarrow> char" where
  "byte_at n k = char_of (nat (n div 2 ^ k mod 256))"

definition writei4 :: "int \<Rightarrow> string" where
  "writei4 n = [byte_at n 0, byte_at n 8, byte_at n 16, byte_at n 24]"

definition writei2 :: "int \<Rightarrow> string" where
  "writei2 n = [byte_at n 0, byte_at n 8]"

text \<open>The bytes of \<open>n\<close> stored through a pointer into the code.\<close>

definition poke :: "string \<Rightarrow> int \<Rightarrow> string \<Rightarrow> string" where
  "poke code p bs = take (nat p) code @ bs @ drop (nat p + length bs) code"

text \<open>One step of \<open>n_seekop\<close> that does not skip a block.\<close>

definition seek_one :: "string \<Rightarrow> int \<Rightarrow> int option" where
  "seek_one code p = (case rd code p of
     None \<Rightarrow> None
   | Some b \<Rightarrow>
       if b = OP_STRDATA \<or> b = OP_ESTRDATA then map_option (\<lambda>n. p + 6 + n) (readi4 code (p + 1))
       else if b = OP_NUMDATA \<or> b = OP_LABEL then map_option (\<lambda>n. p + 3 + int n) (rd code (p + 1))
       else if b = OP_LINENUM then Some (p + 5)
       else if b = OP_POBRACE then Some (p + 5)
       else if b = OP_POPAREN then Some (p + 3)
       else Some (p + 1))"

text \<open>
  The macro \<open>skipblock\<close>, with \<open>n_seekop (N, p, 1)\<close> unfolded in its body: the walk to the closing
  operator, over nested blocks, or to the NUL behind the code.
\<close>

partial_function (option) skipblock :: "string \<Rightarrow> nat \<Rightarrow> int \<Rightarrow> int option" where
  "skipblock code cl p = (case rd code p of
     None \<Rightarrow> None
   | Some b \<Rightarrow>
       if b = 0 then Some p
       else if b = cl then Some (p + 1)
       else Option.bind
         (if b = OP_POBRACE then skipblock code OP_PCBRACE (p + 5)
          else if b = OP_POPAREN then skipblock code OP_PCPAREN (p + 3)
          else seek_one code p)
         (skipblock code cl))"

definition n_seekop :: "string \<Rightarrow> int \<Rightarrow> bool \<Rightarrow> int option" where
  "n_seekop code p sb = (case rd code p of
     None \<Rightarrow> None
   | Some b \<Rightarrow>
       if sb \<and> b = OP_POBRACE then skipblock code OP_PCBRACE (p + 5)
       else if sb \<and> b = OP_POPAREN then skipblock code OP_PCPAREN (p + 3)
       else seek_one code p)"

text \<open>\<open>n_skip_ws\<close>: the read pointer and the line number after the line marks in front of an operator.\<close>

partial_function (option) n_skip_ws :: "string \<Rightarrow> int \<Rightarrow> int \<Rightarrow> (nat \<times> int \<times> int) option" where
  "n_skip_ws code p ln = (case rd code p of
     None \<Rightarrow> None
   | Some b \<Rightarrow>
       if b = OP_LINENUM
       then Option.bind (readi4 code (p + 1)) (\<lambda>n. n_skip_ws code (p + 5) n)
       else Some (b, p, ln))"

declare skipblock.simps [code] n_skip_ws.simps [code]

end
