(* ===== verification/NspCompile.thy ===== *)
theory NspCompile
  imports NspOps
begin

text \<open>
  The tokenizer of the NSP script language, \<open>src/src/nsp/src/libnsp/compile.c\<close>. The read pointer is
  the rest of the source text; the list of \<open>obj_t\<close> that the first pass builds is a list of
  tokens; the second pass writes the code into a buffer that grows, and the third pass
  stores the length of every block behind its opening operator.
\<close>

section \<open>State\<close>

text \<open>
  A raised \<open>NE_SYNTAX\<close>, and the reads behind the end of the source text or through a NULL
  pointer, which the C code does not check.
\<close>

datatype nsp_error = NE_SYNTAX | Overrun

datatype tok = LineTok nat | StrTok nat string

record cstate =
  toks :: "tok list"
  lineno :: nat
  warnings :: nat
  maxwarnings :: nat

text \<open>\<open>n_newobj\<close> followed by the stores into the new object.\<close>

definition n_newobj :: "tok \<Rightarrow> cstate \<Rightarrow> cstate" where
  "n_newobj t st = st\<lparr>toks := toks st @ [t]\<rparr>"

definition newline :: "cstate \<Rightarrow> cstate" where
  "newline st = (let n = Suc (lineno st) in (n_newobj (LineTok n) st)\<lparr>lineno := n\<rparr>)"

text \<open>
  \<open>k\<close> calls of \<open>n_warn\<close>; the one too many raises an error. \<open>N->strict\<close>, which would leave the script
  at the first warning, is zero: nothing in the sources sets it.
\<close>

definition n_warn :: "nat \<Rightarrow> cstate \<Rightarrow> nsp_error + cstate" where
  "n_warn k st = (if maxwarnings st < warnings st + k \<and> 0 < k then Inl NE_SYNTAX
     else Inr (st\<lparr>warnings := warnings st + k\<rparr>))"

section \<open>Blanks and comments\<close>

definition line_comment :: "string \<Rightarrow> cstate \<Rightarrow> string \<times> cstate" where
  "line_comment s st = (let r = dropWhile (\<lambda>c. c \<noteq> LF \<and> c \<noteq> CR) s
     in (r, if hd0 r = LF then newline st else st))"

fun block_comment :: "string \<Rightarrow> cstate \<Rightarrow> string \<times> cstate" where
  "block_comment [] st = ([], st)"
| "block_comment (c # s) st =
     (if c = LF then block_comment s (st\<lparr>lineno := Suc (lineno st)\<rparr>)
      else if c = CHR ''*'' \<and> hd0 s = CHR ''/''
        then (tl s, if hd0 (tl s) = LF then newline st else st)
      else block_comment s st)"

text \<open>The body of the loop of \<open>n_skipblank\<close>, up to the test for white space.\<close>

definition skip_comment :: "string \<Rightarrow> cstate \<Rightarrow> string \<times> cstate" where
  "skip_comment s st =
     (if hd0 s = CHR ''#'' then line_comment (tl s) st
      else if hd0 s = CHR ''/'' \<and> hd0 (tl s) = CHR ''/'' then line_comment (tl (tl s)) st
      else if hd0 s = CHR ''/'' \<and> hd0 (tl s) = CHR ''*'' then block_comment (tl (tl s)) st
      else (s, if hd0 s = LF then newline st else st))"

lemma block_comment_length: "length (fst (block_comment s st)) \<le> length s"
  by (induction s st rule: block_comment.induct) (auto simp: le_diff_conv)

lemma skip_comment_length: "length (fst (skip_comment s st)) \<le> length s"
  using length_dropWhile_le [of "\<lambda>c. c \<noteq> LF \<and> c \<noteq> CR" "tl s"]
    length_dropWhile_le [of "\<lambda>c. c \<noteq> LF \<and> c \<noteq> CR" "tl (tl s)"]
    block_comment_length [of "tl (tl s)" st]
  by (auto simp: skip_comment_def line_comment_def Let_def)

function n_skipblank :: "string \<Rightarrow> cstate \<Rightarrow> string \<times> cstate" where
  "n_skipblank s st =
     (if s = [] then ([], st)
      else case skip_comment s st of (s', st') \<Rightarrow>
        if nc_isspace (hd0 s') then n_skipblank (tl s') st' else (s', st'))"
  by auto

termination
proof (relation "measure (\<lambda>(s, st). length s)", goal_cases)
  case (2 s st s' st')
  then have "length s' \<le> length s" using skip_comment_length [of s st] by (metis fst_conv)
  moreover have "s' \<noteq> []" using 2 by (auto simp: nc_isspace_def control_chars)
  ultimately show ?case using 2 by (cases s') auto
qed simp

declare n_skipblank.simps [simp del]

section \<open>Quoted strings\<close>

text \<open>\<open>n_unescape\<close>: the bytes stored and the number of escapes it warns about.\<close>

definition unescape_char :: "char \<Rightarrow> char option" where
  "unescape_char c =
     (if c = CHR ''0'' then Some NUL
      else if c = CHR ''a'' then Some (CHR 0x07)
      else if c = CHR ''t'' then Some TAB
      else if c = CHR ''f'' then Some (CHR 0x0C)
      else if c = CHR ''e'' then Some (CHR 0x1B)
      else if c = CHR ''r'' then Some CR
      else if c = CHR ''n'' then Some LF
      else if c = CHR 0x27 \<or> c = CHR 0x22 \<or> c = CHR 0x60 \<or> c = CHR 0x5C then Some c
      else None)"

fun n_unescape :: "string \<Rightarrow> bool \<Rightarrow> string \<times> nat" where
  "n_unescape [] e = ([], 0)"
| "n_unescape (c # s) False =
     (if c = CHR 0x5C then n_unescape s True
      else case n_unescape s False of (d, k) \<Rightarrow> (c # d, k))"
| "n_unescape (c # s) True =
     (case n_unescape s False of (d, k) \<Rightarrow>
       (case unescape_char c of Some x \<Rightarrow> (x # d, k) | None \<Rightarrow> (d, Suc k)))"

text \<open>
  \<open>n_skipquote\<close>: the bytes up to the closing quote, the rest behind it, and the line number. At
  the end of the text it does nothing, and a backslash there sends the pointer behind the
  terminating NUL.
\<close>

fun n_skipquote :: "char \<Rightarrow> bool \<Rightarrow> string \<Rightarrow> nat \<Rightarrow> nsp_error + string \<times> string \<times> nat" where
  "n_skipquote q verbatim [] ln = Inr ([], [], ln)"
| "n_skipquote q verbatim (c # s) ln =
     (if c = CHR 0x5C \<and> \<not> verbatim then
        (case s of
           [] \<Rightarrow> Inl Overrun
         | d # s' \<Rightarrow>
             if s' = [] then Inl NE_SYNTAX
             else case n_skipquote q verbatim s' ln of
               Inl e \<Rightarrow> Inl e | Inr (a, r, n) \<Rightarrow> Inr (c # d # a, r, n))
      else if c = q then Inr ([], s, ln)
      else if s = [] then Inl NE_SYNTAX
      else case n_skipquote q verbatim s (if c = LF then Suc ln else ln) of
        Inl e \<Rightarrow> Inl e | Inr (a, r, n) \<Rightarrow> Inr (c # a, r, n))"

text \<open>
  \<open>n_extractquote\<close> at a quote. A quote that ends the text gives the length -1: the verbatim form
  takes it for \<open>strlen\<close>, the other form for a huge buffer.
\<close>

definition n_extractquote :: "string \<Rightarrow> bool \<Rightarrow> cstate \<Rightarrow> nsp_error + string \<times> string \<times> cstate" where
  "n_extractquote s verbatim st =
     (if tl s = [] then if verbatim then Inr ([], [], st) else Inl Overrun
      else case n_skipquote (hd0 s) verbatim (tl s) (lineno st) of
        Inl e \<Rightarrow> Inl e
      | Inr (a, r, ln) \<Rightarrow>
          if verbatim then Inr (a, r, st\<lparr>lineno := ln\<rparr>)
          else case n_unescape a False of (d, k) \<Rightarrow>
            (case n_warn k (st\<lparr>lineno := ln\<rparr>) of Inl e \<Rightarrow> Inl e | Inr st' \<Rightarrow> Inr (d, r, st')))"

section \<open>Tokens\<close>

definition num_char :: "char \<Rightarrow> bool" where
  "num_char c \<longleftrightarrow> isdigit c \<or> c = CHR ''.''"

text \<open>
  The branches of \<open>n_decompose_sub\<close> behind the second \<open>n_skipblank\<close>: the rest of the text, the
  operator that becomes \<open>prevop\<close>, and the state.
\<close>

definition store_op :: "nat \<Rightarrow> nat \<Rightarrow> string \<Rightarrow> string \<Rightarrow> cstate \<Rightarrow> nsp_error + string \<times> nat \<times> cstate" where
  "store_op prevop opc lastname s st =
     (if opc = OP_LABEL then Inr (s, opc, n_newobj (StrTok OP_LABEL lastname) st)
      else if OP_ISMATH opc \<or> OP_ISKEY opc \<or> OP_ISPUNC opc then
        (if OP_ISKEY opc \<and> prevop = OP_PDOT
         then Inr (s, opc, if op_lookup OP_KEXIT OP_KBREAK lastname = None then st
                           else n_newobj (StrTok OP_LABEL lastname) st)
         else Inr (s, opc, n_newobj (StrTok opc (n_getsym opc)) st))
      else if IS_QUOTE (hd0 s) then
        (case n_extractquote s False st of
           Inl e \<Rightarrow> Inl e
         | Inr (d, r, st') \<Rightarrow> Inr (r, ord (hd0 s),
             n_newobj (StrTok (if hd0 s = CHR 0x60 then OP_ESTRDATA else OP_STRDATA) d) st'))
      else if hd0 s = CHR ''@'' \<and> IS_QUOTE (hd0 (tl s)) then
        (case n_extractquote (tl s) True st of
           Inl e \<Rightarrow> Inl e
         | Inr (d, r, st') \<Rightarrow> Inr (r, ord (hd0 (tl s)),
             n_newobj (StrTok (if hd0 (tl s) = CHR 0x60 then OP_ESTRDATA else OP_STRDATA) d) st'))
      else if isdigit (hd0 s) then
        Inr (dropWhile num_char s, opc, n_newobj (StrTok OP_NUMDATA (takeWhile num_char s)) st)
      else Inr (s, opc, st))"

text \<open>One turn of the loop of \<open>n_decompose_sub\<close>; \<open>None\<close> is its early return.\<close>

definition decompose_step :: "string \<Rightarrow> nat \<Rightarrow> cstate \<Rightarrow> nsp_error + (string \<times> nat) option \<times> cstate" where
  "decompose_step s prevop st =
     (case n_skipblank s st of (s1, st1) \<Rightarrow>
      case n_getop s1 of (opc, lastname, s2) \<Rightarrow>
      case n_skipblank s2 st1 of (s3, st3) \<Rightarrow>
        if opc = OP_UNDEFINED
        then (case n_warn 1 st3 of Inl e \<Rightarrow> Inl e | Inr st' \<Rightarrow> Inr (None, st'))
        else (case store_op prevop opc lastname s3 st3 of
            Inl e \<Rightarrow> Inl e | Inr (s', opc', st') \<Rightarrow> Inr (Some (s', opc'), st')))"

lemma n_skipblank_length: "length (fst (n_skipblank s st)) \<le> length s"
proof (induction s st rule: n_skipblank.induct)
  case (1 s st)
  obtain s' st' where c: "skip_comment s st = (s', st')" by (cases "skip_comment s st")
  have le: "length s' \<le> length s" using skip_comment_length [of s st] c by simp
  show ?case
  proof (cases "s \<noteq> [] \<and> nc_isspace (hd0 s')")
    case True
    then have "length (fst (n_skipblank (tl s') st')) \<le> length (tl s')" using 1 c by simp
    then show ?thesis using True le c by (simp add: n_skipblank.simps [of s])
  next
    case False
    then show ?thesis using le c by (auto simp: n_skipblank.simps [of s])
  qed
qed

definition blank_start :: "char \<Rightarrow> bool" where
  "blank_start c \<longleftrightarrow> nc_isspace c \<or> c = CHR ''#'' \<or> c = CHR ''/''"

lemma n_skipblank_id: "\<not> blank_start (hd0 s) \<Longrightarrow> n_skipblank s st = (s, st)"
  by (subst n_skipblank.simps) (auto simp: skip_comment_def blank_start_def nc_isspace_def)

definition data_start :: "string \<Rightarrow> bool" where
  "data_start s \<longleftrightarrow> IS_QUOTE (hd0 s) \<or> hd0 s = CHR ''@'' \<and> IS_QUOTE (hd0 (tl s)) \<or> isdigit (hd0 s)"

lemma label_rest_append: "label_rest n s = (a, r) \<Longrightarrow> s = a @ r"
  by (induction n s arbitrary: a r rule: label_rest.induct) (auto split: if_splits prod.splits)

lemma math_rest_length: "math_rest c s = (a, r) \<Longrightarrow> length r \<le> length s"
  by (auto simp: math_rest_def split: if_splits)

lemma hd0_neq_NUL: "hd0 s \<noteq> NUL \<Longrightarrow> s \<noteq> []"
  by auto

lemma n_getop_progress:
  assumes "n_getop s = (opc, name, r)" and "opc \<noteq> OP_UNDEFINED"
  shows "length r < length s \<or> r = s \<and> data_start s \<and> (opc = OP_STRDATA \<or> opc = OP_ESTRDATA \<or> opc = OP_NUMDATA)"
proof (cases s)
  case Nil
  then show ?thesis using assms
    by (auto simp: n_getop_def NUL_def IS_DATA_def IS_QUOTE_def IS_LABEL_def IS_PUNCOP_def
        IS_MATHOP_def char_classes Let_def)
next
  case (Cons c t)
  consider "127 < ord c" | "\<not> 127 < ord c" "IS_DATA c" | "\<not> 127 < ord c" "\<not> IS_DATA c" by blast
  then show ?thesis
  proof cases
    case 2
    then show ?thesis using assms Cons
      by (auto simp: n_getop_def data_start_def IS_DATA_def IS_QUOTE_def split: if_splits)
  next
    case 3
    then show ?thesis using assms Cons label_rest_append [of "MAX_OBJNAMELEN - 1" t]
        math_rest_length [of c t]
      by (fastforce simp: n_getop_def Let_def less_Suc_eq_le split: if_splits prod.splits)
  qed (use assms Cons in \<open>auto simp: n_getop_def\<close>)
qed

lemma n_skipquote_length: "n_skipquote q v s ln = Inr (a, r, n) \<Longrightarrow> length r \<le> length s"
  by (induction q v s ln arbitrary: a r n rule: n_skipquote.induct)
    (fastforce split: if_splits list.splits sum.splits)+

lemma n_extractquote_length:
  "n_extractquote s v st = Inr (d, r, st') \<Longrightarrow> s \<noteq> [] \<Longrightarrow> length r < length s"
  by (cases s) (auto simp: n_extractquote_def less_Suc_eq_le dest: n_skipquote_length
      split: if_splits sum.splits prod.splits)

lemma IS_QUOTE_NUL [simp]: "\<not> IS_QUOTE NUL"
  by (simp add: IS_QUOTE_def NUL_def)

lemma isdigit_NUL [simp]: "\<not> isdigit NUL"
  by (simp add: isdigit_def NUL_def)

lemma store_op_length:
  assumes "store_op prevop opc name s st = Inr (s', opc', st')"
  shows "length s' \<le> length s"
    and "data_start s \<Longrightarrow> opc = OP_STRDATA \<or> opc = OP_ESTRDATA \<or> opc = OP_NUMDATA \<Longrightarrow> length s' < length s"
proof -
  have q: "length r < length s" if "n_extractquote s False st = Inr (d, r, st1)" "IS_QUOTE (hd0 s)" for d r st1
    using that n_extractquote_length by (cases s) (auto, force)
  have v: "length r < length s" if "n_extractquote (tl s) True st = Inr (d, r, st1)" "IS_QUOTE (hd0 (tl s))" for d r st1
    using that n_extractquote_length [OF that(1)] by (cases "tl s") (auto, cases s, auto)
  have n: "length (dropWhile num_char s) < length s" if "isdigit (hd0 s)"
    using that length_dropWhile_le [of num_char "tl s"] by (cases s) (auto simp: num_char_def)
  show "length s' \<le> length s"
    using assms q v length_dropWhile_le [of num_char s]
    by (fastforce simp: store_op_def less_imp_le split: if_splits sum.splits)
  assume d: "data_start s" "opc = OP_STRDATA \<or> opc = OP_ESTRDATA \<or> opc = OP_NUMDATA"
  then have "\<not> (OP_ISMATH opc \<or> OP_ISKEY opc \<or> OP_ISPUNC opc)" "opc \<noteq> OP_LABEL"
    by (auto simp: OP_ISMATH_def OP_ISKEY_def OP_ISPUNC_def)
  then show "length s' < length s"
    using assms d(1) q v n
    by (auto simp: store_op_def data_start_def split: if_splits sum.splits)
qed

lemma data_start_not_blank: "data_start s \<Longrightarrow> \<not> blank_start (hd0 s)"
  by (auto simp: data_start_def blank_start_def IS_QUOTE_def isdigit_def nc_isspace_def control_chars)

lemma decompose_step_progress:
  assumes "decompose_step s prevop st = Inr (Some (s', opc'), st')"
  shows "length s' < length s"
proof -
  obtain s1 st1 where 1: "n_skipblank s st = (s1, st1)" by (cases "n_skipblank s st")
  obtain opc name s2 where 2: "n_getop s1 = (opc, name, s2)" by (cases "n_getop s1")
  obtain s3 st3 where 3: "n_skipblank s2 st1 = (s3, st3)" by (cases "n_skipblank s2 st1")
  from assms have opc: "opc \<noteq> OP_UNDEFINED" and st: "store_op prevop opc name s3 st3 = Inr (s', opc', st')"
    by (auto simp: decompose_step_def 1 2 3 split: if_splits sum.splits)
  have le: "length s1 \<le> length s" "length s3 \<le> length s2"
    using n_skipblank_length [of s st] n_skipblank_length [of s2 st1] 1 3 by auto
  from n_getop_progress [OF 2 opc] show ?thesis
  proof
    assume "length s2 < length s1"
    then show ?thesis using store_op_length(1) [OF st] le by linarith
  next
    assume d: "s2 = s1 \<and> data_start s1 \<and> (opc = OP_STRDATA \<or> opc = OP_ESTRDATA \<or> opc = OP_NUMDATA)"
    then have "s3 = s1" using 3 n_skipblank_id data_start_not_blank by (metis fst_conv)
    then show ?thesis using store_op_length(2) [OF st] d le by (metis order_less_le_trans)
  qed
qed

function n_decompose_sub :: "string \<Rightarrow> nat \<Rightarrow> cstate \<Rightarrow> nsp_error + cstate" where
  "n_decompose_sub s prevop st =
     (if s = [] then Inr st
      else case decompose_step s prevop st of
        Inl e \<Rightarrow> Inl e
      | Inr (None, st') \<Rightarrow> Inr st'
      | Inr (Some (s', opc), st') \<Rightarrow> n_decompose_sub s' opc st')"
  by auto

termination
  by (relation "measure (\<lambda>(s, opc, st). length s)") (auto dest: decompose_step_progress)

declare n_decompose_sub.simps [simp del]

section \<open>Writing the code\<close>

text \<open>
  The buffer: the bytes written so far (\<open>offset\<close> is their number) and \<open>destmax\<close>. The macro \<open>testgrow\<close>
  makes room for \<open>b\<close> bytes; storing behind \<open>destmax\<close> is an overrun.
\<close>

type_synonym dest = "string \<times> nat"

definition testgrow :: "nat \<Rightarrow> dest \<Rightarrow> dest" where
  "testgrow b d = (case d of (buf, destmax) \<Rightarrow>
     (buf, if destmax < length buf + b + 1 then destmax + b + 1024 else destmax))"

definition store :: "string \<Rightarrow> dest \<Rightarrow> nsp_error + dest" where
  "store bs d = (case d of (buf, destmax) \<Rightarrow>
     if length buf + length bs \<le> destmax then Inr (buf @ bs, destmax) else Inl Overrun)"

definition put :: "nat \<Rightarrow> string \<Rightarrow> dest \<Rightarrow> nsp_error + dest" where
  "put b bs d = store bs (testgrow b d)"

definition bind_sum :: "'e + 'a \<Rightarrow> ('a \<Rightarrow> 'e + 'b) \<Rightarrow> 'e + 'b" where
  "bind_sum m f = (case m of Inl e \<Rightarrow> Inl e | Inr x \<Rightarrow> f x)"

definition op_byte :: "nat \<Rightarrow> char" where
  "op_byte opc = char_of (opc mod 256)"

text \<open>A label or a number: its length is stored in one byte.\<close>

definition short_data :: "nat \<Rightarrow> string \<Rightarrow> string" where
  "short_data opc s = op_byte opc # char_of (length s mod 256) # s @ [NUL]"

definition long_data :: "nat \<Rightarrow> string \<Rightarrow> string" where
  "long_data opc s = op_byte opc # writei4 (int (length s)) @ s @ [NUL]"

text \<open>
  The loop over the tokens. Behind \<open>function\<close> come its name, when it has one, and the name of the
  source file; \<open>function\<close> as the last token follows the NULL pointer at the end of the list.
\<close>

fun write_ops :: "string \<Rightarrow> tok list \<Rightarrow> dest \<Rightarrow> nsp_error + dest" where
  "write_ops file [] d = Inr d"
| "write_ops file (LineTok n # ts) d =
     bind_sum (put 5 (op_byte OP_LINENUM # writei4 (int n)) d) (write_ops file ts)"
| "write_ops file (StrTok opc s # ts) d =
     (if opc = OP_UNDEFINED then Inr d
      else if opc = OP_POBRACE then bind_sum (put 5 (op_byte opc # writei4 0) d) (write_ops file ts)
      else if opc = OP_POPAREN then bind_sum (put 3 (op_byte opc # writei2 0) d) (write_ops file ts)
      else if opc = OP_STRDATA \<or> opc = OP_ESTRDATA
        then bind_sum (put (6 + length s) (long_data opc s) d) (write_ops file ts)
      else if opc = OP_NUMDATA \<or> opc = OP_LABEL
        then bind_sum (put (3 + length s) (short_data opc s) d) (write_ops file ts)
      else if OP_ISMATH opc \<or> OP_ISKEY opc \<or> OP_ISPUNC opc then
        bind_sum (put 1 [op_byte opc] d) (\<lambda>d1.
          if opc = OP_KFUNC then
            (case ts of
               [] \<Rightarrow> Inl Overrun
             | StrTok o2 l # ts' \<Rightarrow>
                 if o2 = OP_LABEL
                 then bind_sum (put (3 + length l) (short_data OP_LABEL l) d1) (\<lambda>d2.
                   bind_sum (put (3 + length file) (short_data OP_LABEL file) d2) (write_ops file ts'))
                 else bind_sum (put (3 + length file) (short_data OP_LABEL file) d1) (write_ops file ts)
             | LineTok _ # _ \<Rightarrow>
                 bind_sum (put (3 + length file) (short_data OP_LABEL file) d1) (write_ops file ts))
          else write_ops file ts d1)
      else write_ops file ts d)"

definition header :: string where
  "header = [CHR 0x0D, CHR 0xAC, NUL, NUL, NUL, NUL, NUL, NUL] @ replicate 12 NUL"

text \<open>The first and the second pass, up to the trailing zeros.\<close>

definition write_code :: "string \<Rightarrow> tok list \<Rightarrow> nsp_error + dest" where
  "write_code file ts =
     bind_sum (put 8 header ([], 1024)) (\<lambda>(b, m).
     bind_sum (put 5 (op_byte OP_LINENUM # writei4 1) (poke b 12 (writei4 (int (length b))), m)) (\<lambda>d.
     bind_sum (write_ops file ts d) (\<lambda>(b, m).
       put 4 (writei4 0) (poke b 8 (writei4 (int (length b))), m))))"

section \<open>Block lengths\<close>

text \<open>
  The third pass. Its \<open>n_warn\<close> calls count against the limit of the state; \<open>None\<close> is a read outside
  the code or a walk that does not end.
\<close>

definition fix_block :: "string \<Rightarrow> int \<Rightarrow> int \<Rightarrow> cstate \<Rightarrow> (nsp_error + string \<times> cstate) option" where
  "fix_block code p p2 st =
     (let brace = (rd code p = Some OP_POBRACE);
          warn = (rd code p2 \<noteq> Some (if brace then OP_PCBRACE else OP_PCPAREN))
      in case rd code p2 of
           None \<Rightarrow> None
         | Some _ \<Rightarrow> Some (bind_sum (n_warn (if warn then 1 else 0) st) (\<lambda>st'.
             Inr (if brace then poke code (p + 1) (writei4 (p2 - p - 5))
                  else poke code (p + 1) (writei2 (p2 - p - 3)), st'))))"

partial_function (option) fix_blocks :: "string \<Rightarrow> int \<Rightarrow> cstate \<Rightarrow> (nsp_error + string \<times> cstate) option" where
  "fix_blocks code p st =
     (if int (length code) - 4 \<le> p then Some (Inr (code, st))
      else case rd code p of
        None \<Rightarrow> None
      | Some b \<Rightarrow>
          if b = OP_LINENUM then fix_blocks code (p + 5) st
          else if b = OP_POBRACE \<or> b = OP_POPAREN then
            Option.bind (n_seekop code p True) (\<lambda>p2.
              if p2 \<le> p then Some (bind_sum (n_warn 1 st) (\<lambda>st'. Inr (code, st')))
              else Option.bind (fix_block code p (p2 - 1) st) (\<lambda>res.
                case res of
                  Inl e \<Rightarrow> Some (Inl e)
                | Inr (code', st') \<Rightarrow> Option.bind (n_seekop code' p False) (\<lambda>p'. fix_blocks code' p' st')))
          else Option.bind (n_seekop code p False) (\<lambda>p'. fix_blocks code p' st))"

definition init_cstate :: "nat \<Rightarrow> nat \<Rightarrow> cstate" where
  "init_cstate w m = \<lparr>toks = [], lineno = 1, warnings = w, maxwarnings = m\<rparr>"

text \<open>
  \<open>n_decompose\<close>. The arguments \<open>w\<close> and \<open>m\<close> are the number of warnings so far and its limit;
  \<open>srcfile\<close> is \<open>None\<close> for NULL. Text that is compiled already is returned as it is.
\<close>

definition n_decompose :: "nat \<Rightarrow> nat \<Rightarrow> string option \<Rightarrow> string \<Rightarrow> (nsp_error + string) option" where
  "n_decompose w m srcfile srctext =
     (if hd0 srctext = CHR 0x0D \<and> hd0 (tl srctext) = CHR 0xAC
      then Some (bind_sum (n_warn 1 (init_cstate w m)) (\<lambda>_. Inr srctext))
      else case n_decompose_sub srctext 0 (init_cstate w m) of
        Inl e \<Rightarrow> Some (Inl e)
      | Inr st \<Rightarrow>
          (case write_code (case srcfile of None \<Rightarrow> [] | Some f \<Rightarrow> f) (toks st) of
             Inl e \<Rightarrow> Some (Inl e)
           | Inr (code, destmax) \<Rightarrow>
               map_option (\<lambda>res. bind_sum res (\<lambda>(code', st'). Inr code')) (fix_blocks code 12 st)))"

end
