(* ===== verification/NspCode.thy ===== *)
theory NspCode
  imports NspCompile "HOL-Library.Sublist"
begin

text \<open>
  The layout of compiled NSP code. Code is a sequence of instructions behind a header of 20
  bytes; the second pass of \<open>n_decompose\<close> writes their encoding, \<open>n_seekop\<close> walks from one
  instruction to the next, and the third pass stores in every opening brace or parenthesis
  the length of its block.
\<close>

section \<open>Instructions\<close>

datatype instr =
    ILine int
  | ILong nat string
  | IShort nat string
  | IBrace int
  | IParen int
  | IOp nat

primrec enc :: "instr \<Rightarrow> string" where
  "enc (ILine n) = op_byte OP_LINENUM # writei4 n"
| "enc (ILong opc s) = long_data opc s"
| "enc (IShort opc s) = short_data opc s"
| "enc (IBrace n) = op_byte OP_POBRACE # writei4 n"
| "enc (IParen n) = op_byte OP_POPAREN # writei2 n"
| "enc (IOp opc) = [op_byte opc]"

primrec iop :: "instr \<Rightarrow> nat" where
  "iop (ILine n) = OP_LINENUM"
| "iop (ILong opc s) = opc"
| "iop (IShort opc s) = opc"
| "iop (IBrace n) = OP_POBRACE"
| "iop (IParen n) = OP_POPAREN"
| "iop (IOp opc) = opc"

text \<open>The instructions whose lengths fit the fields that hold them.\<close>

primrec wf_instr :: "instr \<Rightarrow> bool" where
  "wf_instr (ILine n) \<longleftrightarrow> True"
| "wf_instr (ILong opc s) \<longleftrightarrow> (opc = OP_STRDATA \<or> opc = OP_ESTRDATA) \<and> length s < 2 ^ 31"
| "wf_instr (IShort opc s) \<longleftrightarrow> (opc = OP_NUMDATA \<or> opc = OP_LABEL) \<and> length s \<le> 255"
| "wf_instr (IBrace n) \<longleftrightarrow> True"
| "wf_instr (IParen n) \<longleftrightarrow> True"
| "wf_instr (IOp opc) \<longleftrightarrow> (OP_ISMATH opc \<or> OP_ISKEY opc \<or> OP_ISPUNC opc)
     \<and> opc \<noteq> OP_POBRACE \<and> opc \<noteq> OP_POPAREN"

definition encs :: "instr list \<Rightarrow> string" where
  "encs is = concat (map enc is)"

definition zeros :: string where "zeros = [NUL, NUL, NUL, NUL]"

lemma encs_simps [simp]: "encs [] = []" "encs (i # is) = enc i @ encs is" "encs (a @ b) = encs a @ encs b"
  by (simp_all add: encs_def)

lemma length_writei [simp]: "length (writei4 n) = 4" "length (writei2 n) = 2"
  by (simp_all add: writei4_def writei2_def)

lemma length_zeros [simp]: "length zeros = 4"
  by (simp add: zeros_def)

lemma ord_op_byte: "opc < 256 \<Longrightarrow> ord (op_byte opc) = opc"
  by (simp add: op_byte_def)

lemma iop_byte: "wf_instr i \<Longrightarrow> enc i = op_byte (iop i) # tl (enc i) \<and> 0 < iop i \<and> iop i < 255"
  by (cases i) (auto simp: long_data_def short_data_def OP_ISMATH_def OP_ISKEY_def OP_ISPUNC_def)

section \<open>Reading and writing fields\<close>

lemma rd_append: "rd (a @ b) (int (length a) + int k) = rd b (int k)"
proof -
  have "nat (int (length a) + int k) = length a + k" by simp
  then show ?thesis by (simp add: rd_def nth_append)
qed

lemma rd_here: "rd (a @ c # b) (int (length a)) = Some (ord c)"
  using rd_append [of a "c # b" 0] by (simp add: rd_def)

lemma ord_byte_at: "int (ord (byte_at n k)) = n div 2 ^ k mod 256"
  by (simp add: byte_at_def)

lemma bytes4_sum:
  fixes n :: int
  shows "n div 2 ^ 0 mod 256 + n div 2 ^ 8 mod 256 * 2 ^ 8 + n div 2 ^ 16 mod 256 * 2 ^ 16
     + n div 2 ^ 24 mod 256 * 2 ^ 24 = n mod 2 ^ 32"
proof -
  have s: "n mod (2 ^ k * 256) = 2 ^ k * (n div 2 ^ k mod 256) + n mod 2 ^ k" for k
    by (rule zmod_zmult2_eq) simp
  have "(2 :: int) ^ 32 = 2 ^ 24 * 256" "(2 :: int) ^ 24 = 2 ^ 16 * 256" "(2 :: int) ^ 16 = 2 ^ 8 * 256"
    "(2 :: int) ^ 8 = 2 ^ 0 * 256"
    by simp_all
  then have "n mod 2 ^ 32 = 2 ^ 24 * (n div 2 ^ 24 mod 256) + (2 ^ 16 * (n div 2 ^ 16 mod 256)
      + (2 ^ 8 * (n div 2 ^ 8 mod 256) + (2 ^ 0 * (n div 2 ^ 0 mod 256) + n mod 2 ^ 0)))"
    by (metis s)
  then show ?thesis by (simp only: ac_simps power_0 mod_by_1 add_0_right mult_1)
qed

lemma i32_mod: "i32 (n mod 2 ^ 32) = i32 n"
  by (simp add: i32_def mod_simps)

lemma readi4_writei4: "readi4 (a @ writei4 n @ b) (int (length a)) = Some (i32 n)"
proof -
  have r: "rd (a @ writei4 n @ b) (int (length a) + int k) = Some (ord (writei4 n ! k))" if "k < 4" for k
    using that rd_append [of a "writei4 n @ b" k] by (simp add: rd_def nth_append)
  have "i32 (int (ord (byte_at n 0)) + int (ord (byte_at n 8)) * 2 ^ 8 + int (ord (byte_at n 16)) * 2 ^ 16
      + int (ord (byte_at n 24)) * 2 ^ 24) = i32 n"
    unfolding ord_byte_at bytes4_sum by (rule i32_mod)
  then show ?thesis
    using r [of 0] r [of 1] r [of 2] r [of 3]
    by (simp add: readi4_def writei4_def)
qed

lemma readi2_writei2: "readi2 (a @ writei2 n @ b) (int (length a)) = Some (n mod 2 ^ 16)"
proof -
  have r: "rd (a @ writei2 n @ b) (int (length a) + int k) = Some (ord (writei2 n ! k))" if "k < 2" for k
    using that rd_append [of a "writei2 n @ b" k] by (simp add: rd_def nth_append)
  have "int (ord (byte_at n 0)) + int (ord (byte_at n 8)) * 2 ^ 8 = n mod 2 ^ 16"
    unfolding ord_byte_at using zmod_zmult2_eq [of 256 n "2 ^ 8"] by simp
  then show ?thesis
    using r [of 0] r [of 1] by (simp add: readi2_def writei2_def)
qed

lemma poke_append: "length new = length old \<Longrightarrow> poke (a @ old @ b) (int (length a)) new = a @ new @ b"
  by (simp add: poke_def)

section \<open>Walking\<close>

text \<open>A pointer at an instruction boundary: the instructions in front of it.\<close>

definition at_ops :: "string \<Rightarrow> instr list \<Rightarrow> int \<Rightarrow> bool" where
  "at_ops code is p \<longleftrightarrow> (\<exists>pre. code = pre @ encs is @ zeros \<and> p = int (length pre))"

lemma at_ops_Nil: "at_ops code [] p \<Longrightarrow> rd code p = Some 0 \<and> p = int (length code) - 4"
  by (auto simp: at_ops_def zeros_def rd_here NUL_def)

lemma at_ops_le: "at_ops code is p \<Longrightarrow> 0 \<le> p \<and> p + int (length (encs is)) + 4 = int (length code)"
  by (auto simp: at_ops_def)

lemma at_ops_next: "at_ops code (i # is) p \<Longrightarrow> at_ops code is (p + int (length (enc i)))"
proof -
  assume "at_ops code (i # is) p"
  then obtain pre where "code = pre @ enc i @ encs is @ zeros" "p = int (length pre)"
    by (auto simp: at_ops_def)
  then show ?thesis unfolding at_ops_def by (intro exI [of _ "pre @ enc i"]) simp
qed

lemma at_ops_rd: "at_ops code (i # is) p \<Longrightarrow> wf_instr i \<Longrightarrow> rd code p = Some (iop i)"
proof -
  assume "at_ops code (i # is) p" and wf: "wf_instr i"
  then obtain pre where c: "code = pre @ enc i @ encs is @ zeros" "p = int (length pre)"
    by (auto simp: at_ops_def)
  have "code = pre @ op_byte (iop i) # tl (enc i) @ encs is @ zeros"
    using c(1) iop_byte [OF wf] by (metis append_Cons)
  then show ?thesis using c(2) iop_byte [OF wf] by (simp add: rd_here ord_op_byte)
qed

lemma seek_long:
  assumes "code = pre @ long_data opc s @ b" "opc = OP_STRDATA \<or> opc = OP_ESTRDATA" "length s < 2 ^ 31"
  shows "seek_one code (int (length pre)) = Some (int (length pre) + int (length (long_data opc s)))"
proof -
  have c: "code = (pre @ [op_byte opc]) @ writei4 (int (length s)) @ s @ NUL # b"
    using assms(1) by (simp add: long_data_def)
  have "readi4 code (int (length pre) + 1) = Some (int (length s))"
    using readi4_writei4 [of "pre @ [op_byte opc]" "int (length s)" "s @ NUL # b"] assms(3)
    by (simp add: c algebra_simps)
  moreover have "rd code (int (length pre)) = Some opc"
    using assms(1,2) by (auto simp: long_data_def rd_here ord_op_byte)
  ultimately show ?thesis using assms(2) by (auto simp: seek_one_def long_data_def)
qed

lemma seek_short:
  assumes "code = pre @ short_data opc s @ b" "opc = OP_NUMDATA \<or> opc = OP_LABEL" "length s \<le> 255"
  shows "seek_one code (int (length pre)) = Some (int (length pre) + int (length (short_data opc s)))"
proof -
  have "rd code (int (length (pre @ [op_byte opc]))) = Some (length s)"
    using assms rd_here [of "pre @ [op_byte opc]" "char_of (length s mod 256)" "s @ NUL # b"]
    by (simp add: short_data_def)
  moreover have "rd code (int (length pre)) = Some opc"
    using assms(1,2) by (auto simp: short_data_def rd_here ord_op_byte)
  ultimately show ?thesis using assms(2) by (auto simp: seek_one_def short_data_def add.commute)
qed

lemma at_ops_seek:
  assumes at: "at_ops code (i # is) p" and wf: "wf_instr i"
  shows "seek_one code p = Some (p + int (length (enc i)))"
proof -
  obtain pre where c: "code = pre @ enc i @ encs is @ zeros" "p = int (length pre)"
    using at by (auto simp: at_ops_def)
  have rd: "rd code p = Some (iop i)" by (rule at_ops_rd [OF at wf])
  show ?thesis
  proof (cases i)
    case (ILong opc s)
    then show ?thesis using c wf seek_long [of code pre opc s] by simp
  next
    case (IShort opc s)
    then show ?thesis using c wf seek_short [of code pre opc s] by simp
  next
    case (IOp opc)
    then show ?thesis using rd wf
      by (auto simp: seek_one_def OP_ISMATH_def OP_ISKEY_def OP_ISPUNC_def)
  qed (use rd in \<open>auto simp: seek_one_def\<close>)
qed

section \<open>Skipping blocks\<close>

definition closer :: "nat \<Rightarrow> bool" where
  "closer cl \<longleftrightarrow> cl = OP_PCBRACE \<or> cl = OP_PCPAREN"

lemma closer_enc: "wf_instr i \<Longrightarrow> closer (iop i) \<Longrightarrow> length (enc i) = 1"
  by (cases i) (auto simp: closer_def)

lemma iop_open: "wf_instr i \<Longrightarrow> iop i = OP_POBRACE \<longleftrightarrow> (\<exists>n. i = IBrace n)"
  "wf_instr i \<Longrightarrow> iop i = OP_POPAREN \<longleftrightarrow> (\<exists>n. i = IParen n)"
  by (cases i; auto)+

text \<open>One turn of the loop of \<open>skipblock\<close> at an instruction.\<close>

lemma skipblock_stop:
  assumes "at_ops code (i # is) p" "wf_instr i" "closer cl" "iop i = cl"
  shows "skipblock code cl p = Some (p + 1)" "at_ops code is (p + 1)"
  using at_ops_rd [OF assms(1,2)] at_ops_next [OF assms(1)] iop_byte [OF assms(2)]
    closer_enc [OF assms(2)] assms
  by (auto simp: skipblock.simps [of code cl p])

lemma skipblock_brace:
  assumes "at_ops code (IBrace n # is) p" "closer cl"
  shows "skipblock code cl p = Option.bind (skipblock code OP_PCBRACE (p + 5)) (skipblock code cl)"
    "at_ops code is (p + 5)"
  using at_ops_rd [OF assms(1)] at_ops_next [OF assms(1)] assms(2)
  by (auto simp: skipblock.simps [of code cl p] closer_def)

lemma skipblock_paren:
  assumes "at_ops code (IParen n # is) p" "closer cl"
  shows "skipblock code cl p = Option.bind (skipblock code OP_PCPAREN (p + 3)) (skipblock code cl)"
    "at_ops code is (p + 3)"
  using at_ops_rd [OF assms(1)] at_ops_next [OF assms(1)] assms(2)
  by (auto simp: skipblock.simps [of code cl p] closer_def)

lemma skipblock_other:
  assumes "at_ops code (i # is) p" "wf_instr i" "iop i \<noteq> cl" "\<nexists>n. i = IBrace n" "\<nexists>n. i = IParen n"
  shows "skipblock code cl p = skipblock code cl (p + int (length (enc i)))"
  using at_ops_rd [OF assms(1,2)] at_ops_seek [OF assms(1,2)] iop_byte [OF assms(2)]
    iop_open [OF assms(2)] assms
  by (auto simp: skipblock.simps [of code cl p])

text \<open>From an instruction boundary the walk ends, at an instruction boundary.\<close>

lemma skipblock_total:
  assumes "at_ops code is p" "\<forall>i\<in>set is. wf_instr i" "closer cl"
  shows "\<exists>is' p'. skipblock code cl p = Some p' \<and> at_ops code is' p' \<and> suffix is' is \<and> p \<le> p'"
  using assms
proof (induction "length is" arbitrary: "is" p cl rule: less_induct)
  case less
  have step: "\<exists>is' p'. Option.bind (skipblock code cl' q) (skipblock code cl) = Some p'
      \<and> at_ops code is' p' \<and> suffix is' is \<and> p \<le> p'"
    if "is = i # js" "at_ops code js q" "closer cl'" "p \<le> q" for i js q cl'
  proof -
    note h = that
    have "\<forall>i\<in>set js. wf_instr i" using less.prems h by simp
    then obtain is1 p1 where 1: "skipblock code cl' q = Some p1" "at_ops code is1 p1" "suffix is1 js" "q \<le> p1"
      using less.hyps [of js q cl'] h by auto
    have "length is1 < length is" using suffix_length_le [OF 1(3)] that(1) by simp
    moreover have "\<forall>i\<in>set is1. wf_instr i"
      using set_mono_suffix [OF 1(3)] \<open>\<forall>i\<in>set js. wf_instr i\<close> by auto
    ultimately obtain is2 p2 where 2: "skipblock code cl p1 = Some p2" "at_ops code is2 p2" "suffix is2 is1" "p1 \<le> p2"
      using less.hyps [of is1 p1 cl] 1(2) less.prems(3) by auto
    have "suffix is2 is"
      using 2(3) 1(3) that(1) by (metis suffix_ConsI suffix_order.trans)
    then show ?thesis using 1 2 that(4) by auto
  qed
  show ?case
  proof (cases "is")
    case Nil
    then have "rd code p = Some 0" using at_ops_Nil less.prems(1) by blast
    then have "skipblock code cl p = Some p" by (simp add: skipblock.simps [of code cl p])
    then show ?thesis using less.prems(1) by auto
  next
    case (Cons i js)
    have at: "at_ops code (i # js) p" and wf: "wf_instr i" using less.prems Cons by auto
    consider "iop i = cl" | n where "i = IBrace n" | n where "i = IParen n"
      | "iop i \<noteq> cl" "\<nexists>n. i = IBrace n" "\<nexists>n. i = IParen n" by blast
    then show ?thesis
    proof cases
      case 1
      then show ?thesis
        using skipblock_stop [OF at wf less.prems(3)] Cons by (intro exI conjI) (auto simp: suffix_ConsI)
    next
      case 2
      then show ?thesis
        using skipblock_brace [of code n js p cl] at less.prems(3) step [OF Cons] by (simp add: closer_def)
    next
      case 3
      then show ?thesis
        using skipblock_paren [of code n js p cl] at less.prems(3) step [OF Cons] by (simp add: closer_def)
    next
      case 4
      then obtain is' p' where "skipblock code cl (p + int (length (enc i))) = Some p'" "at_ops code is' p'"
          "suffix is' js" "p + int (length (enc i)) \<le> p'"
        using less.hyps [of js "p + int (length (enc i))" cl] at_ops_next [OF at] less.prems Cons by auto
      then show ?thesis
        using skipblock_other [OF at wf 4] Cons by (intro exI [of _ is'] exI [of _ p']) (auto simp: suffix_ConsI)
    qed
  qed
qed

section \<open>Nesting\<close>

text \<open>Properly nested code: blocks in braces and parentheses, and everything else.\<close>

datatype node = Leaf instr | Braces "node list" | Parens "node list"

text \<open>
  The instructions of nested code. With \<open>full\<close>, an opening instruction holds the length of its
  block, as the third pass leaves it; without, zero, as the second pass writes it.
\<close>

fun flat :: "bool \<Rightarrow> node list \<Rightarrow> instr list" where
  "flat full [] = []"
| "flat full (Leaf i # ns) = i # flat full ns"
| "flat full (Braces b # ns) =
     IBrace (if full then int (length (encs (flat True b))) else 0) # flat full b @ IOp OP_PCBRACE # flat full ns"
| "flat full (Parens b # ns) =
     IParen (if full then int (length (encs (flat True b))) else 0) # flat full b @ IOp OP_PCPAREN # flat full ns"

text \<open>A leaf is neither an opening nor a closing instruction.\<close>

definition leaf_instr :: "instr \<Rightarrow> bool" where
  "leaf_instr i \<longleftrightarrow> wf_instr i \<and> \<not> closer (iop i) \<and> iop i \<noteq> OP_POBRACE \<and> iop i \<noteq> OP_POPAREN"

fun wf_nodes :: "node list \<Rightarrow> bool" where
  "wf_nodes [] \<longleftrightarrow> True"
| "wf_nodes (Leaf i # ns) \<longleftrightarrow> leaf_instr i \<and> wf_nodes ns"
| "wf_nodes (Braces b # ns) \<longleftrightarrow> wf_nodes b \<and> wf_nodes ns"
| "wf_nodes (Parens b # ns) \<longleftrightarrow> wf_nodes b \<and> wf_nodes ns"

lemma length_flat: "length (encs (flat full ns)) = length (encs (flat True ns))"
  by (induction full ns rule: flat.induct) auto

lemma wf_close [simp]: "wf_instr (IOp OP_PCBRACE)" "wf_instr (IOp OP_PCPAREN)"
  by (simp_all add: OP_ISPUNC_def)

lemma leaf_skip:
  assumes "leaf_instr i" "at_ops code (i # is) p" "closer cl"
  shows "skipblock code cl p = skipblock code cl (p + int (length (enc i)))"
  using assms by (intro skipblock_other) (auto simp: leaf_instr_def closer_def)

text \<open>The walk from the start of a nested block passes the whole block.\<close>

lemma skipblock_nested:
  assumes "at_ops code (flat full ns @ is) p" "wf_nodes ns" "closer cl"
  shows "skipblock code cl p = skipblock code cl (p + int (length (encs (flat full ns))))
    \<and> at_ops code is (p + int (length (encs (flat full ns))))"
  using assms
proof (induction ns arbitrary: "is" p cl rule: wf_nodes.induct)
  case (2 i ns)
  then have at: "at_ops code (i # flat full ns @ is) p" and leaf: "leaf_instr i" by auto
  from 2(1) [OF at_ops_next [OF at], of cl] 2(3,4) leaf_skip [OF leaf at 2(4)]
  show ?case by (simp add: algebra_simps)
next
  case (3 b ns)
  let ?n = "if full then int (length (encs (flat True b))) else 0"
  have at: "at_ops code (IBrace ?n # flat full b @ IOp OP_PCBRACE # flat full ns @ is) p" using 3(3) by simp
  note br = skipblock_brace [OF at 3(5)]
  let ?q = "p + 5 + int (length (encs (flat full b)))"
  have b: "skipblock code OP_PCBRACE (p + 5) = skipblock code OP_PCBRACE ?q"
      "at_ops code (IOp OP_PCBRACE # flat full ns @ is) ?q"
    using 3(1) [of "IOp OP_PCBRACE # flat full ns @ is" "p + 5" OP_PCBRACE] br(2) 3(4) by (auto simp: closer_def)
  have c: "skipblock code OP_PCBRACE ?q = Some (?q + 1)" "at_ops code (flat full ns @ is) (?q + 1)"
    using skipblock_stop [OF b(2) wf_close(1), of OP_PCBRACE] by (simp_all add: closer_def)
  from 3(2) [of "is" "?q + 1" cl] 3(4,5) c br b show ?case by (simp add: algebra_simps)
next
  case (4 b ns)
  let ?n = "if full then int (length (encs (flat True b))) else 0"
  have at: "at_ops code (IParen ?n # flat full b @ IOp OP_PCPAREN # flat full ns @ is) p" using 4(3) by simp
  note br = skipblock_paren [OF at 4(5)]
  let ?q = "p + 3 + int (length (encs (flat full b)))"
  have b: "skipblock code OP_PCPAREN (p + 3) = skipblock code OP_PCPAREN ?q"
      "at_ops code (IOp OP_PCPAREN # flat full ns @ is) ?q"
    using 4(1) [of "IOp OP_PCPAREN # flat full ns @ is" "p + 3" OP_PCPAREN] br(2) 4(4) by (auto simp: closer_def)
  have c: "skipblock code OP_PCPAREN ?q = Some (?q + 1)" "at_ops code (flat full ns @ is) (?q + 1)"
    using skipblock_stop [OF b(2) wf_close(2), of OP_PCPAREN] by (simp_all add: closer_def)
  from 4(2) [of "is" "?q + 1" cl] 4(4,5) c br b show ?case by (simp add: algebra_simps)
qed simp

section \<open>The third pass\<close>

lemma at_ops_poke:
  "at_ops code (IBrace n # is) p \<Longrightarrow> at_ops (poke code (p + 1) (writei4 m)) (IBrace m # is) p"
  "at_ops code (IParen n # is) p \<Longrightarrow> at_ops (poke code (p + 1) (writei2 m)) (IParen m # is) p"
proof -
  assume "at_ops code (IBrace n # is) p"
  then obtain pre where c: "code = (pre @ [op_byte OP_POBRACE]) @ writei4 n @ encs is @ zeros"
      and p: "p = int (length pre)"
    by (auto simp: at_ops_def)
  have "poke code (p + 1) (writei4 m) = pre @ (op_byte OP_POBRACE # writei4 m) @ encs is @ zeros"
    using poke_append [of "writei4 m" "writei4 n" "pre @ [op_byte OP_POBRACE]" "encs is @ zeros"]
    by (simp add: c p algebra_simps)
  then show "at_ops (poke code (p + 1) (writei4 m)) (IBrace m # is) p"
    unfolding at_ops_def using p by (intro exI [of _ pre]) simp
next
  assume "at_ops code (IParen n # is) p"
  then obtain pre where c: "code = (pre @ [op_byte OP_POPAREN]) @ writei2 n @ encs is @ zeros"
      and p: "p = int (length pre)"
    by (auto simp: at_ops_def)
  have "poke code (p + 1) (writei2 m) = pre @ (op_byte OP_POPAREN # writei2 m) @ encs is @ zeros"
    using poke_append [of "writei2 m" "writei2 n" "pre @ [op_byte OP_POPAREN]" "encs is @ zeros"]
    by (simp add: c p algebra_simps)
  then show "at_ops (poke code (p + 1) (writei2 m)) (IParen m # is) p"
    unfolding at_ops_def using p by (intro exI [of _ pre]) simp
qed

lemma at_ops_inside: "at_ops code (i # is) p \<Longrightarrow> wf_instr i \<Longrightarrow> p < int (length code) - 4"
  using at_ops_le [of code "i # is" p] iop_byte [of i] by (cases "enc i") auto

text \<open>One turn of the loop at an instruction that opens no block.\<close>

lemma fix_blocks_other:
  assumes at: "at_ops code (i # is) p" and wf: "wf_instr i" and "\<nexists>n. i = IBrace n" "\<nexists>n. i = IParen n"
  shows "fix_blocks code p st = fix_blocks code (p + int (length (enc i))) st"
proof -
  have rd: "rd code p = Some (iop i)" by (rule at_ops_rd [OF at wf])
  have "iop i \<noteq> OP_POBRACE" "iop i \<noteq> OP_POPAREN" using iop_open [OF wf] assms(3,4) by auto
  moreover have "iop i = OP_LINENUM \<Longrightarrow> length (enc i) = 5"
    using wf by (cases i) (auto simp: OP_ISMATH_def OP_ISKEY_def OP_ISPUNC_def)
  ultimately show ?thesis
    using rd at_ops_seek [OF at wf] at_ops_inside [OF at wf]
    by (simp add: fix_blocks.simps [of code p] n_seekop_def)
qed

definition fix_rest :: "int \<Rightarrow> nsp_error + string \<times> cstate \<Rightarrow> (nsp_error + string \<times> cstate) option" where
  "fix_rest p res = (case res of
     Inl e \<Rightarrow> Some (Inl e)
   | Inr (code', st') \<Rightarrow> Option.bind (n_seekop code' p False) (\<lambda>p'. fix_blocks code' p' st'))"

lemma fix_blocks_opened:
  assumes at: "at_ops code (i # is) p" and i: "i = IBrace n \<or> i = IParen n"
    and sk: "n_seekop code p True = Some p2" "p < p2"
  shows "fix_blocks code p st = Option.bind (fix_block code p (p2 - 1) st) (fix_rest p)"
proof -
  have "wf_instr i" using i by auto
  then have "rd code p = Some (iop i)" "p < int (length code) - 4"
    using at at_ops_rd at_ops_inside by blast+
  then show ?thesis using i sk by (auto simp: fix_blocks.simps [of code p] fix_rest_def [abs_def])
qed

lemma n_seekop_open:
  "at_ops code (IBrace n # is) p \<Longrightarrow> n_seekop code p True = skipblock code OP_PCBRACE (p + 5)"
  "at_ops code (IParen n # is) p \<Longrightarrow> n_seekop code p True = skipblock code OP_PCPAREN (p + 3)"
  using at_ops_rd [of code "IBrace n" "is" p] at_ops_rd [of code "IParen n" "is" p]
  by (auto simp: n_seekop_def)

lemma n_seekop_next: "at_ops code (i # is) p \<Longrightarrow> wf_instr i \<Longrightarrow> n_seekop code p False = Some (p + int (length (enc i)))"
  using at_ops_rd [of code i "is" p] at_ops_seek [of code i "is" p] by (simp add: n_seekop_def)

lemma fix_block_open:
  assumes "at_ops code (i # is) p" "wf_instr i" "rd code p2 \<noteq> None" "fix_block code p p2 st = Some (Inr (code', st'))"
    "i = IBrace n \<or> i = IParen n"
  shows "\<exists>p'. n_seekop code' p False = Some p' \<and> at_ops code' is p'"
proof -
  have c: "code' = (if rd code p = Some OP_POBRACE then poke code (p + 1) (writei4 (p2 - p - 5))
      else poke code (p + 1) (writei2 (p2 - p - 3)))"
    using assms(3,4) by (auto simp: fix_block_def Let_def bind_sum_def split: option.splits sum.splits)
  from assms(5) show ?thesis
  proof
    assume i: "i = IBrace n"
    then have "at_ops code' (IBrace (p2 - p - 5) # is) p"
      using assms(1) at_ops_rd [OF assms(1,2)] by (simp add: c at_ops_poke(1))
    then show ?thesis using n_seekop_next at_ops_next by fastforce
  next
    assume i: "i = IParen n"
    then have "at_ops code' (IParen (p2 - p - 3) # is) p"
      using assms(1) at_ops_rd [OF assms(1,2)] by (simp add: c at_ops_poke(2))
    then show ?thesis using n_seekop_next at_ops_next by fastforce
  qed
qed

text \<open>The third pass ends and stays inside the code, nested or not.\<close>

lemma fix_blocks_total:
  assumes "at_ops code is p" "\<forall>i\<in>set is. wf_instr i"
  shows "\<exists>res. fix_blocks code p st = Some res \<and> res \<noteq> Inl Overrun"
  using assms
proof (induction "is" arbitrary: code p st)
  case Nil
  then show ?case using at_ops_Nil [of code p] by (subst fix_blocks.simps) simp
next
  case (Cons i "is")
  have wf: "wf_instr i" using Cons.prems by simp
  have wfs: "\<forall>i\<in>set is. wf_instr i" using Cons.prems by simp
  have opened: "\<exists>res. fix_blocks code p st = Some res \<and> res \<noteq> Inl Overrun"
    if op: "i = IBrace n \<or> i = IParen n" and p2: "n_seekop code p True = Some p2" "p < p2" "at_ops code is' p2"
    for n p2 is'
  proof -
    have "rd code (p2 - 1) \<noteq> None"
      using p2 at_ops_le [OF p2(3)] at_ops_le [OF Cons.prems(1)] by (simp add: rd_def)
    moreover from this obtain res where "fix_block code p (p2 - 1) st = Some res" "res \<noteq> Inl Overrun"
      by (auto simp: fix_block_def Let_def n_warn_def bind_sum_def)
    ultimately show ?thesis
      using fix_block_open [OF Cons.prems(1) wf, of "p2 - 1" st] op Cons.IH wfs
        fix_blocks_opened [OF Cons.prems(1) op p2(1,2)]
      by (cases res) (fastforce simp: fix_rest_def)+
  qed
  consider n where "i = IBrace n" | n where "i = IParen n" | "\<nexists>n. i = IBrace n" "\<nexists>n. i = IParen n" by blast
  then show ?case
  proof cases
    case 1
    then obtain is' p2 where "skipblock code OP_PCBRACE (p + 5) = Some p2" "at_ops code is' p2" "p + 5 \<le> p2"
      using skipblock_total [of code "is" "p + 5" OP_PCBRACE] at_ops_next [OF Cons.prems(1)] wfs
      by (auto simp: closer_def)
    then show ?thesis using opened [of n p2 is'] n_seekop_open(1) Cons.prems(1) 1 by auto
  next
    case 2
    then obtain is' p2 where "skipblock code OP_PCPAREN (p + 3) = Some p2" "at_ops code is' p2" "p + 3 \<le> p2"
      using skipblock_total [of code "is" "p + 3" OP_PCPAREN] at_ops_next [OF Cons.prems(1)] wfs
      by (auto simp: closer_def)
    then show ?thesis using opened [of n p2 is'] n_seekop_open(2) Cons.prems(1) 2 by auto
  next
    case 3
    then show ?thesis
      using fix_blocks_other [OF Cons.prems(1) wf] Cons.IH at_ops_next [OF Cons.prems(1)] wfs by simp
  qed
qed

text \<open>On nested code the third pass turns the zero of every opening instruction into the length.\<close>

lemma at_opsI: "at_ops (pre @ encs is @ zeros) is (int (length pre))"
  by (auto simp: at_ops_def)

lemma n_warn_0 [simp]: "n_warn 0 st = Inr st"
  by (simp add: n_warn_def)

lemma fix_open_brace:
  assumes "wf_nodes b"
  shows "fix_blocks (pre @ encs (IBrace 0 # flat False b @ IOp OP_PCBRACE # is) @ zeros) (int (length pre)) st
    = fix_blocks (pre @ encs (IBrace (int (length (encs (flat True b)))) # flat False b @ IOp OP_PCBRACE # is) @ zeros)
        (int (length pre) + 5) st"
proof -
  let ?is = "flat False b @ IOp OP_PCBRACE # is"
  let ?code = "pre @ encs (IBrace 0 # ?is) @ zeros"
  let ?p = "int (length pre)"
  let ?L = "int (length (encs (flat False b)))"
  have at: "at_ops ?code (IBrace 0 # ?is) ?p" by (rule at_opsI)
  from skipblock_nested [OF skipblock_brace(2) [OF at, of OP_PCBRACE] assms, of OP_PCBRACE]
  have nest: "skipblock ?code OP_PCBRACE (?p + 5) = skipblock ?code OP_PCBRACE (?p + 5 + ?L)"
      "at_ops ?code (IOp OP_PCBRACE # is) (?p + 5 + ?L)"
    by (simp_all add: closer_def)
  have sk: "n_seekop ?code ?p True = Some (?p + 5 + ?L + 1)"
    using skipblock_stop(1) [OF nest(2) wf_close(1), of OP_PCBRACE] nest(1) n_seekop_open(1) [OF at]
    by (simp add: closer_def)
  have fb: "fix_block ?code ?p (?p + 5 + ?L) st = Some (Inr (poke ?code (?p + 1) (writei4 ?L), st))"
    using at_ops_rd [OF at] at_ops_rd [OF nest(2) wf_close(1)]
    by (simp add: fix_block_def Let_def bind_sum_def)
  have pk: "poke ?code (?p + 1) (writei4 ?L) = pre @ encs (IBrace ?L # ?is) @ zeros"
    using poke_append [of "writei4 ?L" "writei4 0" "pre @ [op_byte OP_POBRACE]" "encs ?is @ zeros"]
    by (simp add: algebra_simps)
  have "n_seekop (pre @ encs (IBrace ?L # ?is) @ zeros) ?p False = Some (?p + 5)"
    using n_seekop_next [OF at_opsI [of pre "IBrace ?L # ?is"]] by simp
  with fix_blocks_opened [OF at _ sk, of 0 st] fb pk show ?thesis
    by (simp add: fix_rest_def length_flat [of False] ac_simps)
qed

lemma fix_open_paren:
  assumes "wf_nodes b"
  shows "fix_blocks (pre @ encs (IParen 0 # flat False b @ IOp OP_PCPAREN # is) @ zeros) (int (length pre)) st
    = fix_blocks (pre @ encs (IParen (int (length (encs (flat True b)))) # flat False b @ IOp OP_PCPAREN # is) @ zeros)
        (int (length pre) + 3) st"
proof -
  let ?is = "flat False b @ IOp OP_PCPAREN # is"
  let ?code = "pre @ encs (IParen 0 # ?is) @ zeros"
  let ?p = "int (length pre)"
  let ?L = "int (length (encs (flat False b)))"
  have at: "at_ops ?code (IParen 0 # ?is) ?p" by (rule at_opsI)
  from skipblock_nested [OF skipblock_paren(2) [OF at, of OP_PCPAREN] assms, of OP_PCPAREN]
  have nest: "skipblock ?code OP_PCPAREN (?p + 3) = skipblock ?code OP_PCPAREN (?p + 3 + ?L)"
      "at_ops ?code (IOp OP_PCPAREN # is) (?p + 3 + ?L)"
    by (simp_all add: closer_def)
  have sk: "n_seekop ?code ?p True = Some (?p + 3 + ?L + 1)"
    using skipblock_stop(1) [OF nest(2) wf_close(2), of OP_PCPAREN] nest(1) n_seekop_open(2) [OF at]
    by (simp add: closer_def)
  have fb: "fix_block ?code ?p (?p + 3 + ?L) st = Some (Inr (poke ?code (?p + 1) (writei2 ?L), st))"
    using at_ops_rd [OF at] at_ops_rd [OF nest(2) wf_close(2)]
    by (simp add: fix_block_def Let_def bind_sum_def)
  have pk: "poke ?code (?p + 1) (writei2 ?L) = pre @ encs (IParen ?L # ?is) @ zeros"
    using poke_append [of "writei2 ?L" "writei2 0" "pre @ [op_byte OP_POPAREN]" "encs ?is @ zeros"]
    by (simp add: algebra_simps)
  have "n_seekop (pre @ encs (IParen ?L # ?is) @ zeros) ?p False = Some (?p + 3)"
    using n_seekop_next [OF at_opsI [of pre "IParen ?L # ?is"]] by simp
  with fix_blocks_opened [OF at _ sk, of 0 st] fb pk show ?thesis
    by (simp add: fix_rest_def length_flat [of False] ac_simps)
qed

lemma fix_instr:
  assumes "wf_instr i" "\<nexists>n. i = IBrace n" "\<nexists>n. i = IParen n"
  shows "fix_blocks (pre @ enc i @ encs is @ zeros) (int (length pre)) st
    = fix_blocks ((pre @ enc i) @ encs is @ zeros) (int (length (pre @ enc i))) st"
  using fix_blocks_other [OF _ assms, of "pre @ enc i @ encs is @ zeros" "is" "int (length pre)"]
    at_opsI [of pre "i # is"]
  by simp

lemma fix_nested:
  assumes "wf_nodes ns"
  shows "fix_blocks (pre @ encs (flat False ns) @ encs is @ zeros) (int (length pre)) st
    = fix_blocks ((pre @ encs (flat True ns)) @ encs is @ zeros) (int (length (pre @ encs (flat True ns)))) st"
  using assms
proof (induction ns arbitrary: pre "is" rule: wf_nodes.induct)
  case (2 i ns)
  then have "wf_instr i" "\<nexists>n. i = IBrace n" "\<nexists>n. i = IParen n"
    by (auto simp: leaf_instr_def)
  from fix_instr [OF this, of pre "flat False ns @ is" st] 2(1) [of "pre @ enc i" "is"] 2(2)
  show ?case by simp
next
  case (3 b ns)
  let ?B = "IBrace (int (length (encs (flat True b))))"
  have 1: "fix_blocks (pre @ encs (flat False (Braces b # ns)) @ encs is @ zeros) (int (length pre)) st
     = fix_blocks ((pre @ enc ?B) @ encs (flat False b) @ encs (IOp OP_PCBRACE # flat False ns @ is) @ zeros)
         (int (length (pre @ enc ?B))) st"
    using fix_open_brace [of b pre "flat False ns @ is" st] 3(3) by simp
  from 3(1) [of "pre @ enc ?B" "IOp OP_PCBRACE # flat False ns @ is"]
    fix_instr [OF wf_close(1), of "pre @ enc ?B @ encs (flat True b)" "flat False ns @ is" st]
    3(2) [of "pre @ enc ?B @ encs (flat True b) @ enc (IOp OP_PCBRACE)" "is"] 3(3) 1
  show ?case by simp
next
  case (4 b ns)
  let ?B = "IParen (int (length (encs (flat True b))))"
  have 1: "fix_blocks (pre @ encs (flat False (Parens b # ns)) @ encs is @ zeros) (int (length pre)) st
     = fix_blocks ((pre @ enc ?B) @ encs (flat False b) @ encs (IOp OP_PCPAREN # flat False ns @ is) @ zeros)
         (int (length (pre @ enc ?B))) st"
    using fix_open_paren [of b pre "flat False ns @ is" st] 4(3) by simp
  from 4(1) [of "pre @ enc ?B" "IOp OP_PCPAREN # flat False ns @ is"]
    fix_instr [OF wf_close(2), of "pre @ enc ?B @ encs (flat True b)" "flat False ns @ is" st]
    4(2) [of "pre @ enc ?B @ encs (flat True b) @ enc (IOp OP_PCPAREN)" "is"] 4(3) 1
  show ?case by simp
qed simp

end
