(* ===== verification/NspLayout.thy ===== *)
theory NspLayout
  imports NspCode
begin

text \<open>
  What \<open>n_decompose\<close> returns: the second pass writes the instructions of the token list inside
  a buffer that is large enough, and the whole compiler produces the nested layout that the
  interpreter walks.
\<close>

section \<open>The second pass\<close>

definition plain_instr :: "nat \<Rightarrow> string \<Rightarrow> instr" where
  "plain_instr opc s =
     (if opc = OP_POBRACE then IBrace 0
      else if opc = OP_POPAREN then IParen 0
      else if opc = OP_STRDATA \<or> opc = OP_ESTRDATA then ILong opc s
      else if opc = OP_NUMDATA \<or> opc = OP_LABEL then IShort opc s
      else IOp opc)"

text \<open>The instructions of a token list; behind \<open>function\<close> come its name and the file name.\<close>

fun tok_instrs :: "string \<Rightarrow> tok list \<Rightarrow> instr list" where
  "tok_instrs fn [] = []"
| "tok_instrs fn (LineTok n # ts) = ILine (int n) # tok_instrs fn ts"
| "tok_instrs fn (StrTok opc s # ts) =
     (if opc = OP_KFUNC then
        (case ts of
           StrTok o2 l # ts' \<Rightarrow>
             if o2 = OP_LABEL
             then IOp OP_KFUNC # IShort OP_LABEL l # IShort OP_LABEL fn # tok_instrs fn ts'
             else IOp OP_KFUNC # IShort OP_LABEL fn # tok_instrs fn ts
         | _ \<Rightarrow> IOp OP_KFUNC # IShort OP_LABEL fn # tok_instrs fn ts)
      else plain_instr opc s # tok_instrs fn ts)"

primrec tok_op :: "tok \<Rightarrow> nat" where
  "tok_op (LineTok n) = OP_LINENUM"
| "tok_op (StrTok opc s) = opc"

text \<open>Tokens as the tokenizer makes them, with data that fits its length field.\<close>

primrec tok_fits :: "tok \<Rightarrow> bool" where
  "tok_fits (LineTok n) \<longleftrightarrow> True"
| "tok_fits (StrTok opc s) \<longleftrightarrow>
     (opc = OP_STRDATA \<or> opc = OP_ESTRDATA) \<and> length s < 2 ^ 31
   \<or> (opc = OP_NUMDATA \<or> opc = OP_LABEL) \<and> length s \<le> 255
   \<or> OP_ISMATH opc \<or> OP_ISKEY opc \<or> OP_ISPUNC opc"

lemmas op_class_defs = OP_ISMATH_def OP_ISKEY_def OP_ISPUNC_def

lemma plain_wf: "tok_fits (StrTok opc s) \<Longrightarrow> wf_instr (plain_instr opc s)"
  by (auto simp: plain_instr_def op_class_defs)

text \<open>The buffer never overflows: \<open>testgrow\<close> makes room for what is stored next.\<close>

lemma put_fits:
  assumes "length bs \<le> b" "length buf \<le> m"
  obtains m' where "put b bs (buf, m) = Inr (buf @ bs, m')" "length (buf @ bs) \<le> m'"
proof
  show "put b bs (buf, m) = Inr (buf @ bs, snd (testgrow b (buf, m)))"
    and "length (buf @ bs) \<le> snd (testgrow b (buf, m))"
    using assms by (auto simp: put_def store_def testgrow_def)
qed

text \<open>A writer that appends \<open>bs\<close> to every buffer that is within its bound, and stays within it.\<close>

definition emits :: "(dest \<Rightarrow> nsp_error + dest) \<Rightarrow> string \<Rightarrow> bool" where
  "emits f bs \<longleftrightarrow> (\<forall>buf m. length buf \<le> m \<longrightarrow>
     (\<exists>m'. f (buf, m) = Inr (buf @ bs, m') \<and> length (buf @ bs) \<le> m'))"

lemma emits_put:
  assumes "length bs \<le> b" "emits f rest"
  shows "emits (\<lambda>d. bind_sum (put b bs d) f) (bs @ rest)"
  unfolding emits_def
proof (intro allI impI)
  fix buf :: string and m :: nat
  assume "length buf \<le> m"
  then obtain m1 where 1: "put b bs (buf, m) = Inr (buf @ bs, m1)" "length (buf @ bs) \<le> m1"
    using put_fits assms(1) by blast
  then obtain m2 where "f (buf @ bs, m1) = Inr ((buf @ bs) @ rest, m2)" "length ((buf @ bs) @ rest) \<le> m2"
    using assms(2) unfolding emits_def by blast
  with 1 show "\<exists>m'. bind_sum (put b bs (buf, m)) f = Inr (buf @ bs @ rest, m') \<and> length (buf @ bs @ rest) \<le> m'"
    by (simp add: bind_sum_def)
qed

lemma length_data [simp]: "length (long_data opc s) = 6 + length s" "length (short_data opc s) = 3 + length s"
  by (simp_all add: long_data_def short_data_def)

lemma write_ops_plain:
  assumes "tok_fits (StrTok opc s)" "opc \<noteq> OP_KFUNC"
  obtains b where "length (enc (plain_instr opc s)) \<le> b"
    "\<And>d. write_ops fn (StrTok opc s # ts) d = bind_sum (put b (enc (plain_instr opc s)) d) (write_ops fn ts)"
proof -
  consider "opc = OP_POBRACE" | "opc = OP_POPAREN" | "opc = OP_STRDATA \<or> opc = OP_ESTRDATA"
    | "opc = OP_NUMDATA \<or> opc = OP_LABEL"
    | "187 \<le> opc" "opc \<le> 252"
    using assms(1) by (fastforce simp: op_class_defs)
  then show ?thesis
  proof cases
    case 5
    then show ?thesis using assms that [of 1] by (auto simp: plain_instr_def op_class_defs)
  qed (use that [of 5] that [of 3] that [of "6 + length s"] that [of "3 + length s"] in
      \<open>auto simp: plain_instr_def\<close>)
qed

lemma write_ops_func:
  "write_ops fn (StrTok OP_KFUNC s # StrTok OP_LABEL l # ts) d = bind_sum (put 1 (enc (IOp OP_KFUNC)) d)
     (\<lambda>d1. bind_sum (put (3 + length l) (enc (IShort OP_LABEL l)) d1)
     (\<lambda>d2. bind_sum (put (3 + length fn) (enc (IShort OP_LABEL fn)) d2) (write_ops fn ts)))"
  "tok_op t \<noteq> OP_LABEL \<Longrightarrow> write_ops fn (StrTok OP_KFUNC s # t # ts) d = bind_sum (put 1 (enc (IOp OP_KFUNC)) d)
     (\<lambda>d1. bind_sum (put (3 + length fn) (enc (IShort OP_LABEL fn)) d1) (write_ops fn (t # ts)))"
  by (cases t; simp add: op_class_defs)+

lemma tok_instrs_func:
  "tok_instrs fn (StrTok OP_KFUNC s # StrTok OP_LABEL l # ts) =
     IOp OP_KFUNC # IShort OP_LABEL l # IShort OP_LABEL fn # tok_instrs fn ts"
  "tok_op t \<noteq> OP_LABEL \<Longrightarrow> tok_instrs fn (StrTok OP_KFUNC s # t # ts) =
     IOp OP_KFUNC # IShort OP_LABEL fn # tok_instrs fn (t # ts)"
  by (cases t; simp)+

lemma tok_instrs_wf:
  assumes "\<forall>t\<in>set ts. tok_fits t" "length fn \<le> 255"
  shows "\<forall>i\<in>set (tok_instrs fn ts). wf_instr i"
  using assms(1)
proof (induction "length ts" arbitrary: ts rule: less_induct)
  case less
  have k: "wf_instr (IOp OP_KFUNC)" "wf_instr (IShort OP_LABEL fn)"
    using assms(2) by (simp_all add: op_class_defs)
  show ?case
  proof (cases ts)
    case (Cons t us)
    then have us: "\<forall>i\<in>set (tok_instrs fn us). wf_instr i" using less.hyps [of us] less.prems by simp
    consider n where "t = LineTok n" | opc s where "t = StrTok opc s" "opc \<noteq> OP_KFUNC"
      | s where "t = StrTok OP_KFUNC s" by (cases t) auto
    then show ?thesis
    proof cases
      case 1
      then show ?thesis using Cons us by simp
    next
      case 2
      then show ?thesis using Cons us less.prems plain_wf [of opc s] by simp
    next
      case 3
      show ?thesis
      proof (cases us)
        case Nil
        then show ?thesis using Cons 3 k by (simp del: wf_instr.simps)
      next
        case v: (Cons v vs)
        then have vs: "\<forall>i\<in>set (tok_instrs fn vs). wf_instr i" using less.hyps [of vs] less.prems Cons by simp
        show ?thesis
        proof (cases "tok_op v = OP_LABEL")
          case True
          then obtain l where l: "v = StrTok OP_LABEL l" by (cases v) auto
          have "wf_instr (IShort OP_LABEL l)" using less.prems Cons v l by (simp add: op_class_defs)
          then show ?thesis using Cons 3 v l vs k tok_instrs_func(1) by (simp del: wf_instr.simps tok_instrs.simps)
        next
          case False
          show ?thesis
            using us k unfolding Cons 3 v tok_instrs_func(2) [OF False] by (simp del: wf_instr.simps tok_instrs.simps)
        qed
      qed
    qed
  qed simp
qed

text \<open>What the second pass writes, for any token list that does not end in \<open>function\<close>.\<close>

lemma write_ops_emits:
  assumes "\<forall>t\<in>set ts. tok_fits t" "ts = [] \<or> tok_op (last ts) \<noteq> OP_KFUNC"
  shows "emits (write_ops fn ts) (encs (tok_instrs fn ts))"
  using assms
proof (induction "length ts" arbitrary: ts rule: less_induct)
  case less
  have rest: "emits (write_ops fn us) (encs (tok_instrs fn us))" if "ts = vs @ us" "vs \<noteq> []" for vs us
    using less.prems that by (intro less.hyps) (cases us, auto)
  show ?case
  proof (cases ts)
    case Nil
    then show ?thesis by (simp add: emits_def)
  next
    case (Cons t us)
    have us: "emits (write_ops fn us) (encs (tok_instrs fn us))" using rest [of "[t]" us] Cons by simp
    show ?thesis
    proof (cases t)
      case (LineTok n)
      have "write_ops fn ts = (\<lambda>d. bind_sum (put 5 (enc (ILine (int n))) d) (write_ops fn us))"
        using Cons LineTok by (simp add: fun_eq_iff)
      then show ?thesis using Cons LineTok emits_put [OF _ us, of "enc (ILine (int n))" 5] by simp
    next
      case (StrTok opc s)
      show ?thesis
      proof (cases "opc = OP_KFUNC")
        case False
        obtain b where b: "length (enc (plain_instr opc s)) \<le> b" "\<And>d. write_ops fn (StrTok opc s # us) d
            = bind_sum (put b (enc (plain_instr opc s)) d) (write_ops fn us)"
          using write_ops_plain [of opc s fn us] less.prems(1) Cons StrTok False by auto
        then have "write_ops fn ts = (\<lambda>d. bind_sum (put b (enc (plain_instr opc s)) d) (write_ops fn us))"
          using Cons StrTok by (simp add: fun_eq_iff)
        moreover have "encs (tok_instrs fn ts) = enc (plain_instr opc s) @ encs (tok_instrs fn us)"
          using Cons StrTok False by simp
        ultimately show ?thesis using emits_put [OF b(1) us] by simp
      next
        case True
        then obtain v vs where v: "us = v # vs" using less.prems(2) Cons StrTok by (cases us) auto
        show ?thesis
        proof (cases "tok_op v = OP_LABEL")
          case False
          have "write_ops fn ts = (\<lambda>d. bind_sum (put 1 (enc (IOp OP_KFUNC)) d)
              (\<lambda>d1. bind_sum (put (3 + length fn) (enc (IShort OP_LABEL fn)) d1) (write_ops fn us)))"
            unfolding Cons StrTok True v write_ops_func(2) [OF False] ..
          moreover have "encs (tok_instrs fn ts) = enc (IOp OP_KFUNC) @ enc (IShort OP_LABEL fn) @ encs (tok_instrs fn us)"
            unfolding Cons StrTok True v tok_instrs_func(2) [OF False] by simp
          moreover have "length (enc (IOp OP_KFUNC)) \<le> 1" "length (enc (IShort OP_LABEL fn)) \<le> 3 + length fn"
            by simp_all
          ultimately show ?thesis by (simp only: emits_put us)
        next
          case lab: True
          then obtain l where l: "v = StrTok OP_LABEL l" by (cases v) auto
          have vs: "emits (write_ops fn vs) (encs (tok_instrs fn vs))" using rest [of "[t, v]" vs] Cons v by simp
          have "write_ops fn ts = (\<lambda>d. bind_sum (put 1 (enc (IOp OP_KFUNC)) d)
              (\<lambda>d1. bind_sum (put (3 + length l) (enc (IShort OP_LABEL l)) d1)
              (\<lambda>d2. bind_sum (put (3 + length fn) (enc (IShort OP_LABEL fn)) d2) (write_ops fn vs))))"
            unfolding Cons StrTok True v l write_ops_func(1) ..
          moreover have "encs (tok_instrs fn ts) = enc (IOp OP_KFUNC) @ enc (IShort OP_LABEL l)
              @ enc (IShort OP_LABEL fn) @ encs (tok_instrs fn vs)"
            unfolding Cons StrTok True v l tok_instrs_func(1) by simp
          moreover have "length (enc (IOp OP_KFUNC)) \<le> 1" "length (enc (IShort OP_LABEL x)) \<le> 3 + length x" for x
            by simp_all
          ultimately show ?thesis by (simp only: emits_put vs)
        qed
      qed
    qed
  qed
qed

text \<open>The code after the second pass.\<close>

definition file_header :: "nat \<Rightarrow> string" where
  "file_header n = [CHR 0x0D, CHR 0xAC, NUL, NUL, NUL, NUL, NUL, NUL] @ writei4 (int n) @ writei4 20 @ writei4 0"

lemma length_file_header [simp]: "length (file_header n) = 20"
  by (simp add: file_header_def)

lemma header_poke: "poke header 12 (writei4 20) =
    [CHR 0x0D, CHR 0xAC, NUL, NUL, NUL, NUL, NUL, NUL] @ zeros @ writei4 20 @ writei4 0"
  by code_simp

lemma header_size: "poke (poke header 12 (writei4 20) @ b) 8 (writei4 (int n)) = file_header n @ b"
  unfolding header_poke file_header_def
  using poke_append [of "writei4 (int n)" zeros "[CHR 0x0D, CHR 0xAC, NUL, NUL, NUL, NUL, NUL, NUL]"
      "writei4 20 @ writei4 0 @ b"]
  by simp

lemma bind_sum_Inr [simp]: "bind_sum (Inr x) f = f x"
  by (simp add: bind_sum_def)

lemma bind_sum_assoc: "bind_sum (bind_sum x f) g = bind_sum x (\<lambda>y. bind_sum (f y) g)"
  by (cases x) (simp_all add: bind_sum_def)

lemma write_code_ok:
  assumes "\<forall>t\<in>set ts. tok_fits t" "ts = [] \<or> tok_op (last ts) \<noteq> OP_KFUNC"
  shows "\<exists>m. write_code fn ts = Inr (file_header (20 + length (encs (ILine 1 # tok_instrs fn ts)))
      @ encs (ILine 1 # tok_instrs fn ts) @ zeros, m)"
proof -
  let ?h = "poke header 12 (writei4 20)"
  have "length ?h = 20" by (simp add: header_poke)
  have "emits (\<lambda>d. bind_sum (put 5 (enc (ILine 1)) d) (write_ops fn ts)) (encs (ILine 1 # tok_instrs fn ts))"
    using emits_put [OF _ write_ops_emits [OF assms], of "enc (ILine 1)" 5 fn] by simp
  moreover have "length ?h \<le> 1024" by (simp add: header_poke)
  ultimately obtain m where m: "bind_sum (put 5 (enc (ILine 1)) (?h, 1024)) (write_ops fn ts)
      = Inr (?h @ encs (ILine 1 # tok_instrs fn ts), m)" "length (?h @ encs (ILine 1 # tok_instrs fn ts)) \<le> m"
    unfolding emits_def by blast
  let ?b = "file_header (20 + length (encs (ILine 1 # tok_instrs fn ts))) @ encs (ILine 1 # tok_instrs fn ts)"
  have "length ?b \<le> m" using m(2) \<open>length ?h = 20\<close> by simp
  then obtain m' where "put 4 zeros (?b, m) = Inr (?b @ zeros, m')"
    using put_fits [of zeros 4 ?b m] by auto
  moreover have "put 8 header ([], 1024) = Inr (header, 1024)"
    by (simp add: put_def testgrow_def store_def header_def)
  moreover have "length header = 20" by (simp add: header_def)
  moreover have "writei4 0 = zeros" by code_simp
  moreover have "write_code fn ts = bind_sum (put 8 header ([], 1024)) (\<lambda>(b, m).
      bind_sum (bind_sum (put 5 (enc (ILine 1)) (poke b 12 (writei4 (int (length b))), m)) (write_ops fn ts))
        (\<lambda>(b, m). put 4 (writei4 0) (poke b 8 (writei4 (int (length b))), m)))"
    by (simp add: write_code_def bind_sum_assoc)
  ultimately have "write_code fn ts = put 4 zeros (poke (?h @ encs (ILine 1 # tok_instrs fn ts)) 8
      (writei4 (int (20 + length (encs (ILine 1 # tok_instrs fn ts))))), m)"
    using m(1) \<open>length ?h = 20\<close> by (simp del: enc.simps encs_simps)
  then show ?thesis unfolding header_size using \<open>put 4 zeros (?b, m) = Inr (?b @ zeros, m')\<close> by simp
qed

end
