(* ===== verification/NspPrint.thy ===== *)
theory NspPrint
  imports NspLex
begin

text \<open>
  Printing and reading back. Tokens printed with blanks between them, strings with the escapes
  that \<open>n_unescape\<close> knows, are what the first pass of the compiler reads.
\<close>

section \<open>Strings\<close>

definition esc :: "char \<Rightarrow> string" where
  "esc c = (if c = NUL then [CHR 0x5C, CHR ''0''] else if c = LF then [CHR 0x5C, CHR ''n'']
     else if c = CHR 0x5C \<or> IS_QUOTE c then [CHR 0x5C, c] else [c])"

definition escape :: "string \<Rightarrow> string" where
  "escape s = concat (map esc s)"

lemma escape_simps [simp]: "escape [] = []" "escape (c # s) = esc c @ escape s"
  by (simp_all add: escape_def)

lemma n_unescape_esc: "n_unescape (esc c @ s) False = (case n_unescape s False of (d, k) \<Rightarrow> (c # d, k))"
  by (auto simp: esc_def unescape_char_def IS_QUOTE_def control_chars split: prod.splits)

lemma n_unescape_escape: "n_unescape (escape s) False = (s, 0)"
  by (induction s) (simp_all add: n_unescape_esc)

lemma skipquote_esc:
  assumes "IS_QUOTE q" "s \<noteq> []"
  shows "n_skipquote q False (esc c @ s) ln =
    (case n_skipquote q False s ln of Inl e \<Rightarrow> Inl e | Inr (a, r, n) \<Rightarrow> Inr (esc c @ a, r, n))"
  using assms by (auto simp: esc_def IS_QUOTE_def control_chars split: sum.splits)

lemma skipquote_escape: "IS_QUOTE q \<Longrightarrow> n_skipquote q False (escape s @ q # r) ln = Inr (escape s, r, ln)"
proof (induction s)
  case Nil
  then show ?case by (auto simp: IS_QUOTE_def)
qed (simp add: skipquote_esc)

lemma extractquote_escape:
  "IS_QUOTE q \<Longrightarrow> n_extractquote (q # escape s @ q # r) False st = Inr (s, r, st)"
  by (simp add: n_extractquote_def skipquote_escape n_unescape_escape)

section \<open>Printing tokens\<close>

primrec print_tok :: "tok \<Rightarrow> string" where
  "print_tok (LineTok n) = [LF]"
| "print_tok (StrTok opc s) =
     (if opc = OP_STRDATA then CHR 0x22 # escape s @ [CHR 0x22]
      else if opc = OP_ESTRDATA then CHR 0x60 # escape s @ [CHR 0x60]
      else s)"

fun print_toks :: "tok list \<Rightarrow> string" where
  "print_toks [] = []"
| "print_toks [t] = print_tok t"
| "print_toks (t # ts) = print_tok t @ CHR '' '' # print_toks ts"

text \<open>
  The tokens that can be printed behind an operator \<open>prev\<close>: labels, numbers, strings, operators
  under their own name. Behind a dot a keyword is a label.
\<close>

definition label_text :: "string \<Rightarrow> bool" where
  "label_text s \<longleftrightarrow> s \<noteq> [] \<and> IS_LABEL (hd s) \<and> list_all label_char s \<and> length s \<le> MAX_OBJNAMELEN"

definition printable :: "nat \<Rightarrow> tok \<Rightarrow> bool" where
  "printable prev t = (case t of
     LineTok n \<Rightarrow> False
   | StrTok opc s \<Rightarrow>
       if opc = OP_STRDATA \<or> opc = OP_ESTRDATA then True
       else if opc = OP_NUMDATA then s \<noteq> [] \<and> isdigit (hd s) \<and> list_all num_char s
       else if opc = OP_LABEL
         then label_text s \<and> (prev = OP_PDOT \<or> op_lookup OP_KEXIT OP_KBREAK s = None)
       else s = n_getsym opc \<and>
         (OP_ISKEY opc \<and> prev \<noteq> OP_PDOT \<or> OP_ISMATH opc \<or> OP_PDOT \<le> opc \<and> opc \<le> OP_POBRACE))"

fun printable_toks :: "nat \<Rightarrow> tok list \<Rightarrow> bool" where
  "printable_toks prev [] \<longleftrightarrow> True"
| "printable_toks prev (t # ts) \<longleftrightarrow> printable prev t \<and> printable_toks (tok_op t) ts"

text \<open>What follows a printed token.\<close>

definition bounded :: "string \<Rightarrow> bool" where
  "bounded r \<longleftrightarrow> hd0 r = NUL \<or> hd0 r = CHR '' ''"

lemma bounded_classes:
  assumes "bounded r"
  shows "\<not> label_char (hd0 r)" "\<not> IS_MATHOP (hd0 r)" "\<not> num_char (hd0 r)" "hd0 r \<noteq> CHR ''/''" "hd0 r \<noteq> CHR ''*''"
  using assms
  by (auto simp: bounded_def label_char_def IS_LABEL_def IS_MATHOP_def num_char_def char_classes NUL_def)

section \<open>Reading operators\<close>

lemma label_rest_exact:
  assumes "list_all label_char a" "length a \<le> n" "\<not> label_char (hd0 r)"
  shows "label_rest n (a @ r) = (a, r)"
  using assms
proof (induction a arbitrary: n)
  case Nil
  then show ?case by (cases r; cases n) auto
next
  case (Cons c a)
  then show ?case by (cases n) auto
qed

lemma label_first:
  assumes "IS_LABEL c"
  shows "\<not> 127 < ord c" "\<not> IS_DATA c"
  using assms by (auto simp: IS_LABEL_def IS_DATA_def IS_QUOTE_def char_classes)

lemma n_getop_label:
  assumes "label_text s" "bounded r"
  shows "n_getop (s @ r) = (case op_lookup OP_KEXIT OP_KBREAK s of Some v \<Rightarrow> v | None \<Rightarrow> OP_LABEL, s, r)"
proof -
  obtain c a where s: "s = c # a" using assms(1) by (cases s) (auto simp: label_text_def)
  have "label_rest (MAX_OBJNAMELEN - 1) (a @ r) = (a, r)"
    using assms s bounded_classes(1) by (intro label_rest_exact) (auto simp: label_text_def)
  then show ?thesis using assms(1) s label_first [of c] by (simp add: n_getop_def Let_def label_text_def)
qed

text \<open>The names of \<open>oplist\<close> are distinct, so each operator is found under its own number.\<close>

lemma oplist_distinct: "distinct (map fst oplist_named)"
  by code_simp

lemma oplist_length: "length oplist_named = 68"
  by (simp add: oplist_named_def)

lemma oplist_name: "187 \<le> i \<Longrightarrow> i \<le> 254 \<Longrightarrow> op_name (oplist i) = Some (fst (oplist_named ! (i - 187)))"
  by (cases "oplist_named ! (i - 187)") (simp add: oplist_def)

lemma n_getsym_op: "187 \<le> i \<Longrightarrow> i \<le> 254 \<Longrightarrow> n_getsym i = fst (oplist_named ! (i - 187))"
  by (simp add: n_getsym_def oplist_name)

lemma oplist_name_inj:
  assumes "187 \<le> i" "i \<le> 254" "187 \<le> j" "j \<le> 254" "op_name (oplist i) = op_name (oplist j)"
  shows "i = j"
proof -
  have l: "i - 187 < length (map fst oplist_named)" "j - 187 < length (map fst oplist_named)"
    using assms oplist_length by simp_all
  have "Some (map fst oplist_named ! (i - 187)) = Some (map fst oplist_named ! (j - 187))"
    using assms(5) l unfolding oplist_name [OF assms(1,2)] oplist_name [OF assms(3,4)] by simp
  then have "i - 187 = j - 187"
    using nth_eq_iff_index_eq [OF oplist_distinct l] by simp
  then show ?thesis using assms(1,3) by simp
qed

lemma find_unique:
  assumes "x \<in> set xs" "P x" and u: "\<And>y. y \<in> set xs \<Longrightarrow> P y \<Longrightarrow> y = x"
  shows "List.find P xs = Some x"
proof (cases "List.find P xs")
  case None
  then show ?thesis using assms(1,2) find_None_iff by metis
next
  case (Some y)
  then obtain i where "i < length xs" "P (xs ! i)" "y = xs ! i" using find_Some_iff by metis
  then show ?thesis using Some u [of y] by simp
qed

lemma op_lookup_sym:
  assumes "187 \<le> lo" "lo \<le> i" "i \<le> hi" "hi \<le> 254"
  shows "op_lookup lo hi (n_getsym i) = Some i"
proof -
  have "op_name (oplist i) = Some (n_getsym i)" using assms by (simp add: oplist_name n_getsym_op)
  moreover have "j = i" if "j \<in> set [lo..<Suc hi]" "op_name (oplist j) = Some (n_getsym i)" for j
    using that calculation assms by (intro oplist_name_inj) (auto simp del: upt_Suc)
  ultimately have "List.find (\<lambda>j. op_name (oplist j) = Some (n_getsym i)) [lo..<Suc hi] = Some i"
    using assms by (intro find_unique) (simp_all del: upt_Suc)
  then show ?thesis using assms by (simp add: op_lookup_def oplist_value del: upt_Suc)
qed

definition math_text :: "string \<Rightarrow> bool" where
  "math_text s \<longleftrightarrow> (case s of
     [c] \<Rightarrow> True
   | [c, d] \<Rightarrow> IS_MATHOP d \<and> (c = CHR ''='' \<longrightarrow> d = CHR ''='')
   | [c, d, e] \<Rightarrow> c = CHR ''='' \<and> d = CHR ''='' \<and> e = CHR ''=''
   | _ \<Rightarrow> False)"

lemma math_rest_exact:
  "math_text (c # a) \<Longrightarrow> \<not> IS_MATHOP (hd0 r) \<Longrightarrow> math_rest c (a @ r) = (a, r)"
  by (auto simp: math_text_def math_rest_def IS_MATHOP_def split: list.splits)

definition math_name :: "string \<Rightarrow> bool" where
  "math_name s \<longleftrightarrow> s \<noteq> [] \<and> math_text s \<and> IS_MATHOP (hd s)
     \<and> (hd s = CHR ''/'' \<longrightarrow> tl s = [] \<or> hd (tl s) = CHR ''='')"

lemma oplist_texts: "list_all (\<lambda>e. label_text (fst e)) (take 25 oplist_named)"
    "list_all (\<lambda>e. math_name (fst e)) (take 29 (drop 25 oplist_named))"
    "list_all (\<lambda>e. length (fst e) = 1 \<and> IS_PUNCOP (hd (fst e))) (drop 59 oplist_named)"
  by code_simp+

lemma key_text: "OP_ISKEY i \<Longrightarrow> label_text (n_getsym i)"
proof -
  assume "OP_ISKEY i"
  then have i: "187 \<le> i" "i - 187 < 25" by (auto simp: OP_ISKEY_def)
  then have "take 25 oplist_named ! (i - 187) = oplist_named ! (i - 187)" by simp
  moreover have "take 25 oplist_named ! (i - 187) \<in> set (take 25 oplist_named)"
    using i oplist_length by (intro nth_mem) simp
  ultimately show ?thesis using oplist_texts(1) i by (simp add: list_all_iff n_getsym_op)
qed

lemma math_sym: "OP_ISMATH i \<Longrightarrow> math_name (n_getsym i)"
proof -
  assume "OP_ISMATH i"
  then have i: "212 \<le> i" "i - 212 < 29" by (auto simp: OP_ISMATH_def)
  let ?l = "take 29 (drop 25 oplist_named)"
  have "25 + (i - 212) = i - 187" using i by simp
  then have "?l ! (i - 212) = oplist_named ! (i - 187)" using i oplist_length by (simp add: nth_drop)
  moreover have "?l ! (i - 212) \<in> set ?l"
    using i oplist_length by (intro nth_mem) simp
  ultimately show ?thesis using oplist_texts(2) i by (simp add: list_all_iff n_getsym_op)
qed

lemma punc_sym: "OP_PDOT \<le> i \<Longrightarrow> i \<le> OP_POBRACE \<Longrightarrow> length (n_getsym i) = 1 \<and> IS_PUNCOP (hd (n_getsym i))"
proof -
  assume i: "OP_PDOT \<le> i" "i \<le> OP_POBRACE"
  let ?l = "drop 59 oplist_named"
  have "59 + (i - 246) = i - 187" using i by simp
  then have "?l ! (i - 246) = oplist_named ! (i - 187)" using i oplist_length by (simp add: nth_drop)
  moreover have "?l ! (i - 246) \<in> set ?l"
    using i oplist_length by (intro nth_mem) simp
  ultimately show ?thesis using oplist_texts(3) i by (simp add: list_all_iff n_getsym_op)
qed

lemma math_first: "IS_MATHOP c \<Longrightarrow> \<not> 127 < ord c \<and> \<not> IS_DATA c \<and> \<not> IS_LABEL c \<and> \<not> IS_PUNCOP c"
  by (auto simp: IS_MATHOP_def IS_LABEL_def IS_DATA_def IS_QUOTE_def IS_PUNCOP_def char_classes)

lemma punc_first: "IS_PUNCOP c \<Longrightarrow> \<not> 127 < ord c \<and> \<not> IS_DATA c \<and> \<not> IS_LABEL c \<and> \<not> blank_start c"
  by (auto simp: IS_PUNCOP_def IS_LABEL_def IS_DATA_def IS_QUOTE_def blank_start_def nc_isspace_def
      control_chars char_classes)

lemma n_getop_key: "OP_ISKEY i \<Longrightarrow> bounded r \<Longrightarrow> n_getop (n_getsym i @ r) = (i, n_getsym i, r)"
  using op_lookup_sym [of OP_KEXIT i OP_KBREAK] by (simp add: n_getop_label key_text OP_ISKEY_def)

lemma n_getop_math: "OP_ISMATH i \<Longrightarrow> bounded r \<Longrightarrow> n_getop (n_getsym i @ r) = (i, n_getsym i, r)"
proof -
  assume i: "OP_ISMATH i" and r: "bounded r"
  from math_sym [OF i] obtain c a where s: "n_getsym i = c # a" and t: "math_text (c # a)" "IS_MATHOP c"
    by (cases "n_getsym i") (auto simp: math_name_def)
  have "math_rest c (a @ r) = (a, r)"
    using t math_rest_exact bounded_classes(2) [OF r] by simp
  moreover have "op_lookup OP_MQUESTION OP_MEQ (c # a) = Some i"
    using op_lookup_sym [of OP_MQUESTION i OP_MEQ] i s by (simp add: OP_ISMATH_def)
  ultimately show ?thesis using t s math_first [of c] by (simp add: n_getop_def Let_def)
qed

lemma n_getop_punc: "OP_PDOT \<le> i \<Longrightarrow> i \<le> OP_POBRACE \<Longrightarrow> n_getop (n_getsym i @ r) = (i, n_getsym i, r)"
proof -
  assume i: "OP_PDOT \<le> i" "i \<le> OP_POBRACE"
  from punc_sym [OF this] obtain c where s: "n_getsym i = [c]" and c: "IS_PUNCOP c"
    by (cases "n_getsym i") auto
  have "op_lookup OP_PHASH OP_POBRACE [c] = Some i"
    using op_lookup_sym [of OP_PHASH i OP_POBRACE] i s by simp
  then show ?thesis using s c punc_first [of c] by (simp add: n_getop_def Let_def)
qed

section \<open>Reading tokens back\<close>

text \<open>Text that starts with no blank and no comment.\<close>

definition solid :: "string \<Rightarrow> bool" where
  "solid s \<longleftrightarrow> (\<not> nc_isspace (hd0 s) \<and> hd0 s \<noteq> CHR ''#'' \<and>
     (hd0 s = CHR ''/'' \<longrightarrow> hd0 (tl s) \<noteq> CHR ''/'' \<and> hd0 (tl s) \<noteq> CHR ''*''))"

lemma skipblank_solid: "solid s \<Longrightarrow> n_skipblank s st = (s, st)"
  by (subst n_skipblank.simps) (auto simp: solid_def skip_comment_def nc_isspace_def)

lemma skipblank_space: "n_skipblank (CHR '' '' # s) st = n_skipblank s st"
  by (subst n_skipblank.simps) (simp add: skip_comment_def nc_isspace_def control_chars)

lemma not_blank_solid: "\<not> blank_start (hd0 s) \<Longrightarrow> solid s"
  by (auto simp: blank_start_def solid_def)

lemma first_not_blank: "IS_LABEL c \<or> IS_QUOTE c \<or> isdigit c \<Longrightarrow> \<not> blank_start c"
  by (auto simp: blank_start_def nc_isspace_def IS_LABEL_def IS_QUOTE_def char_classes control_chars)

lemma solid_math: "OP_ISMATH i \<Longrightarrow> bounded r \<Longrightarrow> solid (n_getsym i @ r)"
proof -
  assume i: "OP_ISMATH i" and r: "bounded r"
  from math_sym [OF i] obtain c a where s: "n_getsym i = c # a" and c: "IS_MATHOP c"
      "c = CHR ''/'' \<longrightarrow> a = [] \<or> hd a = CHR ''=''"
    by (cases "n_getsym i") (auto simp: math_name_def)
  then show ?thesis using bounded_classes [OF r]
    by (cases a) (auto simp: solid_def nc_isspace_def IS_MATHOP_def control_chars)
qed

lemma label_hd: "label_text s \<Longrightarrow> IS_LABEL (hd0 (s @ r))"
  by (cases s) (auto simp: label_text_def)

lemma solid_print:
  assumes "printable prev t" "bounded r"
  shows "solid (print_tok t @ r)"
proof (cases t)
  case (StrTok opc s)
  consider "opc = OP_STRDATA \<or> opc = OP_ESTRDATA" | "opc = OP_NUMDATA" "s \<noteq> []" "isdigit (hd s)" | "opc = OP_LABEL" "label_text s"
    | "s = n_getsym opc" "OP_ISKEY opc" "opc \<noteq> OP_STRDATA" "opc \<noteq> OP_ESTRDATA"
    | "s = n_getsym opc" "OP_ISMATH opc" "opc \<noteq> OP_STRDATA" "opc \<noteq> OP_ESTRDATA"
    | "s = n_getsym opc" "OP_PDOT \<le> opc" "opc \<le> OP_POBRACE" "opc \<noteq> OP_STRDATA" "opc \<noteq> OP_ESTRDATA"
    using assms(1) StrTok by (auto simp: printable_def split: if_splits)
  then show ?thesis
  proof cases
    case 1
    then show ?thesis using StrTok by (auto intro!: not_blank_solid first_not_blank simp: IS_QUOTE_def)
  next
    case 2
    then show ?thesis using StrTok by (cases s) (auto intro!: not_blank_solid first_not_blank)
  next
    case 3
    then show ?thesis using StrTok label_hd by (auto intro!: not_blank_solid first_not_blank)
  next
    case 4
    then show ?thesis using StrTok label_hd key_text by (auto intro!: not_blank_solid first_not_blank)
  next
    case 5
    then show ?thesis using StrTok solid_math assms(2) by simp
  next
    case 6
    then obtain c where "s = [c]" "IS_PUNCOP c"
      using punc_sym [of opc] by (cases "n_getsym opc") auto
    then show ?thesis using 6 StrTok punc_first by (auto intro!: not_blank_solid)
  qed
qed (use assms in \<open>simp add: printable_def\<close>)

text \<open>What the tokenizer does at an operator, and at data.\<close>

lemma step_op:
  assumes "solid (n @ r)" "n_getop (n @ r) = (opc, n, r)" "opc \<noteq> OP_UNDEFINED" "n_skipblank r st = (r', st)"
    "store_op prev opc n r' st = Inr (s', opc', st')"
  shows "decompose_step (n @ r) prev st = Inr (Some (s', opc'), st')"
  using assms by (simp add: decompose_step_def skipblank_solid)

lemma step_data:
  assumes "solid s" "n_getop s = (opc, [], s)" "opc \<noteq> OP_UNDEFINED" "store_op prev opc [] s st = Inr (s', opc', st')"
  shows "decompose_step s prev st = Inr (Some (s', opc'), st')"
  using assms by (simp add: decompose_step_def skipblank_solid)

lemma n_getop_quote: "n_getop (CHR 0x22 # s) = (OP_STRDATA, [], CHR 0x22 # s)"
    "n_getop (CHR 0x60 # s) = (OP_ESTRDATA, [], CHR 0x60 # s)"
  by (simp_all add: n_getop_def IS_DATA_def IS_QUOTE_def)

lemma n_getop_digit: "isdigit c \<Longrightarrow> n_getop (c # s) = (OP_NUMDATA, [], c # s)"
  by (auto simp: n_getop_def IS_DATA_def IS_QUOTE_def isdigit_def)

lemma num_span:
  assumes "list_all num_char s" "\<not> num_char (hd0 r)"
  shows "takeWhile num_char (s @ r) = s" "dropWhile num_char (s @ r) = r"
  using assms by (induction s; cases r; simp)+

lemma store_data:
  "store_op prev OP_STRDATA [] (CHR 0x22 # escape s @ CHR 0x22 # r) st = Inr (r, 34, n_newobj (StrTok OP_STRDATA s) st)"
  "store_op prev OP_ESTRDATA [] (CHR 0x60 # escape s @ CHR 0x60 # r) st = Inr (r, 96, n_newobj (StrTok OP_ESTRDATA s) st)"
  using extractquote_escape [of "CHR 0x22"] extractquote_escape [of "CHR 0x60"]
  by (simp_all add: store_op_def op_class_defs IS_QUOTE_def)

lemma store_number:
  assumes "isdigit (hd s)" "s \<noteq> []" "list_all num_char s" "\<not> num_char (hd0 r)"
  shows "store_op prev OP_NUMDATA [] (s @ r) st = Inr (r, OP_NUMDATA, n_newobj (StrTok OP_NUMDATA s) st)"
proof -
  have "isdigit (hd0 (s @ r))" using assms by (cases s) auto
  moreover from this have "\<not> IS_QUOTE (hd0 (s @ r))" "hd0 (s @ r) \<noteq> CHR ''@''"
    by (auto simp: IS_QUOTE_def isdigit_def)
  ultimately show ?thesis using num_span [OF assms(3,4)] by (simp add: store_op_def op_class_defs)
qed

lemma store_named:
  "store_op prev opc n s st = Inr (s, opc, n_newobj (StrTok opc (n_getsym opc)) st)"
  if "OP_ISMATH opc \<or> OP_ISKEY opc \<or> OP_ISPUNC opc" "OP_ISKEY opc \<longrightarrow> prev \<noteq> OP_PDOT"
  using that by (auto simp: store_op_def op_class_defs)

lemma store_label: "store_op prev OP_LABEL n s st = Inr (s, OP_LABEL, n_newobj (StrTok OP_LABEL n) st)"
  by (simp add: store_op_def)

lemma store_dotted:
  assumes "op_lookup OP_KEXIT OP_KBREAK n = Some v"
  shows "store_op OP_PDOT v n s st = Inr (s, v, n_newobj (StrTok OP_LABEL n) st)" "v \<noteq> OP_PDOT" "v \<noteq> OP_UNDEFINED"
  using op_lookup_range [OF assms] assms by (auto simp: store_op_def op_class_defs)

text \<open>One printed token is read back; \<open>r'\<close> is what follows, with or without its blank.\<close>

lemma step_print:
  assumes "printable prev t" "bounded r" "\<And>st. n_skipblank r st = (r1, st)"
  shows "\<exists>s' p'. decompose_step (print_tok t @ r) prev st = Inr (Some (s', p'), n_newobj t st)
    \<and> (s' = r \<or> s' = r1) \<and> (p' = OP_PDOT \<longleftrightarrow> tok_op t = OP_PDOT)"
proof (cases t)
  case (StrTok opc s)
  have sol: "solid (print_tok t @ r)" by (rule solid_print [OF assms(1,2)])
  consider "opc = OP_STRDATA" | "opc = OP_ESTRDATA"
    | "opc = OP_NUMDATA" "s \<noteq> []" "isdigit (hd s)" "list_all num_char s"
    | "opc = OP_LABEL" "label_text s" "op_lookup OP_KEXIT OP_KBREAK s = None"
    | v where "opc = OP_LABEL" "label_text s" "prev = OP_PDOT" "op_lookup OP_KEXIT OP_KBREAK s = Some v"
    | "s = n_getsym opc" "OP_ISKEY opc" "prev \<noteq> OP_PDOT" "print_tok t = s"
    | "s = n_getsym opc" "OP_ISMATH opc" "print_tok t = s"
    | "s = n_getsym opc" "OP_PDOT \<le> opc" "opc \<le> OP_POBRACE" "print_tok t = s"
    using assms(1) StrTok by (auto simp: printable_def split: if_splits)
  then show ?thesis
  proof cases
    case 1
    then show ?thesis using step_data [OF sol] n_getop_quote(1) store_data(1) StrTok by simp
  next
    case 2
    then show ?thesis using step_data [OF sol] n_getop_quote(2) store_data(2) StrTok by simp
  next
    case 3
    then obtain c u where "s = c # u" by (cases s) auto
    then show ?thesis
      using 3 step_data [OF sol] n_getop_digit [of c "u @ r"] store_number [of s r] bounded_classes(3) [OF assms(2)] StrTok by simp
  next
    case 4
    then show ?thesis
      using step_op [of s r OP_LABEL st r1] sol n_getop_label [OF _ assms(2)] assms(3) store_label StrTok by simp
  next
    case 5
    then show ?thesis
      using step_op [of s r v st r1] sol n_getop_label [OF _ assms(2)] assms(3) store_dotted StrTok by simp
  next
    case 6
    then show ?thesis
      using step_op [of s r opc st r1] sol n_getop_key [OF _ assms(2)] assms(3) store_named [of opc prev] StrTok
      by (simp add: op_class_defs)
  next
    case 7
    then show ?thesis
      using step_op [of s r opc st r1] sol n_getop_math [OF _ assms(2)] assms(3) store_named [of opc prev] StrTok
      by (simp add: op_class_defs)
  next
    case 8
    then show ?thesis
      using step_op [of s r opc st r1] sol n_getop_punc assms(3) store_named [of opc prev] StrTok
      by (simp add: op_class_defs)
  qed
qed (use assms in \<open>simp add: printable_def\<close>)

lemma print_tok_nonempty: "printable prev t \<Longrightarrow> print_tok t \<noteq> []"
  using key_text math_sym punc_sym
  by (cases t) (fastforce simp: printable_def label_text_def math_name_def split: if_splits)+

lemma printable_prev: "(p = OP_PDOT) = (q = OP_PDOT) \<Longrightarrow> printable p t = printable q t"
  by (auto simp: printable_def split: tok.splits)

lemma solid_print_toks: "printable_toks p ts \<Longrightarrow> solid (print_toks ts)"
proof (induction ts rule: print_toks.induct)
  case 1
  then show ?case by (simp add: solid_def nc_isspace_def control_chars)
next
  case (2 t)
  then show ?case using solid_print [of p t "[]"] by (simp add: bounded_def)
next
  case (3 t u ts)
  then show ?case using solid_print [of p t "CHR '' '' # print_toks (u # ts)"] by (simp add: bounded_def)
qed

lemma n_decompose_sub_space:
  "s \<noteq> [] \<Longrightarrow> n_decompose_sub (CHR '' '' # s) p st = n_decompose_sub s p st"
  by (simp add: n_decompose_sub.simps [of "CHR '' '' # s"] n_decompose_sub.simps [of s] decompose_step_def skipblank_space)

lemma read_printed:
  "printable_toks p ts \<Longrightarrow> (p = OP_PDOT) = (q = OP_PDOT) \<Longrightarrow>
   n_decompose_sub (print_toks ts) q st = Inr (st\<lparr>toks := toks st @ ts\<rparr>)"
proof (induction ts arbitrary: p q st)
  case Nil
  then show ?case by (simp add: n_decompose_sub.simps)
next
  case (Cons t ts)
  have t: "printable q t" using Cons.prems printable_prev by (metis printable_toks.simps(2))
  let ?r = "if ts = [] then [] else CHR '' '' # print_toks ts"
  have pr: "print_toks (t # ts) = print_tok t @ ?r" by (cases ts) simp_all
  have ne: "print_toks ts \<noteq> []" if "ts \<noteq> []"
    using that Cons.prems(1) print_tok_nonempty by (cases ts rule: print_toks.cases) auto
  have bd: "bounded ?r" by (simp add: bounded_def)
  have "n_skipblank ?r st' = (print_toks ts, st')" for st'
    using Cons.prems(1) skipblank_solid [OF solid_print_toks [of "tok_op t" ts]]
    by (cases "ts = []") (simp_all add: skipblank_space)
  then obtain s' p' where step: "decompose_step (print_tok t @ ?r) q st = Inr (Some (s', p'), n_newobj t st)"
      and s': "s' = ?r \<or> s' = print_toks ts" and p': "(p' = OP_PDOT) = (tok_op t = OP_PDOT)"
    using step_print [OF t bd, of "print_toks ts" st] by blast
  have "n_decompose_sub s' p' (n_newobj t st) = n_decompose_sub (print_toks ts) p' (n_newobj t st)"
    using s' ne by (cases "ts = []") (auto simp: n_decompose_sub_space)
  also have "\<dots> = Inr ((n_newobj t st)\<lparr>toks := toks (n_newobj t st) @ ts\<rparr>)"
    using Cons.IH [of "tok_op t" p'] Cons.prems(1) p' by simp
  finally show ?case
    using step print_tok_nonempty [OF t] unfolding pr
    by (simp add: n_decompose_sub.simps [of "print_tok t @ ?r"] n_newobj_def)
qed

text \<open>
  C36. Printing and reading back: any list of labels, numbers, strings (of arbitrary bytes, escaped),
  keywords and operators, printed with single blanks between the tokens, is read by the
  tokenizer as exactly that list, without a warning; the line number does not change.
\<close>

theorem nsp_tokens_roundtrip:
  assumes "printable_toks 0 ts"
  shows "n_decompose_sub (print_toks ts) 0 st = Inr (st\<lparr>toks := toks st @ ts\<rparr>)"
  by (rule read_printed [OF assms refl])

theorem nsp_tokens_roundtrip_witness:
  "printable_toks 0 [StrTok 185 ''x'', StrTok 246 ''.'', StrTok 185 ''if'', StrTok 240 ''='', StrTok 184 [CHR 0x22, LF]]
   \<and> n_decompose_sub (print_toks [StrTok 185 ''x'', StrTok 246 ''.'', StrTok 185 ''if'', StrTok 240 ''='',
       StrTok 184 [CHR 0x22, LF]]) 0 (init_cstate 0 1) = Inr \<lparr>toks = [StrTok 185 ''x'', StrTok 246 ''.'',
       StrTok 185 ''if'', StrTok 240 ''='', StrTok 184 [CHR 0x22, LF]], lineno = 1, warnings = 0, maxwarnings = 1\<rparr>"
proof -
  have p: "printable_toks 0 [StrTok 185 ''x'', StrTok 246 ''.'', StrTok 185 ''if'', StrTok 240 ''='', StrTok 184 [CHR 0x22, LF]]"
    by code_simp
  from nsp_tokens_roundtrip [OF this, of "init_cstate 0 1"] p show ?thesis by (simp add: init_cstate_def)
qed

end
