(* ===== verification/NspTable.thy ===== *)
theory NspTable
  imports NspOps
begin

text \<open>
  Tables of the NSP language: \<open>src/src/nsp/src/libnsp/objects.c\<close> with the string helpers of \<open>libc.c\<close>. A table is
  a doubly linked list of named objects with a cursor (\<open>table.i\<close>) that a search starts from and
  moves; here a list and an index into it. A table with the attribute \<open>NST_AUTOSORT\<close> is kept
  sorted: by number when the name is a number, else by name. Numbers are \<open>double\<close> in the
  program; names that are numbers are exact below \<open>2 ^ 53\<close>.
\<close>

unbundle bit_operations_syntax

section \<open>Strings\<close>

text \<open>The difference of the first bytes that differ, as unsigned bytes.\<close>

fun nc_strcmp :: "string \<Rightarrow> string \<Rightarrow> int" where
  "nc_strcmp [] [] = 0"
| "nc_strcmp [] (b # bs) = - int (ord b)"
| "nc_strcmp (a # as) [] = int (ord a)"
| "nc_strcmp (a # as) (b # bs) = (if a = b then nc_strcmp as bs else int (ord a) - int (ord b))"

definition nc_strncpy :: "string \<Rightarrow> nat \<Rightarrow> string" where
  "nc_strncpy src n = take (n - 1) src"

text \<open>\<open>n_aton\<close> of a string of digits.\<close>

definition n_aton_digits :: "string \<Rightarrow> int" where
  "n_aton_digits s = digits_val (takeWhile isdigit s)"

section \<open>Objects and tables\<close>

text \<open>\<open>*p\<close> is a signed \<open>char\<close>, so a byte from 128 on flips the upper bits of the hash too.\<close>

fun cdb_hash_loop :: "32 word \<Rightarrow> string \<Rightarrow> 32 word" where
  "cdb_hash_loop h [] = h"
| "cdb_hash_loop h (c # cs) = cdb_hash_loop ((h + push_bit 5 h) XOR word_of_int (schar c)) cs"

definition cdb_hash :: "string \<Rightarrow> 32 word" where
  "cdb_hash s = cdb_hash_loop 5381 s"

record 'v obj =
  obj_name :: string
  obj_hash :: "32 word"
  obj_nval :: int
  obj_val :: 'v

record 'v table =
  objs :: "'v obj list"
  cur :: "nat option"
  autosort :: bool

text \<open>The number that a name is, or -1.\<close>

definition name_nval :: "string \<Rightarrow> int" where
  "name_nval s = (if isdigit (hd0 s) \<and> list_all isdigit s then n_aton_digits s else - 1)"

definition n_setname :: "string \<Rightarrow> 'v \<Rightarrow> 'v obj" where
  "n_setname s v = (let n = nc_strncpy s MAX_OBJNAMELEN in \<lparr>obj_name = n, obj_hash = cdb_hash n, obj_nval = name_nval n, obj_val = v\<rparr>)"

definition obj_cmp :: "'v obj \<Rightarrow> string \<Rightarrow> int" where
  "obj_cmp x k = (if - 1 < name_nval k then obj_nval x - name_nval k else nc_strcmp (obj_name x) k)"

section \<open>Searching\<close>

text \<open>
  The loop towards the end of the list, from the object with index \<open>i\<close>: the object it stops at,
  the last comparison, and the cursor.
\<close>

fun seek_fwd :: "bool \<Rightarrow> string \<Rightarrow> 'v obj list \<Rightarrow> nat \<Rightarrow> int \<Rightarrow> nat option \<Rightarrow> nat option \<times> int \<times> nat option" where
  "seek_fwd srt k [] i c cu = (None, c, cu)"
| "seek_fwd srt k (x # xs) i c cu =
     (let c' = obj_cmp x k in
      if c' = 0 \<or> 0 < c' \<and> srt then (Some i, c', cu)
      else seek_fwd srt k xs (Suc i) c' (Some i))"

text \<open>The loop towards the front.\<close>

fun seek_back :: "string \<Rightarrow> 'v obj list \<Rightarrow> nat \<Rightarrow> nat option \<Rightarrow> nat option \<times> int \<times> nat option" where
  "seek_back k xs 0 cu =
     (let c = obj_cmp (xs ! 0) k in if c \<le> 0 then (Some 0, c, cu) else (None, c, Some 0))"
| "seek_back k xs (Suc i) cu =
     (let c = obj_cmp (xs ! Suc i) k in
      if c \<le> 0 then (Some (Suc i), c, cu) else seek_back k xs i (Some (Suc i)))"

text \<open>Where an object is, or where \<open>n_locateobj\<close> would insert it.\<close>

datatype place = Found nat | Before nat | AtEnd

text \<open>\<open>n_locateobj\<close> on a table that is not empty: the place and the new cursor.\<close>

definition n_locateobj :: "'v table \<Rightarrow> string \<Rightarrow> place \<times> nat option" where
  "n_locateobj t k =
     (let xs = objs t;
          start = (if autosort t then case cur t of Some i \<Rightarrow> i | None \<Rightarrow> 0 else 0);
          c0 = (if autosort t then obj_cmp (xs ! start) k else - 1)
      in if c0 < 0 then
           (case seek_fwd (autosort t) k (drop start xs) start c0 (cur t) of
              (Some i, c, cu) \<Rightarrow> (if c = 0 then Found i else Before i, cu)
            | (None, c, cu) \<Rightarrow> (AtEnd, cu))
         else if 0 < c0 then
           (case seek_back k xs start (cur t) of
              (Some i, c, cu) \<Rightarrow>
                (if c = 0 then Found i else Before (if Suc i < length xs then Suc i else i), cu)
            | (None, c, cu) \<Rightarrow> (Before 0, cu))
         else (Found start, cur t))"

text \<open>\<open>nsp_getobj\<close> in a table, without its \<open>z\<close> table: the value found and the table with its cursor moved.\<close>

definition nsp_getobj :: "'v table \<Rightarrow> string \<Rightarrow> 'v option \<times> 'v table" where
  "nsp_getobj t k =
     (if objs t = [] then (None, t)
      else case n_locateobj t k of (pl, cu) \<Rightarrow>
        (case pl of Found i \<Rightarrow> Some (obj_val (objs t ! i)) | _ \<Rightarrow> None, t\<lparr>cur := cu\<rparr>))"

definition insert_at :: "nat \<Rightarrow> 'a \<Rightarrow> 'a list \<Rightarrow> 'a list" where
  "insert_at i x xs = take i xs @ x # drop i xs"

definition shift_cur :: "nat \<Rightarrow> nat option \<Rightarrow> nat option" where
  "shift_cur i cu = map_option (\<lambda>j. if i \<le> j then Suc j else j) cu"

text \<open>
  \<open>nsp_setobj\<close> on a table: a new object gets the value \<open>v\<close>, the value of an object that exists is
  changed by \<open>upd\<close> (\<open>nsp_setvaltype\<close> keeps a table that stays a table).
\<close>

definition nsp_setobj :: "'v table \<Rightarrow> string \<Rightarrow> 'v \<Rightarrow> ('v \<Rightarrow> 'v) \<Rightarrow> 'v table" where
  "nsp_setobj t k v upd =
     (if k = [] then t
      else if objs t = [] then t\<lparr>objs := [n_setname k v], cur := Some 0\<rparr>
      else case n_locateobj t k of (pl, cu) \<Rightarrow>
        (case pl of
           Found i \<Rightarrow> t\<lparr>objs := (objs t)[i := (objs t ! i)\<lparr>obj_val := upd (obj_val (objs t ! i))\<rparr>], cur := cu\<rparr>
         | Before i \<Rightarrow> t\<lparr>objs := insert_at i (n_setname k v) (objs t), cur := shift_cur i cu\<rparr>
         | AtEnd \<Rightarrow> t\<lparr>objs := objs t @ [n_setname k v], cur := cu\<rparr>))"

text \<open>\<open>nsp_getiobj\<close>: the object with an index among those that are shown.\<close>

definition nsp_getiobj :: "('v \<Rightarrow> bool) \<Rightarrow> 'v table \<Rightarrow> nat \<Rightarrow> 'v option" where
  "nsp_getiobj hidden t n = (let xs = filter (\<lambda>x. \<not> hidden (obj_val x)) (objs t)
     in if n < length xs then Some (obj_val (xs ! n)) else None)"

definition nsp_appendobj :: "'v table \<Rightarrow> string \<Rightarrow> 'v \<Rightarrow> 'v table" where
  "nsp_appendobj t k v = t\<lparr>objs := objs t @ [n_setname k v]\<rparr>"

section \<open>Scopes\<close>

text \<open>A name is compared only when the hashes agree.\<close>

definition same_name :: "32 word \<Rightarrow> string \<Rightarrow> 'v obj \<Rightarrow> bool" where
  "same_name h k x \<longleftrightarrow> obj_hash x = h \<and> nc_strcmp (obj_name x) k = 0"

fun first_named :: "32 word \<Rightarrow> string \<Rightarrow> 'v obj list \<Rightarrow> 'v obj option" where
  "first_named h k [] = None"
| "first_named h k (x # xs) = (if same_name h k x then Some x else first_named h k xs)"

definition thishash :: "32 word" where
  "thishash = 2087959715"

text \<open>The loop over the local variables, which also remembers the object named \<open>this\<close>.\<close>

fun scan_locals :: "32 word \<Rightarrow> string \<Rightarrow> 'v obj list \<Rightarrow> 'v obj option \<Rightarrow> 'v obj option \<times> 'v obj option" where
  "scan_locals h k [] this = (None, this)"
| "scan_locals h k (x # xs) this =
     (if same_name h k x then (Some x, this)
      else scan_locals h k xs (if same_name thishash ''this'' x then Some x else this))"

text \<open>
  \<open>nsp_getobj_ex\<close> without a table: the local variables, the fields of \<open>this\<close>, the global
  variables. \<open>tab\<close> is the list of fields of a value that is a table.
\<close>

definition nsp_getobj_scoped :: "('v \<Rightarrow> 'v obj list option) \<Rightarrow> 'v obj list \<Rightarrow> 'v obj list \<Rightarrow> string \<Rightarrow> 'v obj option" where
  "nsp_getobj_scoped tab locals globals k =
     (let h = cdb_hash k in
      case scan_locals h k locals None of
        (Some x, this) \<Rightarrow> Some x
      | (None, this) \<Rightarrow>
          (case Option.bind (Option.bind this (\<lambda>x. tab (obj_val x))) (first_named h k) of
             Some x \<Rightarrow> Some x
           | None \<Rightarrow> first_named h k globals))"

section \<open>Searching a sorted list\<close>

text \<open>The comparisons with a key go from negative to positive, with at most one zero.\<close>

definition ordered_for :: "string \<Rightarrow> 'v obj list \<Rightarrow> bool" where
  "ordered_for k xs \<longleftrightarrow> (\<forall>i j. i < j \<longrightarrow> j < length xs \<longrightarrow> obj_cmp (xs ! j) k \<le> 0 \<longrightarrow> obj_cmp (xs ! i) k < 0)"

text \<open>The place of a key in such a list.\<close>

definition place_of :: "string \<Rightarrow> 'v obj list \<Rightarrow> place \<Rightarrow> bool" where
  "place_of k xs pl = (case pl of
     Found i \<Rightarrow> i < length xs \<and> obj_cmp (xs ! i) k = 0
   | Before i \<Rightarrow> i < length xs \<and> (\<forall>j<i. obj_cmp (xs ! j) k < 0) \<and> (\<forall>j. i \<le> j \<and> j < length xs \<longrightarrow> 0 < obj_cmp (xs ! j) k)
   | AtEnd \<Rightarrow> \<forall>j<length xs. obj_cmp (xs ! j) k < 0)"

lemma orderedD: "ordered_for k xs \<Longrightarrow> j < length xs \<Longrightarrow> obj_cmp (xs ! j) k \<le> 0 \<Longrightarrow> i < j \<Longrightarrow> obj_cmp (xs ! i) k < 0"
  by (simp add: ordered_for_def)

lemma ordered_pos: "ordered_for k xs \<Longrightarrow> i < j \<Longrightarrow> j < length xs \<Longrightarrow> 0 \<le> obj_cmp (xs ! i) k \<Longrightarrow> 0 < obj_cmp (xs ! j) k"
  by (meson not_le orderedD)

lemma place_stop:
  assumes ord: "ordered_for k xs" and i: "i < length xs" "0 \<le> obj_cmp (xs ! i) k" and low: "\<forall>j < i. obj_cmp (xs ! j) k < 0"
  shows "place_of k xs (if obj_cmp (xs ! i) k = 0 then Found i else Before i)"
proof (cases "obj_cmp (xs ! i) k = 0")
  case False
  then have "0 < obj_cmp (xs ! i) k" using i by simp
  then have "0 < obj_cmp (xs ! j) k" if "i \<le> j" "j < length xs" for j
    using that ordered_pos [OF ord, of i j] i by (cases "i = j") auto
  then show ?thesis using i low False by (simp add: place_of_def)
qed (use i in \<open>simp add: place_of_def\<close>)

lemma seek_fwd_place:
  assumes ord: "ordered_for k xs" and "\<forall>j < i. obj_cmp (xs ! j) k < 0" "i \<le> length xs"
    "seek_fwd True k (drop i xs) i c cu = (r, c', cu')" "\<forall>j. cu = Some j \<longrightarrow> j < length xs"
  shows "place_of k xs (case r of Some n \<Rightarrow> if c' = 0 then Found n else Before n | None \<Rightarrow> AtEnd)
    \<and> (\<forall>j. cu' = Some j \<longrightarrow> j < length xs)"
  using assms(2-)
proof (induction "length xs - i" arbitrary: i c cu)
  case 0
  then have "i = length xs" by simp
  then have "r = None" "cu' = cu" using 0(4) by auto
  then show ?case using 0 \<open>i = length xs\<close> by (simp add: place_of_def)
next
  case (Suc n)
  then have lt: "i < length xs" by simp
  have d: "drop i xs = xs ! i # drop (Suc i) xs" using lt by (simp add: Cons_nth_drop_Suc)
  show ?case
  proof (cases "obj_cmp (xs ! i) k < 0")
    case True
    have "n = length xs - Suc i" using Suc.hyps(2) by simp
    moreover have "\<forall>j < Suc i. obj_cmp (xs ! j) k < 0" using Suc.prems(1) True by (auto simp: less_Suc_eq)
    moreover have "Suc i \<le> length xs" using lt by simp
    moreover have "seek_fwd True k (drop (Suc i) xs) (Suc i) (obj_cmp (xs ! i) k) (Some i) = (r, c', cu')"
      using Suc.prems(3) d True by (simp add: Let_def)
    moreover have "\<forall>j. Some i = Some j \<longrightarrow> j < length xs" using lt by simp
    ultimately show ?thesis by (rule Suc.hyps(1))
  next
    case False
    then have "r = Some i" "c' = obj_cmp (xs ! i) k" "cu' = cu"
      using Suc.prems(3) d by (auto simp: Let_def split: if_splits)
    then show ?thesis using place_stop [OF ord lt _ Suc.prems(1)] False Suc.prems(4) by simp
  qed
qed

lemma seek_back_place:
  assumes ord: "ordered_for k xs" and "i < length xs" "\<forall>j. i < j \<and> j < length xs \<longrightarrow> 0 < obj_cmp (xs ! j) k"
    "0 < obj_cmp (xs ! i) k \<or> Suc i < length xs" "seek_back k xs i cu = (r, c', cu')"
    "\<forall>j. cu = Some j \<longrightarrow> j < length xs"
  shows "place_of k xs (case r of Some n \<Rightarrow> if c' = 0 then Found n else Before (if Suc n < length xs then Suc n else n)
      | None \<Rightarrow> Before 0) \<and> (\<forall>j. cu' = Some j \<longrightarrow> j < length xs)"
  using assms(2-)
proof (induction i arbitrary: cu)
  have stop: ?thesis if st: "i < length xs" "\<forall>j. i < j \<and> j < length xs \<longrightarrow> 0 < obj_cmp (xs ! j) k"
      "0 < obj_cmp (xs ! i) k \<or> Suc i < length xs" "obj_cmp (xs ! i) k \<le> 0"
      "r = Some i" "c' = obj_cmp (xs ! i) k" "cu' = cu" "\<forall>j. cu = Some j \<longrightarrow> j < length xs" for i cu
  proof (cases "c' = 0")
    case False
    have "\<forall>j < Suc i. obj_cmp (xs ! j) k < 0"
      using orderedD [OF ord st(1) st(4)] False st(4,6) by (auto simp: less_Suc_eq)
    moreover have "Suc i < length xs" using st(3,4) by simp
    moreover have "\<forall>j. Suc i \<le> j \<and> j < length xs \<longrightarrow> 0 < obj_cmp (xs ! j) k" using st(2) by (simp add: Suc_le_eq)
    ultimately have "place_of k xs (Before (Suc i))" by (simp add: place_of_def)
    moreover have "(case r of Some n \<Rightarrow> if c' = 0 then Found n else Before (if Suc n < length xs then Suc n else n)
        | None \<Rightarrow> Before 0) = Before (Suc i)"
      using False \<open>Suc i < length xs\<close> unfolding st(5) by simp
    ultimately show ?thesis using st(8) unfolding st(7) by metis
  next
    case True
    then have "place_of k xs (Found i)" using st(1,6) by (simp add: place_of_def)
    then show ?thesis using st(8) True unfolding st(5,7) by simp
  qed
  {
    case 0
    show ?case
    proof (cases "0 < obj_cmp (xs ! 0) k")
      case True
      then have "\<forall>j < length xs. 0 < obj_cmp (xs ! j) k" using 0(2) by (metis gr0I)
      then show ?thesis using 0 True by (auto simp: Let_def place_of_def)
    next
      case False
      then show ?thesis using 0 by (intro stop [of 0 cu]) (auto simp: Let_def split: if_splits)
    qed
  next
    case (Suc i)
    show ?case
    proof (cases "0 < obj_cmp (xs ! Suc i) k")
      case True
      then have "\<forall>j. i < j \<and> j < length xs \<longrightarrow> 0 < obj_cmp (xs ! j) k"
        using Suc.prems(2) by (metis Suc_lessI)
      moreover have "seek_back k xs i (Some (Suc i)) = (r, c', cu')"
        using Suc.prems(4) True by (simp add: Let_def)
      ultimately show ?thesis using Suc.prems(1) by (intro Suc.IH [of "Some (Suc i)"]) auto
    next
      case False
      then show ?thesis using Suc.prems by (intro stop [of "Suc i" cu]) (auto simp: Let_def split: if_splits)
    qed
  }
qed

definition cur_ok :: "'v table \<Rightarrow> bool" where
  "cur_ok t \<longleftrightarrow> (case cur t of None \<Rightarrow> True | Some i \<Rightarrow> i < length (objs t))"

lemma n_locateobj_place:
  assumes "ordered_for k (objs t)" "autosort t" "cur_ok t" "objs t \<noteq> []" "n_locateobj t k = (pl, cu)"
  shows "place_of k (objs t) pl \<and> (\<forall>j. cu = Some j \<longrightarrow> j < length (objs t))"
proof -
  define start where "start = (case cur t of Some i \<Rightarrow> i | None \<Rightarrow> 0)"
  have st: "start < length (objs t)" using assms(3,4) by (auto simp: start_def cur_ok_def split: option.splits)
  have cu: "\<forall>j. cur t = Some j \<longrightarrow> j < length (objs t)" using assms(3) by (auto simp: cur_ok_def)
  let ?c = "obj_cmp (objs t ! start) k"
  consider "?c < 0" | "?c = 0" | "0 < ?c" by linarith
  then show ?thesis
  proof cases
    case 1
    obtain r c' cu' where f: "seek_fwd True k (drop start (objs t)) start ?c (cur t) = (r, c', cu')"
      by (cases "seek_fwd True k (drop start (objs t)) start ?c (cur t)") auto
    have "\<forall>j < start. obj_cmp (objs t ! j) k < 0" using orderedD [OF assms(1) st] 1 by simp
    from seek_fwd_place [OF assms(1) this less_imp_le [OF st] f cu]
    show ?thesis using assms(2,5) 1 f
      by (auto simp: n_locateobj_def Let_def start_def [symmetric] split: option.splits if_splits)
  next
    case 2
    then show ?thesis using assms(2,5) st cu
      by (auto simp: n_locateobj_def Let_def start_def [symmetric] place_of_def)
  next
    case 3
    obtain r c' cu' where f: "seek_back k (objs t) start (cur t) = (r, c', cu')"
      by (cases "seek_back k (objs t) start (cur t)") auto
    have "\<forall>j. start < j \<and> j < length (objs t) \<longrightarrow> 0 < obj_cmp (objs t ! j) k"
      using ordered_pos [OF assms(1)] 3 by auto
    from seek_back_place [OF assms(1) st this _ f cu] 3
    show ?thesis using assms(2,5) f
      by (auto simp: n_locateobj_def Let_def start_def [symmetric] split: option.splits if_splits)
  qed
qed

section \<open>Tables as maps\<close>

definition key_cmp :: "string \<Rightarrow> string \<Rightarrow> int" where
  "key_cmp a b = (if - 1 < name_nval b then name_nval a - name_nval b else nc_strcmp a b)"

definition obj_ok :: "(string \<Rightarrow> bool) \<Rightarrow> 'v obj \<Rightarrow> bool" where
  "obj_ok K x \<longleftrightarrow> K (obj_name x) \<and> obj_nval x = name_nval (obj_name x)"

text \<open>The invariant of a table whose names are of one kind \<open>K\<close>: sorted, with a cursor into the list.\<close>

definition table_ok :: "(string \<Rightarrow> bool) \<Rightarrow> 'v table \<Rightarrow> bool" where
  "table_ok K t \<longleftrightarrow> autosort t \<and> cur_ok t \<and> list_all (obj_ok K) (objs t)
     \<and> sorted_wrt (\<lambda>x y. key_cmp (obj_name x) (obj_name y) < 0) (objs t)"

definition objs_map :: "'v obj list \<Rightarrow> string \<Rightarrow> 'v option" where
  "objs_map xs = map_of (map (\<lambda>x. (obj_name x, obj_val x)) xs)"

text \<open>What a table stands for.\<close>

definition table_map :: "'v table \<Rightarrow> string \<Rightarrow> 'v option" where
  "table_map t = objs_map (objs t)"

lemma objs_map_mid:
  "k \<notin> obj_name ` set a \<Longrightarrow> obj_name x = k \<Longrightarrow> objs_map (a @ x # b) = (objs_map (a @ b))(k \<mapsto> obj_val x)"
proof -
  assume "k \<notin> obj_name ` set a" "obj_name x = k"
  then have "k \<notin> dom (map_of (map (\<lambda>x. (obj_name x, obj_val x)) a))" by (auto simp: dom_map_of_conv_image_fst)
  then show ?thesis using \<open>obj_name x = k\<close> by (simp add: objs_map_def map_add_upd_left)
qed

lemma objs_map_None: "k \<notin> obj_name ` set xs \<Longrightarrow> objs_map xs k = None"
  by (auto simp: objs_map_def map_of_eq_None_iff)

text \<open>
  What a kind of names has to promise: stored in full, and totally ordered by the comparison
  that the search uses.
\<close>

locale key_order =
  fixes K :: "string \<Rightarrow> bool"
  assumes stored: "K k \<Longrightarrow> k \<noteq> [] \<and> length k < MAX_OBJNAMELEN"
    and cmp_zero: "K a \<Longrightarrow> K b \<Longrightarrow> key_cmp a b = 0 \<longleftrightarrow> a = b"
    and cmp_sym: "K a \<Longrightarrow> K b \<Longrightarrow> key_cmp a b < 0 \<longleftrightarrow> 0 < key_cmp b a"
    and cmp_trans: "K a \<Longrightarrow> K b \<Longrightarrow> K c \<Longrightarrow> key_cmp a b < 0 \<Longrightarrow> key_cmp b c < 0 \<Longrightarrow> key_cmp a c < 0"
begin

lemma new_obj: "K k \<Longrightarrow> obj_name (n_setname k v) = k \<and> obj_ok K (n_setname k v) \<and> obj_val (n_setname k v) = v"
proof -
  assume K: "K k"
  then have "take (MAX_OBJNAMELEN - 1) k = k" using stored [of k] by (simp add: MAX_OBJNAMELEN_def)
  then show ?thesis using K by (simp add: n_setname_def nc_strncpy_def obj_ok_def Let_def)
qed

lemma cmp_obj: "obj_ok K x \<Longrightarrow> obj_cmp x k = key_cmp (obj_name x) k"
  by (simp add: obj_cmp_def key_cmp_def obj_ok_def)

lemma ordered:
  assumes "table_ok K t" "K k"
  shows "ordered_for k (objs t)"
  unfolding ordered_for_def
proof (intro allI impI)
  fix i j
  assume ij: "i < j" "j < length (objs t)" and le: "obj_cmp (objs t ! j) k \<le> 0"
  have ok: "obj_ok K (objs t ! i)" "obj_ok K (objs t ! j)"
    using assms(1) ij by (auto simp: table_ok_def list_all_length)
  have lt: "key_cmp (obj_name (objs t ! i)) (obj_name (objs t ! j)) < 0"
    using assms(1) ij by (auto simp: table_ok_def sorted_wrt_iff_nth_less)
  have K: "K (obj_name (objs t ! i))" "K (obj_name (objs t ! j))" using ok by (auto simp: obj_ok_def)
  show "obj_cmp (objs t ! i) k < 0"
  proof (cases "obj_cmp (objs t ! j) k = 0")
    case True
    then have "obj_name (objs t ! j) = k" using cmp_zero [OF K(2) assms(2)] cmp_obj [OF ok(2)] by simp
    then show ?thesis using lt cmp_obj [OF ok(1)] by simp
  next
    case False
    then show ?thesis using le lt cmp_trans [OF K assms(2)] cmp_obj [OF ok(1)] cmp_obj [OF ok(2)] by simp
  qed
qed

lemma place:
  assumes "table_ok K t" "K k" "objs t \<noteq> []" "n_locateobj t k = (pl, cu)"
  shows "place_of k (objs t) pl" "table_ok K (t\<lparr>cur := cu\<rparr>)"
  using n_locateobj_place [OF ordered [OF assms(1,2)] _ _ assms(3,4)] assms(1)
  by (auto simp: table_ok_def cur_ok_def split: option.splits)

lemma names_below: "list_all (obj_ok K) xs \<Longrightarrow> K k \<Longrightarrow> \<forall>x\<in>set xs. obj_cmp x k \<noteq> 0 \<Longrightarrow> k \<notin> obj_name ` set xs"
  by (auto simp: list_all_iff cmp_obj cmp_zero obj_ok_def)

text \<open>Splitting the list at a place.\<close>

lemma found_split:
  assumes "table_ok K t" "K k" "place_of k (objs t) (Found i)"
  shows "objs t = take i (objs t) @ objs t ! i # drop (Suc i) (objs t)" "obj_name (objs t ! i) = k"
    "k \<notin> obj_name ` set (take i (objs t))" "i < length (objs t)"
proof -
  have i: "i < length (objs t)" "obj_cmp (objs t ! i) k = 0" using assms(3) by (auto simp: place_of_def)
  have ok: "list_all (obj_ok K) (objs t)" using assms(1) by (simp add: table_ok_def)
  have "\<forall>x\<in>set (take i (objs t)). obj_cmp x k \<noteq> 0"
    using orderedD [OF ordered [OF assms(1,2)] i(1)] i by (fastforce simp: in_set_conv_nth)
  moreover have "list_all (obj_ok K) (take i (objs t))" using ok by (auto simp: list_all_iff dest: in_set_takeD)
  ultimately show "k \<notin> obj_name ` set (take i (objs t))" using names_below assms(2) by blast
  show "obj_name (objs t ! i) = k"
    using i ok cmp_obj [of "objs t ! i" k] cmp_zero [of "obj_name (objs t ! i)" k] assms(2)
    by (simp add: list_all_length obj_ok_def)
  show "objs t = take i (objs t) @ objs t ! i # drop (Suc i) (objs t)" using i by (simp add: id_take_nth_drop)
  show "i < length (objs t)" by (rule i(1))
qed

lemma absent:
  assumes "table_ok K t" "K k" "place_of k (objs t) pl" "\<nexists>i. pl = Found i"
  shows "k \<notin> obj_name ` set (objs t)"
proof -
  have "obj_cmp (objs t ! j) k \<noteq> 0" if "j < length (objs t)" for j
    using assms(3,4) that by (cases pl) (auto simp: place_of_def, metis less_irrefl not_le)
  then show ?thesis using assms(1,2) by (intro names_below) (auto simp: table_ok_def in_set_conv_nth)
qed

text \<open>\<open>nsp_getobj\<close> is lookup, wherever the cursor is.\<close>

lemma get_map:
  assumes "table_ok K t" "K k"
  shows "fst (nsp_getobj t k) = table_map t k" "table_ok K (snd (nsp_getobj t k))"
    "table_map (snd (nsp_getobj t k)) = table_map t"
proof -
  obtain pl cu where l: "n_locateobj t k = (pl, cu)" by (cases "n_locateobj t k")
  show "table_map (snd (nsp_getobj t k)) = table_map t"
    by (simp add: nsp_getobj_def table_map_def split: prod.splits)
  show "table_ok K (snd (nsp_getobj t k))"
    using assms place(2) [OF assms] l by (auto simp: nsp_getobj_def split: prod.splits)
  show "fst (nsp_getobj t k) = table_map t k"
  proof (cases "objs t = []")
    case True
    then show ?thesis by (simp add: nsp_getobj_def table_map_def objs_map_def)
  next
    case False
    note p = place(1) [OF assms False l]
    show ?thesis
    proof (cases "\<exists>i. pl = Found i")
      case True
      then obtain i where i: "pl = Found i" by blast
      note f = found_split [OF assms p [unfolded i]]
      have "objs_map (take i (objs t) @ objs t ! i # drop (Suc i) (objs t)) k = Some (obj_val (objs t ! i))"
        using objs_map_mid [OF f(3,2)] by simp
      then show ?thesis using False l i f(1) by (simp add: nsp_getobj_def table_map_def)
    next
      case nf: False
      then show ?thesis using False l objs_map_None [OF absent [OF assms p nf]]
        by (auto simp: nsp_getobj_def table_map_def split: place.splits)
    qed
  qed
qed

text \<open>\<open>nsp_setobj\<close> is update.\<close>

lemma sorted_insert:
  assumes "list_all (obj_ok K) (a @ b)" "K (obj_name x)" "obj_ok K x"
    "sorted_wrt (\<lambda>x y. key_cmp (obj_name x) (obj_name y) < 0) (a @ b)"
    "\<forall>y\<in>set a. obj_cmp y (obj_name x) < 0" "\<forall>y\<in>set b. 0 < obj_cmp y (obj_name x)"
  shows "sorted_wrt (\<lambda>x y. key_cmp (obj_name x) (obj_name y) < 0) (a @ x # b)"
proof -
  have "key_cmp (obj_name y) (obj_name x) < 0" if "y \<in> set a" for y
    using assms(1,5) that by (auto simp: list_all_iff cmp_obj)
  moreover have "key_cmp (obj_name x) (obj_name y) < 0" if "y \<in> set b" for y
    using assms(1,2,6) that cmp_sym [of "obj_name x" "obj_name y"] by (auto simp: list_all_iff cmp_obj obj_ok_def)
  ultimately show ?thesis using assms(4) by (auto simp: sorted_wrt_append)
qed

lemma set_absent:
  assumes t: "table_ok K t" and k: "K k" and ne: "objs t \<noteq> []" and l: "n_locateobj t k = (pl, cu)" and nf: "\<nexists>i. pl = Found i"
  shows "table_map (nsp_setobj t k v upd) = (table_map t)(k \<mapsto> v) \<and> table_ok K (nsp_setobj t k v upd)"
proof -
  note p = place [OF t k ne l]
  define i where "i = (case pl of Before i \<Rightarrow> i | _ \<Rightarrow> length (objs t))"
  let ?a = "take i (objs t)" and ?b = "drop i (objs t)" and ?x = "n_setname k v"
  have x: "obj_name ?x = k" "obj_ok K ?x" "obj_val ?x = v" using new_obj [OF k, of v] by auto
  have low: "\<forall>y\<in>set ?a. obj_cmp y k < 0" and high: "\<forall>y\<in>set ?b. 0 < obj_cmp y k"
    using p(1) nf by (cases pl; force simp: place_of_def i_def in_set_conv_nth)+
  have ab: "k \<notin> obj_name ` set (objs t)" by (rule absent [OF t k p(1) nf])
  have ok: "list_all (obj_ok K) (?a @ ?b)" "sorted_wrt (\<lambda>x y. key_cmp (obj_name x) (obj_name y) < 0) (?a @ ?b)"
    using t by (simp_all add: table_ok_def)
  have srt: "sorted_wrt (\<lambda>x y. key_cmp (obj_name x) (obj_name y) < 0) (?a @ ?x # ?b)"
    using sorted_insert [OF ok(1) _ x(2) ok(2)] low high k unfolding x(1) by blast
  have all: "list_all (obj_ok K) (?a @ ?x # ?b)"
    using ok(1) x(2) by (auto simp: list_all_iff dest: in_set_takeD in_set_dropD)
  have ns: "objs (nsp_setobj t k v upd) = ?a @ ?x # ?b" "autosort (nsp_setobj t k v upd)"
    using l nf ne stored [OF k] t by (auto simp: nsp_setobj_def i_def insert_at_def table_ok_def split: place.splits)
  have "k \<notin> obj_name ` set ?a" using ab by (auto dest: in_set_takeD)
  then have "table_map (nsp_setobj t k v upd) = (objs_map (?a @ ?b))(k \<mapsto> v)"
    using objs_map_mid [of k ?a ?x ?b] x unfolding table_map_def ns(1) by simp
  moreover have "cur_ok (nsp_setobj t k v upd)"
    using p(2) l nf ne stored [OF k]
    by (auto simp: nsp_setobj_def cur_ok_def table_ok_def insert_at_def shift_cur_def split: place.splits option.splits)
  ultimately show ?thesis using srt all ns by (simp add: table_map_def table_ok_def)
qed

lemma set_found:
  assumes t: "table_ok K t" and k: "K k" and ne: "objs t \<noteq> []" and l: "n_locateobj t k = (Found i, cu)"
  shows "\<exists>w. table_map t k = Some w \<and> table_map (nsp_setobj t k v upd) = (table_map t)(k \<mapsto> upd w)
    \<and> table_ok K (nsp_setobj t k v upd)"
proof -
  note p = place [OF t k ne l]
  note f = found_split [OF t k p(1)]
  let ?a = "take i (objs t)" and ?b = "drop (Suc i) (objs t)" and ?x = "objs t ! i"
  let ?y = "?x\<lparr>obj_val := upd (obj_val ?x)\<rparr>"
  have new: "objs (nsp_setobj t k v upd) = ?a @ ?y # ?b" "autosort (nsp_setobj t k v upd) = autosort t"
      "cur (nsp_setobj t k v upd) = cu"
    using l ne stored [OF k] f(4) by (auto simp: nsp_setobj_def upd_conv_take_nth_drop)
  have old: "table_map t = (objs_map (?a @ ?b))(k \<mapsto> obj_val ?x)"
    using objs_map_mid [OF f(3,2), of ?b] f(1) by (simp add: table_map_def)
  have "table_map (nsp_setobj t k v upd) = (objs_map (?a @ ?b))(k \<mapsto> upd (obj_val ?x))"
    using objs_map_mid [OF f(3), of ?y ?b] f(2) new(1) by (simp add: table_map_def)
  moreover have "table_ok K (nsp_setobj t k v upd)"
  proof -
    have "list_all (obj_ok K) (?a @ ?x # ?b)" "sorted_wrt (\<lambda>x y. key_cmp (obj_name x) (obj_name y) < 0) (?a @ ?x # ?b)"
      using t f(1) by (simp_all add: table_ok_def)
    then have "list_all (obj_ok K) (?a @ ?y # ?b)" "sorted_wrt (\<lambda>x y. key_cmp (obj_name x) (obj_name y) < 0) (?a @ ?y # ?b)"
      by (simp_all add: sorted_wrt_append obj_ok_def)
    moreover have "length (objs (nsp_setobj t k v upd)) = length (objs t)" using new(1) f(4) by simp
    then have "cur_ok (nsp_setobj t k v upd)"
      using p(2) new(3) by (simp add: table_ok_def cur_ok_def split: option.splits)
    ultimately show ?thesis using t new by (simp add: table_ok_def)
  qed
  ultimately show ?thesis using old by simp
qed

lemma set_map:
  assumes "table_ok K t" "K k"
  shows "table_map (nsp_setobj t k v upd) = (table_map t)(k \<mapsto> (case table_map t k of None \<Rightarrow> v | Some w \<Rightarrow> upd w))
    \<and> table_ok K (nsp_setobj t k v upd)"
proof (cases "objs t = []")
  case True
  then show ?thesis using assms stored [of k] new_obj [OF assms(2), of v]
    by (simp add: nsp_setobj_def table_map_def objs_map_def table_ok_def cur_ok_def fun_eq_iff)
next
  case False
  obtain pl cu where l: "n_locateobj t k = (pl, cu)" by (cases "n_locateobj t k")
  show ?thesis
  proof (cases "\<exists>i. pl = Found i")
    case True
    then show ?thesis using set_found [OF assms False] l by fastforce
  next
    case nf: False
    have "table_map t k = None"
      using objs_map_None [OF absent [OF assms place(1) [OF assms False l] nf]] by (simp add: table_map_def)
    then show ?thesis using set_absent [OF assms False l nf] by simp
  qed
qed

end

section \<open>Names and numbers\<close>

text \<open>Names that do not start with a digit, and numbers in decimal notation.\<close>

definition name_key :: "string \<Rightarrow> bool" where
  "name_key k \<longleftrightarrow> k \<noteq> [] \<and> length k < MAX_OBJNAMELEN \<and> \<not> isdigit (hd k) \<and> is_cstr k"

definition index_key :: "string \<Rightarrow> bool" where
  "index_key k \<longleftrightarrow> k \<noteq> [] \<and> length k \<le> 15 \<and> list_all isdigit k \<and> k = dec_nat (nat (digits_val k))"

lemma nc_strcmp_sym: "nc_strcmp a b = - nc_strcmp b a"
  by (induction a b rule: nc_strcmp.induct) auto

lemma ord_pos: "c \<noteq> NUL \<Longrightarrow> 0 < ord c"
proof -
  assume "c \<noteq> NUL"
  moreover have "ord NUL = 0" by (simp add: NUL_def)
  ultimately show ?thesis by (metis gr0I ord_eq_iff)
qed

lemma nc_strcmp_zero: "is_cstr a \<Longrightarrow> is_cstr b \<Longrightarrow> nc_strcmp a b = 0 \<longleftrightarrow> a = b"
  by (induction a b rule: nc_strcmp.induct) (auto dest: ord_pos simp: ord_eq_iff)

lemma nc_strcmp_trans: "is_cstr a \<Longrightarrow> is_cstr b \<Longrightarrow> is_cstr c \<Longrightarrow> nc_strcmp a b < 0 \<Longrightarrow> nc_strcmp b c < 0 \<Longrightarrow> nc_strcmp a c < 0"
proof (induction a b arbitrary: c rule: nc_strcmp.induct)
  case (2 b bs)
  then show ?case by (cases c) (auto dest: ord_pos)
next
  case (4 a as b bs)
  then show ?case by (cases c) (auto dest: ord_pos split: if_splits)
qed (auto dest: ord_pos)

lemma name_key_nval: "name_key k \<Longrightarrow> name_nval k = - 1"
  by (cases k) (auto simp: name_key_def name_nval_def)

lemma index_key_nval:
  assumes k: "index_key k"
  shows "name_nval k = digits_val k" and "0 \<le> digits_val k"
proof -
  have d: "list_all isdigit k" and h: "isdigit (hd0 k)" using k by (cases k; auto simp: index_key_def)+
  have "takeWhile isdigit k = k" using d by (simp add: takeWhile_eq_all_conv list_all_iff)
  then show "name_nval k = digits_val k" using d h unfolding name_nval_def n_aton_digits_def by presburger
  show "0 \<le> digits_val k"
    using k digits_val_dec_nat [of "nat (digits_val k)"] unfolding index_key_def by (metis of_nat_0_le_iff)
qed

lemma index_key_cmp: "index_key b \<Longrightarrow> index_key a \<Longrightarrow> key_cmp a b = digits_val a - digits_val b"
  using index_key_nval [of a] index_key_nval [of b] unfolding key_cmp_def by simp

lemma index_key_inj: "index_key a \<Longrightarrow> index_key b \<Longrightarrow> digits_val a = digits_val b \<Longrightarrow> a = b"
  unfolding index_key_def by metis

lemma name_key_cmp: "name_key b \<Longrightarrow> key_cmp a b = nc_strcmp a b"
  using name_key_nval [of b] unfolding key_cmp_def by simp

lemma name_key_cstr: "name_key k \<Longrightarrow> is_cstr k"
  by (simp add: name_key_def)

interpretation names: key_order name_key
proof
  show "k \<noteq> [] \<and> length k < MAX_OBJNAMELEN" if "name_key k" for k
    using that by (simp add: name_key_def)
  show "key_cmp a b = 0 \<longleftrightarrow> a = b" if "name_key a" "name_key b" for a b
    using that by (simp add: name_key_cmp name_key_cstr nc_strcmp_zero)
  show "key_cmp a b < 0 \<longleftrightarrow> 0 < key_cmp b a" if "name_key a" "name_key b" for a b
    using nc_strcmp_sym [of a b] that by (simp add: name_key_cmp)
  show "key_cmp a c < 0" if "name_key a" "name_key b" "name_key c" "key_cmp a b < 0" "key_cmp b c < 0" for a b c
    using that nc_strcmp_trans [of a b c] by (simp add: name_key_cmp name_key_cstr)
qed

interpretation indices: key_order index_key
proof
  show "k \<noteq> [] \<and> length k < MAX_OBJNAMELEN" if "index_key k" for k
    using that by (simp add: index_key_def MAX_OBJNAMELEN_def)
  show "key_cmp a b = 0 \<longleftrightarrow> a = b" if "index_key a" "index_key b" for a b
    using that index_key_inj [of a b] by (auto simp: index_key_cmp)
  show "key_cmp a b < 0 \<longleftrightarrow> 0 < key_cmp b a" if "index_key a" "index_key b" for a b
    using that by (simp add: index_key_cmp)
  show "key_cmp a c < 0" if "index_key a" "index_key b" "index_key c" "key_cmp a b < 0" "key_cmp b c < 0" for a b c
    using that by (simp add: index_key_cmp)
qed

text \<open>
  C38. A table is a map. In a sorted table whose names are all of one kind (names that do not start with a
  digit, or decimal numbers), \<open>nsp_getobj\<close> finds exactly what was stored, whatever earlier
  searches left in the cursor, and changes nothing but the cursor; \<open>nsp_setobj\<close> adds or changes
  this one entry. Both keep the table sorted and the cursor inside the list.
\<close>

theorem nsp_table_refines_map:
  assumes "K = name_key \<or> K = index_key" and "table_ok K t" and "K k"
  shows "fst (nsp_getobj t k) = table_map t k \<and> table_ok K (snd (nsp_getobj t k))
    \<and> table_map (snd (nsp_getobj t k)) = table_map t
    \<and> table_map (nsp_setobj t k v upd) = (table_map t)(k \<mapsto> (case table_map t k of None \<Rightarrow> v | Some w \<Rightarrow> upd w))
    \<and> table_ok K (nsp_setobj t k v upd)"
  using assms names.get_map names.set_map indices.get_map indices.set_map by metis

definition demo_table :: "nat table" where
  "demo_table = \<lparr>objs = [n_setname ''b'' 1, n_setname ''d'' 2], cur = Some 1, autosort = True\<rparr>"

theorem nsp_table_refines_map_witness:
  "table_ok name_key demo_table \<and> name_key ''c'' \<and> fst (nsp_getobj demo_table ''c'') = None
   \<and> table_map (nsp_setobj demo_table ''c'' 7 (\<lambda>_. 7)) = (table_map demo_table)(''c'' \<mapsto> 7)"
proof -
  have "table_ok name_key demo_table" "name_key ''c''" by code_simp+
  moreover have "table_map demo_table ''c'' = None" by code_simp
  ultimately show ?thesis
    using nsp_table_refines_map [of name_key demo_table "''c''" 7 "\<lambda>_. 7"] by simp
qed

section \<open>Resolution of variables\<close>

text \<open>The constant in the program is the hash of the name it stands for.\<close>

lemma thishash_correct: "cdb_hash ''this'' = thishash"
  by code_simp

text \<open>Objects named by \<open>n_setname\<close>.\<close>

definition named :: "'v obj \<Rightarrow> bool" where
  "named x \<longleftrightarrow> is_cstr (obj_name x) \<and> obj_hash x = cdb_hash (obj_name x)"

lemma same_name_iff: "named x \<Longrightarrow> is_cstr k \<Longrightarrow> same_name (cdb_hash k) k x \<longleftrightarrow> obj_name x = k"
  by (auto simp: same_name_def named_def nc_strcmp_zero)

lemma objs_map_Cons: "objs_map (x # xs) k = (if obj_name x = k then Some (obj_val x) else objs_map xs k)"
  by (auto simp: objs_map_def)

lemma first_named_map:
  "list_all named xs \<Longrightarrow> is_cstr k \<Longrightarrow> map_option obj_val (first_named (cdb_hash k) k xs) = objs_map xs k"
  by (induction xs) (auto simp: same_name_iff objs_map_Cons, simp add: objs_map_def)

lemma this_cstr: "is_cstr ''this''"
  by code_simp

lemma same_this_iff: "named x \<Longrightarrow> same_name thishash ''this'' x \<longleftrightarrow> obj_name x = ''this''"
  using same_name_iff [OF _ this_cstr] by (simp add: thishash_correct)

lemma scan_locals_map:
  assumes "list_all named xs" "is_cstr k" "distinct (map obj_name xs)"
  shows "map_option obj_val (fst (scan_locals (cdb_hash k) k xs th)) = objs_map xs k"
    and "objs_map xs k = None \<Longrightarrow> map_option obj_val (snd (scan_locals (cdb_hash k) k xs th))
           = (case objs_map xs ''this'' of Some v \<Rightarrow> Some v | None \<Rightarrow> map_option obj_val th)"
  using assms
proof (induction xs arbitrary: th)
  case Nil
  case 1 show ?case by (simp add: objs_map_def)
next
  case Nil
  case 2 show ?case by (simp add: objs_map_def)
next
  case (Cons x xs)
  case 1
  then show ?case using Cons.IH(1) by (auto simp: same_name_iff objs_map_Cons)
next
  case (Cons x xs)
  case 2
  then have ne: "obj_name x \<noteq> k" and no: "objs_map xs k = None" by (auto simp: objs_map_Cons split: if_splits)
  have "objs_map xs ''this'' = None" if "obj_name x = ''this''"
    using 2 that objs_map_None [of "''this''" xs] by auto
  then show ?case using 2 ne no Cons.IH(2) [OF no] by (auto simp: same_name_iff same_this_iff objs_map_Cons)
qed

text \<open>
  A variable is looked up in the local variables first, then in the fields of the local object
  \<open>this\<close> when that is a table, then in the global variables. Comparing the hashes first does
  not change the result, and the constant used for \<open>this\<close> is its hash.
\<close>

theorem nsp_getobj_scopes:
  assumes "list_all named locals" "list_all named globals" "is_cstr k" "distinct (map obj_name locals)"
    and "\<And>v xs. tab v = Some xs \<Longrightarrow> list_all named xs"
  shows "map_option obj_val (nsp_getobj_scoped tab locals globals k)
    = (objs_map globals
        ++ (case Option.bind (objs_map locals ''this'') tab of Some xs \<Rightarrow> objs_map xs | None \<Rightarrow> Map.empty)
        ++ objs_map locals) k"
proof -
  obtain r th where rt: "scan_locals (cdb_hash k) k locals None = (r, th)" by fastforce
  have r: "map_option obj_val r = objs_map locals k"
    using scan_locals_map(1) [OF assms(1,3,4), of None] rt by simp
  have g: "map_option obj_val (first_named (cdb_hash k) k globals) = objs_map globals k"
    by (rule first_named_map [OF assms(2,3)])
  show ?thesis
  proof (cases r)
    case (Some x)
    then have "objs_map locals k = Some (obj_val x)" using r by simp
    then show ?thesis using rt Some by (simp add: nsp_getobj_scoped_def map_add_def)
  next
    case None
    then have no: "objs_map locals k = None" using r by simp
    have th: "map_option obj_val th = objs_map locals ''this''"
      using scan_locals_map(2) [OF assms(1,3,4) no, of None] rt by (simp split: option.splits)
    have bind: "Option.bind (objs_map locals ''this'') tab = Option.bind th (\<lambda>x. tab (obj_val x))"
      using th [symmetric] by (cases th) simp_all
    show ?thesis
    proof (cases "Option.bind th (\<lambda>x. tab (obj_val x))")
      case None
      then have "Option.bind (objs_map locals ''this'') tab = None" using bind by simp
      then show ?thesis using rt \<open>r = None\<close> None no g by (simp add: nsp_getobj_scoped_def map_add_def Let_def del: Option.bind_assoc)
    next
      case (Some xs)
      then have b: "Option.bind (objs_map locals ''this'') tab = Some xs" using bind by simp
      have "list_all named xs" using Some assms(5) by (cases th) auto
      then have "map_option obj_val (first_named (cdb_hash k) k xs) = objs_map xs k"
        by (rule first_named_map [OF _ assms(3)])
      then show ?thesis using rt \<open>r = None\<close> Some b no g
        by (auto simp: nsp_getobj_scoped_def map_add_def Let_def split: option.splits simp del: Option.bind_assoc)
    qed
  qed
qed

definition demo_fields :: "nat \<Rightarrow> nat obj list option" where
  "demo_fields v = (if v = 9 then Some [n_setname ''x'' 5] else None)"

theorem nsp_getobj_scopes_witness:
  "map_option obj_val (nsp_getobj_scoped demo_fields [n_setname ''a'' 1, n_setname ''this'' 9]
     [n_setname ''x'' 3, n_setname ''y'' 4] ''x'') = Some 5"
proof -
  have f: "list_all named xs" if "demo_fields v = Some xs" for v xs
  proof -
    have "xs = [n_setname ''x'' 5]" using that by (simp add: demo_fields_def split: if_splits)
    moreover have "list_all named [n_setname ''x'' (5::nat)]" by code_simp
    ultimately show ?thesis by simp
  qed
  have "list_all named [n_setname ''a'' (1::nat), n_setname ''this'' 9]" by code_simp
  moreover have "list_all named [n_setname ''x'' (3::nat), n_setname ''y'' 4]" by code_simp
  moreover have "is_cstr ''x''" by code_simp
  moreover have "distinct (map obj_name [n_setname ''a'' (1::nat), n_setname ''this'' 9])" by code_simp
  ultimately have "map_option obj_val (nsp_getobj_scoped demo_fields [n_setname ''a'' 1, n_setname ''this'' 9]
     [n_setname ''x'' 3, n_setname ''y'' 4] ''x'')
    = (objs_map [n_setname ''x'' 3, n_setname ''y'' 4]
        ++ (case Option.bind (objs_map [n_setname ''a'' 1, n_setname ''this'' 9] ''this'') demo_fields of
              Some xs \<Rightarrow> objs_map xs | None \<Rightarrow> Map.empty)
        ++ objs_map [n_setname ''a'' 1, n_setname ''this'' 9]) ''x''"
    by (rule nsp_getobj_scopes) (rule f)
  also have "\<dots> = Some 5" by code_simp
  finally show ?thesis .
qed

end
