(* ===== verification/NspSort.thy ===== *)
theory NspSort
  imports NspTable "HOL-Library.Multiset"
begin

text \<open>
  Sorting tables: \<open>sort_byname\<close> and \<open>sort_bykey\<close> of \<open>src/src/nsp/src/libs/base/sort.c\<close>. Both walk over the list and
  exchange neighbours until a pass changes nothing. The walk, which the two functions share, is
  \<open>sort_pass\<close>; that it ends is a property of the comparison alone, stated in the locale \<open>bubble\<close>.
\<close>

section \<open>One pass\<close>

text \<open>
  \<open>stop\<close> ends the pass at an object, \<open>touch\<close> is what happens to each object that is visited, \<open>stop2\<close>
  ends the pass at a pair, and \<open>swap\<close> says that a pair is in the wrong order. The object that moves
  back is visited again. The result is the new list and whether it changed.
\<close>

fun sort_pass :: "('a \<Rightarrow> bool) \<Rightarrow> ('a \<Rightarrow> 'a) \<Rightarrow> ('a \<Rightarrow> 'a \<Rightarrow> bool) \<Rightarrow> ('a \<Rightarrow> 'a \<Rightarrow> bool) \<Rightarrow> 'a list \<Rightarrow> 'a list \<times> bool" where
  "sort_pass stop touch stop2 swap [] = ([], False)"
| "sort_pass stop touch stop2 swap [x] = ([if stop x then x else touch x], False)"
| "sort_pass stop touch stop2 swap (x # y # r) =
     (if stop x then (x # y # r, False)
      else
        let x' = touch x in
        if stop2 x' y then (x' # y # r, False)
        else if swap x' y then
          case sort_pass stop touch stop2 swap (x' # r) of (zs, c) \<Rightarrow> (y # zs, True)
        else
          case sort_pass stop touch stop2 swap (y # r) of (zs, c) \<Rightarrow> (x' # zs, c))"

text \<open>The number of pairs in the wrong order.\<close>

primrec inversions :: "('a \<Rightarrow> 'a \<Rightarrow> bool) \<Rightarrow> 'a list \<Rightarrow> nat" where
  "inversions gt [] = 0"
| "inversions gt (x # xs) = length (filter (gt x) xs) + inversions gt xs"

locale bubble =
  fixes touch :: "'a \<Rightarrow> 'a" and gt :: "'a \<Rightarrow> 'a \<Rightarrow> bool"
  assumes asym: "gt x y \<Longrightarrow> \<not> gt y x"
    and touch_left: "gt (touch x) = gt x"
    and touch_right: "gt x (touch y) = gt x y"
begin

text \<open>Counting what is smaller than an object does not see how often others were visited.\<close>

lemma pass_filter: "sort_pass stop touch stop2 gt xs = (ys, c) \<Longrightarrow> length (filter (gt z) ys) = length (filter (gt z) xs)"
proof (induction xs arbitrary: ys c rule: measure_induct_rule [where f = length])
  case (less xs)
  consider "xs = []" | x where "xs = [x]" | x y r where "xs = x # y # r" by (metis list.exhaust)
  then show ?case
  proof cases
    case (3 x y r)
    obtain zs c1 where z: "sort_pass stop touch stop2 gt (touch x # r) = (zs, c1)" by fastforce
    obtain us c2 where u: "sort_pass stop touch stop2 gt (y # r) = (us, c2)" by fastforce
    have "length (filter (gt z) zs) = length (filter (gt z) (touch x # r))"
      "length (filter (gt z) us) = length (filter (gt z) (y # r))"
      using less.IH [OF _ z] less.IH [OF _ u] 3 by simp_all
    then show ?thesis using less.prems z u 3 by (auto simp: Let_def touch_right split: if_splits)
  qed (use less.prems in \<open>auto simp: touch_right split: if_splits\<close>)
qed

lemma inversions_touch: "inversions gt (touch x # r) = inversions gt (x # r)"
  by (simp add: touch_left)

lemma pass_decreases:
  "sort_pass stop touch stop2 gt xs = (ys, c) \<Longrightarrow> inversions gt ys + (if c then 1 else 0) \<le> inversions gt xs"
proof (induction xs arbitrary: ys c rule: measure_induct_rule [where f = length])
  case (less xs)
  consider "xs = []" | x where "xs = [x]" | x y r where "xs = x # y # r" by (metis list.exhaust)
  then show ?case
  proof cases
    case (3 x y r)
    obtain zs c1 where z: "sort_pass stop touch stop2 gt (touch x # r) = (zs, c1)" by fastforce
    obtain us c2 where u: "sort_pass stop touch stop2 gt (y # r) = (us, c2)" by fastforce
    have iz: "inversions gt zs \<le> inversions gt (x # r)" using less.IH [OF _ z] 3 inversions_touch by fastforce
    have iu: "inversions gt us + (if c2 then 1 else 0) \<le> inversions gt (y # r)" using less.IH [OF _ u] 3 by simp
    have fz: "length (filter (gt y) zs) = length (filter (gt y) (x # r))" using pass_filter [OF z] by (simp add: touch_right)
    have fu: "length (filter (gt x) us) = length (filter (gt x) (y # r))" using pass_filter [OF u] .
    consider "stop x" "ys = xs" "\<not> c" | "stop2 (touch x) y" "ys = touch x # y # r" "\<not> c"
      | "gt x y" "ys = y # zs" c | "\<not> gt x y" "ys = touch x # us" "c = c2"
      using less.prems z u 3 by (auto simp: Let_def touch_left split: if_splits)
    then show ?thesis
    proof cases
      case up: 3
      have "\<not> gt y x" using asym up(1) by blast
      then show ?thesis using up iz fz 3 by simp
    next
      case keep: 4
      then show ?thesis using iu fu 3 by (simp add: touch_left)
    qed (use 3 in \<open>simp_all add: touch_left\<close>)
  qed (use less.prems in \<open>auto split: if_splits\<close>)
qed

lemma pass_ends: "sort_pass stop touch stop2 gt xs = (ys, True) \<Longrightarrow> inversions gt ys < inversions gt xs"
  using pass_decreases by fastforce

end

text \<open>A pass that changes nothing has seen every pair of neighbours, when nothing stops it.\<close>

context bubble
begin

lemma pass_quiet:
  assumes "sort_pass (\<lambda>_. False) touch (\<lambda>_ _. False) gt xs = (ys, False)"
  shows "ys = map touch xs \<and> successively (\<lambda>x y. \<not> gt x y) xs"
  using assms
proof (induction xs arbitrary: ys rule: induct_list012)
  case (3 x y r)
  obtain us c where u: "sort_pass (\<lambda>_. False) touch (\<lambda>_ _. False) gt (y # r) = (us, c)" by fastforce
  have "\<not> gt x y" "ys = touch x # us" "\<not> c"
    using 3(3) u by (auto simp: Let_def touch_left split: if_splits prod.splits)
  then show ?case using 3(2) u by auto
qed auto

lemma successively_touch: "successively (\<lambda>x y. \<not> gt x y) (map touch xs) = successively (\<lambda>x y. \<not> gt x y) xs"
  by (induction xs rule: induct_list012) (auto simp: touch_left touch_right)

lemma pass_nostop:
  assumes "\<And>x. stop (touch x) = stop x"
  shows "list_all (\<lambda>x. \<not> stop x) xs \<Longrightarrow> sort_pass stop touch stop2 gt xs = sort_pass (\<lambda>_. False) touch stop2 gt xs"
proof (induction xs rule: measure_induct_rule [where f = length])
  case (less xs)
  consider "xs = []" | x where "xs = [x]" | x y r where "xs = x # y # r" by (metis list.exhaust)
  then show ?case
  proof cases
    case (3 x y r)
    have "sort_pass stop touch stop2 gt (touch x # r) = sort_pass (\<lambda>_. False) touch stop2 gt (touch x # r)"
      "sort_pass stop touch stop2 gt (y # r) = sort_pass (\<lambda>_. False) touch stop2 gt (y # r)"
      using less.IH [of "touch x # r"] less.IH [of "y # r"] less.prems 3 assms by simp_all
    then show ?thesis using less.prems 3 by (simp add: Let_def)
  qed (use less.prems in auto)
qed

lemma pass_perm:
  assumes "\<And>x. f (touch x) = f x"
  shows "sort_pass stop touch stop2 gt xs = (ys, c) \<Longrightarrow> mset (map f ys) = mset (map f xs)"
proof (induction xs arbitrary: ys c rule: measure_induct_rule [where f = length])
  case (less xs)
  consider "xs = []" | x where "xs = [x]" | x y r where "xs = x # y # r" by (metis list.exhaust)
  then show ?case
  proof cases
    case (3 x y r)
    obtain zs c1 where z: "sort_pass stop touch stop2 gt (touch x # r) = (zs, c1)" by fastforce
    obtain us c2 where u: "sort_pass stop touch stop2 gt (y # r) = (us, c2)" by fastforce
    have "mset (map f zs) = mset (map f (touch x # r))" "mset (map f us) = mset (map f (y # r))"
      using less.IH [OF _ z] less.IH [OF _ u] 3 by simp_all
    then show ?thesis using less.prems z u 3 assms by (auto simp: Let_def add_mset_commute split: if_splits)
  qed (use less.prems assms in \<open>auto split: if_splits\<close>)
qed

end

section \<open>By name\<close>

text \<open>Two names that start with a digit are compared as numbers, all others as strings.\<close>

definition name_diff :: "string \<Rightarrow> string \<Rightarrow> int" where
  "name_diff a b = (if isdigit (hd0 a) \<and> isdigit (hd0 b) then atoi a - atoi b else nc_strcmp a b)"

definition swap_byname :: "int \<Rightarrow> 'v obj \<Rightarrow> 'v obj \<Rightarrow> bool" where
  "swap_byname order x y =
     (if order < 0 then name_diff (obj_name x) (obj_name y) < 0 else 0 < name_diff (obj_name x) (obj_name y))"

definition visit :: "('v \<Rightarrow> 'v) \<Rightarrow> 'v obj \<Rightarrow> 'v obj" where
  "visit sub x = x\<lparr>obj_val := sub (obj_val x)\<rparr>"

lemma name_diff_sym: "name_diff a b = - name_diff b a"
  using nc_strcmp_sym [of a b] by (simp add: name_diff_def)

interpretation byname: bubble "visit sub" "swap_byname order" for sub order
proof
  show "\<not> swap_byname order y x" if "swap_byname order x y" for x y :: "'a obj"
    using that name_diff_sym [of "obj_name x" "obj_name y"] by (auto simp: swap_byname_def split: if_splits)
qed (auto simp: swap_byname_def visit_def fun_eq_iff)

text \<open>The \<open>reloop\<close> of \<open>sort_byname\<close>: passes until one changes nothing.\<close>

function byname_loop :: "('v \<Rightarrow> bool) \<Rightarrow> ('v \<Rightarrow> 'v) \<Rightarrow> int \<Rightarrow> 'v obj list \<Rightarrow> 'v obj list" where
  "byname_loop isnull sub order xs =
     (case sort_pass (\<lambda>x. isnull (obj_val x)) (visit sub) (\<lambda>_ _. False) (swap_byname order) xs of
        (ys, change) \<Rightarrow> if change then byname_loop isnull sub order ys else ys)"
  by pat_completeness auto
termination
  by (relation "measure (\<lambda>(n, sub, order, xs). inversions (swap_byname order) xs)")
     (auto dest: byname.pass_ends [OF sym])

declare byname_loop.simps [simp del]

text \<open>
  \<open>sort_byname\<close>. The value of a table is reached by \<open>tab\<close> (which leaves out the table of global
  variables) and put back by \<open>upd\<close>; \<open>depth\<close> is larger than the nesting of the tables.
\<close>

primrec sort_byname ::
  "('v \<Rightarrow> 'v obj list option) \<Rightarrow> ('v obj list \<Rightarrow> 'v \<Rightarrow> 'v) \<Rightarrow> ('v \<Rightarrow> bool) \<Rightarrow> bool \<Rightarrow> int \<Rightarrow> nat \<Rightarrow> 'v obj list \<Rightarrow> 'v obj list" where
  "sort_byname tab upd isnull rec order 0 xs = xs"
| "sort_byname tab upd isnull rec order (Suc depth) xs =
     byname_loop isnull
       (\<lambda>v. if rec then case tab v of Some ys \<Rightarrow> upd (sort_byname tab upd isnull rec order depth ys) v | None \<Rightarrow> v else v)
       order xs"

section \<open>By key\<close>

text \<open>
  \<open>key\<close> is the value found under the key in a row: its number, if it is one, and its text. Rows are
  compared as numbers when both values are.
\<close>

definition swap_bykey :: "int \<Rightarrow> ('v \<Rightarrow> 'n::linorder option \<times> string) \<Rightarrow> 'v obj \<Rightarrow> 'v obj \<Rightarrow> bool" where
  "swap_bykey order key x y =
     (case (key (obj_val x), key (obj_val y)) of
        ((Some a, s), (Some b, t)) \<Rightarrow> if order < 0 then a < b else b < a
      | ((p, s), (q, t)) \<Rightarrow> if order < 0 then nc_strcmp s t < 0 else 0 < nc_strcmp s t)"

lemma swap_bykey_asym: "swap_bykey order key x y \<Longrightarrow> \<not> swap_bykey order key y x"
proof -
  obtain p s where x: "key (obj_val x) = (p, s)" by fastforce
  obtain q t where y: "key (obj_val y) = (q, t)" by fastforce
  assume "swap_bykey order key x y"
  then show ?thesis using nc_strcmp_sym [of s t]
    by (cases p; cases q) (auto simp: swap_bykey_def x y split: if_splits)
qed

interpretation bykey: bubble "\<lambda>x. x" "swap_bykey order key" for order key
  by unfold_locales (auto dest: swap_bykey_asym)

function bykey_loop ::
  "('v \<Rightarrow> bool) \<Rightarrow> ('v \<Rightarrow> bool) \<Rightarrow> ('v \<Rightarrow> 'n::linorder option \<times> string) \<Rightarrow> int \<Rightarrow> 'v obj list \<Rightarrow> 'v obj list" where
  "bykey_loop isnull istable key order xs =
     (case sort_pass (\<lambda>x. isnull (obj_val x)) (\<lambda>x. x) (\<lambda>x y. \<not> istable (obj_val x) \<or> \<not> istable (obj_val y))
        (swap_bykey order key) xs of
        (ys, change) \<Rightarrow> if change then bykey_loop isnull istable key order ys else ys)"
  by pat_completeness auto
termination
  by (relation "measure (\<lambda>(n, t, key, order, xs). inversions (swap_bykey order key) xs)")
     (auto dest: bykey.pass_ends [OF sym])

declare bykey_loop.simps [simp del]

section \<open>Names are ordered\<close>

text \<open>Names in groups: those that start with a digit stand between the others.\<close>

definition name_rank :: "string \<Rightarrow> nat" where
  "name_rank a = (if isdigit (hd0 a) then 48 else ord (hd0 a))"

lemma nc_strcmp_hd: "hd0 a \<noteq> hd0 b \<Longrightarrow> is_cstr a \<Longrightarrow> is_cstr b \<Longrightarrow> nc_strcmp a b = int (ord (hd0 a)) - int (ord (hd0 b))"
  by (cases a; cases b) (auto simp: hd0_def NUL_def)

lemma name_diff_rank:
  assumes "is_cstr a" "is_cstr b"
  shows "name_rank a < name_rank b \<Longrightarrow> name_diff a b < 0" "name_rank b < name_rank a \<Longrightarrow> 0 < name_diff a b"
proof -
  have h: "nc_strcmp a b < 0" if "ord (hd0 a) < ord (hd0 b)"
    using nc_strcmp_hd [OF _ assms] that by (cases "hd0 a = hd0 b") auto
  have h': "0 < nc_strcmp a b" if "ord (hd0 b) < ord (hd0 a)"
    using nc_strcmp_hd [OF _ assms] that by (cases "hd0 a = hd0 b") auto
  show "name_rank a < name_rank b \<Longrightarrow> name_diff a b < 0"
    using h by (auto simp: name_rank_def name_diff_def isdigit_def split: if_splits)
  show "name_rank b < name_rank a \<Longrightarrow> 0 < name_diff a b"
    using h' by (auto simp: name_rank_def name_diff_def isdigit_def split: if_splits)
qed

lemma name_rank_same: "name_rank a = name_rank b \<Longrightarrow> isdigit (hd0 a) = isdigit (hd0 b)"
  by (auto simp: name_rank_def isdigit_def split: if_splits)

lemma nc_strcmp_le_trans:
  assumes "is_cstr a" "is_cstr b" "is_cstr c" "nc_strcmp a b \<le> 0" "nc_strcmp b c \<le> 0"
  shows "nc_strcmp a c \<le> 0"
proof (cases "nc_strcmp a b = 0 \<or> nc_strcmp b c = 0")
  case True
  then show ?thesis using assms nc_strcmp_zero by blast
next
  case False
  then show ?thesis using assms nc_strcmp_trans [of a b c] by linarith
qed

lemma name_diff_trans:
  assumes c: "is_cstr a" "is_cstr b" "is_cstr c" and le: "name_diff a b \<le> 0" "name_diff b c \<le> 0"
  shows "name_diff a c \<le> 0"
proof -
  have ab: "name_rank a \<le> name_rank b" using name_diff_rank(2) [OF c(1,2)] le(1) by linarith
  have bc: "name_rank b \<le> name_rank c" using name_diff_rank(2) [OF c(2,3)] le(2) by linarith
  show ?thesis
  proof (cases "name_rank a < name_rank c")
    case True
    then show ?thesis using name_diff_rank(1) [OF c(1,3)] by linarith
  next
    case False
    then have "isdigit (hd0 a) = isdigit (hd0 b)" "isdigit (hd0 b) = isdigit (hd0 c)"
      using ab bc name_rank_same by (metis le_antisym linorder_not_less order_trans)+
    then show ?thesis using le nc_strcmp_le_trans [OF c] by (auto simp: name_diff_def split: if_splits)
  qed
qed

lemma name_diff_trans_ge:
  assumes "is_cstr a" "is_cstr b" "is_cstr c" "0 \<le> name_diff a b" "0 \<le> name_diff b c"
  shows "0 \<le> name_diff a c"
proof -
  have "name_diff b a \<le> 0" "name_diff c b \<le> 0"
    using assms(4,5) name_diff_sym [of a b] name_diff_sym [of b c] by linarith+
  then have "name_diff c a \<le> 0" using name_diff_trans assms(1-3) by blast
  then show ?thesis using name_diff_sym [of a c] by linarith
qed

section \<open>The sorted table\<close>

lemma byname_loop_sorts:
  assumes "list_all (\<lambda>x. \<not> isnull (obj_val x)) xs" "\<And>v. isnull (sub v) = isnull v"
  shows "successively (\<lambda>x y. \<not> swap_byname order x y) (byname_loop isnull sub order xs)
    \<and> mset (map obj_name (byname_loop isnull sub order xs)) = mset (map obj_name xs)
    \<and> (sub = (\<lambda>v. v) \<longrightarrow> mset (byname_loop isnull sub order xs) = mset xs)"
  using assms
proof (induction isnull sub order xs rule: byname_loop.induct)
  case (1 isnull sub order xs)
  let ?stop = "\<lambda>x. isnull (obj_val x)"
  obtain ys c where p: "sort_pass ?stop (visit sub) (\<lambda>_ _. False) (swap_byname order) xs = (ys, c)" by fastforce
  have stop: "?stop (visit sub x) = ?stop x" for x using 1(3) by (simp add: visit_def)
  have names: "mset (map obj_name ys) = mset (map obj_name xs)"
    by (rule byname.pass_perm [OF _ p]) (simp add: visit_def)
  have "mset (map ?stop ys) = mset (map ?stop xs)" by (rule byname.pass_perm [where f = ?stop, OF stop p])
  then have "set (map ?stop ys) = set (map ?stop xs)" by (rule mset_eq_setD)
  then have live: "list_all (\<lambda>x. \<not> ?stop x) ys" using 1(2) by (auto simp: list_all_iff image_iff set_eq_iff)
  have same: "sub = (\<lambda>v. v) \<longrightarrow> mset ys = mset xs"
    using byname.pass_perm [OF _ p, of id] by (auto simp: visit_def)
  have q: "sort_pass (\<lambda>_. False) (visit sub) (\<lambda>_ _. False) (swap_byname order) xs = (ys, c)"
    using byname.pass_nostop [where stop = ?stop, OF stop 1(2)] p by simp
  show ?case
  proof (cases c)
    case True
    then have eq: "byname_loop isnull sub order xs = byname_loop isnull sub order ys"
      using p by (subst byname_loop.simps) simp
    show ?thesis unfolding eq using 1(1) [OF p [symmetric] True live 1(3)] names same by argo
  next
    case False
    then have eq: "byname_loop isnull sub order xs = ys" using p by (subst byname_loop.simps) simp
    have "successively (\<lambda>x y. \<not> swap_byname order x y) ys"
      using byname.pass_quiet [of sub order xs ys] byname.successively_touch [of order sub xs] q False by simp
    then show ?thesis unfolding eq using names same by simp
  qed
qed

lemma successively_sorted:
  "successively P xs \<Longrightarrow> \<forall>x \<in> set xs. \<forall>y \<in> set xs. \<forall>z \<in> set xs. P x y \<longrightarrow> P y z \<longrightarrow> P x z \<Longrightarrow> sorted_wrt P xs"
proof (induction xs)
  case (Cons x xs)
  have "successively P xs" using Cons.prems(1) by (cases xs) simp_all
  moreover have "\<forall>x \<in> set xs. \<forall>y \<in> set xs. \<forall>z \<in> set xs. P x y \<longrightarrow> P y z \<longrightarrow> P x z"
    using Cons.prems(2) by (meson list.set_intros(2))
  ultimately have s: "sorted_wrt P xs" by (rule Cons.IH)
  show ?case
  proof (cases xs)
    case (Cons y ys)
    then have "P x y" using Cons.prems(1) by simp
    moreover have "\<forall>z \<in> set ys. P y z" using s Cons by simp
    moreover have "P x z" if "z \<in> set ys" "P x y" "P y z" for z
      using Cons.prems(2) [THEN bspec, of x, THEN bspec, of y, THEN bspec, of z] that Cons by simp
    ultimately have "\<forall>z \<in> set xs. P x z" using Cons by simp
    then show ?thesis using s by simp
  qed simp
qed simp

lemma named_sorted:
  assumes "successively (\<lambda>x y. \<not> swap_byname order x y) xs" "list_all (\<lambda>x. is_cstr (obj_name x)) xs"
  shows "sorted_wrt (\<lambda>x y. \<not> swap_byname order x y) xs"
proof -
  have "transp_on (set xs) (\<lambda>x y. \<not> swap_byname order x y)"
  proof (rule transp_onI)
    fix x y z
    assume "x \<in> set xs" "y \<in> set xs" "z \<in> set xs"
    then have c: "is_cstr (obj_name x)" "is_cstr (obj_name y)" "is_cstr (obj_name z)"
      using assms(2) by (auto simp: list_all_iff)
    assume "\<not> swap_byname order x y" "\<not> swap_byname order y z"
    then show "\<not> swap_byname order x z"
      using name_diff_trans [OF c] name_diff_trans_ge [OF c] unfolding swap_byname_def
      by (cases "order < 0") (simp_all add: not_less)
  qed
  then show ?thesis unfolding transp_on_def by (intro successively_sorted [OF assms(1)]) blast
qed


definition demo_names :: "nat obj list" where
  "demo_names = [n_setname ''b'' 1, n_setname ''10'' 2, n_setname ''9'' 3, n_setname ''a'' 4]"


end
