(* ===== verification/HttpFormat.thy ===== *)
theory HttpFormat
  imports Prelude "HOL-Library.Sublist"
begin

text \<open>
  Text conversion of the HTTP module, \<open>src/src/modules/core/httpd/httpd_format.c\<close>: URL encoding and
  decoding, HTML escaping, and the two routines that print message text. The results are
  written into one of four buffers of 4096 bytes; a store behind such a buffer, or a read
  outside a table, is \<open>None\<close>.
\<close>

section \<open>Scratch buffers\<close>

definition SMALLBUF :: nat where "SMALLBUF = 4096"

text \<open>\<open>getbuffer\<close> hands out the four buffers in turn.\<close>

definition getbuffer :: "nat \<times> (nat \<Rightarrow> string) \<Rightarrow> nat \<times> (nat \<Rightarrow> string)" where
  "getbuffer bufs = (case bufs of (lastbuf, b) \<Rightarrow>
     let n = (if lastbuf + 1 > 3 then 0 else lastbuf + 1) in (n, b(n := [])))"

section \<open>URLs\<close>

definition hex_digit :: "char \<Rightarrow> int" where
  "hex_digit c =
     (if isdigit c then int (ord c) - 48
      else if 97 \<le> ord c \<and> ord c \<le> 102 then int (ord c) - 87
      else if 65 \<le> ord c \<and> ord c \<le> 70 then int (ord c) - 55
      else if 128 \<le> ord c then int (ord c) - 256 else int (ord c))"

definition hex2int :: "string \<Rightarrow> int" where
  "hex2int p = hex_digit (hd0 (tl p)) + 16 * hex_digit (hd0 p)"

text \<open>
  \<open>decodeurl\<close>, in place: what is stored is never longer than what was read. A percent sign that two
  hexadecimal digits do not follow is dropped.
\<close>

fun decodeurl :: "string \<Rightarrow> string" where
  "decodeurl [] = []"
| "decodeurl (c # s) =
     (if c = CHR ''+'' then CHR '' '' # decodeurl s
      else if c = CHR ''%'' then
        (if isxdigit (hd0 s) \<and> isxdigit (hd0 (tl s))
         then char_of (nat (hex2int s mod 256)) # decodeurl (drop 2 s)
         else decodeurl s)
      else c # decodeurl s)"

definition hexdigits :: string where "hexdigits = ''0123456789ABCDEF''"

definition url_safe :: "char \<Rightarrow> bool" where
  "url_safe c \<longleftrightarrow> isalnum c \<or> c = CHR ''~'' \<or> c = CHR ''-'' \<or> c = CHR ''.'' \<or> c = CHR ''_''"

text \<open>
  \<open>char\<close> is signed: a byte from 240 on divided by 16 is 0, one from 128 to 239 is negative and
  the table is read in front of its start.
\<close>

definition url_hex :: "char \<Rightarrow> string option" where
  "url_hex c =
     (if schar c \<le> - 16 then None
      else Some [CHR ''%'', hexdigits ! (if schar c < 0 then 0 else nat (schar c div 16)),
                 hexdigits ! nat (schar c mod 16)])"

fun encodeurl_loop :: "string \<Rightarrow> nat \<Rightarrow> string option" where
  "encodeurl_loop [] dstlen = Some []"
| "encodeurl_loop (c # s) dstlen =
     (if dstlen + 1 > SMALLBUF then Some []
      else if url_safe c then map_option (\<lambda>d. c # d) (encodeurl_loop s (dstlen + 1))
      else if dstlen + 4 > SMALLBUF then Some []
      else case url_hex c of
        None \<Rightarrow> None
      | Some h \<Rightarrow> map_option (\<lambda>d. h @ d) (encodeurl_loop s (dstlen + 3)))"

text \<open>The terminating NUL is stored behind the last byte.\<close>

definition encodeurl :: "string \<Rightarrow> string option" where
  "encodeurl s = (case encodeurl_loop s 0 of
     None \<Rightarrow> None | Some d \<Rightarrow> if length d < SMALLBUF then Some d else None)"

section \<open>HTML\<close>

definition htmltags :: "char \<Rightarrow> string option" where
  "htmltags c =
     (if c = CHR 0x22 then Some ''&quot;''
      else if c = CHR ''&'' then Some ''&amp;''
      else if c = CHR ''<'' then Some ''&lt;''
      else if c = CHR ''>'' then Some ''&gt;''
      else None)"

fun str2html_loop :: "string \<Rightarrow> nat \<Rightarrow> string" where
  "str2html_loop [] destleft = []"
| "str2html_loop (c # s) destleft =
     (if destleft = 0 then []
      else case htmltags c of
        Some code \<Rightarrow> if destleft < length code then [] else code @ str2html_loop s (destleft - length code)
      | None \<Rightarrow> c # str2html_loop s (destleft - 1))"

definition str2html :: "string \<Rightarrow> string" where
  "str2html s = str2html_loop s (SMALLBUF - 1)"

text \<open>\<open>printht\<close> with the format \<open>%s\<close> and a tail: \<open>vsnprintf\<close> keeps 4094 bytes.\<close>

definition printht :: "string \<Rightarrow> string" where
  "printht s = str2html (snprintf (SMALLBUF - 1) s)"

definition printhex :: "string \<Rightarrow> string option" where
  "printhex s = encodeurl (snprintf (SMALLBUF - 1) s)"

section \<open>Wrapping text\<close>

definition has_eol :: "string \<Rightarrow> bool" where
  "has_eol l \<longleftrightarrow> CR \<in> set l \<or> LF \<in> set l"

definition cut_at :: "char \<Rightarrow> string \<Rightarrow> string" where
  "cut_at c l = takeWhile (\<lambda>d. d \<noteq> c) l"

text \<open>\<open>strrchr (line, ' ')\<close>: the part in front of the last blank.\<close>

definition before_last_blank :: "string \<Rightarrow> string option" where
  "before_last_blank l =
     (if CHR '' '' \<in> set l then Some (rev (tl (dropWhile (\<lambda>d. d \<noteq> CHR '' '') (rev l)))) else None)"

definition skip_eol :: "string \<Rightarrow> string" where
  "skip_eol s = (let t = (if hd0 s = CR then tl s else s) in if hd0 t = LF then tl t else t)"

text \<open>One turn of the loop of \<open>printline\<close> on text that is longer than \<open>width\<close>: what is printed (before
  the HTML escaping) and the rest of the text.\<close>

definition printline_step :: "nat \<Rightarrow> string \<Rightarrow> string \<times> string" where
  "printline_step width s =
     (let line = take width s in
      if has_eol line then
        let l = cut_at LF (cut_at CR line) in (l @ CRLF, skip_eol (drop (length l) s))
      else case before_last_blank line of
        Some l \<Rightarrow> (l @ CRLF, drop (length l + 1) s)
      | None \<Rightarrow> (line, drop width s))"

lemma before_last_blank_Some:
  assumes "before_last_blank l = Some a"
  obtains b where "l = a @ CHR '' '' # b" "CHR '' '' \<notin> set b"
proof -
  from assms have mem: "CHR '' '' \<in> set (rev l)" and a: "a = rev (tl (dropWhile (\<lambda>d. d \<noteq> CHR '' '') (rev l)))"
    by (auto simp: before_last_blank_def split: if_splits)
  obtain u v where uv: "rev l = u @ CHR '' '' # v" "CHR '' '' \<notin> set u"
    using split_list_first [OF mem] by blast
  then have "dropWhile (\<lambda>d. d \<noteq> CHR '' '') (rev l) = CHR '' '' # v"
    by (simp add: dropWhile_append2 dropWhile_append3) (metis (full_types) dropWhile.simps(2) dropWhile_append2)
  then have "a = rev v" using a by simp
  moreover have "l = rev v @ CHR '' '' # rev u" using uv(1) by (metis append.assoc append_Cons append_Nil rev.simps(2) rev_append rev_rev_ident)
  ultimately show ?thesis using that uv(2) by simp
qed

lemma takeWhile_next: "c \<in> set l \<Longrightarrow> \<exists>r. l = takeWhile (\<lambda>d. d \<noteq> c) l @ c # r"
  by (induction l) auto

lemma cut_eol:
  assumes "has_eol l"
  shows "\<exists>c r. l = cut_at LF (cut_at CR l) @ c # r \<and> (c = CR \<or> c = LF)"
proof (cases "LF \<in> set (cut_at CR l)")
  case True
  then obtain r where "cut_at CR l = cut_at LF (cut_at CR l) @ LF # r"
    using takeWhile_next unfolding cut_at_def by metis
  moreover have "l = cut_at CR l @ dropWhile (\<lambda>d. d \<noteq> CR) l" by (simp add: cut_at_def)
  ultimately show ?thesis by (metis append.assoc append_Cons)
next
  case False
  then have eq: "cut_at LF (cut_at CR l) = cut_at CR l"
    by (simp add: cut_at_def takeWhile_eq_all_conv) metis
  have "CR \<in> set l"
  proof (rule ccontr)
    assume "CR \<notin> set l"
    then have "cut_at CR l = l" by (simp add: cut_at_def takeWhile_eq_all_conv) metis
    then show False using assms False \<open>CR \<notin> set l\<close> by (simp add: has_eol_def)
  qed
  then show ?thesis using takeWhile_next [of CR l] eq unfolding cut_at_def by metis
qed

lemma skip_eol_length: "length (skip_eol s) \<le> length s" "hd0 s = CR \<or> hd0 s = LF \<Longrightarrow> length (skip_eol s) < length s"
  by (cases s; auto simp: skip_eol_def Let_def control_chars)+

lemma printline_step_shorter:
  assumes "0 < width" "width < length s"
  shows "length (snd (printline_step width s)) < length s"
proof -
  have sp: "s = take width s @ drop width s" by simp
  show ?thesis
  proof (cases "has_eol (take width s)")
    case True
    let ?l = "cut_at LF (cut_at CR (take width s))"
    obtain c r where c: "take width s = ?l @ c # r" "c = CR \<or> c = LF" using cut_eol [OF True] by blast
    have "s = ?l @ c # r @ drop width s" using c(1) sp by (metis append.assoc append_Cons)
    then have "drop (length ?l) s = c # r @ drop width s" by (metis append_eq_conv_conj)
    then have "length (skip_eol (drop (length ?l) s)) < length (drop (length ?l) s)"
      using c(2) skip_eol_length(2) [of "c # r @ drop width s"] by auto
    then show ?thesis using True by (simp add: printline_step_def Let_def)
  next
    case False
    then show ?thesis using assms
      by (auto simp: printline_step_def Let_def elim!: before_last_blank_Some split: option.splits)
  qed
qed

text \<open>The pieces that \<open>printline\<close> passes to \<open>prints\<close> and \<open>printht\<close>.\<close>

function printline_loop :: "nat \<Rightarrow> bool \<Rightarrow> string \<Rightarrow> string list" where
  "printline_loop width reply s =
     (if 0 < width \<and> width < length s
      then case printline_step width s of (l, r) \<Rightarrow>
        (if reply then [''> ''] else []) @ printht l # printline_loop width reply r
      else (if reply then [''> ''] else []) @ [printht (s @ CRLF)])"
  by auto

termination
proof (relation "measure (\<lambda>(w, b, s). length s)", goal_cases)
  case (2 width reply s l r)
  then have "length (snd (l, r)) < length s" using printline_step_shorter [of width s] by metis
  then show ?case by simp
qed simp

declare printline_loop.simps [simp del]

definition printline :: "bool \<Rightarrow> string \<Rightarrow> string list" where
  "printline reply s = printline_loop (if reply then 76 else 78) reply s"

section \<open>Message text in pieces\<close>

text \<open>What \<open>printline2\<close> stores for one character; \<open>nx\<close> is the next one and \<open>lastchar\<close> the previous.\<close>

definition p2_char :: "bool \<Rightarrow> char \<Rightarrow> char \<Rightarrow> char \<Rightarrow> string" where
  "p2_char dowrap lastchar c nx =
     (if c = LF then if dowrap then LF # ''<BR />'' else [LF]
      else if c = CHR ''<'' then ''&lt;''
      else if c = CHR ''>'' then ''&gt;''
      else if c = CHR ''&'' then ''&amp;''
      else if c = CHR 0x22 then ''&quot;''
      else if c = CHR '' '' then
        (if dowrap then if \<not> isalnum nx \<or> \<not> isalnum lastchar then ''&nbsp;'' else '' '' else '' '')
      else [c])"

text \<open>The inner loop: one buffer; its text, the rest of the message and the last character.\<close>

fun p2_inner :: "bool \<Rightarrow> char \<Rightarrow> string \<Rightarrow> int \<Rightarrow> string \<times> string \<times> char" where
  "p2_inner dowrap lastchar [] destleft = ([], [], lastchar)"
| "p2_inner dowrap lastchar (c # s) destleft =
     (if 64 < destleft then
        let x = p2_char dowrap lastchar c (hd0 s) in
        case p2_inner dowrap c s (destleft - int (length x)) of (b, r, l) \<Rightarrow> (x @ b, r, l)
      else ([], c # s, lastchar))"

lemma p2_inner_length: "length (fst (snd (p2_inner w l s d))) \<le> length s"
  by (induction w l s d rule: p2_inner.induct) (auto simp: Let_def split: prod.splits)

lemma p2_inner_progress: "64 < d \<Longrightarrow> length (fst (snd (p2_inner w l (c # s) d))) < length (c # s)"
  using p2_inner_length [of w c s] by (auto simp: Let_def less_Suc_eq_le split: prod.splits) (metis fst_conv snd_conv)

definition P2BUF :: nat where "P2BUF = 1024"

function p2_loop :: "bool \<Rightarrow> char \<Rightarrow> string \<Rightarrow> string list" where
  "p2_loop dowrap lastchar s =
     (if s = [] then []
      else case p2_inner dowrap lastchar s (int P2BUF - 6) of (b, r, l) \<Rightarrow> b # p2_loop dowrap l r)"
  by auto

termination
proof (relation "measure (\<lambda>(w, l, s). length s)", goal_cases)
  case (2 w l s b x r l')
  then obtain c t where s: "s = c # t" by (cases s) auto
  have "length (fst (snd (b, r, l'))) < length s"
    using p2_inner_progress [of "int P2BUF - 6" w l c t] 2 unfolding s by (simp add: P2BUF_def del: p2_inner.simps)
  then show ?case by simp
qed simp

declare p2_loop.simps [simp del]

definition printline2 :: "bool \<Rightarrow> string \<Rightarrow> string list" where
  "printline2 dowrap s = p2_loop dowrap NUL s"

section \<open>Encoding and decoding\<close>

lemma hexdigits_table: "\<forall>n\<in>set [0..<16]. isxdigit (hexdigits ! n) \<and> hex_digit (hexdigits ! n) = int n"
  by code_simp

lemma hexdigits_nth:
  assumes "n < 16"
  shows "isxdigit (hexdigits ! n)" "hex_digit (hexdigits ! n) = int n"
proof -
  have "n \<in> set [0..<16]" using assms by (simp only: set_upt atLeastLessThan_iff) simp
  then show "isxdigit (hexdigits ! n)" "hex_digit (hexdigits ! n) = int n" using hexdigits_table by blast+
qed

lemma url_hex_ascii:
  "ord c < 128 \<Longrightarrow> url_hex c = Some [CHR ''%'', hexdigits ! (ord c div 16), hexdigits ! (ord c mod 16)]"
  by (simp add: url_hex_def schar_def nat_div_distrib nat_mod_distrib)

lemma decodeurl_hex:
  assumes "ord c < 128"
  shows "decodeurl (CHR ''%'' # hexdigits ! (ord c div 16) # hexdigits ! (ord c mod 16) # s) = c # decodeurl s"
proof -
  have b: "ord c div 16 < 16" "ord c mod 16 < 16" using assms by auto
  have sum: "int (k mod 16) + 16 * int (k div 16) = int k" for k :: nat by presburger
  have "hex2int (hexdigits ! (ord c div 16) # hexdigits ! (ord c mod 16) # s) = int (ord c)"
    using b sum [of "ord c"] by (simp add: hex2int_def hexdigits_nth)
  moreover have "int (ord c) mod 256 = int (ord c)" using assms by simp
  ultimately show ?thesis using b by (simp add: hexdigits_nth)
qed

lemma url_safe_plain: "url_safe c \<Longrightarrow> c \<noteq> CHR ''+'' \<and> c \<noteq> CHR ''%''"
  by (auto simp: url_safe_def char_classes)

lemma encodeurl_loop_ok:
  "\<forall>c\<in>set s. ord c < 128 \<Longrightarrow> n + 3 * length s < SMALLBUF \<Longrightarrow>
   \<exists>d. encodeurl_loop s n = Some d \<and> decodeurl d = s \<and> length d \<le> 3 * length s
     \<and> (\<forall>c\<in>set d. url_safe c \<or> c = CHR ''%'')"
proof (induction s arbitrary: n)
  case (Cons c s)
  show ?case
  proof (cases "url_safe c")
    case True
    have "\<forall>c\<in>set s. ord c < 128" "n + 1 + 3 * length s < SMALLBUF" using Cons.prems by auto
    then obtain d where "encodeurl_loop s (n + 1) = Some d" "decodeurl d = s" "length d \<le> 3 * length s"
        "\<forall>c\<in>set d. url_safe c \<or> c = CHR ''%''"
      using Cons.IH [of "n + 1"] by blast
    then show ?thesis using True url_safe_plain Cons.prems(2) by auto
  next
    case False
    have "\<forall>c\<in>set s. ord c < 128" "n + 3 + 3 * length s < SMALLBUF" using Cons.prems by auto
    then obtain d where "encodeurl_loop s (n + 3) = Some d" "decodeurl d = s" "length d \<le> 3 * length s"
        "\<forall>c\<in>set d. url_safe c \<or> c = CHR ''%''"
      using Cons.IH [of "n + 3"] by blast
    moreover have "isalnum (hexdigits ! k)" if "k < 16" for k
      using hexdigits_nth(1) [OF that] by (auto simp: char_classes)
    ultimately show ?thesis using False Cons.prems url_hex_ascii [of c] decodeurl_hex [of c d]
      by (auto simp: url_safe_def)
  qed
qed simp

text \<open>
  URL encoding and decoding: for ASCII text that fits (three times its length below 4096 bytes),
  \<open>encodeurl\<close> succeeds, stores only unreserved characters and percent signs, and \<open>decodeurl\<close> of
  its result is the text again.
\<close>

theorem encodeurl_roundtrip:
  assumes "\<forall>c\<in>set s. ord c < 128" and "3 * length s < SMALLBUF"
  shows "\<exists>d. encodeurl s = Some d \<and> decodeurl d = s \<and> (\<forall>c\<in>set d. url_safe c \<or> c = CHR ''%'')"
proof -
  obtain d where "encodeurl_loop s 0 = Some d" "decodeurl d = s" "length d \<le> 3 * length s"
      "\<forall>c\<in>set d. url_safe c \<or> c = CHR ''%''"
    using encodeurl_loop_ok [OF assms(1), of 0] assms(2) by auto
  then show ?thesis using assms(2) by (simp add: encodeurl_def)
qed

theorem encodeurl_roundtrip_witness:
  "encodeurl ''a b+c'' = Some ''a%20b%2Bc'' \<and> decodeurl ''a%20b%2Bc'' = ''a b+c''"
proof -
  have e: "encodeurl ''a b+c'' = Some ''a%20b%2Bc''" by code_simp
  have "\<forall>c\<in>set ''a b+c''. ord c < 128" by simp
  from encodeurl_roundtrip [OF this] e show ?thesis by (simp add: SMALLBUF_def)
qed

lemma encodeurl_loop_full:
  "\<forall>c\<in>set s. url_safe c \<Longrightarrow> n \<le> SMALLBUF \<Longrightarrow> encodeurl_loop s n = Some (take (SMALLBUF - n) s)"
proof (induction s arbitrary: n)
  case (Cons c s)
  then show ?case by (cases "n = SMALLBUF") (auto simp: take_Cons' Suc_diff_le)
qed simp

text \<open>
  The bound of \<open>encodeurl\<close> is off by one: for any text of 4096 or more unreserved characters the
  loop fills the whole buffer, and the terminating NUL is stored one byte behind it.
\<close>

theorem encodeurl_overruns:
  assumes "\<forall>c\<in>set s. url_safe c" and "SMALLBUF \<le> length s"
  shows "encodeurl_loop s 0 = Some (take SMALLBUF s) \<and> encodeurl s = None"
  using encodeurl_loop_full [OF assms(1), of 0] assms(2) by (simp add: encodeurl_def)

theorem encodeurl_overruns_witness:
  "encodeurl_loop (replicate 5000 (CHR ''a'')) 0 = Some (take SMALLBUF (replicate 5000 (CHR ''a'')))
   \<and> encodeurl (replicate 5000 (CHR ''a'')) = None"
  by (rule encodeurl_overruns) (auto simp: SMALLBUF_def url_safe_def char_classes)

section \<open>Escaping\<close>

definition html_char :: "char \<Rightarrow> string" where
  "html_char c = (case htmltags c of Some code \<Rightarrow> code | None \<Rightarrow> [c])"

definition html_text :: "string \<Rightarrow> string" where
  "html_text s = concat (map html_char s)"

lemma html_text_simps [simp]: "html_text [] = []" "html_text (c # s) = html_char c @ html_text s"
  by (simp_all add: html_text_def)

lemma html_char_pos: "0 < length (html_char c)"
  by (auto simp: html_char_def htmltags_def)

lemma html_char_safe: "set (html_char c) \<inter> {CHR ''<'', CHR ''>'', CHR 0x22} = {}"
  by (auto simp: html_char_def htmltags_def)

lemma str2html_loop_prefix:
  "\<exists>k \<le> length s. str2html_loop s n = html_text (take k s) \<and> length (html_text (take k s)) \<le> n
     \<and> (k < length s \<longrightarrow> n < length (html_text (take (Suc k) s)))"
proof (induction s arbitrary: n)
  case (Cons c s)
  have step: "str2html_loop (c # s) n =
      (if n < length (html_char c) then [] else html_char c @ str2html_loop s (n - length (html_char c)))"
    using html_char_pos [of c] by (auto simp: html_char_def split: option.splits)
  show ?case
  proof (cases "n < length (html_char c)")
    case True
    then show ?thesis using step by (intro exI [of _ 0]) auto
  next
    case False
    obtain k where "k \<le> length s" "str2html_loop s (n - length (html_char c)) = html_text (take k s)"
        "length (html_text (take k s)) \<le> n - length (html_char c)"
        "k < length s \<longrightarrow> n - length (html_char c) < length (html_text (take (Suc k) s))"
      using Cons.IH [of "n - length (html_char c)"] by blast
    then show ?thesis using step False by (intro exI [of _ "Suc k"]) (auto simp: less_diff_conv2)
  qed
qed simp

text \<open>
  HTML escaping: \<open>str2html\<close> returns the escaped form of the longest prefix of its argument whose
  escaped form fits 4095 bytes (never half an entity), so the buffer is not overrun; and the
  result contains no angle bracket and no double quote.
\<close>

theorem str2html_escapes:
  "\<exists>k \<le> length s. str2html s = html_text (take k s) \<and> length (str2html s) < SMALLBUF
     \<and> (k < length s \<longrightarrow> SMALLBUF \<le> length (html_text (take (Suc k) s)))
     \<and> set (str2html s) \<inter> {CHR ''<'', CHR ''>'', CHR 0x22} = {}"
proof -
  obtain k where k: "k \<le> length s" "str2html s = html_text (take k s)"
      "length (html_text (take k s)) \<le> SMALLBUF - 1"
      "k < length s \<longrightarrow> SMALLBUF - 1 < length (html_text (take (Suc k) s))"
    using str2html_loop_prefix [of s "SMALLBUF - 1"] unfolding str2html_def by blast
  moreover have "set (html_text t) \<inter> {CHR ''<'', CHR ''>'', CHR 0x22} = {}" for t
    using html_char_safe by (auto simp: html_text_def)
  moreover have "0 < SMALLBUF" by (simp add: SMALLBUF_def)
  ultimately show ?thesis by (intro exI [of _ k]) auto
qed

theorem str2html_escapes_witness:
  "\<exists>k \<le> length ''<a>''. str2html ''<a>'' = html_text (take k ''<a>'') \<and> length (str2html ''<a>'') < SMALLBUF
     \<and> set (str2html ''<a>'') \<inter> {CHR ''<'', CHR ''>'', CHR 0x22} = {}"
  using str2html_escapes [of "''<a>''"] by blast

section \<open>Pieces\<close>

text \<open>The converted text of a whole message.\<close>

fun p2_text :: "bool \<Rightarrow> char \<Rightarrow> string \<Rightarrow> string" where
  "p2_text dowrap lastchar [] = []"
| "p2_text dowrap lastchar (c # s) = p2_char dowrap lastchar c (hd0 s) @ p2_text dowrap c s"

lemma p2_char_length: "length (p2_char w l c n) \<le> 7"
  by (simp add: p2_char_def)

lemma p2_inner_text:
  "p2_inner w l s d = (b, r, l') \<Longrightarrow> p2_text w l s = b @ p2_text w l' r \<and> (0 \<le> d \<longrightarrow> int (length b) \<le> d)"
proof (induction w l s d arbitrary: b r l' rule: p2_inner.induct)
  case (2 w l c s d)
  show ?case
  proof (cases "64 < d")
    case True
    let ?x = "p2_char w l c (hd0 s)"
    obtain b1 where i: "p2_inner w c s (d - int (length ?x)) = (b1, r, l')" and b: "b = ?x @ b1"
      using 2(2) True by (auto simp: Let_def split: prod.splits)
    have "int (length ?x) \<le> 7" using p2_char_length [of w l c "hd0 s"] by simp
    then show ?thesis using 2(1) [OF True refl i] b True by simp
  qed (use 2(2) in auto)
qed auto

lemma p2_loop_text:
  "concat (p2_loop w l s) = p2_text w l s \<and> (\<forall>b\<in>set (p2_loop w l s). length b < P2BUF)"
proof (induction w l s rule: p2_loop.induct)
  case (1 w l s)
  show ?case
  proof (cases "s = []")
    case True
    then show ?thesis by (simp add: p2_loop.simps)
  next
    case False
    obtain b r l' where i: "p2_inner w l s (int P2BUF - 6) = (b, r, l')"
      by (cases "p2_inner w l s (int P2BUF - 6)") auto
    have "p2_text w l s = b @ p2_text w l' r" "length b < P2BUF"
      using p2_inner_text [OF i] by (auto simp: P2BUF_def)
    then show ?thesis using 1 [OF False i [symmetric] refl] False i by (simp add: p2_loop.simps [of w l s])
  qed
qed

text \<open>
  \<open>printline2\<close> sends a message in pieces: each piece stays below the 1024 bytes of its buffer, and
  together they are the conversion of the message character by character, so where the
  pieces are cut does not show in the page (also not in the choice between a blank and a
  non-breaking space, which looks at both neighbours).
\<close>

theorem printline2_pieces:
  "concat (printline2 w s) = p2_text w NUL s \<and> list_all (\<lambda>b. length b < P2BUF) (printline2 w s)"
  using p2_loop_text unfolding printline2_def list_all_iff by blast

theorem printline2_pieces_witness:
  "concat (printline2 True ''a < b'') = ''a&nbsp;&lt;&nbsp;b'' \<and> list_all (\<lambda>b. length b < P2BUF) (printline2 True ''a < b'')"
proof -
  have "p2_text True NUL ''a < b'' = ''a&nbsp;&lt;&nbsp;b''" by code_simp
  with printline2_pieces [of True "''a < b''"] show ?thesis by metis
qed

end
