(* ===== verification/SqlDate.thy ===== *)
theory SqlDate
  imports Prelude
begin

text \<open>
  Dates: \<open>time_sql2unix\<close> and \<open>time_unix2sql\<close> of \<open>src/src/server/format.c\<close>. The arithmetic of \<open>time_sql2unix\<close> is done in \<open>int\<close>: a result
  outside 32 bits, and a month beyond the table of month lengths, is \<open>None\<close>. The calendar of
  the C library (\<open>gmtime\<close>) is given by the successor of a day.
\<close>

section \<open>The calendar\<close>

definition leap :: "int \<Rightarrow> bool" where
  "leap y \<longleftrightarrow> y mod 4 = 0 \<and> (y mod 400 = 0 \<or> y mod 100 \<noteq> 0)"

definition dim :: "int list" where
  "dim = [31, 28, 31, 30, 31, 30, 31, 31, 30, 31, 30, 31]"

definition month_length :: "int \<Rightarrow> nat \<Rightarrow> int" where
  "month_length y m = dim ! (m - 1) + (if m = 2 \<and> leap y then 1 else 0)"

type_synonym date = "int \<times> nat \<times> int"

definition next_day :: "date \<Rightarrow> date" where
  "next_day dt = (case dt of (y, m, d) \<Rightarrow>
     if d < month_length y m then (y, m, d + 1)
     else if m < 12 then (y, m + 1, 1) else (y + 1, 1, 1))"

text \<open>The date \<open>n\<close> days after 1 January 1970.\<close>

primrec day_date :: "nat \<Rightarrow> date" where
  "day_date 0 = (1970, 1, 1)"
| "day_date (Suc n) = next_day (day_date n)"

section \<open>Arithmetic in \<open>int\<close>\<close>

definition chk :: "int \<Rightarrow> int option" where
  "chk x = (if - (2 ^ 31) \<le> x \<and> x < 2 ^ 31 then Some x else None)"

text \<open>
  The days of the years from 1970 on; \<open>(i / 4.0f) == (int)(i / 4)\<close> is divisibility for every year
  that is reached before the sum leaves 32 bits.
\<close>

fun year_days :: "nat \<Rightarrow> int \<Rightarrow> int \<Rightarrow> int option" where
  "year_days 0 i acc = Some acc"
| "year_days (Suc k) i acc =
     Option.bind (chk (acc + 365 + (if leap i then 1 else 0))) (year_days k (i + 1))"

text \<open>The days of the months \<open>i\<close>, \<open>i + 1\<close>, \<open>\<dots>\<close> (from 0); the table ends at 12.\<close>

fun month_days :: "int \<Rightarrow> nat \<Rightarrow> nat \<Rightarrow> int \<Rightarrow> int option" where
  "month_days y 0 i acc = Some acc"
| "month_days y (Suc k) i acc =
     (if 12 \<le> i then None
      else Option.bind (chk (acc + dim ! i + (if i = 1 \<and> leap y then 1 else 0))) (month_days y k (i + 1)))"

definition date_part :: "int \<Rightarrow> int \<Rightarrow> int \<Rightarrow> int option" where
  "date_part year month day =
     Option.bind (year_days (nat (year - 1970)) 1970 0) (\<lambda>a.
     Option.bind (month_days year (nat month) 0 a) (\<lambda>b.
     Option.bind (chk (b + day)) (\<lambda>c. chk (c * 86400))))"

section \<open>Reading a date\<close>

definition skip_to :: "char \<Rightarrow> string \<Rightarrow> string" where
  "skip_to c s = dropWhile (\<lambda>d. d \<noteq> c) s"

definition skip_nondigits :: "string \<Rightarrow> string" where
  "skip_nondigits s = dropWhile (\<lambda>d. \<not> isdigit d) s"

definition date_field :: "string \<Rightarrow> (int \<times> string) option" where
  "date_field s =
     (if 1970 \<le> atoi s then
        let p1 = skip_nondigits (skip_to (CHR ''-'') s);
            p2 = skip_nondigits (skip_to (CHR ''-'') p1)
        in map_option (\<lambda>u. (u, skip_to (CHR '' '') p2)) (date_part (atoi s) (atoi p1 - 1) (atoi p2 - 1))
      else Some (0, s))"

definition time_field :: "int \<Rightarrow> string \<Rightarrow> int option" where
  "time_field u p =
     (let u0 = (if u < 0 then 0 else u);
          p3 = skip_nondigits p;
          p4 = (if hd0 p3 = CHR ''0'' then tl p3 else p3);
          p5 = skip_nondigits (skip_to (CHR '':'') p4);
          p6 = skip_nondigits (skip_to (CHR '':'') p5)
      in Option.bind (chk (atoi p4 * 3600)) (\<lambda>h. Option.bind (chk (u0 + h)) (\<lambda>u1.
         Option.bind (chk (atoi p5 * 60)) (\<lambda>m. Option.bind (chk (u1 + m)) (\<lambda>u2. chk (u2 + atoi p6))))))"

definition time_sql2unix :: "string \<Rightarrow> int option" where
  "time_sql2unix s = Option.bind (date_field s) (\<lambda>(u, p). time_field u p)"

text \<open>\<open>strftime\<close> with \<open>%Y-%m-%d %H:%M:%S\<close>, for a buffer that holds the text.\<close>

definition sql_text :: "date \<Rightarrow> int \<Rightarrow> int \<Rightarrow> int \<Rightarrow> string" where
  "sql_text dt h mi se = (case dt of (y, m, d) \<Rightarrow>
     dec_int y @ ''-'' @ dec_pad 2 (int m) @ ''-'' @ dec_pad 2 d @ '' '' @
     dec_pad 2 h @ '':'' @ dec_pad 2 mi @ '':'' @ dec_pad 2 se)"

definition time_unix2sql :: "int \<Rightarrow> string" where
  "time_unix2sql t = sql_text (day_date (nat (t div 86400))) (t mod 86400 div 3600) (t mod 3600 div 60) (t mod 60)"

section \<open>Counting days\<close>

primrec ysum :: "nat \<Rightarrow> int \<Rightarrow> int" where
  "ysum 0 i = 0"
| "ysum (Suc k) i = 365 + (if leap i then 1 else 0) + ysum k (i + 1)"

primrec msum :: "int \<Rightarrow> nat \<Rightarrow> int" where
  "msum y 0 = 0"
| "msum y (Suc k) = msum y k + dim ! k + (if k = 1 \<and> leap y then 1 else 0)"

lemma ysum_snoc: "ysum (Suc k) i = ysum k i + 365 + (if leap (i + int k) then 1 else 0)"
proof (induction k arbitrary: i)
  case (Suc k)
  have "ysum (Suc (Suc k)) i = 365 + (if leap i then 1 else 0) + ysum (Suc k) (i + 1)" by simp
  also have "\<dots> = 365 + (if leap i then 1 else 0) + ysum k (i + 1) + 365 + (if leap (i + 1 + int k) then 1 else 0)"
    unfolding Suc.IH by simp
  finally show ?case by (simp add: algebra_simps)
qed simp

lemma ysum_nonneg: "0 \<le> ysum k i"
  by (induction k arbitrary: i) (auto simp: add_nonneg_nonneg)

lemma dim_pos: "k < 12 \<Longrightarrow> 0 < dim ! k"
  by (auto simp: dim_def nth_Cons' split: if_splits)

lemma msum_mono: "k + j \<le> 12 \<Longrightarrow> msum y k \<le> msum y (k + j)"
proof (induction j)
  case (Suc j)
  then have "msum y k \<le> msum y (k + j)" "0 < dim ! (k + j)" using dim_pos by simp_all
  moreover have "msum y (k + j) + dim ! (k + j) \<le> msum y (k + Suc j)" by (simp only: add_Suc_right msum.simps) simp
  ultimately show ?case by linarith
qed simp

lemma year_days_sum:
  "0 \<le> acc \<Longrightarrow> acc + ysum k i < 2 ^ 31 \<Longrightarrow> year_days k i acc = Some (acc + ysum k i)"
proof (induction k arbitrary: i acc)
  case (Suc k)
  then show ?case using ysum_nonneg [of k "i + 1"] by (auto simp: chk_def algebra_simps)
qed simp

lemma month_days_sum:
  "i + k \<le> 12 \<Longrightarrow> 0 \<le> acc \<Longrightarrow> acc + msum y (i + k) - msum y i < 2 ^ 31 \<Longrightarrow>
   month_days y k i acc = Some (acc + msum y (i + k) - msum y i)"
proof (induction k arbitrary: i acc)
  case (Suc k)
  let ?a = "acc + dim ! i + (if i = 1 \<and> leap y then 1 else 0)"
  have "0 < dim ! i" using Suc.prems by (intro dim_pos) simp
  moreover have "msum y (Suc i) \<le> msum y (Suc i + k)" using Suc.prems by (intro msum_mono) simp
  ultimately have "0 \<le> ?a" "?a < 2 ^ 31" "?a + msum y (Suc i + k) - msum y (Suc i) < 2 ^ 31"
    using Suc.prems by (auto split: if_splits)
  then show ?case using Suc.IH [of "Suc i" ?a] Suc.prems by (auto simp: chk_def)
qed simp

definition valid_date :: "date \<Rightarrow> bool" where
  "valid_date dt \<longleftrightarrow> (case dt of (y, m, d) \<Rightarrow> 1970 \<le> y \<and> 1 \<le> m \<and> m \<le> 12 \<and> 1 \<le> d \<and> d \<le> month_length y m)"

text \<open>The number of days in front of a date, as the loops of the program count it.\<close>

definition day_number :: "date \<Rightarrow> int" where
  "day_number dt = (case dt of (y, m, d) \<Rightarrow> ysum (nat (y - 1970)) 1970 + msum y (m - 1) + d - 1)"

lemma msum_year: "msum y 12 = 365 + (if leap y then 1 else 0)"
  by (simp add: numeral_eq_Suc dim_def)

lemma msum_month: "1 \<le> m \<Longrightarrow> msum y m = msum y (m - 1) + month_length y m"
  by (cases m) (auto simp: month_length_def)

lemma month_length_bounds: "1 \<le> m \<Longrightarrow> m \<le> 12 \<Longrightarrow> 1 \<le> month_length y m \<and> month_length y m \<le> 31"
  by (auto simp: month_length_def dim_def nth_Cons' split: if_splits)

lemma next_day_number:
  assumes "valid_date dt"
  shows "valid_date (next_day dt)" "day_number (next_day dt) = day_number dt + 1"
proof -
  obtain y m d where dt: "dt = (y, m, d)" by (cases dt)
  have v: "1970 \<le> y" "1 \<le> m" "m \<le> 12" "1 \<le> d" "d \<le> month_length y m"
    using assms dt by (auto simp: valid_date_def)
  have yr: "ysum (nat (y + 1 - 1970)) 1970 = ysum (nat (y - 1970)) 1970 + 365 + (if leap y then 1 else 0)"
  proof -
    have "nat (y + 1 - 1970) = Suc (nat (y - 1970))" using v by simp
    then show ?thesis using ysum_snoc [of "nat (y - 1970)" 1970] v by simp
  qed
  show "valid_date (next_day dt)"
    using v month_length_bounds [of "m + 1" y] month_length_bounds [of 1 "y + 1"]
    by (auto simp: dt next_day_def valid_date_def)
  show "day_number (next_day dt) = day_number dt + 1"
  proof (cases "d < month_length y m")
    case True
    then show ?thesis by (simp add: dt next_day_def day_number_def)
  next
    case False
    then have d: "d = month_length y m" using v by simp
    show ?thesis
    proof (cases "m < 12")
      case True
      then show ?thesis using d msum_month [OF v(2), of y] by (simp add: dt next_day_def day_number_def)
    next
      case m: False
      then have "m = 12" using v by simp
      then show ?thesis using d yr msum_month [of 12 y] msum_year [of y] by (simp add: dt next_day_def day_number_def)
    qed
  qed
qed

lemma day_date_number: "valid_date (day_date n) \<and> day_number (day_date n) = int n"
proof (induction n)
  case 0
  then show ?case by (simp add: valid_date_def day_number_def month_length_def dim_def)
next
  case (Suc n)
  then show ?case using next_day_number [of "day_date n"] by simp
qed

lemma date_part_number:
  assumes "valid_date (y, m, d)" "day_number (y, m, d) < 24856"
  shows "date_part y (int m - 1) (d - 1) = Some (86400 * day_number (y, m, d))"
proof -
  have v: "1970 \<le> y" "1 \<le> m" "m \<le> 12" "1 \<le> d" using assms by (auto simp: valid_date_def)
  let ?Y = "ysum (nat (y - 1970)) 1970"
  have n: "day_number (y, m, d) = ?Y + msum y (m - 1) + d - 1" by (simp add: day_number_def)
  have "0 \<le> msum y (m - 1)" using msum_mono [of 0 "m - 1" y] v by simp
  with n assms(2) v ysum_nonneg [of "nat (y - 1970)" 1970]
  have b: "0 \<le> ?Y" "?Y < 24856" "0 \<le> msum y (m - 1)" "?Y + msum y (m - 1) < 24856" "0 \<le> day_number (y, m, d)"
    by linarith+
  have "year_days (nat (y - 1970)) 1970 0 = Some ?Y" using year_days_sum [of 0 "nat (y - 1970)" 1970] b by simp
  moreover have "month_days y (nat (int m - 1)) 0 ?Y = Some (?Y + msum y (m - 1))"
    using month_days_sum [of 0 "m - 1" ?Y y] b v by (simp add: nat_diff_distrib)
  moreover have "chk (?Y + msum y (m - 1) + (d - 1)) = Some (day_number (y, m, d))"
    using n assms(2) b by (simp add: chk_def)
  moreover have "chk (day_number (y, m, d) * 86400) = Some (86400 * day_number (y, m, d))"
    using assms(2) b by (simp add: chk_def)
  ultimately show ?thesis by (simp add: date_part_def)
qed

section \<open>Reading what was written\<close>

lemma digits_val_zero: "digits_val (CHR ''0'' # ds) = digits_val ds"
  by (simp add: digits_val_def digit_val_def)

lemma digits_val_zeros: "digits_val (replicate k (CHR ''0'') @ ds) = digits_val ds"
  by (induction k) (simp_all add: digits_val_zero)

lemma digit_plain: "isdigit c \<Longrightarrow> \<not> isspace c \<and> c \<noteq> CHR ''-'' \<and> c \<noteq> CHR ''+''"
  by (auto simp: char_classes)

lemma digits_val_nonneg: "list_all isdigit ds \<Longrightarrow> 0 \<le> digits_val ds"
  by (induction ds rule: rev_induct) (auto simp: digits_val_def digit_val_def isdigit_def)

text \<open>A number in front of something that is no digit.\<close>

lemma atoi_digits:
  assumes "list_all isdigit ds" "ds \<noteq> []" "\<not> isdigit (hd0 r)" "digits_val ds < 2 ^ 31"
  shows "atoi (ds @ r) = digits_val ds"
proof -
  obtain c cs where c: "ds = c # cs" "isdigit c" using assms(1,2) by (cases ds) auto
  have t: "takeWhile isdigit (ds @ r) = ds"
    using assms(1,3) by (cases r) (auto simp: takeWhile_append2 list_all_iff)
  have "strtol_int (digits_val ds) = digits_val ds"
    using assms(4) digits_val_nonneg [OF assms(1)] by (simp add: strtol_int_def)
  then show ?thesis using c t digit_plain [OF c(2)] by (simp add: atoi_def Let_def)
qed

definition pad2 :: "int \<Rightarrow> string" where "pad2 n = dec_pad 2 n"

lemma dec_nat_all: "list_all isdigit (dec_nat n)"
  using dec_nat_digits by (auto simp: list_all_iff)

lemma isdigit_0: "isdigit (CHR ''0'')"
  by (simp add: isdigit_def)

lemma pad2_digits: "0 \<le> n \<Longrightarrow> list_all isdigit (pad2 n) \<and> pad2 n \<noteq> [] \<and> digits_val (pad2 n) = n"
  using dec_nat_all [of "nat n"] isdigit_0
  by (auto simp: pad2_def dec_pad_def Let_def digits_val_zeros digits_val_dec_nat list_all_iff)

lemma atoi_pad2: "0 \<le> n \<Longrightarrow> n < 2 ^ 31 \<Longrightarrow> \<not> isdigit (hd0 r) \<Longrightarrow> atoi (pad2 n @ r) = n"
  using pad2_digits [of n] atoi_digits [of "pad2 n" r] by auto

lemma skip_to_sep:
  assumes "list_all isdigit ds" "\<not> isdigit c"
  shows "skip_to c (ds @ c # r) = c # r"
  using assms by (induction ds) (auto simp: skip_to_def)

lemma skip_nondigits_sep:
  assumes "list_all isdigit ds" "ds \<noteq> []" "\<not> isdigit c"
  shows "skip_nondigits (c # ds @ r) = ds @ r"
  using assms by (cases ds) (auto simp: skip_nondigits_def)

lemmas pad2_skip = skip_to_sep [OF conjunct1 [OF pad2_digits]]
  skip_nondigits_sep [OF conjunct1 [OF pad2_digits] conjunct1 [OF conjunct2 [OF pad2_digits]]]

lemma separators: "\<not> isdigit (CHR ''-'')" "\<not> isdigit (CHR '' '')" "\<not> isdigit (CHR '':'')"
  by (simp_all add: isdigit_def)

text \<open>The hour is read behind a leading zero.\<close>

lemma atoi_hour:
  assumes "0 \<le> h" "h < 100"
  shows "\<exists>ds. (if hd0 (pad2 h @ CHR '':'' # r) = CHR ''0'' then tl (pad2 h @ CHR '':'' # r) else pad2 h @ CHR '':'' # r)
      = ds @ CHR '':'' # r \<and> list_all isdigit ds \<and> atoi (ds @ CHR '':'' # r) = h"
proof -
  obtain c cs where c: "pad2 h = c # cs" using pad2_digits [OF assms(1)] by (cases "pad2 h") auto
  have p: "list_all isdigit (c # cs)" "digits_val (c # cs) = h" using pad2_digits [OF assms(1)] c by auto
  show ?thesis
  proof (cases "c = CHR ''0'' \<and> cs \<noteq> []")
    case True
    then have "digits_val cs = h" using p(2) by (simp add: digits_val_zero)
    then have "atoi (cs @ CHR '':'' # r) = h"
      using atoi_digits [of cs "CHR '':'' # r"] True p(1) assms separators by simp
    then show ?thesis using True c p(1) by (intro exI [of _ cs]) simp
  next
    case False
    have "2 \<le> length (pad2 h)" using assms(1) by (simp add: pad2_def dec_pad_def Let_def)
    then have "cs \<noteq> []" using c by (cases cs) auto
    with False have "c \<noteq> CHR ''0''" by simp
    then show ?thesis
      using c p atoi_digits [of "c # cs" "CHR '':'' # r"] assms separators by (intro exI [of _ "c # cs"]) simp
  qed
qed

lemma ysum_lower: "365 * int k \<le> ysum k i"
proof (induction k arbitrary: i)
  case (Suc k)
  have "365 * int k \<le> ysum k (i + 1)" by (rule Suc.IH)
  then show ?case by (auto intro: order_trans)
qed simp

lemma day_number_bounds:
  assumes "valid_date (y, m, d)"
  shows "365 * (y - 1970) \<le> day_number (y, m, d)" "0 \<le> day_number (y, m, d)"
proof -
  have v: "1970 \<le> y" "m \<le> 12" "1 \<le> d" using assms by (auto simp: valid_date_def)
  have "0 \<le> msum y (m - 1)" using msum_mono [of 0 "m - 1" y] v by simp
  moreover have "365 * (y - 1970) \<le> ysum (nat (y - 1970)) 1970" using ysum_lower [of "nat (y - 1970)" 1970] v by simp
  ultimately show "365 * (y - 1970) \<le> day_number (y, m, d)" using v by (simp add: day_number_def)
  then show "0 \<le> day_number (y, m, d)" using v by simp
qed

text \<open>Reading the text of a date and a time.\<close>

lemma sql2unix_text:
  assumes v: "valid_date (y, m, d)" and num: "day_number (y, m, d) < 24856"
    and h: "0 \<le> h" "h < 24" and mi: "0 \<le> mi" "mi < 60" and se: "0 \<le> se" "se < 60"
    and fits: "86400 * day_number (y, m, d) + 3600 * h + 60 * mi + se < 2 ^ 31"
  shows "time_sql2unix (sql_text (y, m, d) h mi se) = Some (86400 * day_number (y, m, d) + 3600 * h + 60 * mi + se)"
proof -
  have vd: "1970 \<le> y" "y < 3000" "0 \<le> d" "d < 100" "0 \<le> int m"
    using v num day_number_bounds(1) [OF v] month_length_bounds [of m y] by (auto simp: valid_date_def)
  have ymd: "0 \<le> day_number (y, m, d)" by (rule day_number_bounds(2) [OF v])
  define r4 where "r4 = pad2 se @ []"
  define r3 where "r3 = pad2 mi @ CHR '':'' # r4"
  define r2 where "r2 = pad2 h @ CHR '':'' # r3"
  define r1 where "r1 = pad2 d @ CHR '' '' # r2"
  define r0 where "r0 = pad2 (int m) @ CHR ''-'' # r1"
  have tx: "sql_text (y, m, d) h mi se = dec_nat (nat y) @ CHR ''-'' # r0"
    using vd by (simp add: sql_text_def r0_def r1_def r2_def r3_def r4_def pad2_def dec_int_def)
  have yd: "list_all isdigit (dec_nat (nat y))" by (rule dec_nat_all)
  have a0: "atoi (sql_text (y, m, d) h mi se) = y"
    using atoi_digits [OF yd, of "CHR ''-'' # r0"] vd separators by (simp add: tx digits_val_dec_nat)
  have p1: "skip_nondigits (skip_to (CHR ''-'') (sql_text (y, m, d) h mi se)) = r0"
    unfolding tx skip_to_sep [OF yd separators(1)] unfolding r0_def by (rule pad2_skip(2)) (use vd separators in auto)
  have p2: "skip_nondigits (skip_to (CHR ''-'') r0) = r1"
    unfolding r0_def pad2_skip(1) [OF vd(5) separators(1)] unfolding r1_def by (rule pad2_skip(2)) (use vd separators in auto)
  have p3: "skip_nondigits (skip_to (CHR '' '') r1) = r2"
    unfolding r1_def pad2_skip(1) [OF vd(3) separators(2)] unfolding r2_def by (rule pad2_skip(2)) (use h separators in auto)
  have a1: "atoi r0 = int m" unfolding r0_def using vd v by (intro atoi_pad2) (auto simp: separators valid_date_def)
  have a2: "atoi r1 = d" unfolding r1_def using vd by (intro atoi_pad2) (auto simp: separators)
  obtain ds where p4: "(if hd0 r2 = CHR ''0'' then tl r2 else r2) = ds @ CHR '':'' # r3"
      "list_all isdigit ds" "atoi (ds @ CHR '':'' # r3) = h"
    using atoi_hour [of h r3] h unfolding r2_def by auto
  have p5: "skip_nondigits (skip_to (CHR '':'') (ds @ CHR '':'' # r3)) = r3"
    unfolding skip_to_sep [OF p4(2) separators(3)] unfolding r3_def by (rule pad2_skip(2)) (use mi separators in auto)
  have p6: "skip_nondigits (skip_to (CHR '':'') r3) = r4"
    unfolding r3_def pad2_skip(1) [OF mi(1) separators(3)] unfolding r4_def by (rule pad2_skip(2)) (use se separators in auto)
  have a3: "atoi r3 = mi" unfolding r3_def using mi by (intro atoi_pad2) (auto simp: separators)
  have a4: "atoi r4 = se" unfolding r4_def using se by (intro atoi_pad2) (auto simp: NUL_def isdigit_def)
  have dp: "date_part y (int m - 1) (d - 1) = Some (86400 * day_number (y, m, d))"
    by (rule date_part_number [OF v num])
  have "date_field (sql_text (y, m, d) h mi se) = Some (86400 * day_number (y, m, d), skip_to (CHR '' '') r1)"
    using vd(1) by (simp add: date_field_def Let_def a0 p1 p2 a1 a2 dp)
  moreover have "time_field (86400 * day_number (y, m, d)) (skip_to (CHR '' '') r1)
      = Some (86400 * day_number (y, m, d) + 3600 * h + 60 * mi + se)"
    unfolding time_field_def Let_def p3 p4(1) p5 p6 p4(3) a3 a4
    using ymd fits h mi se by (simp add: chk_def)
  ultimately show ?thesis by (simp add: time_sql2unix_def)
qed



end
