(* ===== verification/SmtpQueue.thy ===== *)
theory SmtpQueue
  imports Smtp_Session
begin

text \<open>
  The queue module (\<open>src/src/modules/core/smtpq\<close>): \<open>smtp_client\<close> with its dialogue, and the pass of
  \<open>smtp_spool\<close> over the entries of \<open>spool/mqinfo\<close>. The world outside is a \<open>client_env\<close> for each
  entry: the answer of the name server, the outcome of connecting to a host with the socket it
  gives, and the outcome of the TLS handshake. The age of a message that \<open>smtp_spool\<close> computes
  from the DATE line is never used and left out.
\<close>

section \<open>The connection\<close>

record client_env =
  relayhost :: string
  mx_host :: "string \<Rightarrow> string option"
  tcp_connect :: "string \<Rightarrow> int \<times> tcp_socket"
  client_ssl :: bool
  ssl_rc :: int

text \<open>\<open>ssl_connect\<close> (\<open>src/src/server/ssl.c\<close>): only the value -1 of \<open>SSL_connect\<close> counts as a failure.\<close>

definition ssl_connect :: "int \<Rightarrow> tcp_socket \<Rightarrow> int \<times> tcp_socket" where
  "ssl_connect rc s =
     (if using_tls s then (-1, s)
      else if rc = -1 then (-1, s\<lparr>ssl := True\<rparr>)
      else (0, s\<lparr>ssl := True, using_tls := True\<rparr>))"

text \<open>
  The loop that reads a reply: up to a line with a blank, or nothing, in its fourth place. The
  result is the list of its lines; the last one is what is left in \<open>inbuffer\<close>.
\<close>

definition reply_ends :: "string \<Rightarrow> bool" where
  "reply_ends l \<longleftrightarrow> hd0 (drop 3 l) = CHR '' '' \<or> hd0 (drop 3 l) = NUL"

function read_reply :: "tcp_socket \<Rightarrow> string list option \<times> tcp_socket" where
  "read_reply s =
     (case tcp_fgets 1023 s of
        (None, s1) \<Rightarrow> (None, s1)
      | (Some l, s1) \<Rightarrow>
          (if reply_ends l then (Some [l], s1)
           else case read_reply s1 of (r, s2) \<Rightarrow> (map_option ((#) l) r, s2)))"
  by pat_completeness auto
termination
proof (relation "measure avail", goal_cases)
  case (2 s x s1 l)
  then have "tcp_fgets 1023 s = (Some l, s1)" by simp
  from tcp_fgets_avail [OF this] show ?case by simp
qed simp

declare read_reply.simps [simp del]

definition answered :: "string \<Rightarrow> string \<Rightarrow> bool" where
  "answered code l \<longleftrightarrow> strncaseeq (cstr l) code 3"

section \<open>The dialogue\<close>

text \<open>How a part of the dialogue ends: \<open>return -1\<close>, \<open>goto quit\<close> with the line that was read, or by going on.\<close>

datatype client_res = Lost tcp_socket | Refused string tcp_socket | Done tcp_socket

fun and_then :: "client_res \<Rightarrow> (tcp_socket \<Rightarrow> client_res) \<Rightarrow> client_res" where
  "and_then (Done s) k = k s"
| "and_then (Lost s) k = Lost s"
| "and_then (Refused l s) k = Refused l s"

definition client_say :: "string \<Rightarrow> tcp_socket \<Rightarrow> tcp_socket" where
  "client_say t s = snd (tcp_fprintf (t @ CRLF) s)"

definition client_cmd :: "string \<Rightarrow> string \<Rightarrow> tcp_socket \<Rightarrow> client_res" where
  "client_cmd t code s =
     (case read_reply (client_say t s) of
        (None, s1) \<Rightarrow> Lost s1
      | (Some ls, s1) \<Rightarrow> if answered code (last ls) then Done s1 else Refused (last ls) s1)"

text \<open>The greeting is read; its code is not looked at.\<close>

definition client_banner :: "tcp_socket \<Rightarrow> client_res" where
  "client_banner s = (case read_reply s of (None, s1) \<Rightarrow> Lost s1 | (Some ls, s1) \<Rightarrow> Done s1)"

fun strstr_in :: "string \<Rightarrow> string \<Rightarrow> bool" where
  "strstr_in p [] = (p = [])"
| "strstr_in p (c # s) = (take (length p) (c # s) = p \<or> strstr_in p s)"

text \<open>EHLO, and HELO when it is refused; the flag says whether a line offers STARTTLS.\<close>

definition client_hello :: "string \<Rightarrow> tcp_socket \<Rightarrow> client_res \<times> bool" where
  "client_hello host s =
     (case read_reply (client_say (''EHLO '' @ host) s) of
        (None, s1) \<Rightarrow> (Lost s1, False)
      | (Some ls, s1) \<Rightarrow>
          (if answered ''250'' (last ls) then Done s1 else client_cmd (''HELO '' @ host) ''250'' s1,
           list_ex (\<lambda>l. strstr_in ''STARTTLS'' (cstr l)) ls))"

section \<open>Frame lemmas\<close>

lemma read_reply_unfold:
  "tcp_fgets 1023 s = (r, s1) \<Longrightarrow> read_reply s1 = (q, s2) \<Longrightarrow>
     read_reply s = (case r of None \<Rightarrow> (None, s1)
       | Some l \<Rightarrow> if reply_ends l then (Some [l], s1) else (map_option ((#) l) q, s2))"
  by (subst read_reply.simps) (simp split: option.splits)

lemma read_reply_tx: "read_reply s = (r, s') \<Longrightarrow> tx_same s s'"
proof (induction s arbitrary: r s' rule: read_reply.induct)
  case (1 s)
  obtain l s1 where f: "tcp_fgets 1023 s = (l, s1)" by fastforce
  obtain q s2 where q: "read_reply s1 = (q, s2)" by fastforce
  have t: "tx_same s s1" using f by (rule tcp_fgets_frame)
  have "tx_same s1 s2" if "l = Some x" "\<not> reply_ends x" for x
    using 1(1) [OF f [symmetric] that q] .
  then have "tx_same s s2" if "l = Some x" "\<not> reply_ends x" for x
    using t tx_same_trans that by blast
  then show ?case using 1(2) t by (auto simp: read_reply_unfold [OF f q] split: option.splits if_splits)
qed

lemma client_say_tls [simp]: "using_tls (client_say t s) = using_tls s"
  by (auto simp: client_say_def tcp_fprintf_def tcp_send_nolog_def tcp_close_def split: list.splits tx.splits)

lemma read_reply_tls: "read_reply s = (r, s') \<Longrightarrow> using_tls s' = using_tls s"
  using read_reply_tx by (fastforce simp: tx_same_def)

lemma client_cmd_tls: "client_cmd t code s = Done s' \<Longrightarrow> using_tls s' = using_tls s"
  by (auto simp: client_cmd_def dest!: read_reply_tls split: prod.splits option.splits if_splits)

lemma client_hello_tls: "client_hello h s = (Done s', b) \<Longrightarrow> using_tls s' = using_tls s"
  by (auto simp: client_hello_def dest!: read_reply_tls client_cmd_tls split: prod.splits option.splits if_splits)

section \<open>The client\<close>

lemma ssl_connect_tls: "ssl_connect rc s = (0, s') \<Longrightarrow> using_tls s'"
  by (auto simp: ssl_connect_def split: if_splits)

text \<open>EHLO is said again after a handshake, and only then, since the socket uses TLS from there on.\<close>

function client_greet :: "mail_env \<Rightarrow> client_env \<Rightarrow> tcp_socket \<Rightarrow> client_res" where
  "client_greet env ce s =
     (case client_hello (host_name env) s of
        (Done s1, starttls) \<Rightarrow>
          (if starttls \<and> client_ssl ce \<and> \<not> using_tls s1 then
             (case read_reply (client_say ''STARTTLS'' s1) of
                (None, s2) \<Rightarrow> Lost s2
              | (Some ls, s2) \<Rightarrow>
                  (if \<not> answered ''220'' (last ls) then Refused (last ls) s2
                   else case ssl_connect (ssl_rc ce) s2 of (rc, s3) \<Rightarrow>
                     if rc \<noteq> 0 then Refused (last ls) s3 else client_greet env ce s3))
           else Done s1)
      | (r, starttls) \<Rightarrow> r)"
  by pat_completeness auto

termination
  by (relation "measure (\<lambda>(env, ce, s). if using_tls s then 0 else (1::nat))")
     (auto dest!: client_hello_tls [OF sym] ssl_connect_tls [OF sym])

declare client_greet.simps [simp del]

text \<open>The lines of the message file, each with its end of line replaced by CR LF.\<close>

function client_body :: "string \<Rightarrow> tcp_socket \<Rightarrow> tcp_socket" where
  "client_body body s =
     (case file_gets 1023 body of
        None \<Rightarrow> s
      | Some (l, rest) \<Rightarrow> client_body rest (client_say (striprn (cstr l)) s))"
  by pat_completeness auto
termination
  by (relation "measure (\<lambda>(body, s). length body)") (auto dest!: file_gets_shorter)

declare client_body.simps [simp del]

definition client_dialog :: "mail_env \<Rightarrow> client_env \<Rightarrow> string \<Rightarrow> string \<Rightarrow> string \<Rightarrow> tcp_socket \<Rightarrow> client_res" where
  "client_dialog env ce body from to s =
     and_then (client_banner s) (\<lambda>s1.
     and_then (client_greet env ce s1) (\<lambda>s2.
     and_then (client_cmd (''MAIL FROM:<'' @ from @ ''>'') ''250'' s2) (\<lambda>s3.
     and_then (client_cmd (''RCPT TO:<'' @ to @ ''>'') ''250'' s3) (\<lambda>s4.
     and_then (client_cmd ''DATA'' ''354'' s4) (\<lambda>s5.
     client_cmd ''.'' ''250'' (client_body body s5))))))"

definition smtp_disconnect :: "tcp_socket \<Rightarrow> tcp_socket" where
  "smtp_disconnect s =
     (case read_reply (client_say ''QUIT'' s) of (None, s1) \<Rightarrow> s1 | (Some ls, s1) \<Rightarrow> tcp_close True s1)"

text \<open>
  \<open>smtp_client\<close> on a connected socket. The result is its return value, the mail store, and the
  socket; \<open>None\<close> is \<open>bounce_send\<close> waiting for an unused name.
\<close>

definition client_deliver ::
  "mail_env \<Rightarrow> database \<Rightarrow> client_env \<Rightarrow> string \<Rightarrow> string \<Rightarrow> string \<Rightarrow> string \<Rightarrow> mail_store \<Rightarrow> tcp_socket
    \<Rightarrow> (int \<times> mail_store \<times> tcp_socket option) option" where
  "client_deliver env db ce body orig_msg from to st s =
     (case client_dialog env ce body from to s of
        Lost s1 \<Rightarrow> Some (-1, st, Some s1)
      | Done s1 \<Rightarrow> Some (0, st, Some (smtp_disconnect s1))
      | Refused l s1 \<Rightarrow>
          (if answered ''504'' l then Some (-1, st, Some (smtp_disconnect s1))
           else map_option (\<lambda>(rc, st1). (-2, st1, Some (smtp_disconnect s1)))
                  (bounce_send env db from to (Some orig_msg) (cstr l) st)))"

definition unresolved :: "string \<Rightarrow> string" where
  "unresolved host = snprintf 1023 (''failed to resolve host '' @ [CHR 0x27] @ host @ [CHR 0x27])"

definition smtp_client ::
  "mail_env \<Rightarrow> database \<Rightarrow> client_env \<Rightarrow> string \<Rightarrow> string \<Rightarrow> string \<Rightarrow> string \<Rightarrow> mail_store
    \<Rightarrow> (int \<times> mail_store \<times> tcp_socket option) option" where
  "smtp_client env db ce body orig_msg from to st =
     (if to = [] then Some (-1, st, None)
      else if relayhost ce \<noteq> [] then
        (case tcp_connect ce (relayhost ce) of (rc, s) \<Rightarrow>
           if rc < 0 then Some (-1, st, None) else client_deliver env db ce body orig_msg from to st s)
      else case strchr to (CHR ''@'') of
        None \<Rightarrow> Some (-1, st, None)
      | Some (user, domain) \<Rightarrow>
          (if domain = [] then Some (-1, st, None)
           else
             let mxhost = (case mx_host ce domain of Some h \<Rightarrow> h | None \<Rightarrow> snprintf 127 domain)
             in case tcp_connect ce mxhost of (rc, s) \<Rightarrow>
               (if rc = -1 then map_option (\<lambda>(r, st1). (-2, st1, None))
                    (bounce_send env db from to (Some orig_msg) (unresolved mxhost) st)
                else if rc < 0 then Some (-1, st, None)
                else client_deliver env db ce body orig_msg from to st s)))"

section \<open>The queue\<close>

definition mqinfo_dir :: "mail_env \<Rightarrow> string" where
  "mqinfo_dir env = fixslashes (snprintf 255 (var_dir env @ ''/spool/mqinfo''))"

definition mqueue_dir :: "mail_env \<Rightarrow> string" where
  "mqueue_dir env = fixslashes (snprintf 255 (var_dir env @ ''/spool/mqueue''))"

definition entry_info :: "mail_env \<Rightarrow> string \<Rightarrow> string" where
  "entry_info env name = fixslashes (snprintf 255 (mqinfo_dir env @ ''/'' @ name))"

text \<open>The name of the message: what follows the last dot of the path is replaced by \<open>msg\<close>.\<close>

definition entry_msg :: "mail_env \<Rightarrow> string \<Rightarrow> string option" where
  "entry_msg env name =
     (let f = fixslashes (snprintf 255 (mqueue_dir env @ ''/'' @ name))
      in if CHR ''.'' \<in> set f then Some (rev (tl (dropWhile (\<lambda>c. c \<noteq> CHR ''.'') (rev f))) @ ''.msg'') else None)"

text \<open>One line of an entry: its value when it has the tag, else what the variable held before.\<close>

definition queue_field :: "string \<Rightarrow> string \<Rightarrow> string \<Rightarrow> string \<times> string" where
  "queue_field tag text old =
     (case file_gets 1023 text of
        None \<Rightarrow> (old, text)
      | Some (l, rest) \<Rightarrow>
          (if strncaseeq (cstr l) tag 5
           then snprintf 127 (dropWhile (\<lambda>c. c = CHR '' '' \<or> c = TAB) (drop 5 (striprn (cstr l)))) else old, rest))"

text \<open>
  One turn of the loop of \<open>smtp_spool\<close>. The variable \<open>from\<close> keeps its value from entry to entry;
  \<open>rcpt\<close> is cleared.
\<close>

definition spool_entry ::
  "mail_env \<Rightarrow> database \<Rightarrow> client_env \<Rightarrow> string \<Rightarrow> string \<times> mail_store \<Rightarrow> (string \<times> mail_store) option" where
  "spool_entry env db ce name fs =
     (case fs of (from, st) \<Rightarrow>
        if name = ''.'' \<or> name = ''..'' then Some (from, st)
        else case entry_msg env name of
          None \<Rightarrow> Some (from, st)
        | Some msg \<Rightarrow>
            (case mail_files st (entry_info env name) of
               None \<Rightarrow> Some (from, st)
             | Some info \<Rightarrow>
                 (let (from1, rest) = queue_field ''MAIL:'' info from;
                      (to, rest1) = queue_field ''RCPT:'' rest []
                  in case mail_files st msg of
                       None \<Rightarrow> Some (from1, st)
                     | Some body \<Rightarrow>
                         map_option (\<lambda>(status, st1, so).
                             (from1, if status = 0 \<or> status = -2
                                     then unlink_file msg (unlink_file (entry_info env name) st1) else st1))
                           (smtp_client env db ce body msg from1 to st))))"

text \<open>One pass over the names of the directory; the thread then sleeps and starts again.\<close>

fun spool_pass ::
  "mail_env \<Rightarrow> database \<Rightarrow> (string \<Rightarrow> client_env) \<Rightarrow> string list \<Rightarrow> string \<times> mail_store \<Rightarrow> (string \<times> mail_store) option" where
  "spool_pass env db world [] fs = Some fs"
| "spool_pass env db world (name # names) fs =
     Option.bind (spool_entry env db (world name) name fs) (spool_pass env db world names)"

section \<open>What is sent\<close>

text \<open>A socket that is open, whose peer takes everything that is sent.\<close>

definition ready :: "tcp_socket \<Rightarrow> bool" where
  "ready s \<longleftrightarrow> buf_ok s \<and> link_up s"

definition wire :: "string list \<Rightarrow> string" where
  "wire ls = concat (map (\<lambda>l. l @ CRLF) ls)"

lemma wire_simps [simp]: "wire [] = []" "wire (l # ls) = l @ CRLF @ wire ls" "wire (a @ b) = wire a @ wire b"
  by (simp_all add: wire_def)

lemma ready_push [simp]: "ready (push t s) = ready s"
  by (simp add: ready_def)

lemma client_say_push: "ready s \<Longrightarrow> length t < 2045 \<Longrightarrow> client_say t s = push (t @ CRLF) s"
  by (simp add: client_say_def tcp_fprintf_def ready_def send_push snprintf_short)

lemma tcp_fgets_ready:
  assumes "ready s" "tcp_fgets 1023 s = (Some l, s')"
  shows "ready s' \<and> sent s' = sent s \<and> stream s = l @ stream s'"
proof -
  have r: "buf_ok s \<and> open_sock s" using assms(1) by (simp add: ready_def link_up_def)
  obtain l' rest where f: "fgets_spec 1023 (stream s) = Some (l', rest)"
    using tcp.fgets_end [OF r, of 1023] assms(2) by (cases "fgets_spec 1023 (stream s)") auto
  then have "stream s = l' @ rest" by (rule fgets_spec_Some [THEN conjunct1])
  moreover have "l' = l \<and> stream s' = rest \<and> buf_ok s' \<and> open_sock s'"
    using tcp.fgets_line [OF r _ f] assms(2) by auto
  moreover have "tx_same s s'" using tcp_fgets_frame assms(2) by blast
  ultimately show ?thesis using assms(1) by (simp add: ready_def link_up_def tx_same_def)
qed

lemma read_reply_ready:
  "ready s \<Longrightarrow> read_reply s = (Some ls, s') \<Longrightarrow> ready s' \<and> sent s' = sent s"
proof (induction s arbitrary: ls s' rule: read_reply.induct)
  case (1 s)
  obtain r s1 where f: "tcp_fgets 1023 s = (r, s1)" by fastforce
  obtain q s2 where q: "read_reply s1 = (q, s2)" by fastforce
  have u: "(case r of None \<Rightarrow> (None, s1) | Some l \<Rightarrow> if reply_ends l then (Some [l], s1) else (map_option ((#) l) q, s2))
      = (Some ls, s')"
    using 1(3) unfolding read_reply_unfold [OF f q] .
  then obtain l where l: "r = Some l" by (cases r) auto
  have r1: "ready s1 \<and> sent s1 = sent s" using tcp_fgets_ready [OF 1(2)] f l by blast
  show ?case
  proof (cases "reply_ends l")
    case True
    then show ?thesis using u l r1 by simp
  next
    case False
    then obtain ms where "q = Some ms" "s2 = s'" using u l by auto
    then show ?thesis using 1(1) [OF f [symmetric] l False] q r1 by auto
  qed
qed

lemma client_cmd_done:
  assumes "ready s" "length t < 2045" "client_cmd t code s = Done s'"
  shows "\<exists>ls. read_reply (push (t @ CRLF) s) = (Some ls, s') \<and> answered code (last ls) \<and> ready s' \<and> sent s' = sent s @ t @ CRLF"
proof -
  obtain ls where ls: "read_reply (push (t @ CRLF) s) = (Some ls, s')" "answered code (last ls)"
    using assms client_say_push [OF assms(1,2)] by (auto simp: client_cmd_def split: prod.splits option.splits if_splits)
  then show ?thesis using read_reply_ready [of "push (t @ CRLF) s"] assms(1) by auto
qed

lemma client_banner_done: "ready s \<Longrightarrow> client_banner s = Done s' \<Longrightarrow> ready s' \<and> sent s' = sent s"
  by (auto simp: client_banner_def dest: read_reply_ready split: prod.splits option.splits)

definition hello_words :: "mail_env \<Rightarrow> string set" where
  "hello_words env = {''EHLO '' @ host_name env, ''HELO '' @ host_name env, ''STARTTLS''}"

definition hellos :: "mail_env \<Rightarrow> tcp_socket \<Rightarrow> tcp_socket \<Rightarrow> bool" where
  "hellos env s s' \<longleftrightarrow> ready s' \<and> (\<exists>gs. set gs \<subseteq> hello_words env \<and> sent s' = sent s @ wire gs)"

lemma hellos_trans: "hellos env s s1 \<Longrightarrow> hellos env s1 s2 \<Longrightarrow> hellos env s s2"
proof -
  assume a: "hellos env s s1" and b: "hellos env s1 s2"
  then obtain gs hs where "set gs \<subseteq> hello_words env" "sent s1 = sent s @ wire gs"
    "set hs \<subseteq> hello_words env" "sent s2 = sent s1 @ wire hs"
    unfolding hellos_def by blast
  then have "set (gs @ hs) \<subseteq> hello_words env \<and> sent s2 = sent s @ wire (gs @ hs)" by simp
  then show ?thesis using b unfolding hellos_def by blast
qed

lemma hellos_one: "ready s' \<Longrightarrow> sent s' = sent s @ w @ CRLF \<Longrightarrow> w \<in> hello_words env \<Longrightarrow> hellos env s s'"
  unfolding hellos_def by (intro conjI exI [of _ "[w]"]) auto

lemma client_hello_done:
  assumes r: "ready s" and len: "length (host_name env) < 2000" and d: "client_hello (host_name env) s = (Done s', b)"
  shows "hellos env s s'"
proof -
  let ?e = "''EHLO '' @ host_name env"
  have say: "client_say ?e s = push (?e @ CRLF) s" using client_say_push [OF r, of ?e] len by simp
  obtain ls s1 where ls: "read_reply (push (?e @ CRLF) s) = (Some ls, s1)"
    and alt: "answered ''250'' (last ls) \<and> s' = s1 \<or> client_cmd (''HELO '' @ host_name env) ''250'' s1 = Done s'"
    using d unfolding client_hello_def say by (auto split: prod.splits option.splits if_splits)
  have s1: "ready s1" "sent s1 = sent s @ ?e @ CRLF" using read_reply_ready [OF _ ls] r by auto
  then have h1: "hellos env s s1" by (intro hellos_one) (auto simp: hello_words_def)
  show ?thesis using alt
  proof
    assume c: "client_cmd (''HELO '' @ host_name env) ''250'' s1 = Done s'"
    have "length (''HELO '' @ host_name env) < 2045" using len by simp
    from client_cmd_done [OF s1(1) this c] have "hellos env s1 s'" by (intro hellos_one) (auto simp: hello_words_def)
    with h1 show ?thesis by (rule hellos_trans)
  qed (use h1 in simp)
qed

lemma client_greet_done:
  "ready s \<Longrightarrow> length (host_name env) < 2000 \<Longrightarrow> client_greet env ce s = Done s' \<Longrightarrow> hellos env s s'"
proof (induction env ce s arbitrary: s' rule: client_greet.induct)
  case (1 env ce s)
  obtain r b where h: "client_hello (host_name env) s = (r, b)" by fastforce
  then obtain s1 where r: "r = Done s1" using 1(4) by (cases r) (subst (asm) client_greet.simps, simp)+
  then have h1: "hellos env s s1" using client_hello_done [OF 1(2,3)] h by blast
  show ?case
  proof (cases "b \<and> client_ssl ce \<and> \<not> using_tls s1")
    case False
    then show ?thesis using h1 1(4) h r by (subst (asm) client_greet.simps) auto
  next
    case True
    have r1: "ready s1" using h1 by (simp add: hellos_def)
    have say: "client_say ''STARTTLS'' s1 = push (''STARTTLS'' @ CRLF) s1" using client_say_push [OF r1, of "''STARTTLS''"] by simp
    obtain q s2 where q: "read_reply (client_say ''STARTTLS'' s1) = (q, s2)" by fastforce
    obtain rc s3 where c: "ssl_connect (ssl_rc ce) s2 = (rc, s3)" by fastforce
    have k: "client_greet env ce s = (case q of None \<Rightarrow> Lost s2 | Some ls \<Rightarrow>
        if \<not> answered ''220'' (last ls) then Refused (last ls) s2
        else if rc \<noteq> 0 then Refused (last ls) s3 else client_greet env ce s3)"
      using h r True q c by (subst client_greet.simps) (simp split: option.splits)
    then obtain ls where ls: "q = Some ls" "answered ''220'' (last ls)" "rc = 0" "client_greet env ce s3 = Done s'"
      using 1(4) by (auto split: option.splits if_splits)
    have s2: "ready s2" "sent s2 = sent s1 @ ''STARTTLS'' @ CRLF"
      using read_reply_ready [of "client_say ''STARTTLS'' s1"] q ls(1) say r1 by auto
    have s3: "ready s3" "sent s3 = sent s2"
      using c s2(1) by (auto simp: ssl_connect_def ready_def link_up_def open_sock_def buf_ok_def split: if_splits)
    have "hellos env s1 s3" using s2 s3 by (intro hellos_one) (auto simp: hello_words_def)
    moreover have "hellos env s3 s'"
      using 1(1) [OF h [symmetric] r True q [symmetric] ls(1) _ c [symmetric]] ls s3(1) 1(3) by simp
    ultimately show ?thesis using h1 hellos_trans by blast
  qed
qed

text \<open>The lines of a message file as they are sent.\<close>

function msg_lines :: "string \<Rightarrow> string list" where
  "msg_lines body =
     (case file_gets 1023 body of None \<Rightarrow> [] | Some (l, rest) \<Rightarrow> striprn (cstr l) # msg_lines rest)"
  by pat_completeness auto
termination
  by (relation "measure length") (auto dest!: file_gets_shorter)

declare msg_lines.simps [simp del]

lemma length_cstr: "length (cstr l) \<le> length l"
  by (simp add: cstr_def length_takeWhile_le)

lemma length_stored_line:
  assumes "file_gets 1023 body = Some (l, rest)"
  shows "length (striprn (cstr l)) < 2045"
proof -
  have "length (striprn (cstr l)) \<le> length l" using length_striprn [of "cstr l"] length_cstr [of l] by linarith
  then show ?thesis using file_gets_Some [OF assms] by linarith
qed

lemma client_body_push: "ready s \<Longrightarrow> client_body body s = push (wire (msg_lines body)) s"
proof (induction body s rule: client_body.induct)
  case (1 body s)
  show ?case
  proof (cases "file_gets 1023 body")
    case None
    then show ?thesis by (simp add: client_body.simps [of body] msg_lines.simps [of body])
  next
    case (Some a)
    then obtain l rest where lr: "file_gets 1023 body = Some (l, rest)" by (cases a) auto
    have "client_say (striprn (cstr l)) s = push (striprn (cstr l) @ CRLF) s"
      using client_say_push [OF 1(2) length_stored_line [OF lr]] .
    then show ?thesis using 1(1) [OF lr refl] 1(2) lr
      by (simp add: client_body.simps [of body] msg_lines.simps [of body])
  qed
qed

text \<open>The dialogue of a delivery: greetings, the envelope, the message, and then a positive reply.\<close>

definition delivered :: "mail_env \<Rightarrow> string \<Rightarrow> string \<Rightarrow> string \<Rightarrow> tcp_socket \<Rightarrow> bool" where
  "delivered env from to body s \<longleftrightarrow>
     (\<exists>gs s1 ls s2. set gs \<subseteq> hello_words env
        \<and> sent s1 = sent s @ wire gs @ wire [''MAIL FROM:<'' @ from @ ''>'', ''RCPT TO:<'' @ to @ ''>'', ''DATA'']
             @ wire (msg_lines body) @ wire [''.'']
        \<and> read_reply s1 = (Some ls, s2) \<and> answered ''250'' (last ls))"

lemma and_then_done: "and_then r k = Done s \<longleftrightarrow> (\<exists>s1. r = Done s1 \<and> k s1 = Done s)"
  by (cases r) auto

lemma client_dialog_done:
  assumes r: "ready s" and len: "length (host_name env) < 2000" "length from < 127" "length to < 127"
    and d: "client_dialog env ce body from to s = Done s'"
  shows "delivered env from to body s"
proof -
  let ?m = "''MAIL FROM:<'' @ from @ ''>''" and ?r = "''RCPT TO:<'' @ to @ ''>''"
  obtain s1 s2 s3 s4 s5 where st: "client_banner s = Done s1" "client_greet env ce s1 = Done s2"
    "client_cmd ?m ''250'' s2 = Done s3" "client_cmd ?r ''250'' s3 = Done s4" "client_cmd ''DATA'' ''354'' s4 = Done s5"
    "client_cmd ''.'' ''250'' (client_body body s5) = Done s'"
    using d unfolding client_dialog_def and_then_done by blast
  have s1: "ready s1" "sent s1 = sent s" using client_banner_done [OF r st(1)] by auto
  obtain gs where gs: "set gs \<subseteq> hello_words env" "sent s2 = sent s @ wire gs" "ready s2"
    using client_greet_done [OF s1(1) len(1) st(2)] s1(2) unfolding hellos_def by auto
  have s3: "ready s3" "sent s3 = sent s2 @ ?m @ CRLF" using client_cmd_done [OF gs(3) _ st(3)] len by auto
  have s4: "ready s4" "sent s4 = sent s3 @ ?r @ CRLF" using client_cmd_done [OF s3(1) _ st(4)] len by auto
  have s5: "ready s5" "sent s5 = sent s4 @ ''DATA'' @ CRLF" using client_cmd_done [OF s4(1) _ st(5)] by auto
  have b: "client_body body s5 = push (wire (msg_lines body)) s5" using client_body_push [OF s5(1)] .
  obtain ls where ls: "read_reply (push (''.'' @ CRLF) (push (wire (msg_lines body)) s5)) = (Some ls, s')"
    "answered ''250'' (last ls)"
    using client_cmd_done [OF _ _ st(6)] s5(1) b by auto
  moreover have "sent (push (''.'' @ CRLF) (push (wire (msg_lines body)) s5)) = sent s @ wire gs @ wire [?m, ?r, ''DATA'']
             @ wire (msg_lines body) @ wire [''.'']"
    using gs s3 s4 s5 by simp
  ultimately show ?thesis unfolding delivered_def using gs(1) by blast
qed

lemma queue_field_length: "length old < 127 \<Longrightarrow> length (fst (queue_field tag text old)) < 127"
  by (auto simp: queue_field_def snprintf_def split: option.splits)

section \<open>No mail is lost\<close>

text \<open>Every host that can be connected gives a fresh socket that works.\<close>

definition sockets_work :: "client_env \<Rightarrow> bool" where
  "sockets_work ce \<longleftrightarrow> (\<forall>h rc s. tcp_connect ce h = (rc, s) \<longrightarrow> 0 \<le> rc \<longrightarrow> ready s \<and> sent s = [])"

lemma client_deliver_outcome:
  assumes r: "ready s" and len: "length (host_name env) < 2000" "length from < 127" "length to < 127"
    and d: "client_deliver env db ce body msg from to st s = Some (status, st', so)"
  shows "status = 0 \<and> st' = st \<and> delivered env from to body s
    \<or> status = -2 \<and> (\<exists>why rc. bounce_send env db from to (Some msg) why st = Some (rc, st'))
    \<or> status = -1 \<and> st' = st"
proof (cases "client_dialog env ce body from to s")
  case (Done s1)
  then show ?thesis using d client_dialog_done [OF r len Done] by (simp add: client_deliver_def)
next
  case (Refused l s1)
  then show ?thesis using d by (cases "answered ''504'' l") (auto simp: client_deliver_def)
qed (use d in \<open>simp add: client_deliver_def\<close>)

lemma smtp_client_outcome:
  assumes w: "sockets_work ce" and len: "length (host_name env) < 2000" "length from < 127" "length to < 127"
    and c: "smtp_client env db ce body msg from to st = Some (status, st', so)"
  shows "status = 0 \<and> st' = st \<and> (\<exists>s. sent s = [] \<and> delivered env from to body s)
    \<or> status = -2 \<and> (\<exists>why rc. bounce_send env db from to (Some msg) why st = Some (rc, st'))
    \<or> status = -1 \<and> st' = st"
proof -
  consider (deliver) h rc s where "tcp_connect ce h = (rc, s)" "0 \<le> rc"
      "client_deliver env db ce body msg from to st s = Some (status, st', so)"
    | (bounce) why rc where "status = -2" "bounce_send env db from to (Some msg) why st = Some (rc, st')"
    | (keep) "status = -1" "st' = st"
    using c by (auto simp: smtp_client_def Let_def not_less split: if_splits prod.splits option.splits)
  then show ?thesis
  proof cases
    case deliver
    then have "ready s" "sent s = []" using w unfolding sockets_work_def by blast+
    then show ?thesis using client_deliver_outcome [OF _ len deliver(3)] by blast
  qed blast+
qed

text \<open>What one entry does to the store: the two files of the entry go, or stay as they are, and the rest only gains bounces.\<close>

lemma spool_entry_outcome:
  assumes w: "sockets_work ce" and len: "length (host_name env) < 2000" "length from < 127"
    and files: "entry_msg env name = Some msg" "mail_files st (entry_info env name) = Some info" "mail_files st msg = Some body"
    and from1: "queue_field ''MAIL:'' info from = (from1, rest)" and to: "queue_field ''RCPT:'' rest [] = (to, rest1)"
    and dot: "name \<noteq> ''.''" "name \<noteq> ''..''"
    and e: "spool_entry env db ce name (from, st) = Some (from', st')"
  shows "from' = from1 \<and>
    (st' = unlink_file msg (unlink_file (entry_info env name) st) \<and> (\<exists>s. sent s = [] \<and> delivered env from1 to body s)
    \<or> (\<exists>why rc st1. bounce_send env db from1 to (Some msg) why st = Some (rc, st1)
         \<and> st' = unlink_file msg (unlink_file (entry_info env name) st1))
    \<or> st' = st)"
proof -
  obtain status st1 so where c: "smtp_client env db ce body msg from1 to st = Some (status, st1, so)"
    and r: "from' = from1"
      "st' = (if status = 0 \<or> status = -2 then unlink_file msg (unlink_file (entry_info env name) st1) else st1)"
    using e files from1 to dot by (auto simp: spool_entry_def Let_def)
  have len': "length from1 < 127" "length to < 127"
    using queue_field_length [OF len(2), of "''MAIL:''" info] queue_field_length [of "[]" "''RCPT:''" rest] from1 to by auto
  from smtp_client_outcome [OF w len(1) len' c] r show ?thesis by auto
qed

text \<open>A message may go when its text was delivered, or when a bounce for it was made.\<close>

definition message_handled :: "mail_env \<Rightarrow> database \<Rightarrow> string \<Rightarrow> string \<Rightarrow> bool" where
  "message_handled env db f body \<longleftrightarrow>
     (\<exists>from to. (\<exists>s. sent s = [] \<and> delivered env from to body s)
        \<or> (\<exists>why rc st st1. mail_files st f = Some body \<and> bounce_send env db from to (Some f) why st = Some (rc, st1)))"

lemma spool_entry_keeps:
  assumes w: "sockets_work ce" and len: "length (host_name env) < 2000" "length from < 127"
    and e: "spool_entry env db ce name (from, st) = Some (from', st')"
    and f: "mail_files st f = Some body" "f \<noteq> entry_info env name"
  shows "length from' < 127 \<and> (mail_files st' f = Some body \<or> entry_msg env name = Some f \<and> message_handled env db f body)"
proof (cases "name = ''.'' \<or> name = ''..'' \<or> entry_msg env name = None \<or> mail_files st (entry_info env name) = None")
  case True
  then have "from' = from \<and> st' = st" using e by (auto simp: spool_entry_def split: option.splits)
  then show ?thesis using len f by simp
next
  case False
  then obtain msg info where m: "name \<noteq> ''.''" "name \<noteq> ''..''" "entry_msg env name = Some msg" "mail_files st (entry_info env name) = Some info"
    by auto
  obtain from1 rest where q: "queue_field ''MAIL:'' info from = (from1, rest)" by fastforce
  obtain to rest1 where t: "queue_field ''RCPT:'' rest [] = (to, rest1)" by fastforce
  have l1: "length from1 < 127" using queue_field_length [OF len(2), of "''MAIL:''" info] q by simp
  show ?thesis
  proof (cases "mail_files st msg")
    case None
    then have "from' = from1 \<and> st' = st" using e m q t by (simp add: spool_entry_def)
    then show ?thesis using l1 f by simp
  next
    case (Some b)
    note out = spool_entry_outcome [OF w len m(3,4) Some q t m(1,2) e]
    have fr: "length from' < 127" using out l1 by simp
    have "mail_files st' f = Some body \<or> f = msg \<and> message_handled env db f body"
    proof (cases "f = msg")
      case True
      then have "b = body" using Some f by simp
      then show ?thesis using out True f Some unfolding message_handled_def by auto
    next
      case ne: False
      have "mail_files st1 f = Some body" if "bounce_send env db from1 to (Some msg) why st = Some (rc, st1)" for why rc st1
        using bounce_send_only [OF that] f unfolding bounce_only_def by (metis option.distinct(1))
      then show ?thesis using out ne f by auto
    qed
    then show ?thesis using fr m(3) by auto
  qed
qed


section \<open>A server that takes the message\<close>

definition reply_line :: "string \<Rightarrow> bool" where
  "reply_line l \<longleftrightarrow> l \<noteq> [] \<and> last l = LF \<and> LF \<notin> set (butlast l) \<and> length l \<le> 1023"

text \<open>The lines of one reply: only the last one ends it.\<close>

definition reply_ok :: "string list \<Rightarrow> bool" where
  "reply_ok ls \<longleftrightarrow> ls \<noteq> [] \<and> list_all reply_line ls \<and> list_all (\<lambda>l. \<not> reply_ends l) (butlast ls) \<and> reply_ends (last ls)"

lemma reply_ok_Cons:
  "reply_ok (l # ls) \<longleftrightarrow> reply_line l \<and> (if ls = [] then reply_ends l else \<not> reply_ends l \<and> reply_ok ls)"
  by (auto simp: reply_ok_def)

text \<open>Sockets that differ in what has been read only.\<close>

definition read_on :: "tcp_socket \<Rightarrow> string \<Rightarrow> tcp_socket \<Rightarrow> bool" where
  "read_on s rest s' \<longleftrightarrow> ready s' \<and> stream s' = rest \<and> tx_same s s'"

lemma read_reply_script:
  "ready s \<Longrightarrow> stream s = concat ls @ rest \<Longrightarrow> reply_ok ls \<Longrightarrow>
     \<exists>s'. read_reply s = (Some ls, s') \<and> read_on s rest s'"
proof (induction ls arbitrary: s)
  case Nil
  then show ?case by (simp add: reply_ok_def)
next
  case (Cons l ls)
  have l: "reply_line l" using Cons.prems(3) by (simp add: reply_ok_Cons)
  then have t: "\<exists>t. l = t @ [LF] \<and> LF \<notin> set t" unfolding reply_line_def by (metis append_butlast_last_id)
  have r: "buf_ok s" "open_sock s" using Cons.prems(1) by (simp_all add: ready_def link_up_def)
  have "stream s = l @ concat ls @ rest" "length l \<le> 1023" using Cons.prems(2) l by (simp_all add: reply_line_def)
  with read_body_line [OF r _ t] obtain s1 where s1: "tcp_fgets 1023 s = (Some l, s1)" "stream s1 = concat ls @ rest"
    "buf_ok s1" "open_sock s1" "tx_same s s1" by blast
  then have ready1: "ready s1" using Cons.prems(1) by (simp add: ready_def link_up_def tx_same_def)
  obtain q s2 where q: "read_reply s1 = (q, s2)" by fastforce
  show ?case
  proof (cases "ls = []")
    case True
    then show ?thesis using s1 ready1 Cons.prems(3) by (simp add: read_reply_unfold [OF s1(1) q] read_on_def reply_ok_Cons)
  next
    case False
    then have ok: "reply_ok ls" "\<not> reply_ends l" using Cons.prems(3) by (simp_all add: reply_ok_Cons)
    obtain s' where "read_reply s1 = (Some ls, s')" "read_on s1 rest s'" using Cons.IH [OF ready1 s1(2) ok(1)] by blast
    then show ?thesis using q ok s1(5)
      by (auto simp: read_reply_unfold [OF s1(1) q] read_on_def intro: tx_same_trans)
  qed
qed

lemma client_cmd_script:
  assumes "ready s" "length t < 2045" "stream s = concat ls @ rest" "reply_ok ls" "answered code (last ls)"
  shows "\<exists>s'. client_cmd t code s = Done s' \<and> read_on (push (t @ CRLF) s) rest s'"
proof -
  have "ready (push (t @ CRLF) s)" "stream (push (t @ CRLF) s) = concat ls @ rest" using assms by simp_all
  from read_reply_script [OF this assms(4)] obtain s' where
    "read_reply (push (t @ CRLF) s) = (Some ls, s')" "read_on (push (t @ CRLF) s) rest s'" by blast
  then show ?thesis using assms(5) client_say_push [OF assms(1,2)] by (simp add: client_cmd_def)
qed

lemma read_on_simps: "read_on s rest s' \<Longrightarrow> ready s'" "read_on s rest s' \<Longrightarrow> stream s' = rest"
  "read_on s rest s' \<Longrightarrow> sent s' = sent s" "read_on s rest s' \<Longrightarrow> using_tls s' = using_tls s"
  by (simp_all add: read_on_def tx_same_def)

text \<open>The replies of a server without STARTTLS that takes one message.\<close>

definition server_takes :: "client_env \<Rightarrow> tcp_socket \<Rightarrow> bool" where
  "server_takes ce s \<longleftrightarrow> (\<exists>b e m r d f q. stream s = concat b @ concat e @ concat m @ concat r @ concat d @ concat f @ concat q
     \<and> list_all reply_ok [b, e, m, r, d, f, q]
     \<and> answered ''250'' (last e) \<and> answered ''250'' (last m) \<and> answered ''250'' (last r)
     \<and> answered ''354'' (last d) \<and> answered ''250'' (last f)
     \<and> \<not> (client_ssl ce \<and> list_ex (\<lambda>l. strstr_in ''STARTTLS'' (cstr l)) e))"

lemma server_takesI:
  assumes "stream s = concat b @ concat e @ concat m @ concat r @ concat d @ concat f @ concat q"
    "list_all reply_ok [b, e, m, r, d, f, q]"
    "answered ''250'' (last e)" "answered ''250'' (last m)" "answered ''250'' (last r)" "answered ''354'' (last d)" "answered ''250'' (last f)"
    "\<not> (client_ssl ce \<and> list_ex (\<lambda>l. strstr_in ''STARTTLS'' (cstr l)) e)"
  shows "server_takes ce s"
  unfolding server_takes_def by (intro exI conjI) (rule assms)+

definition transcript :: "mail_env \<Rightarrow> string \<Rightarrow> string \<Rightarrow> string \<Rightarrow> string" where
  "transcript env from to body = wire [''EHLO '' @ host_name env, ''MAIL FROM:<'' @ from @ ''>'', ''RCPT TO:<'' @ to @ ''>'', ''DATA'']
     @ body @ wire [''.'', ''QUIT'']"

lemma client_hello_script:
  assumes "ready s" "length (host_name env) < 2000" "stream s = concat e @ rest" "reply_ok e" "answered ''250'' (last e)"
    and no_tls: "\<not> (client_ssl ce \<and> list_ex (\<lambda>l. strstr_in ''STARTTLS'' (cstr l)) e)"
  shows "\<exists>s'. client_greet env ce s = Done s' \<and> read_on (push (''EHLO '' @ host_name env @ CRLF) s) rest s'"
proof -
  let ?p = "push (''EHLO '' @ host_name env @ CRLF) s"
  have say: "client_say (''EHLO '' @ host_name env) s = ?p"
    using client_say_push [OF assms(1), of "''EHLO '' @ host_name env"] assms(2) by simp
  have "ready ?p" "stream ?p = concat e @ rest" using assms by simp_all
  from read_reply_script [OF this assms(4)] obtain s' where s': "read_reply ?p = (Some e, s')" "read_on ?p rest s'" by blast
  then have h: "client_hello (host_name env) s = (Done s', list_ex (\<lambda>l. strstr_in ''STARTTLS'' (cstr l)) e)"
    using assms(5) unfolding client_hello_def say by simp
  then have "client_greet env ce s = Done s'" using no_tls by (subst client_greet.simps) auto
  then show ?thesis using s'(2) by blast
qed

lemma smtp_disconnect_script:
  assumes "ready s" "stream s = concat q @ rest" "reply_ok q"
  shows "sent (smtp_disconnect s) = sent s @ ''QUIT'' @ CRLF"
proof -
  have "ready (push (''QUIT'' @ CRLF) s)" "stream (push (''QUIT'' @ CRLF) s) = concat q @ rest" using assms by simp_all
  from read_reply_script [OF this assms(3)] obtain s' where
    "read_reply (push (''QUIT'' @ CRLF) s) = (Some q, s')" "read_on (push (''QUIT'' @ CRLF) s) rest s'" by blast
  then show ?thesis using client_say_push [OF assms(1), of "''QUIT''"]
    by (simp add: smtp_disconnect_def tcp_close_def read_on_simps)
qed

lemma client_deliver_script:
  assumes r: "ready s" and len: "length (host_name env) < 2000" "length from < 127" "length to < 127"
    and srv: "server_takes ce s"
  shows "\<exists>s'. client_deliver env db ce body msg from to st s = Some (0, st, Some s')
     \<and> sent s' = sent s @ transcript env from to (wire (msg_lines body))"
proof -
  let ?M = "''MAIL FROM:<'' @ from @ ''>''" and ?R = "''RCPT TO:<'' @ to @ ''>''"
  obtain b e m t d f q where st: "stream s = concat b @ concat e @ concat m @ concat t @ concat d @ concat f @ concat q"
    and ok: "reply_ok b" "reply_ok e" "reply_ok m" "reply_ok t" "reply_ok d" "reply_ok f" "reply_ok q"
    and an: "answered ''250'' (last e)" "answered ''250'' (last m)" "answered ''250'' (last t)"
      "answered ''354'' (last d)" "answered ''250'' (last f)"
    and tls: "\<not> (client_ssl ce \<and> list_ex (\<lambda>l. strstr_in ''STARTTLS'' (cstr l)) e)"
    using srv unfolding server_takes_def by auto
  obtain s1 where s1: "read_reply s = (Some b, s1)" "read_on s (concat e @ concat m @ concat t @ concat d @ concat f @ concat q) s1"
    using read_reply_script [OF r st ok(1)] by blast
  obtain s2 where s2: "client_greet env ce s1 = Done s2"
    "read_on (push (''EHLO '' @ host_name env @ CRLF) s1) (concat m @ concat t @ concat d @ concat f @ concat q) s2"
    using client_hello_script [OF read_on_simps(1) [OF s1(2)] len(1) read_on_simps(2) [OF s1(2)] ok(2) an(1) tls] by blast
  obtain s3 where s3: "client_cmd ?M ''250'' s2 = Done s3" "read_on (push (?M @ CRLF) s2) (concat t @ concat d @ concat f @ concat q) s3"
    using client_cmd_script [OF _ _ _ ok(3) an(2), of s2 ?M] s2(2) len by (auto simp: read_on_simps)
  obtain s4 where s4: "client_cmd ?R ''250'' s3 = Done s4" "read_on (push (?R @ CRLF) s3) (concat d @ concat f @ concat q) s4"
    using client_cmd_script [OF _ _ _ ok(4) an(3), of s3 ?R] s3(2) len by (auto simp: read_on_simps)
  obtain s5 where s5: "client_cmd ''DATA'' ''354'' s4 = Done s5" "read_on (push (''DATA'' @ CRLF) s4) (concat f @ concat q) s5"
    using client_cmd_script [OF _ _ _ ok(5) an(4), of s4 "''DATA''"] s4(2) by (auto simp: read_on_simps)
  let ?b = "push (wire (msg_lines body)) s5"
  have b: "client_body body s5 = ?b" using client_body_push read_on_simps(1) [OF s5(2)] by blast
  obtain s6 where s6: "client_cmd ''.'' ''250'' ?b = Done s6" "read_on (push (''.'' @ CRLF) ?b) (concat q) s6"
    using client_cmd_script [OF _ _ _ ok(6) an(5), of ?b "''.''"] s5(2) by (auto simp: read_on_simps)
  have "client_dialog env ce body from to s = Done s6"
    using s1(1) s2(1) s3(1) s4(1) s5(1) s6(1) b by (simp add: client_dialog_def client_banner_def)
  moreover have "sent (smtp_disconnect s6) = sent s6 @ ''QUIT'' @ CRLF"
    using smtp_disconnect_script [OF _ _ ok(7), of s6 "[]"] s6(2) by (simp add: read_on_simps)
  moreover have "sent s6 = sent s @ wire [''EHLO '' @ host_name env, ?M, ?R, ''DATA''] @ wire (msg_lines body) @ wire [''.'']"
    using s1(2) s2(2) s3(2) s4(2) s5(2) s6(2) by (simp add: read_on_simps)
  ultimately show ?thesis by (simp add: client_deliver_def transcript_def)
qed

text \<open>The lines of a file that was written with CR LF after each line.\<close>

definition text_line :: "string \<Rightarrow> bool" where
  "text_line l \<longleftrightarrow> is_cstr l \<and> LF \<notin> set l \<and> striprn l = l \<and> length l \<le> 1020"

lemma file_line_first: "LF \<notin> set l \<Longrightarrow> length l < n \<Longrightarrow> file_line n (l @ LF # rest) = (l @ [LF], rest)"
proof (induction l arbitrary: n)
  case Nil
  then show ?case by (cases n) auto
next
  case (Cons c l)
  then show ?case by (cases n) auto
qed

lemma file_gets_line:
  assumes "text_line l"
  shows "file_gets 1023 (l @ CRLF @ rest) = Some (l @ CRLF, rest)"
proof -
  have "file_line 1022 ((l @ [CR]) @ LF # rest) = ((l @ [CR]) @ [LF], rest)"
    using assms by (intro file_line_first) (auto simp: text_line_def control_chars)
  then show ?thesis by (simp add: file_gets_def control_chars)
qed

lemma stored_line: "text_line l \<Longrightarrow> striprn (cstr (l @ CRLF)) = l"
proof -
  assume l: "text_line l"
  then have "is_cstr (l @ CRLF)" by (simp add: text_line_def control_chars)
  then show ?thesis using l by (simp add: cstr_id text_line_def)
qed

lemma msg_lines_wire: "list_all text_line ls \<Longrightarrow> msg_lines (wire ls) = ls"
proof (induction ls)
  case Nil
  then show ?case by (simp add: msg_lines.simps [of "[]"] file_gets_def)
next
  case (Cons l ls)
  then have l: "text_line l" by simp
  then show ?case using Cons file_gets_line [OF l, of "wire ls"] stored_line [OF l]
    by (simp add: msg_lines.simps [of "l @ CRLF @ wire ls"])
qed

section \<open>A witness\<close>

text \<open>A queue with one message whose host cannot be reached.\<close>

definition demo_down :: client_env where
  "demo_down = \<lparr>relayhost = ''relay'', mx_host = (\<lambda>_. None), tcp_connect = (\<lambda>_. (-2, demo_socket)), client_ssl = False, ssl_rc = 0\<rparr>"

definition demo_queue :: mail_store where
  "demo_queue = \<lparr>mail_files = [''/v/spool/mqinfo/1.dat'' \<mapsto> ''MAIL: al@x.org'' @ CRLF @ ''RCPT: bo@y.org'' @ CRLF,
     ''/v/spool/mqueue/1.msg'' \<mapsto> ''Hello'' @ CRLF], ticks = []\<rparr>"


end
