(* ===== verification/NspDouble.thy ===== *)
theory NspDouble
  imports Prelude "HOL-Library.Log_Nat" Complex_Main
begin

text \<open>
  The C type \<open>double\<close>, which is \<open>num_t\<close> in the NSP language (\<open>src/src/nsp/include/nsp/nsp.h\<close>): IEEE 754 binary64 with
  rounding to nearest, ties to even. A finite number is a rational number, negative zero is a value of
  its own, and all NaNs are one. Integers up to \<open>2 ^ 53\<close> are exact, which is what the loops that
  read and print numbers rely on.
\<close>

section \<open>Values and rounding\<close>

datatype num_t = Fin rat | NegZero | Inf bool | NaN

definition round_even :: "rat \<Rightarrow> int" where
  "round_even x = (let f = \<lfloor>x\<rfloor>; d = x - of_int f in
     if d < 1 / 2 then f else if 1 / 2 < d then f + 1 else if even f then f else f + 1)"

text \<open>The exponent of the leading bit.\<close>

definition lead_exp :: "rat \<Rightarrow> int" where
  "lead_exp x = (case quotient_of \<bar>x\<bar> of (p, q) \<Rightarrow>
     let k = bitlen p - bitlen q in if \<bar>x\<bar> < 2 powi k then k - 1 else k)"

definition rnd :: "rat \<Rightarrow> num_t" where
  "rnd x =
     (if x = 0 then Fin 0
      else let e = max (- 1074) (lead_exp x - 52); v = of_int (round_even (\<bar>x\<bar> / 2 powi e)) * 2 powi e in
        if 1024 \<le> lead_exp v then Inf (x < 0)
        else if v = 0 then (if x < 0 then NegZero else Fin 0)
        else Fin (if x < 0 then - v else v))"

definition signbit :: "num_t \<Rightarrow> bool" where
  "signbit a = (case a of Fin x \<Rightarrow> x < 0 | NegZero \<Rightarrow> True | Inf s \<Rightarrow> s | NaN \<Rightarrow> False)"

text \<open>The value of a finite number.\<close>

definition num_val :: "num_t \<Rightarrow> rat" where
  "num_val a = (case a of Fin x \<Rightarrow> x | _ \<Rightarrow> 0)"

definition is_zero :: "num_t \<Rightarrow> bool" where
  "is_zero a \<longleftrightarrow> a = Fin 0 \<or> a = NegZero"

text \<open>A result with the sign of a product or quotient.\<close>

definition signed_rnd :: "bool \<Rightarrow> rat \<Rightarrow> num_t" where
  "signed_rnd s x = (if x = 0 then if s then NegZero else Fin 0 else rnd x)"

section \<open>Arithmetic\<close>

definition num_of_int :: "int \<Rightarrow> num_t" where
  "num_of_int i = rnd (of_int i)"

definition num_neg :: "num_t \<Rightarrow> num_t" where
  "num_neg a = (case a of
     Fin x \<Rightarrow> if x = 0 then NegZero else Fin (- x)
   | NegZero \<Rightarrow> Fin 0
   | Inf s \<Rightarrow> Inf (\<not> s)
   | NaN \<Rightarrow> NaN)"

definition num_add :: "num_t \<Rightarrow> num_t \<Rightarrow> num_t" where
  "num_add a b = (case (a, b) of
     (NaN, _) \<Rightarrow> NaN
   | (_, NaN) \<Rightarrow> NaN
   | (Inf s, Inf t) \<Rightarrow> if s = t then Inf s else NaN
   | (Inf s, _) \<Rightarrow> Inf s
   | (_, Inf t) \<Rightarrow> Inf t
   | (NegZero, NegZero) \<Rightarrow> NegZero
   | _ \<Rightarrow> rnd (num_val a + num_val b))"

definition num_sub :: "num_t \<Rightarrow> num_t \<Rightarrow> num_t" where
  "num_sub a b = num_add a (num_neg b)"

definition num_mul :: "num_t \<Rightarrow> num_t \<Rightarrow> num_t" where
  "num_mul a b = (let s = (signbit a \<noteq> signbit b) in case (a, b) of
     (NaN, _) \<Rightarrow> NaN
   | (_, NaN) \<Rightarrow> NaN
   | (Inf _, _) \<Rightarrow> if is_zero b then NaN else Inf s
   | (_, Inf _) \<Rightarrow> if is_zero a then NaN else Inf s
   | _ \<Rightarrow> signed_rnd s (num_val a * num_val b))"

definition num_div :: "num_t \<Rightarrow> num_t \<Rightarrow> num_t" where
  "num_div a b = (let s = (signbit a \<noteq> signbit b) in case (a, b) of
     (NaN, _) \<Rightarrow> NaN
   | (_, NaN) \<Rightarrow> NaN
   | (Inf _, Inf _) \<Rightarrow> NaN
   | (Inf _, _) \<Rightarrow> Inf s
   | (_, Inf _) \<Rightarrow> if s then NegZero else Fin 0
   | _ \<Rightarrow> if is_zero b then (if is_zero a then NaN else Inf s)
          else signed_rnd s (num_val a / num_val b))"

definition num_eq :: "num_t \<Rightarrow> num_t \<Rightarrow> bool" where
  "num_eq a b = (case (a, b) of
     (NaN, _) \<Rightarrow> False
   | (_, NaN) \<Rightarrow> False
   | (Inf s, Inf t) \<Rightarrow> s = t
   | (Inf _, _) \<Rightarrow> False
   | (_, Inf _) \<Rightarrow> False
   | _ \<Rightarrow> num_val a = num_val b)"

definition num_lt :: "num_t \<Rightarrow> num_t \<Rightarrow> bool" where
  "num_lt a b = (case (a, b) of
     (NaN, _) \<Rightarrow> False
   | (_, NaN) \<Rightarrow> False
   | (Inf s, Inf t) \<Rightarrow> s \<and> \<not> t
   | (Inf s, _) \<Rightarrow> s
   | (_, Inf t) \<Rightarrow> \<not> t
   | _ \<Rightarrow> num_val a < num_val b)"

definition num_le :: "num_t \<Rightarrow> num_t \<Rightarrow> bool" where
  "num_le a b \<longleftrightarrow> num_lt a b \<or> num_eq a b"

text \<open>Whether a number counts as true in a condition.\<close>

definition num_true :: "num_t \<Rightarrow> bool" where
  "num_true a \<longleftrightarrow> \<not> num_eq a (Fin 0)"

text \<open>The integer that a cast cuts a number to; a NaN or an infinity has none.\<close>

definition num_trunc :: "num_t \<Rightarrow> int option" where
  "num_trunc a = (case a of
     Fin x \<Rightarrow> Some (if x < 0 then - \<lfloor>- x\<rfloor> else \<lfloor>x\<rfloor>)
   | NegZero \<Rightarrow> Some 0
   | _ \<Rightarrow> None)"

text \<open>A cast to a signed integer type; a value that does not fit is undefined in C.\<close>

definition num_cast :: "nat \<Rightarrow> num_t \<Rightarrow> int option" where
  "num_cast bits a = (case num_trunc a of
     Some i \<Rightarrow> if - (2 ^ (bits - 1)) \<le> i \<and> i < 2 ^ (bits - 1) then Some i else None
   | None \<Rightarrow> None)"

section \<open>Integers are exact\<close>

abbreviation exact :: "int \<Rightarrow> bool" where
  "exact i \<equiv> \<bar>i\<bar> \<le> 2 ^ 53"

lemma round_even_int [simp]: "round_even (of_int i) = i"
  by (simp add: round_even_def)

lemma lead_exp_int: "i \<noteq> 0 \<Longrightarrow> lead_exp (of_int i) = bitlen \<bar>i\<bar> - 1"
proof -
  assume "i \<noteq> 0"
  then have "0 < \<bar>i\<bar>" by simp
  then have b: "2 ^ nat (bitlen \<bar>i\<bar> - 1) \<le> \<bar>i\<bar>" "0 < bitlen \<bar>i\<bar>"
    using bitlen_bounds [of "\<bar>i\<bar>"] bitlen_nonneg [of "\<bar>i\<bar>"] bitlen_eq_zero_iff [of "\<bar>i\<bar>"] by auto
  then have "(2 :: rat) powi (bitlen \<bar>i\<bar> - 1) = of_int (2 ^ nat (bitlen \<bar>i\<bar> - 1))"
    by (simp add: power_int_def)
  then have "(2 :: rat) powi (bitlen \<bar>i\<bar> - 1) \<le> of_int \<bar>i\<bar>"
    using b(1) by (simp only: of_int_le_iff)
  moreover have "quotient_of \<bar>of_int i\<bar> = (\<bar>i\<bar>, 1)"
    unfolding of_int_abs [symmetric] by (rule quotient_of_rat_of_int)
  moreover have "bitlen 1 = 1" by (simp add: compute_bitlen)
  ultimately show ?thesis by (simp add: lead_exp_def)
qed

lemma lead_exp_abs [simp]: "lead_exp \<bar>x\<bar> = lead_exp x"
  by (simp add: lead_exp_def)

lemma scaled_back: "e \<le> 0 \<Longrightarrow> of_int (round_even (of_int i / 2 powi e)) * 2 powi e = (of_int i :: rat)"
proof -
  assume "e \<le> 0"
  have "(of_int i :: rat) / 2 powi e = of_int i * 2 powi (- e)"
    by (simp add: power_int_minus_divide)
  also have "(2 :: rat) powi (- e) = of_int (2 ^ nat (- e))"
    using \<open>e \<le> 0\<close> by (simp add: power_int_def)
  finally have "(of_int i :: rat) / 2 powi e = of_int (i * 2 ^ nat (- e))" by simp
  then have "round_even (of_int i / 2 powi e) = i * 2 ^ nat (- e)" by (metis round_even_int)
  then have "of_int (round_even (of_int i / 2 powi e)) * 2 powi e = (of_int i * 2 powi (- e)) * (2 :: rat) powi e"
    using \<open>e \<le> 0\<close> by (simp add: power_int_def)
  then show ?thesis by (simp add: power_int_minus)
qed

lemma rnd_exact:
  assumes "x \<noteq> 0" "e = max (- 1074) (lead_exp x - 52)"
    "of_int (round_even (\<bar>x\<bar> / 2 powi e)) * 2 powi e = \<bar>x\<bar>" "lead_exp x < 1024"
  shows "rnd x = Fin x"
  unfolding rnd_def Let_def assms(2) [symmetric] assms(3) using assms(1,4) by (simp add: lead_exp_abs)

lemma rnd_int:
  assumes "exact i"
  shows "rnd (of_int i) = Fin (of_int i)"
proof (cases "i = 0")
  case False
  let ?e = "max (- 1074) (bitlen \<bar>i\<bar> - 1 - 52)" and ?v = "of_int \<bar>i\<bar> :: rat"
  have "of_int (round_even (?v / 2 powi ?e)) * 2 powi ?e = ?v"
  proof (cases "\<bar>i\<bar> < 2 ^ 53")
    case True
    then have "bitlen \<bar>i\<bar> \<le> 53" by (simp add: bitlen_le_iff_power)
    then show ?thesis by (intro scaled_back) simp
  next
    case False
    then have i: "\<bar>i\<bar> = 2 ^ 53" using assms by linarith
    have "bitlen (2 ^ 53) = 54" using bitlen_pow2 [of 1 53] by (simp add: compute_bitlen)
    then have "?e = 1" unfolding i by simp
    moreover have "?v / 2 powi 1 = of_int (2 ^ 52)" unfolding i by simp
    ultimately show ?thesis unfolding i by (simp only: round_even_int) simp
  qed
  moreover have "bitlen \<bar>i\<bar> - 1 < 1024"
  proof -
    have "\<bar>i\<bar> < 2 ^ 54" using assms by simp
    then show ?thesis using bitlen_le_iff_power [of "\<bar>i\<bar>" 54] by simp
  qed
  ultimately show ?thesis using False
    by (intro rnd_exact [where e = ?e]) (simp_all only: lead_exp_int [OF False] of_int_abs of_int_eq_0_iff not_False_eq_True)
qed (simp add: rnd_def)

lemma num_of_int: "exact i \<Longrightarrow> num_of_int i = Fin (of_int i)"
  by (simp add: num_of_int_def rnd_int)

named_theorems exact_simps \<open>arithmetic on exact integers\<close>

lemma num_add_int [exact_simps]: "exact (i + j) \<Longrightarrow> num_add (Fin (of_int i)) (Fin (of_int j)) = Fin (of_int (i + j))"
  using rnd_int [of "i + j"] by (simp add: num_add_def num_val_def)

lemma num_sub_int [exact_simps]: "exact i \<Longrightarrow> exact (i - j) \<Longrightarrow> num_sub (Fin (of_int i)) (Fin (of_int j)) = Fin (of_int (i - j))"
  using rnd_int [of "i - j"] rnd_int [of i]
  by (simp add: num_sub_def num_neg_def num_add_def num_val_def)

lemma num_mul_int [exact_simps]:
  "exact (i * j) \<Longrightarrow> i * j \<noteq> 0 \<or> 0 \<le> i \<and> 0 \<le> j \<Longrightarrow> num_mul (Fin (of_int i)) (Fin (of_int j)) = Fin (of_int (i * j))"
  using rnd_int [of "i * j"] by (auto simp: num_mul_def num_val_def signed_rnd_def signbit_def)

lemma num_trunc_int [exact_simps]: "num_trunc (Fin (of_int i)) = Some i"
  using floor_of_int [of "- i"] by (simp add: num_trunc_def)

lemma num_cmp_int [exact_simps]:
  "num_eq (Fin (of_int i)) (Fin (of_int j)) \<longleftrightarrow> i = j"
  "num_lt (Fin (of_int i)) (Fin (of_int j)) \<longleftrightarrow> i < j"
  "num_le (Fin (of_int i)) (Fin (of_int j)) \<longleftrightarrow> i \<le> j"
  by (auto simp: num_eq_def num_lt_def num_le_def num_val_def)

lemma num_true_int [exact_simps]: "num_true (Fin (of_int i)) \<longleftrightarrow> i \<noteq> 0"
  using num_cmp_int(1) [of i 0] by (simp add: num_true_def)

end
