(* ===== verification/NspValue.thy ===== *)
theory NspValue
  imports NspDouble NspTable "HOL-Library.Signed_Division"
begin

text \<open>
  Values of the NSP language and the binary operators: \<open>n_evalop\<close> of \<open>src/src/nsp/src/libnsp/parser.c\<close>, the
  conversions of \<open>objects.c\<close> and \<open>n_aton\<close>, \<open>n_ntoa\<close> of \<open>libc.c\<close>. A C function that stops with
  \<open>n_error\<close>, or does something that C leaves undefined, gives the reason as the left value of a sum.
  Objects of the host program (\<open>NT_CDATA\<close>) are not modelled.
\<close>

unbundle bit_operations_syntax

section \<open>Numbers as text\<close>

text \<open>The loops over the digits in front of the point and behind it.\<close>

definition aton_step :: "num_t \<Rightarrow> char \<Rightarrow> num_t" where
  "aton_step rval c = num_add (num_mul (num_of_int 10) rval) (num_of_int (digit_val c))"

definition tenth :: num_t where "tenth = rnd (1 / 10)"

fun aton_frac :: "num_t \<Rightarrow> num_t \<Rightarrow> string \<Rightarrow> num_t" where
  "aton_frac rval rdot [] = rval"
| "aton_frac rval rdot (c # cs) =
     (if isdigit c
      then aton_frac (num_add rval (num_mul (num_of_int (digit_val c)) rdot)) (num_mul rdot tenth) cs
      else rval)"

definition n_aton :: "string \<Rightarrow> num_t" where
  "n_aton str =
     (let neg = (hd0 str = CHR ''-'');
          s = (if neg then tl str else str);
          rval = foldl aton_step (num_of_int 0) (takeWhile isdigit s);
          t = dropWhile isdigit s;
          rval' = (if hd0 t = CHR ''.'' then aton_frac rval tenth (tl t) else rval)
      in if neg then num_sub (num_of_int 0) rval' else rval')"

definition nchars :: string where "nchars = ''0123456789ABCDEF''"

lemma sdiv_smaller: "1 < b \<Longrightarrow> 0 < n sdiv b \<Longrightarrow> 0 < n \<and> n sdiv b < (n :: int)"
proof -
  assume b: "1 < b" and "0 < n sdiv b"
  then have "0 < sgn n * (\<bar>n\<bar> div b)" by (simp add: signed_divide_int_def)
  moreover have "0 \<le> \<bar>n\<bar> div b" using b by (simp add: pos_imp_zdiv_nonneg_iff)
  ultimately have "0 < n" by (simp add: zero_less_mult_iff)
  then show ?thesis using b int_div_less_self [of n b] by (simp add: signed_divide_int_def)
qed

text \<open>The digits of \<open>n\<close>, last one first; the callers pass the bases 8, 10 and 16.\<close>

function ntoa_digits :: "int \<Rightarrow> int \<Rightarrow> string" where
  "ntoa_digits base n = nchars ! nat (n smod base)
     # (if 1 < base \<and> 0 < n sdiv base then ntoa_digits base (n sdiv base) else [])"
  by auto
termination
  by (relation "measure (\<lambda>(base, n). nat n)") (use sdiv_smaller in auto)

declare ntoa_digits.simps [simp del]

text \<open>The digits behind the point. The index into \<open>nchars\<close> is negative for a negative fraction.\<close>

fun ntoa_frac :: "int \<Rightarrow> nat \<Rightarrow> num_t \<Rightarrow> string option" where
  "ntoa_frac base 0 f = Some []"
| "ntoa_frac base (Suc k) f =
     (let f' = num_mul f (num_of_int base) in
      case num_cast 32 f' of
        None \<Rightarrow> None
      | Some i \<Rightarrow> if i smod base < 0 then None
                  else map_option ((#) (nchars ! nat (i smod base))) (ntoa_frac base k f'))"

definition trim_zeros :: "string \<Rightarrow> string" where
  "trim_zeros s =
     (let t = rev (dropWhile (\<lambda>c. c = CHR ''0'') (rev s))
      in if t \<noteq> [] \<and> last t = CHR ''.'' then butlast t else t)"

definition n_ntoa :: "num_t \<Rightarrow> int \<Rightarrow> nat \<Rightarrow> string option" where
  "n_ntoa num base0 dec = (case num_cast 64 num of
     None \<Rightarrow> None
   | Some n0 \<Rightarrow>
      let f0 = num_sub num (num_of_int n0);
          minus = (base0 < 0 \<and> num_lt num (num_of_int 0));
          n = (if minus then - n0 else n0);
          f = (if minus then num_mul f0 (num_of_int (- 1)) else f0);
          base = \<bar>base0\<bar>
      in if n = 2 ^ 63 then None
         else if n smod base < 0 then Some ''nan''
         else let str = (if minus then ''-'' else []) @ rev (ntoa_digits base n)
           in if dec = 0 then Some str
              else map_option (\<lambda>ds. trim_zeros (str @ CHR ''.'' # ds)) (ntoa_frac base dec f))"

section \<open>Values\<close>

datatype stop = SyntaxError | MemError | Thrown | Exited | Undefined | Foreign | NoFuel

type_synonym 'a res = "stop + 'a"

datatype vtype = NT_NULL | NT_BOOLEAN | NT_NUMBER | NT_STRING | NT_NFUNC | NT_CFUNC | NT_TABLE

text \<open>A table is the pointer to its first object, \<open>None\<close> for an empty table.\<close>

datatype val =
    NullV
  | BoolV bool
  | NumV num_t
  | StrV string
  | NFuncV string
  | CFuncV nat
  | TabV "nat option"

primrec nsp_typeof :: "val \<Rightarrow> vtype" where
  "nsp_typeof NullV = NT_NULL"
| "nsp_typeof (BoolV b) = NT_BOOLEAN"
| "nsp_typeof (NumV n) = NT_NUMBER"
| "nsp_typeof (StrV s) = NT_STRING"
| "nsp_typeof (NFuncV c) = NT_NFUNC"
| "nsp_typeof (CFuncV f) = NT_CFUNC"
| "nsp_typeof (TabV f) = NT_TABLE"

primrec nsp_tobool :: "val \<Rightarrow> bool" where
  "nsp_tobool NullV = False"
| "nsp_tobool (BoolV b) = b"
| "nsp_tobool (NumV n) = num_true n"
| "nsp_tobool (StrV s) = (s \<noteq> [])"
| "nsp_tobool (NFuncV c) = True"
| "nsp_tobool (CFuncV f) = True"
| "nsp_tobool (TabV f) = (f \<noteq> None)"

definition nsp_tonum :: "val \<Rightarrow> num_t" where
  "nsp_tonum v = (case v of
     NumV n \<Rightarrow> n
   | BoolV b \<Rightarrow> if b then num_of_int 1 else num_of_int 0
   | StrV s \<Rightarrow> n_aton s
   | _ \<Rightarrow> num_of_int 0)"

definition nsp_tostr :: "val \<Rightarrow> string res" where
  "nsp_tostr v = (case v of
     StrV s \<Rightarrow> Inr (cstr s)
   | BoolV b \<Rightarrow> Inr (if b then ''true'' else ''false'')
   | NumV n \<Rightarrow> (case n_ntoa n (- 10) 6 of Some s \<Rightarrow> Inr s | None \<Rightarrow> Inl Undefined)
   | NullV \<Rightarrow> Inr ''null''
   | _ \<Rightarrow> Inr [])"

text \<open>
  \<open>n_alloc\<close> and \<open>n_realloc\<close> take the size as an \<open>int\<close>: a size that does not fit is a negative number, which
  no allocation satisfies, or too small for the bytes that are then stored.
\<close>

definition n_realloc :: "nat \<Rightarrow> 'a \<Rightarrow> 'a res" where
  "n_realloc sz x = (let got = i32 (int sz) in
     if got < 0 then Inl MemError else if got < int sz then Inl Undefined else Inr x)"

definition nsp_strcat :: "string \<Rightarrow> string \<Rightarrow> val res" where
  "nsp_strcat s t = (if t = [] then Inr (StrV s) else n_realloc (length s + length t + 1) (StrV (s @ t)))"

definition nsp_strmul :: "string \<Rightarrow> nat \<Rightarrow> val res" where
  "nsp_strmul s n = (if n < 2 then Inr (StrV s) else n_realloc (length s * n + 1) (StrV (concat (replicate n s))))"

section \<open>Operators\<close>

text \<open>The operators that cast both numbers to \<open>int\<close>.\<close>

definition int_op :: "(int \<Rightarrow> int \<Rightarrow> int option) \<Rightarrow> num_t \<Rightarrow> num_t \<Rightarrow> val res" where
  "int_op g x y = (case (num_cast 32 x, num_cast 32 y) of
     (Some i, Some j) \<Rightarrow> (case g i j of Some k \<Rightarrow> Inr (NumV (num_of_int k)) | None \<Rightarrow> Inl Undefined)
   | _ \<Rightarrow> Inl Undefined)"

definition int_mod :: "int \<Rightarrow> int \<Rightarrow> int option" where
  "int_mod i j = (if j = 0 \<or> i = - (2 ^ 31) \<and> j = - 1 then None else Some (i smod j))"

definition shift_left :: "int \<Rightarrow> int \<Rightarrow> int option" where
  "shift_left i j = (if 0 \<le> j \<and> j < 32 then Some (i32 (i * 2 ^ nat j)) else None)"

definition shift_right :: "int \<Rightarrow> int \<Rightarrow> int option" where
  "shift_right i j = (if 0 \<le> j \<and> j < 32 then Some (i div 2 ^ nat j) else None)"

definition num_op :: "num_t \<Rightarrow> nat \<Rightarrow> num_t \<Rightarrow> val res" where
  "num_op x opc y =
     (if opc = OP_MCEEQ \<or> opc = OP_MCEQ then Inr (BoolV (num_eq x y))
      else if opc = OP_MCNE then Inr (BoolV (\<not> num_eq x y))
      else if opc = OP_MCLT then Inr (BoolV (num_lt x y))
      else if opc = OP_MCLE then Inr (BoolV (num_le x y))
      else if opc = OP_MCGT then Inr (BoolV (num_lt y x))
      else if opc = OP_MCGE then Inr (BoolV (num_le y x))
      else if opc = OP_MLAND then Inr (BoolV (num_true x \<and> num_true y))
      else if opc = OP_MLOR then Inr (BoolV (num_true x \<or> num_true y))
      else if opc = OP_MADD \<or> opc = OP_MADDADD \<or> opc = OP_MADDEQ then Inr (NumV (num_add x y))
      else if opc = OP_MSUB \<or> opc = OP_MSUBSUB \<or> opc = OP_MSUBEQ then Inr (NumV (num_sub x y))
      else if opc = OP_MMUL \<or> opc = OP_MMULEQ then Inr (NumV (num_mul x y))
      else if opc = OP_MDIV \<or> opc = OP_MDIVEQ then
        Inr (if num_eq y (num_of_int 0) then NullV else NumV (num_div x y))
      else if opc = OP_MMOD then
        if num_eq y (num_of_int 0) then Inr NullV else int_op int_mod x y
      else if opc = OP_MAND then int_op (\<lambda>i j. Some (i AND j)) x y
      else if opc = OP_MOR then int_op (\<lambda>i j. Some (i OR j)) x y
      else if opc = OP_MXOR then int_op (\<lambda>i j. Some (i XOR j)) x y
      else if opc = OP_MSHIFTL then int_op shift_left x y
      else if opc = OP_MSHIFTR then int_op shift_right x y
      else Inl SyntaxError)"

definition str_op :: "string \<Rightarrow> nat \<Rightarrow> string \<Rightarrow> val res" where
  "str_op s opc t =
     (if opc = OP_MADD then nsp_strcat s t
      else let cmp = nc_strcmp (cstr s) (cstr t) in
        if opc = OP_MCEEQ \<or> opc = OP_MCEQ then Inr (BoolV (cmp = 0))
        else if opc = OP_MCNE then Inr (BoolV (cmp \<noteq> 0))
        else if opc = OP_MCLE then Inr (BoolV (cmp \<le> 0))
        else if opc = OP_MCGE then Inr (BoolV (0 \<le> cmp))
        else if opc = OP_MCLT then Inr (BoolV (cmp < 0))
        else if opc = OP_MCGT then Inr (BoolV (0 < cmp))
        else Inl SyntaxError)"

definition bool_op :: "bool \<Rightarrow> nat \<Rightarrow> bool \<Rightarrow> val res" where
  "bool_op p opc q =
     (if opc = OP_MCEEQ \<or> opc = OP_MCEQ then Inr (BoolV (p = q))
      else if opc = OP_MCNE then Inr (BoolV (p \<noteq> q))
      else if opc = OP_MLAND then Inr (BoolV (p \<and> q))
      else if opc = OP_MLOR then Inr (BoolV (p \<or> q))
      else Inl SyntaxError)"

text \<open>The operators that a comparison for equality is the only one of, and those of a table.\<close>

definition only_eq :: "nat \<Rightarrow> bool \<Rightarrow> val res" where
  "only_eq opc b = (if opc = OP_MCEEQ \<or> opc = OP_MCEQ then Inr (BoolV b) else Inl SyntaxError)"

definition eq_or_ne :: "nat \<Rightarrow> bool \<Rightarrow> val res" where
  "eq_or_ne opc b = (if opc = OP_MCNE then Inr (BoolV (\<not> b)) else only_eq opc b)"

definition n_evalop :: "val \<Rightarrow> nat \<Rightarrow> val \<Rightarrow> val res" where
  "n_evalop cobj opc nobj =
     (if opc = OP_MCEEQ \<and> nsp_typeof cobj \<noteq> nsp_typeof nobj then Inr (BoolV False)
      else if nobj = NullV then
        if opc = OP_MLAND then Inr (BoolV False)
        else if opc = OP_MLOR then Inr (BoolV (cobj \<noteq> NullV \<and> nsp_tobool cobj))
        else eq_or_ne opc (cobj = NullV)
      else case cobj of
        NullV \<Rightarrow>
          if opc = OP_MLAND then Inr (BoolV False)
          else if opc = OP_MLOR then Inr (BoolV (num_true (nsp_tonum nobj)))
          else eq_or_ne opc False
      | BoolV p \<Rightarrow> (case nobj of
            NumV y \<Rightarrow> bool_op p opc (num_true y)
          | BoolV q \<Rightarrow> bool_op p opc q
          | StrV t \<Rightarrow> only_eq opc (p \<and> hd0 t \<noteq> NUL)
          | TabV g \<Rightarrow> eq_or_ne opc (p = (g \<noteq> None))
          | _ \<Rightarrow> Inl SyntaxError)
      | NumV x \<Rightarrow> (case nobj of
            StrV t \<Rightarrow> num_op x opc (n_aton t)
          | NumV y \<Rightarrow> num_op x opc y
          | BoolV q \<Rightarrow> only_eq opc (num_true x = q)
          | _ \<Rightarrow> Inl SyntaxError)
      | StrV s \<Rightarrow> (case nobj of
            NumV y \<Rightarrow>
              if opc = OP_MMUL then
                if num_lt y (num_of_int 0) then nsp_strmul s 0
                else case num_cast 32 y of Some n \<Rightarrow> nsp_strmul s (nat n) | None \<Rightarrow> Inl Undefined
              else (case n_ntoa y 10 6 of Some t \<Rightarrow> str_op s opc t | None \<Rightarrow> Inl Undefined)
          | StrV t \<Rightarrow> str_op s opc t
          | BoolV q \<Rightarrow> only_eq opc ((hd0 s \<noteq> NUL) = q)
          | _ \<Rightarrow> Inl SyntaxError)
      | TabV f \<Rightarrow> (case nobj of TabV g \<Rightarrow> eq_or_ne opc (f = g) | _ \<Rightarrow> Inl SyntaxError)
      | _ \<Rightarrow> Inl SyntaxError)"

section \<open>The type of a result\<close>

definition equality_ops :: "nat set" where "equality_ops = {OP_MCEEQ, OP_MCEQ, OP_MCNE}"
definition order_ops :: "nat set" where "order_ops = {OP_MCLT, OP_MCLE, OP_MCGT, OP_MCGE}"
definition logic_ops :: "nat set" where "logic_ops = {OP_MLAND, OP_MLOR}"
definition partial_ops :: "nat set" where "partial_ops = {OP_MDIV, OP_MDIVEQ, OP_MMOD}"
definition total_ops :: "nat set" where
  "total_ops = {OP_MADD, OP_MADDADD, OP_MADDEQ, OP_MSUB, OP_MSUBSUB, OP_MSUBEQ, OP_MMUL, OP_MMULEQ,
     OP_MAND, OP_MOR, OP_MXOR, OP_MSHIFTL, OP_MSHIFTR}"

lemmas op_classes = equality_ops_def order_ops_def logic_ops_def partial_ops_def total_ops_def

text \<open>The types a result can have, from the types of the operands; none when the operator is not defined.\<close>

definition op_types :: "vtype \<Rightarrow> nat \<Rightarrow> vtype \<Rightarrow> vtype set" where
  "op_types t opc u =
     (let bools = (\<lambda>ops. if opc \<in> ops then {NT_BOOLEAN} else {}) in
      if opc = OP_MCEEQ \<and> t \<noteq> u then {NT_BOOLEAN}
      else if t = NT_NULL \<or> u = NT_NULL then bools (equality_ops \<union> logic_ops)
      else case (t, u) of
        (NT_BOOLEAN, NT_BOOLEAN) \<Rightarrow> bools (equality_ops \<union> logic_ops)
      | (NT_BOOLEAN, NT_NUMBER) \<Rightarrow> bools (equality_ops \<union> logic_ops)
      | (NT_BOOLEAN, NT_STRING) \<Rightarrow> bools {OP_MCEQ}
      | (NT_BOOLEAN, NT_TABLE) \<Rightarrow> bools equality_ops
      | (NT_NUMBER, NT_BOOLEAN) \<Rightarrow> bools {OP_MCEQ}
      | (NT_STRING, NT_BOOLEAN) \<Rightarrow> bools {OP_MCEQ}
      | (NT_TABLE, NT_TABLE) \<Rightarrow> bools equality_ops
      | (NT_STRING, NT_STRING) \<Rightarrow> if opc = OP_MADD then {NT_STRING} else bools (equality_ops \<union> order_ops)
      | (NT_STRING, NT_NUMBER) \<Rightarrow> if opc = OP_MADD \<or> opc = OP_MMUL then {NT_STRING} else bools (equality_ops \<union> order_ops)
      | (NT_NUMBER, w) \<Rightarrow>
          if w \<noteq> NT_NUMBER \<and> w \<noteq> NT_STRING then {}
          else if opc \<in> total_ops then {NT_NUMBER}
          else if opc \<in> partial_ops then {NT_NUMBER, NT_NULL}
          else bools (equality_ops \<union> order_ops \<union> logic_ops)
      | _ \<Rightarrow> {})"

text \<open>What is shown of one result: its type is among the expected ones, and an operator that is refused has none.\<close>

definition typed :: "vtype set \<Rightarrow> val res \<Rightarrow> bool" where
  "typed ts r = (case r of Inr v \<Rightarrow> nsp_typeof v \<in> ts | Inl e \<Rightarrow> e = SyntaxError \<longrightarrow> ts = {})"

lemma typed_int_op [simp]: "typed ts (int_op g x y) \<longleftrightarrow> NT_NUMBER \<in> ts \<or> (\<exists>e. int_op g x y = Inl e)"
  by (auto simp: typed_def int_op_def split: option.splits)

lemma typed_num_op:
  "typed (if opc \<in> total_ops then {NT_NUMBER} else if opc \<in> partial_ops then {NT_NUMBER, NT_NULL}
     else if opc \<in> equality_ops \<union> order_ops \<union> logic_ops then {NT_BOOLEAN} else {}) (num_op x opc y)"
  unfolding num_op_def op_classes
  by (simp split: if_splits) (auto simp: typed_def int_op_def split: option.splits if_splits)

lemma typed_n_realloc: "typed {NT_STRING} (n_realloc n (StrV s))"
  by (simp add: typed_def n_realloc_def Let_def)

lemma typed_str_op:
  "typed (if opc = OP_MADD then {NT_STRING} else if opc \<in> equality_ops \<union> order_ops then {NT_BOOLEAN} else {}) (str_op s opc t)"
  using typed_n_realloc unfolding str_op_def op_classes nsp_strcat_def
  by (auto simp: typed_def Let_def)

lemma typed_bool_op: "typed (if opc \<in> equality_ops \<union> logic_ops then {NT_BOOLEAN} else {}) (bool_op p opc q)"
  unfolding bool_op_def op_classes by (auto simp: typed_def)

lemma typed_eq_or_ne: "typed (if opc \<in> equality_ops then {NT_BOOLEAN} else {}) (eq_or_ne opc p)"
  unfolding eq_or_ne_def only_eq_def op_classes by (auto simp: typed_def)

lemma typed_only_eq: "opc \<noteq> OP_MCEEQ \<Longrightarrow> typed (if opc = OP_MCEQ then {NT_BOOLEAN} else {}) (only_eq opc p)"
  by (simp add: only_eq_def typed_def)

lemma typed_strmul: "typed {NT_STRING} (nsp_strmul s n)"
  using typed_n_realloc by (simp add: nsp_strmul_def typed_def)

lemma typed_simps [simp]: "typed ts (Inl Undefined)" "typed {} (Inl SyntaxError)"
  "typed ts (Inr (BoolV b)) \<longleftrightarrow> NT_BOOLEAN \<in> ts"
  by (simp_all add: typed_def)

lemma typed_null:
  "cobj = NullV \<or> nobj = NullV \<Longrightarrow> typed (op_types (nsp_typeof cobj) opc (nsp_typeof nobj)) (n_evalop cobj opc nobj)"
  using typed_eq_or_ne [of opc]
  by (cases cobj; cases nobj) (auto simp: n_evalop_def op_types_def op_classes split: if_splits)

lemma typed_str_num: "typed (op_types NT_STRING opc NT_NUMBER) (n_evalop (StrV s) opc (NumV y))"
proof (cases "opc = OP_MCEEQ \<or> opc = OP_MMUL")
  case True
  then show ?thesis using typed_strmul
    by (auto simp: n_evalop_def op_types_def split: option.splits)
next
  case False
  then have t: "op_types NT_STRING opc NT_NUMBER
      = (if opc = OP_MADD then {NT_STRING} else if opc \<in> equality_ops \<union> order_ops then {NT_BOOLEAN} else {})"
    by (simp add: op_types_def)
  show ?thesis
  proof (cases "n_ntoa y 10 6")
    case (Some u)
    then have "n_evalop (StrV s) opc (NumV y) = str_op s opc u" using False by (simp add: n_evalop_def)
    then show ?thesis unfolding t using typed_str_op by metis
  qed (use False in \<open>simp add: n_evalop_def\<close>)
qed

text \<open>
  C33. The types of the operands decide what a binary operator does: whatever it returns has
  one of the types that \<open>op_types\<close> lists for them, and it stops with a syntax error only where the list is
  empty. In particular a comparison returns a boolean, arithmetic on numbers a number, and only
  division and remainder can return null.
\<close>

theorem n_evalop_type: "typed (op_types (nsp_typeof cobj) opc (nsp_typeof nobj)) (n_evalop cobj opc nobj)"
proof (cases "cobj = NullV \<or> nobj = NullV \<or> (\<exists>s y. cobj = StrV s \<and> nobj = NumV y)")
  case False
  then show ?thesis
    using typed_num_op [of opc] typed_str_op [of opc] typed_bool_op [of opc] typed_eq_or_ne [of opc]
    by (cases cobj; cases nobj) (simp_all add: n_evalop_def op_types_def typed_only_eq Let_def)
next
  case True
  then show ?thesis using typed_null typed_str_num by auto
qed

section \<open>Printing and reading integers\<close>

lemma smod_pos: "0 \<le> n \<Longrightarrow> 0 < b \<Longrightarrow> n smod b = n mod b \<and> n sdiv b = n div (b :: int)"
  by (simp add: signed_modulo_int_def signed_divide_int_def sgn_if)

lemma nchars_digit: "k < 10 \<Longrightarrow> nchars ! k = char_of (48 + k)"
proof -
  assume "k < 10"
  moreover have "list_all (\<lambda>k. nchars ! k = char_of (48 + k)) [0..<10]" by code_simp
  ultimately show ?thesis unfolding list_all_iff by simp
qed

lemma ntoa_digits_dec: "rev (ntoa_digits 10 (int n)) = dec_nat n"
proof (induction n rule: dec_nat.induct)
  case (1 n)
  have d: "int n smod 10 = int (n mod 10)" "int n sdiv 10 = int (n div 10)"
    using smod_pos [of "int n" 10] by (simp_all add: zmod_int zdiv_int)
  show ?case
  proof (cases "n < 10")
    case True
    then show ?thesis
      by (simp add: ntoa_digits.simps [of 10 "int n"] dec_nat.simps [of n] d nchars_digit)
  next
    case False
    then have "0 < n div 10" by simp
    then show ?thesis using 1 [OF False] False
      by (simp add: ntoa_digits.simps [of 10 "int n"] dec_nat.simps [of n] d nchars_digit)
  qed
qed

lemma ntoa_frac_zero: "f = Fin 0 \<or> f = NegZero \<Longrightarrow> ntoa_frac 10 k f = Some (replicate k (CHR ''0''))"
proof (induction k arbitrary: f)
  case (Suc k)
  then have "num_mul f (num_of_int 10) = f"
    by (auto simp: num_of_int num_mul_def is_zero_def signed_rnd_def num_val_def signbit_def)
  moreover have "num_cast 32 f = Some 0" using Suc.prems by (auto simp: num_cast_def num_trunc_def)
  moreover have "nchars ! 0 = CHR ''0''" by (simp add: nchars_def)
  ultimately show ?case using Suc by simp
qed simp

lemma trim_zeros_int: "trim_zeros (s @ CHR ''.'' # replicate k (CHR ''0'')) = s"
proof -
  have "dropWhile (\<lambda>c. c = CHR ''0'') (replicate k (CHR ''0'') @ CHR ''.'' # rev s) = CHR ''.'' # rev s"
    by (induction k) simp_all
  then show ?thesis by (simp add: trim_zeros_def)
qed

text \<open>Printing an exact integer, with a sign where the base is negative.\<close>

lemma n_ntoa_int:
  assumes "exact i" "base = - 10 \<or> base = 10 \<and> 0 \<le> i"
  shows "n_ntoa (num_of_int i) base dec = Some (dec_int i)"
proof -
  let ?minus = "base < 0 \<and> num_lt (num_of_int i) (num_of_int 0)"
  have lt: "num_lt (Fin (of_int i)) (Fin 0) \<longleftrightarrow> i < 0" using num_cmp_int(2) [of i 0] by simp
  have "num_cast 64 (num_of_int i) = Some i"
    using assms(1) by (auto simp: num_of_int num_cast_def exact_simps)
  moreover have m: "?minus \<longleftrightarrow> i < 0"
    using assms lt by (auto simp: num_of_int)
  moreover have "(if ?minus then - i else i) = \<bar>i\<bar>" unfolding m by simp
  moreover have "num_sub (num_of_int i) (num_of_int i) = Fin 0"
    using assms(1) num_sub_int [of i i] by (simp add: num_of_int)
  moreover have "num_mul (Fin 0) (num_of_int (- 1)) = NegZero"
    by (simp add: num_of_int num_mul_def signed_rnd_def signbit_def num_val_def)
  moreover have "\<bar>i\<bar> \<noteq> 2 ^ 63" using assms(1) by simp
  moreover have "\<not> \<bar>i\<bar> smod 10 < 0" using smod_pos [of "\<bar>i\<bar>" 10] by simp
  moreover have "rev (ntoa_digits 10 \<bar>i\<bar>) = dec_nat (nat \<bar>i\<bar>)" using ntoa_digits_dec [of "nat \<bar>i\<bar>"] by simp
  moreover have "\<bar>base\<bar> = 10" using assms(2) by auto
  moreover have "(if i < 0 then ''-'' else []) @ dec_nat (nat \<bar>i\<bar>) = dec_int i" by (simp add: dec_int_def)
  ultimately have "n_ntoa (num_of_int i) base dec = (if dec = 0 then Some (dec_int i)
      else map_option (\<lambda>ds. trim_zeros (dec_int i @ CHR ''.'' # ds)) (ntoa_frac 10 dec (if i < 0 then NegZero else Fin 0)))"
    unfolding n_ntoa_def Let_def by (simp only: option.case if_False)
  then show ?thesis by (simp add: ntoa_frac_zero trim_zeros_int)
qed

text \<open>A loop that reads digits, one at a time, into a number.\<close>

locale digit_loop =
  fixes step :: "num_t \<Rightarrow> char \<Rightarrow> num_t"
  assumes step_exact: "0 \<le> v \<Longrightarrow> isdigit c \<Longrightarrow> exact (10 * v + digit_val c)
    \<Longrightarrow> step (Fin (of_int v)) c = Fin (of_int (10 * v + digit_val c))"
begin

lemma loop_exact:
  "list_all isdigit ds \<Longrightarrow> exact (digits_val ds) \<Longrightarrow>
     0 \<le> digits_val ds \<and> foldl step (Fin 0) ds = Fin (of_int (digits_val ds))"
proof (induction ds rule: rev_induct)
  case Nil
  then show ?case by (simp add: digits_val_def)
next
  case (snoc c ds)
  have v: "digits_val (ds @ [c]) = 10 * digits_val ds + digit_val c" by (rule digits_val_snoc)
  have c: "isdigit c" "list_all isdigit ds" using snoc.prems(1) by auto
  have d: "0 \<le> digit_val c" using c(1) by (simp add: digit_val_def isdigit_def)
  have "0 \<le> digits_val ds" using c(2)
    by (induction ds rule: rev_induct) (auto simp: digits_val_snoc digit_val_def isdigit_def digits_val_def [of "[]"])
  moreover have "exact (digits_val ds)" using snoc.prems(2) d \<open>0 \<le> digits_val ds\<close> v by linarith
  ultimately have "foldl step (Fin 0) ds = Fin (of_int (digits_val ds))" using snoc.IH c(2) by blast
  then show ?case using step_exact [OF \<open>0 \<le> digits_val ds\<close> c(1)] snoc.prems(2) d \<open>0 \<le> digits_val ds\<close>
    by (simp add: v)
qed

end

lemma digit_exact: "isdigit c \<Longrightarrow> num_of_int (digit_val c) = Fin (of_int (digit_val c))"
  by (rule num_of_int) (simp add: digit_val_def isdigit_def)

lemma num_mul_ten:
  "0 \<le> v \<Longrightarrow> exact (10 * v) \<Longrightarrow> num_mul (num_of_int 10) (Fin (of_int v)) = Fin (of_int (10 * v))
     \<and> num_mul (Fin (of_int v)) (num_of_int 10) = Fin (of_int (10 * v))"
  using num_mul_int [of 10 v] num_mul_int [of v 10] by (simp add: num_of_int mult.commute)

interpretation aton: digit_loop aton_step
proof
  fix v c assume v: "0 \<le> v" and c: "isdigit c" and e: "exact (10 * v + digit_val c)"
  have "0 \<le> digit_val c" using c by (simp add: digit_val_def isdigit_def)
  then have "exact (10 * v)" using v e by linarith
  then show "aton_step (Fin (of_int v)) c = Fin (of_int (10 * v + digit_val c))"
    using num_mul_ten [OF v] digit_exact [OF c] num_add_int [OF e] by (simp add: aton_step_def)
qed

lemma n_aton_nat: "exact (int n) \<Longrightarrow> foldl aton_step (num_of_int 0) (takeWhile isdigit (dec_nat n)) = Fin (of_int (int n))"
proof -
  assume "exact (int n)"
  moreover have "list_all isdigit (dec_nat n)" using dec_nat_digits by (auto simp: list_all_iff)
  moreover have t: "takeWhile isdigit (dec_nat n) = dec_nat n" using dec_nat_digits by (metis takeWhile_eq_all_conv)
  ultimately show ?thesis unfolding t using aton.loop_exact [of "dec_nat n"] by (simp add: digits_val_dec_nat num_of_int)
qed

lemma dec_nat_drop: "dropWhile isdigit (dec_nat n) = []"
  using dec_nat_digits by (auto simp: dropWhile_eq_Nil_conv)

lemma dec_nat_head: "hd0 (dec_nat n) \<noteq> CHR ''-''"
proof -
  have "isdigit (hd0 (dec_nat n))"
    using dec_nat_digits [of "hd (dec_nat n)" n] by (cases "dec_nat n") (auto simp: hd0_def dec_nat_nonempty)
  moreover have "\<not> isdigit (CHR ''-'')" by (simp add: isdigit_def)
  ultimately show ?thesis by auto
qed

text \<open>
  C34. An integer of up to 53 bits survives the trip through text: \<open>n_ntoa\<close> with a signed base prints it
  in decimal with no fraction, and \<open>n_aton\<close> reads the same number back.
\<close>

theorem n_aton_n_ntoa:
  assumes "\<bar>i\<bar> \<le> 2 ^ 53"
  shows "\<exists>s. n_ntoa (num_of_int i) (- 10) 6 = Some s \<and> s = dec_int i \<and> n_aton s = num_of_int i"
proof (intro exI conjI)
  show "n_ntoa (num_of_int i) (- 10) 6 = Some (dec_int i)" using assms by (rule n_ntoa_int) simp
  let ?n = "nat \<bar>i\<bar>"
  have r: "foldl aton_step (num_of_int 0) (takeWhile isdigit (dec_nat ?n)) = Fin (of_int (int ?n))"
    using assms by (intro n_aton_nat) simp
  show "n_aton (dec_int i) = num_of_int i"
  proof (cases "i < 0")
    case True
    then have "dec_int i = CHR ''-'' # dec_nat ?n" by (simp add: dec_int_def)
    then have "n_aton (dec_int i) = num_sub (num_of_int 0) (Fin (of_int (int ?n)))"
      unfolding n_aton_def Let_def r [symmetric] by (simp add: dec_nat_drop hd0_def NUL_def)
    also have "\<dots> = Fin (of_int i)"
      using num_sub_int [of 0 "int ?n"] assms True by (simp add: num_of_int)
    finally show ?thesis using assms by (simp add: num_of_int)
  next
    case False
    then have "dec_int i = dec_nat ?n" by (simp add: dec_int_def)
    then have "n_aton (dec_int i) = Fin (of_int (int ?n))"
      unfolding n_aton_def Let_def r [symmetric] by (simp add: dec_nat_drop dec_nat_head hd0_def [of "[]"] NUL_def)
    then show ?thesis using assms False by (simp add: num_of_int)
  qed
qed simp

theorem n_aton_n_ntoa_witness:
  "\<bar>- 120\<bar> \<le> (2 :: int) ^ 53 \<and> (\<exists>s. n_ntoa (num_of_int (- 120)) (- 10) 6 = Some s \<and> s = dec_int (- 120) \<and> n_aton s = num_of_int (- 120))"
  using n_aton_n_ntoa [of "- 120"] by simp

section \<open>Operators that go wrong\<close>

text \<open>
  A negative number that is appended to a string is printed without its sign: as \<open>nan\<close>, or as a zero
  when it is a multiple of ten. \<open>n_evalop\<close> passes the base 10 where \<open>nsp_tostr\<close> passes -10.
\<close>

theorem append_negative_number:
  "n_evalop (StrV ''a'') OP_MADD (NumV (Fin (- 5))) = Inr (StrV ''anan'')"
  "n_evalop (StrV ''a'') OP_MADD (NumV (Fin (- 20))) = Inr (StrV ''a0'')"
  "nsp_tostr (NumV (Fin (- 5))) = Inr ''-5''"
  by code_simp+

text \<open>A fraction in front of which there is only a zero indexes \<open>nchars\<close> with a negative number.\<close>

theorem append_negative_fraction: "n_evalop (StrV ''a'') OP_MADD (NumV (Fin (- 1 / 2))) = Inl Undefined"
  by code_simp

text \<open>The remainder is guarded against zero before its right operand is cut to an integer.\<close>

theorem modulo_of_fraction: "n_evalop (NumV (Fin 5)) OP_MMOD (NumV (Fin (1 / 2))) = Inl Undefined"
  by code_simp

text \<open>A string times zero is the string, and a product that needs 4 GB is stored in a buffer of one byte.\<close>

theorem string_times_number:
  "n_evalop (StrV ''ab'') OP_MMUL (NumV (Fin 0)) = Inr (StrV ''ab'')"
  "nsp_strmul ''abcd'' (2 ^ 30) = Inl Undefined"
  by (code_simp, simp add: nsp_strmul_def n_realloc_def i32_def)

text \<open>Comparing a boolean with a string depends on which one is on the left.\<close>

theorem bool_string_equality:
  "n_evalop (BoolV False) OP_MCEQ (StrV []) = Inr (BoolV False)"
  "n_evalop (StrV []) OP_MCEQ (BoolV False) = Inr (BoolV True)"
  by code_simp+

end
