(* ===== verification/NspEval.thy ===== *)
theory NspEval
  imports NspValue NspLayout
begin

text \<open>
  The expression evaluator of the NSP language: \<open>n_evalobj\<close>, \<open>n_evalsub\<close> and \<open>nsp_eval\<close> of
  \<open>src/src/nsp/src/libnsp/parser.c\<close>, with \<open>n_skipto\<close> of \<open>block.c\<close>. It walks compiled code with a read pointer.
  Operands are constants, variables with the prefix and suffix operators, and expressions in
  parentheses; an operand that indexes a table, calls a function, assigns or builds a table
  ends in \<open>Foreign\<close>. The recursion is bounded by fuel; expressions up to a depth get by
  with that much, which \<open>nsp_eval_refines\<close> shows.
\<close>

section \<open>State\<close>

text \<open>
  The variables in scope and the read pointer. \<open>tabs\<close> holds the objects of a table, by the
  pointer to the first of them.
\<close>

record ectx =
  locals :: "val table"
  globals :: "val table"
  tabs :: "nat \<Rightarrow> val obj list"
  readptr :: int
  linenum :: int

definition res_bind :: "'a res \<Rightarrow> ('a \<Rightarrow> 'b res) \<Rightarrow> 'b res" where
  "res_bind m f = (case m of Inl e \<Rightarrow> Inl e | Inr x \<Rightarrow> f x)"

definition opt_res :: "'a option \<Rightarrow> 'a res" where
  "opt_res m = (case m of None \<Rightarrow> Inl Undefined | Some x \<Rightarrow> Inr x)"

definition n_peekop :: "string \<Rightarrow> ectx \<Rightarrow> (nat \<times> ectx) res" where
  "n_peekop code st = opt_res (map_option (\<lambda>(b, p, lno). (b, st\<lparr>readptr := p, linenum := lno\<rparr>))
     (n_skip_ws code (readptr st) (linenum st)))"

definition n_expect :: "string \<Rightarrow> nat \<Rightarrow> ectx \<Rightarrow> ectx res" where
  "n_expect code opc st = res_bind (n_peekop code st) (\<lambda>(b, st'). if b = opc then Inr st' else Inl SyntaxError)"

definition advance :: "int \<Rightarrow> ectx \<Rightarrow> ectx" where
  "advance n st = st\<lparr>readptr := readptr st + n\<rparr>"

text \<open>The loop of \<open>n_skipto\<close>: whether the operator was found, and where the pointer is.\<close>

partial_function (option) skipto_loop :: "string \<Rightarrow> nat \<Rightarrow> int \<Rightarrow> int \<Rightarrow> (bool \<times> int \<times> int) option" where
  "skipto_loop code c p lno = (case rd code p of
     None \<Rightarrow> None
   | Some b \<Rightarrow>
       if b = 0 then Some (False, p, lno)
       else Option.bind (if b = OP_LINENUM then n_skip_ws code p lno else Some (b, p, lno)) (\<lambda>(b', p', lno').
         if b' = c then Some (True, p', lno')
         else Option.bind (n_seekop code p' True) (\<lambda>q. skipto_loop code c q lno')))"

definition n_skipto :: "string \<Rightarrow> nat \<Rightarrow> ectx \<Rightarrow> ectx res" where
  "n_skipto code c st = res_bind (opt_res (skipto_loop code c (readptr st) (linenum st))) (\<lambda>(found, p, lno).
     if found then Inr (st\<lparr>readptr := p, linenum := lno\<rparr>) else Inl SyntaxError)"

text \<open>The loop that passes the branch of \<open>? :\<close> that is not taken.\<close>

partial_function (option) skip_branch :: "string \<Rightarrow> int \<Rightarrow> int \<Rightarrow> (int \<times> int) option" where
  "skip_branch code p lno = (case rd code p of
     None \<Rightarrow> None
   | Some b \<Rightarrow>
       if b = 0 then Some (p, lno)
       else Option.bind (n_skip_ws code p lno) (\<lambda>(b', p', lno').
         if b' = OP_PCPAREN \<or> b' = OP_PCOMMA \<or> b' = OP_PSEMICOL then Some (p', lno')
         else Option.bind (n_seekop code p' True) (\<lambda>q. skip_branch code q lno')))"

declare skipto_loop.simps [code] skip_branch.simps [code]

section \<open>Operands\<close>

text \<open>The bytes from a pointer on, and the C string there.\<close>

definition bytes_from :: "string \<Rightarrow> int \<Rightarrow> string option" where
  "bytes_from code p = (if 0 \<le> p \<and> p \<le> int (length code) then Some (drop (nat p) code) else None)"

definition getnum_step :: "num_t \<Rightarrow> char \<Rightarrow> num_t" where
  "getnum_step rval c = num_add (num_mul rval (num_of_int 10)) (num_of_int (digit_val c))"

fun getnum_frac :: "num_t \<Rightarrow> num_t \<Rightarrow> string \<Rightarrow> num_t" where
  "getnum_frac rval rdot [] = rval"
| "getnum_frac rval rdot (c # cs) =
     (if isdigit c
      then getnum_frac (num_add rval (num_mul rdot (num_of_int (digit_val c)))) (num_mul rdot tenth) cs
      else rval)"

definition num_text :: "string \<Rightarrow> num_t" where
  "num_text s =
     (let rval = foldl getnum_step (num_of_int 0) (takeWhile isdigit s); t = dropWhile isdigit s
      in if hd0 t = CHR ''.'' then getnum_frac rval tenth (tl t) else rval)"

text \<open>Both loops stop at a byte that is no digit.\<close>

definition num_ends :: "string \<Rightarrow> bool" where
  "num_ends s = (case dropWhile isdigit s of
     [] \<Rightarrow> False
   | c # t \<Rightarrow> c = CHR ''.'' \<longrightarrow> dropWhile isdigit t \<noteq> [])"

definition n_getnumber :: "string \<Rightarrow> ectx \<Rightarrow> (num_t \<times> ectx) res" where
  "n_getnumber code st =
     res_bind (opt_res (rd code (readptr st + 1))) (\<lambda>len.
     res_bind (opt_res (bytes_from code (readptr st + 2))) (\<lambda>s.
       if num_ends s then Inr (num_text s, advance (3 + int len) st) else Inl Undefined))"

definition n_getstring :: "string \<Rightarrow> ectx \<Rightarrow> (val \<times> ectx) res" where
  "n_getstring code st =
     res_bind (opt_res (readi4 code (readptr st + 1))) (\<lambda>sz.
     res_bind (opt_res (bytes_from code (readptr st + 5))) (\<lambda>s.
       if 0 \<le> sz \<and> sz \<le> int (length s) then Inr (StrV (take (nat sz) s), advance (6 + sz) st) else Inl Undefined))"

definition n_getlabel :: "string \<Rightarrow> ectx \<Rightarrow> (string \<times> ectx) res" where
  "n_getlabel code st =
     res_bind (opt_res (rd code (readptr st + 1))) (\<lambda>len.
     res_bind (opt_res (bytes_from code (readptr st + 2))) (\<lambda>s.
       if NUL \<in> set s then Inr (cstr s, advance (3 + int len) st) else Inl Undefined))"

section \<open>Variables\<close>

datatype place_var = LocalVar nat | FieldVar nat nat | GlobalVar nat

fun index_named :: "32 word \<Rightarrow> string \<Rightarrow> 'v obj list \<Rightarrow> nat option" where
  "index_named h k [] = None"
| "index_named h k (x # xs) = (if same_name h k x then Some 0 else map_option Suc (index_named h k xs))"

definition table_first :: "val \<Rightarrow> nat option" where
  "table_first v = (case v of TabV f \<Rightarrow> f | _ \<Rightarrow> None)"

text \<open>Where \<open>nsp_getobj\<close> finds a variable: the local ones, the fields of \<open>this\<close>, the global ones.\<close>

definition find_var :: "ectx \<Rightarrow> string \<Rightarrow> place_var option" where
  "find_var st k =
     (let h = cdb_hash k in
      case index_named h k (objs (locals st)) of
        Some i \<Rightarrow> Some (LocalVar i)
      | None \<Rightarrow>
          (case Option.bind (snd (scan_locals h k (objs (locals st)) None)) (\<lambda>x. table_first (obj_val x)) of
             Some f \<Rightarrow> (case index_named h k (tabs st f) of
                 Some i \<Rightarrow> Some (FieldVar f i)
               | None \<Rightarrow> map_option GlobalVar (index_named h k (objs (globals st))))
           | None \<Rightarrow> map_option GlobalVar (index_named h k (objs (globals st)))))"

definition var_val :: "ectx \<Rightarrow> place_var \<Rightarrow> val" where
  "var_val st pl = (case pl of
     LocalVar i \<Rightarrow> obj_val (objs (locals st) ! i)
   | FieldVar f i \<Rightarrow> obj_val (tabs st f ! i)
   | GlobalVar i \<Rightarrow> obj_val (objs (globals st) ! i))"

definition set_nth_val :: "nat \<Rightarrow> 'v \<Rightarrow> 'v obj list \<Rightarrow> 'v obj list" where
  "set_nth_val i v xs = xs[i := (xs ! i)\<lparr>obj_val := v\<rparr>]"

definition set_var :: "place_var \<Rightarrow> val \<Rightarrow> ectx \<Rightarrow> ectx" where
  "set_var pl v st = (case pl of
     LocalVar i \<Rightarrow> st\<lparr>locals := (locals st)\<lparr>objs := set_nth_val i v (objs (locals st))\<rparr>\<rparr>
   | FieldVar f i \<Rightarrow> st\<lparr>tabs := (tabs st)(f := set_nth_val i v (tabs st f))\<rparr>
   | GlobalVar i \<Rightarrow> st\<lparr>globals := (globals st)\<lparr>objs := set_nth_val i v (objs (globals st))\<rparr>\<rparr>)"

text \<open>The number that a suffix operator leaves in the variable, and the pointer behind it.\<close>

definition suffix_op :: "string \<Rightarrow> place_var \<Rightarrow> num_t \<Rightarrow> ectx \<Rightarrow> ectx res" where
  "suffix_op code pl n st = res_bind (opt_res (rd code (readptr st))) (\<lambda>b.
     Inr (if b = OP_MADDADD then set_var pl (NumV (num_add n (num_of_int 1))) (advance 1 st)
          else if b = OP_MSUBSUB then set_var pl (NumV (num_sub n (num_of_int 1))) (advance 1 st)
          else st))"

text \<open>The value of a variable as an operand, with the operator in front of it.\<close>

definition read_num :: "string \<Rightarrow> nat \<Rightarrow> place_var \<Rightarrow> num_t \<Rightarrow> ectx \<Rightarrow> (val \<times> ectx) res" where
  "read_num code preop pl n st =
     (let x = (if preop = OP_MADDADD then num_add n (num_of_int 1)
               else if preop = OP_MSUBSUB then num_sub n (num_of_int 1) else n);
          st1 = (if preop = OP_MADDADD \<or> preop = OP_MSUBSUB then set_var pl (NumV x) st else st)
      in res_bind (suffix_op code pl x st1) (\<lambda>st2. Inr (NumV (if preop = OP_MSUB then num_neg x else x), st2)))"

definition eval_label :: "string \<Rightarrow> nat \<Rightarrow> ectx \<Rightarrow> (val \<times> ectx) res" where
  "eval_label code preop st =
     res_bind (n_getlabel code st) (\<lambda>(l, st1).
     let pl = find_var st1 l; v = (case pl of Some q \<Rightarrow> var_val st1 q | None \<Rightarrow> NullV) in
     res_bind (n_peekop code st1) (\<lambda>(b, st2).
       if b = OP_POBRACKET \<or> b = OP_PDOT \<or> b = OP_POPAREN \<or> b = OP_MEQ then Inl Foreign
       else if b = OP_MADDEQ \<or> b = OP_MSUBEQ \<or> b = OP_MMULEQ \<or> b = OP_MDIVEQ then
         Inl (if v = NullV then SyntaxError else Foreign)
       else res_bind
         (case (pl, v) of (Some q, NumV n) \<Rightarrow> read_num code preop q n st2 | _ \<Rightarrow> Inr (v, st2))
         (\<lambda>(w, st3). Inr (if preop = OP_MLNOT then BoolV (\<not> nsp_tobool w) else w, st3))))"

section \<open>Expressions\<close>

fun n_evalobj :: "nat \<Rightarrow> string \<Rightarrow> ectx \<Rightarrow> (val \<times> ectx) res"
  and n_evalsub :: "nat \<Rightarrow> string \<Rightarrow> val \<Rightarrow> ectx \<Rightarrow> (val \<times> ectx) res"
  and nsp_eval :: "nat \<Rightarrow> string \<Rightarrow> ectx \<Rightarrow> (val \<times> ectx) res" where
  "n_evalobj 0 code st = Inl NoFuel"
| "n_evalobj (Suc k) code st =
     res_bind (n_peekop code st) (\<lambda>(b, st).
       if b = OP_POBRACE then Inl Foreign
       else if b = OP_POPAREN then
         res_bind (opt_res (n_seekop code (readptr st) False)) (\<lambda>p.
         res_bind (nsp_eval k code (st\<lparr>readptr := p\<rparr>)) (\<lambda>(v, st).
         res_bind (n_expect code OP_PCPAREN st) (\<lambda>st. Inr (v, advance 1 st))))
       else
         let preop = (if OP_ISMATH b then b else 0); st = (if OP_ISMATH b then advance 1 st else st) in
         res_bind (n_peekop code st) (\<lambda>(b, st).
           if b = OP_STRDATA \<or> b = OP_ESTRDATA then n_getstring code st
           else if b = OP_NUMDATA then
             res_bind (n_getnumber code st) (\<lambda>(n, st). Inr (NumV (if preop = OP_MSUB then num_neg n else n), st))
           else if b = OP_LABEL then eval_label code preop st
           else Inr (NullV, st)))"
| "n_evalsub 0 code obj1 st = Inl NoFuel"
| "n_evalsub (Suc k) code obj1 st =
     res_bind (n_peekop code st) (\<lambda>(op2, st).
       if \<not> OP_ISMATH op2 then Inr (obj1, st)
       else let st = advance 1 st in
         if op2 = OP_MLAND \<and> \<not> nsp_tobool obj1 then
           res_bind (n_skipto code OP_PCPAREN st) (n_evalsub k code obj1)
         else if op2 = OP_MQUESTION then
           if nsp_tobool obj1 then
             res_bind (n_evalobj k code st) (\<lambda>(obj2, st).
             if nsp_typeof obj2 = NT_TABLE then Inl Foreign else
             res_bind (n_expect code OP_MCOLON st) (\<lambda>st.
             res_bind (opt_res (skip_branch code (readptr st + 1) (linenum st))) (\<lambda>(p, lno).
             n_evalsub k code obj2 (st\<lparr>readptr := p, linenum := lno\<rparr>))))
           else
             res_bind (n_skipto code OP_MCOLON st) (\<lambda>st.
             res_bind (n_evalobj k code (advance 1 st)) (\<lambda>(obj2, st).
             res_bind (n_evalsub k code obj2 st) (\<lambda>(obj2, st).
             if nsp_typeof obj2 = NT_TABLE then Inl Foreign else n_evalsub k code obj2 st)))
         else
           res_bind (n_evalobj k code st) (\<lambda>(obj2, st).
           res_bind (opt_res (rd code (readptr st))) (\<lambda>nxt.
           res_bind (if OP_ISMATH nxt \<and> op_priority (oplist op2) < op_priority (oplist nxt)
                     then n_evalsub k code obj2 st else Inr (obj2, st)) (\<lambda>(obj2, st).
           res_bind (n_evalop obj1 op2 obj2) (\<lambda>v. n_evalsub k code v st)))))"
| "nsp_eval 0 code st = Inl NoFuel"
| "nsp_eval (Suc k) code st = res_bind (n_evalobj k code st) (\<lambda>(v, st). n_evalsub k code v st)"

end
