(* ===== verification/NspExpr.thy ===== *)
theory NspExpr
  imports NspEval
begin

text \<open>
  What the evaluator computes, stated on expressions instead of code: the operands and
  operators of an expression, the value the evaluator gives it, and the value that the
  priorities of \<open>oplist\<close> give it by the usual rules. The evaluator implements the first,
  and the first is the second for expressions in which no operator binds less than an
  earlier one once the priority has risen.
\<close>

section \<open>Expressions\<close>

datatype operand =
    ONum bool string
  | OStr string
  | OVar string
  | OParen operand "(nat \<times> operand) list"

fun ocode :: "operand \<Rightarrow> instr list" and rcode :: "(nat \<times> operand) list \<Rightarrow> instr list" where
  "ocode (ONum neg s) = (if neg then [IOp OP_MSUB] else []) @ [IShort OP_NUMDATA s]"
| "ocode (OStr s) = [ILong OP_STRDATA s]"
| "ocode (OVar x) = [IShort OP_LABEL x]"
| "ocode (OParen a r) =
     IParen (int (length (encs (ocode a @ rcode r)))) # ocode a @ rcode r @ [IOp OP_PCPAREN]"
| "rcode [] = []"
| "rcode ((opc, a) # r) = IOp opc # ocode a @ rcode r"

definition binops :: "nat list" where
  "binops = [OP_MADD, OP_MSUB, OP_MMUL, OP_MDIV, OP_MMOD, OP_MAND, OP_MOR, OP_MXOR, OP_MLAND, OP_MLOR,
     OP_MCEQ, OP_MCEEQ, OP_MCNE, OP_MCLE, OP_MCGE, OP_MCLT, OP_MCGT, OP_MSHIFTR, OP_MSHIFTL]"

fun wf_operand :: "operand \<Rightarrow> bool" and wf_rest :: "(nat \<times> operand) list \<Rightarrow> bool" where
  "wf_operand (ONum neg s) \<longleftrightarrow> length s \<le> 255 \<and> list_all (\<lambda>c. isdigit c \<or> c = CHR ''.'') s"
| "wf_operand (OStr s) \<longleftrightarrow> length s < 2 ^ 31"
| "wf_operand (OVar x) \<longleftrightarrow> length x \<le> 255 \<and> is_cstr x"
| "wf_operand (OParen a r) \<longleftrightarrow> wf_operand a \<and> wf_rest r"
| "wf_rest [] \<longleftrightarrow> True"
| "wf_rest ((opc, a) # r) \<longleftrightarrow> opc \<in> set binops \<and> wf_operand a \<and> wf_rest r"

text \<open>The value of a variable in scope.\<close>

definition var_env :: "ectx \<Rightarrow> string \<Rightarrow> val" where
  "var_env st x = (case find_var st x of Some pl \<Rightarrow> var_val st pl | None \<Rightarrow> NullV)"

definition prio :: "nat \<Rightarrow> nat" where "prio opc = op_priority (oplist opc)"

text \<open>
  The value the evaluator computes: once an operator binds more than the one in front of it, all
  that follows is evaluated as its right operand. A false left operand of \<open>&&\<close> ends the expression.
\<close>

fun oval :: "(string \<Rightarrow> val) \<Rightarrow> operand \<Rightarrow> val res"
  and esub :: "(string \<Rightarrow> val) \<Rightarrow> val \<Rightarrow> (nat \<times> operand) list \<Rightarrow> val res" where
  "oval env (ONum neg s) = Inr (NumV (if neg then num_neg (num_text s) else num_text s))"
| "oval env (OStr s) = Inr (StrV s)"
| "oval env (OVar x) = Inr (env x)"
| "oval env (OParen a r) = res_bind (oval env a) (\<lambda>v. esub env v r)"
| "esub env v [] = Inr v"
| "esub env v ((opc, a) # r) =
     (if opc = OP_MLAND \<and> \<not> nsp_tobool v then Inr v
      else res_bind (oval env a) (\<lambda>w.
        if r \<noteq> [] \<and> prio opc < prio (fst (hd r))
        then res_bind (esub env w r) (n_evalop v opc)
        else res_bind (n_evalop v opc w) (\<lambda>v'. esub env v' r)))"

text \<open>The fuel an expression needs.\<close>

fun ofuel :: "operand \<Rightarrow> nat" and rfuel :: "(nat \<times> operand) list \<Rightarrow> nat" where
  "ofuel (ONum neg s) = 1"
| "ofuel (OStr s) = 1"
| "ofuel (OVar x) = 1"
| "ofuel (OParen a r) = 2 + ofuel a + rfuel r"
| "rfuel [] = 1"
| "rfuel ((opc, a) # r) = 1 + ofuel a + rfuel r"

section \<open>Reading operands\<close>

lemma res_bind_simps [simp]: "res_bind (Inl e) f = Inl e" "res_bind (Inr x) f = f x"
  by (simp_all add: res_bind_def)

lemma res_bind_assoc: "res_bind (res_bind m f) g = res_bind m (\<lambda>x. res_bind (f x) g)"
  by (cases m) simp_all

lemma res_bind_Inr: "res_bind m Inr = m"
  by (cases m) simp_all

lemma opt_res_simps [simp]: "opt_res None = Inl Undefined" "opt_res (Some x) = Inr x"
  by (simp_all add: opt_res_def)

lemma peek_at:
  assumes "at_ops code (i # is) (readptr st)" "wf_instr i" "iop i \<noteq> OP_LINENUM"
  shows "n_peekop code st = Inr (iop i, st)"
  using at_ops_rd [OF assms(1,2)] assms(3) by (simp add: n_peekop_def n_skip_ws.simps [of code "readptr st"])

lemma bytes_from_append: "bytes_from (a @ b) (int (length a)) = Some b"
  by (simp add: bytes_from_def)

lemma short_at:
  assumes "at_ops code (IShort opc s # is) (readptr st)" "length s \<le> 255"
  shows "rd code (readptr st + 1) = Some (length s)"
    "\<exists>t. bytes_from code (readptr st + 2) = Some (s @ NUL # t)"
proof -
  obtain pre where c: "code = pre @ op_byte opc # char_of (length s mod 256) # s @ NUL # encs is @ zeros"
      and p: "readptr st = int (length pre)"
    using assms(1) by (auto simp: at_ops_def short_data_def)
  show "rd code (readptr st + 1) = Some (length s)"
    using rd_append [of pre "op_byte opc # char_of (length s mod 256) # s @ NUL # encs is @ zeros" 1] assms(2)
    by (simp add: c p) (simp add: rd_def)
  show "\<exists>t. bytes_from code (readptr st + 2) = Some (s @ NUL # t)"
    using bytes_from_append [of "pre @ [op_byte opc, char_of (length s mod 256)]" "s @ NUL # encs is @ zeros"]
    by (simp add: c p add.commute)
qed

lemma num_text_ends: "num_ends (s @ NUL # t)" "num_text (s @ NUL # t) = num_text s"
proof -
  have nul: "\<not> isdigit NUL" "NUL \<noteq> CHR ''.''" by (simp_all add: NUL_def isdigit_def)
  have frac: "getnum_frac r d (u @ NUL # t) = getnum_frac r d u" for r d u
    by (induction r d u rule: getnum_frac.induct) (simp_all add: nul)
  have walk: "dropWhile isdigit (u @ NUL # t) = dropWhile isdigit u @ NUL # t"
      "takeWhile isdigit (u @ NUL # t) = takeWhile isdigit u" for u
    by (induction u) (simp_all add: nul)
  show "num_ends (s @ NUL # t)"
    unfolding num_ends_def walk using nul walk(1) by (cases "dropWhile isdigit s") (auto simp del: dropWhile_eq_Nil_conv)
  show "num_text (s @ NUL # t) = num_text s"
    unfolding num_text_def walk using nul by (cases "dropWhile isdigit s") (simp_all add: hd0_def frac Let_def del: dropWhile_eq_Nil_conv)
qed

lemma getnumber_at:
  assumes "at_ops code (IShort opc s # is) (readptr st)" "wf_operand (ONum neg s)"
  shows "n_getnumber code st = Inr (num_text s, advance (int (length (enc (IShort opc s)))) st)"
  using short_at [OF assms(1)] assms(2) num_text_ends [of s]
  by (auto simp: n_getnumber_def short_data_def add.commute)

lemma getlabel_at:
  assumes "at_ops code (IShort opc s # is) (readptr st)" "wf_operand (OVar s)"
  shows "n_getlabel code st = Inr (s, advance (int (length (enc (IShort opc s)))) st)"
proof -
  have "cstr (s @ NUL # t) = s" for t
    using assms(2) by (induction s) (auto simp: cstr_def is_cstr_def)
  then show ?thesis using short_at [OF assms(1)] assms(2)
    by (auto simp: n_getlabel_def short_data_def add.commute)
qed

lemma getstring_at:
  assumes "at_ops code (ILong opc s # is) (readptr st)" "wf_operand (OStr s)"
  shows "n_getstring code st = Inr (StrV s, advance (int (length (enc (ILong opc s)))) st)"
proof -
  obtain pre where c: "code = (pre @ [op_byte opc]) @ writei4 (int (length s)) @ s @ NUL # encs is @ zeros"
      and p: "readptr st = int (length pre)"
    using assms(1) by (auto simp: at_ops_def long_data_def)
  have "readi4 code (readptr st + 1) = Some (int (length s))"
    using readi4_writei4 [of "pre @ [op_byte opc]" "int (length s)" "s @ NUL # encs is @ zeros"] assms(2)
    by (simp add: c p add.commute)
  moreover have "bytes_from code (readptr st + 5) = Some (s @ NUL # encs is @ zeros)"
    using bytes_from_append [of "(pre @ [op_byte opc]) @ writei4 (int (length s))" "s @ NUL # encs is @ zeros"]
    by (simp add: c p add.commute)
  ultimately show ?thesis by (simp add: n_getstring_def long_data_def add.commute)
qed

section \<open>Passing over an expression\<close>

lemma wf_binop: "opc \<in> set binops \<Longrightarrow> OP_ISMATH opc \<and> opc \<noteq> OP_LINENUM \<and> \<not> closer opc
    \<and> opc \<noteq> OP_MQUESTION \<and> opc \<noteq> OP_MCOLON \<and> opc < 255"
  by (auto simp: binops_def OP_ISMATH_def closer_def)

lemma leaf_codes:
  "wf_operand (ONum neg s) \<Longrightarrow> leaf_instr (IShort OP_NUMDATA s)"
  "wf_operand (OStr s) \<Longrightarrow> leaf_instr (ILong OP_STRDATA s)"
  "wf_operand (OVar s) \<Longrightarrow> leaf_instr (IShort OP_LABEL s)"
  "opc \<in> set binops \<Longrightarrow> leaf_instr (IOp opc)"
  "leaf_instr (IOp OP_MSUB)"
  by (auto simp: leaf_instr_def closer_def binops_def OP_ISMATH_def)

lemma wf_codes [simp]: "wf_instr (IParen n)" "opc \<in> set binops \<Longrightarrow> wf_instr (IOp opc)"
  using leaf_codes(4) [of opc] by (simp_all add: leaf_instr_def del: wf_instr.simps(6))

text \<open>A walk that passes leaves and parenthesised blocks one at a time passes expressions.\<close>

locale passes =
  fixes walk :: "int \<Rightarrow> 'w" and code :: string
  assumes pass_leaf: "leaf_instr i \<Longrightarrow> iop i \<noteq> OP_LINENUM \<Longrightarrow> at_ops code (i # is) p
    \<Longrightarrow> walk p = walk (p + int (length (enc i)))"
    and pass_block: "at_ops code (IParen n # is) p \<Longrightarrow> skipblock code OP_PCPAREN (p + 3) = Some q \<Longrightarrow> walk p = walk q"
begin

lemma pass_leaf_at:
  assumes "leaf_instr i" "iop i \<noteq> OP_LINENUM" "at_ops code (i # is) p"
  shows "walk p = walk (p + int (length (enc i))) \<and> at_ops code is (p + int (length (enc i)))"
  using pass_leaf [OF assms] at_ops_next [OF assms(3)] by simp

end

interpretation block: passes "skipblock code OP_PCPAREN" code for code
proof
  fix i "is" p
  assume "leaf_instr i" "at_ops code (i # is) p"
  then show "skipblock code OP_PCPAREN p = skipblock code OP_PCPAREN (p + int (length (enc i)))"
    by (rule leaf_skip) (simp add: closer_def)
next
  fix n "is" p q
  assume "at_ops code (IParen n # is) p" "skipblock code OP_PCPAREN (p + 3) = Some q"
  then show "skipblock code OP_PCPAREN p = skipblock code OP_PCPAREN q"
    using skipblock_paren(1) [of code n "is" p OP_PCPAREN] by (simp add: closer_def)
qed

interpretation skipto: passes "\<lambda>p. skipto_loop code OP_PCPAREN p lno" code for code lno
proof
  fix i "is" p
  assume i: "leaf_instr i" "iop i \<noteq> OP_LINENUM" "at_ops code (i # is) p"
  then have "rd code p = Some (iop i)" "seek_one code p = Some (p + int (length (enc i)))"
    using at_ops_rd at_ops_seek by (auto simp: leaf_instr_def)
  then show "skipto_loop code OP_PCPAREN p lno = skipto_loop code OP_PCPAREN (p + int (length (enc i))) lno"
    using i iop_byte [of i]
    by (subst skipto_loop.simps) (simp add: leaf_instr_def closer_def n_seekop_def)
next
  fix n "is" p q
  assume "at_ops code (IParen n # is) p" "skipblock code OP_PCPAREN (p + 3) = Some q"
  then show "skipto_loop code OP_PCPAREN p lno = skipto_loop code OP_PCPAREN q lno"
    using at_ops_rd [of code "IParen n" "is" p]
    by (subst skipto_loop.simps) (simp add: n_seekop_def)
qed

lemma skipblock_expr:
  "at_ops code (ocode a @ is) p \<Longrightarrow> wf_operand a \<Longrightarrow>
     skipblock code OP_PCPAREN p = skipblock code OP_PCPAREN (p + int (length (encs (ocode a))))
     \<and> at_ops code is (p + int (length (encs (ocode a))))"
  "at_ops code (rcode r @ is) p \<Longrightarrow> wf_rest r \<Longrightarrow>
     skipblock code OP_PCPAREN p = skipblock code OP_PCPAREN (p + int (length (encs (rcode r))))
     \<and> at_ops code is (p + int (length (encs (rcode r))))"
proof (induction a and r arbitrary: "is" p and "is" p rule: ocode_rcode.induct)
  case (1 neg s)
  note leaf = block.pass_leaf_at [OF leaf_codes(1) [OF 1(2)], of code]
  show ?case
  proof (cases neg)
    case True
    then have "at_ops code (IOp OP_MSUB # IShort OP_NUMDATA s # is) p" using 1(1) by simp
    then show ?thesis using leaf [of "is" "p + 1"] block.pass_leaf_at [OF leaf_codes(5), of code _ p] True
      by (auto simp: algebra_simps)
  qed (use 1 leaf [of "is" p] in auto)
next
  case (2 s)
  then show ?case using block.pass_leaf_at [OF leaf_codes(2), of s code "is" p] by simp
next
  case (3 x)
  then show ?case using block.pass_leaf_at [OF leaf_codes(3), of x code "is" p] by simp
next
  case (4 a r)
  let ?a = "int (length (encs (ocode a)))" and ?r = "int (length (encs (rcode r)))"
  have at: "at_ops code (IParen (int (length (encs (ocode a @ rcode r)))) # ocode a @ rcode r @ IOp OP_PCPAREN # is) p"
    using "4.prems"(1) by simp
  note par = skipblock_paren [OF at, of OP_PCPAREN]
  have a: "skipblock code OP_PCPAREN (p + 3) = skipblock code OP_PCPAREN (p + 3 + ?a)"
      "at_ops code (rcode r @ IOp OP_PCPAREN # is) (p + 3 + ?a)"
    using "4.IH"(1) [of "rcode r @ IOp OP_PCPAREN # is" "p + 3"] par(2) "4.prems"(2) by (simp_all add: closer_def)
  have r: "skipblock code OP_PCPAREN (p + 3 + ?a) = skipblock code OP_PCPAREN (p + 3 + ?a + ?r)"
      "at_ops code (IOp OP_PCPAREN # is) (p + 3 + ?a + ?r)"
    using "4.IH"(2) [of "IOp OP_PCPAREN # is" "p + 3 + ?a"] a(2) "4.prems"(2) by simp_all
  have "skipblock code OP_PCPAREN (p + 3 + ?a + ?r) = Some (p + 3 + ?a + ?r + 1)" "at_ops code is (p + 3 + ?a + ?r + 1)"
    using skipblock_stop [OF r(2) wf_close(2), of OP_PCPAREN] by (simp_all add: closer_def)
  then show ?case using par(1) a r by (simp add: closer_def algebra_simps)
next
  case (6 opc a r)
  then have at: "at_ops code (IOp opc # ocode a @ rcode r @ is) p" by simp
  have "skipblock code OP_PCPAREN p = skipblock code OP_PCPAREN (p + 1)" "at_ops code (ocode a @ rcode r @ is) (p + 1)"
    using block.pass_leaf_at [OF leaf_codes(4) _ at] "6.prems"(2) wf_binop [of opc] by auto
  then show ?case
    using "6.IH"(1) [of "rcode r @ is" "p + 1"] "6.IH"(2) [of "is" "p + 1 + int (length (encs (ocode a)))"] "6.prems"(2)
    by (simp add: algebra_simps)
qed simp

text \<open>The block of a parenthesised expression ends behind its closing parenthesis.\<close>

lemma skipblock_close:
  assumes at: "at_ops code (ocode a @ rcode r @ IOp OP_PCPAREN # is) p" and wf: "wf_operand a" "wf_rest r"
  shows "skipblock code OP_PCPAREN p = Some (p + int (length (encs (ocode a @ rcode r))) + 1)
    \<and> at_ops code is (p + int (length (encs (ocode a @ rcode r))) + 1)"
proof -
  note a = skipblock_expr(1) [OF at wf(1)]
  note r = skipblock_expr(2) [OF a [THEN conjunct2] wf(2)]
  show ?thesis using a r skipblock_stop [OF r [THEN conjunct2] wf_close(2), of OP_PCPAREN]
    by (simp add: closer_def algebra_simps)
qed

context passes
begin

lemma pass_expr:
  "at_ops code (ocode a @ is) p \<Longrightarrow> wf_operand a \<Longrightarrow>
     walk p = walk (p + int (length (encs (ocode a)))) \<and> at_ops code is (p + int (length (encs (ocode a))))"
proof (cases a)
  case (ONum neg s)
  assume at: "at_ops code (ocode a @ is) p" and wf: "wf_operand a"
  note leaf = pass_leaf_at [OF leaf_codes(1) [OF wf [unfolded ONum]]]
  show ?thesis
  proof (cases neg)
    case True
    then have "at_ops code (IOp OP_MSUB # IShort OP_NUMDATA s # is) p" using at ONum by simp
    then show ?thesis using leaf [of "is" "p + 1"] pass_leaf_at [OF leaf_codes(5), of _ p] True ONum
      by (auto simp: algebra_simps)
  qed (use at ONum leaf [of "is" p] in auto)
next
  case (OStr s)
  assume "at_ops code (ocode a @ is) p" "wf_operand a"
  then show ?thesis using OStr pass_leaf_at [OF leaf_codes(2), of s "is" p] by simp
next
  case (OVar x)
  assume "at_ops code (ocode a @ is) p" "wf_operand a"
  then show ?thesis using OVar pass_leaf_at [OF leaf_codes(3), of x "is" p] by simp
next
  case (OParen b r)
  assume "at_ops code (ocode a @ is) p" and wf: "wf_operand a"
  then have at: "at_ops code (IParen (int (length (encs (ocode b @ rcode r)))) # ocode b @ rcode r @ IOp OP_PCPAREN # is) p"
    using OParen by simp
  then show ?thesis
    using skipblock_close [of code b r "is" "p + 3"] at_ops_next [OF at] pass_block [OF at] wf OParen
    by (simp add: algebra_simps)
qed

lemma pass_rest:
  "at_ops code (rcode r @ is) p \<Longrightarrow> wf_rest r \<Longrightarrow>
     walk p = walk (p + int (length (encs (rcode r)))) \<and> at_ops code is (p + int (length (encs (rcode r))))"
proof (induction r arbitrary: p)
  case (Cons x r)
  obtain opc a where x: "x = (opc, a)" by (cases x)
  have at: "at_ops code (IOp opc # ocode a @ rcode r @ is) p" using Cons.prems x by simp
  have wf: "opc \<in> set binops" "wf_operand a" "wf_rest r" using Cons.prems x by simp_all
  have "walk p = walk (p + 1)" "at_ops code (ocode a @ rcode r @ is) (p + 1)"
    using pass_leaf_at [OF leaf_codes(4) [OF wf(1)] _ at] wf_binop [OF wf(1)] by auto
  then show ?case using pass_expr [of a "rcode r @ is" "p + 1"] Cons.IH [of "p + 1 + int (length (encs (ocode a)))"] wf x
    by (simp add: algebra_simps)
qed simp

end

section \<open>The evaluator computes the value\<close>

text \<open>
  What ends an expression: the closing parenthesis around it, or a \<open>;\<close> if there is no \<open>&&\<close>, whose short
  circuit looks for a parenthesis. An operand is followed by an operator or the end.
\<close>

definition ends :: "nat \<Rightarrow> (nat \<times> operand) list \<Rightarrow> bool" where
  "ends e r \<longleftrightarrow> e = OP_PCPAREN \<or> e = OP_PSEMICOL \<and> OP_MLAND \<notin> fst ` set r"

definition follows :: "instr list \<Rightarrow> bool" where
  "follows is \<longleftrightarrow> (\<exists>opc is'. is = IOp opc # is' \<and> (opc \<in> set binops \<or> opc = OP_PCPAREN \<or> opc = OP_PSEMICOL))"

lemma follows_rest: "wf_rest r \<Longrightarrow> ends e r \<Longrightarrow> follows (rcode r @ IOp e # is)"
  by (cases r) (auto simp: follows_def ends_def)

lemma wf_end: "ends e r \<Longrightarrow> wf_instr (IOp e) \<and> \<not> OP_ISMATH e \<and> e \<noteq> OP_LINENUM"
  by (auto simp: ends_def OP_ISPUNC_def OP_ISMATH_def)

lemma ends_Cons: "ends e ((opc, a) # r) \<Longrightarrow> ends e r \<and> (opc = OP_MLAND \<longrightarrow> e = OP_PCPAREN)"
  by (auto simp: ends_def)

lemma ends_paren [simp]: "ends OP_PCPAREN r"
  by (simp add: ends_def)

lemma follows_wf: "follows is \<Longrightarrow> \<exists>opc is'. is = IOp opc # is' \<and> wf_instr (IOp opc) \<and> opc \<noteq> OP_LINENUM
    \<and> opc \<notin> {OP_POBRACKET, OP_PDOT, OP_POPAREN, OP_MEQ, OP_MADDEQ, OP_MSUBEQ, OP_MMULEQ, OP_MDIVEQ, OP_MADDADD, OP_MSUBSUB}"
  using wf_close(2) by (auto simp: follows_def) (auto simp: binops_def OP_ISMATH_def OP_ISPUNC_def)

lemma advance_sel [simp]:
  "readptr (advance n st) = readptr st + n" "locals (advance n st) = locals st" "globals (advance n st) = globals st"
  "tabs (advance n st) = tabs st" "advance m (advance n st) = advance (n + m) st" "advance 0 st = st"
  by (simp_all add: advance_def)

lemma advance_vars [simp]: "find_var (advance n st) = find_var st" "var_val (advance n st) = var_val st"
  unfolding fun_eq_iff find_var_def var_val_def advance_sel by (rule allI, rule refl)+

lemma advance_env [simp]: "var_env (advance n st) = var_env st"
  unfolding fun_eq_iff var_env_def advance_vars by (rule allI, rule refl)

lemma eval_var:
  assumes at: "at_ops code (IShort OP_LABEL x # is) (readptr st)" and wf: "wf_operand (OVar x)" and f: "follows is"
  shows "eval_label code 0 st = Inr (var_env st x, advance (int (length (enc (IShort OP_LABEL x)))) st)"
proof -
  let ?st = "advance (int (length (enc (IShort OP_LABEL x)))) st"
  obtain opc is' where i: "is = IOp opc # is'" "wf_instr (IOp opc)" "opc \<noteq> OP_LINENUM"
      and opc: "opc \<notin> {OP_POBRACKET, OP_PDOT, OP_POPAREN, OP_MEQ, OP_MADDEQ, OP_MSUBEQ, OP_MMULEQ, OP_MDIVEQ, OP_MADDADD, OP_MSUBSUB}"
    using follows_wf [OF f] by blast
  have at': "at_ops code (IOp opc # is') (readptr ?st)" using at_ops_next [OF at] i(1) by simp
  have "n_peekop code ?st = Inr (opc, ?st)" using peek_at [OF at' i(2)] i(3) by simp
  moreover have "read_num code 0 q n ?st = Inr (NumV n, ?st)" for q n
    using at_ops_rd [OF at' i(2)] opc by (simp add: read_num_def suffix_op_def)
  ultimately show ?thesis
    using getlabel_at [OF at wf] opc
    by (auto simp: eval_label_def Let_def var_env_def split: option.splits val.splits)
qed

lemma skipto_close:
  assumes at: "at_ops code (ocode a @ rcode r @ IOp OP_PCPAREN # is) (readptr st)" and wf: "wf_operand a" "wf_rest r"
  shows "n_skipto code OP_PCPAREN st = Inr (advance (int (length (encs (ocode a @ rcode r)))) st)"
proof -
  note a = skipto.pass_expr [OF at wf(1), of "linenum st"]
  note r = skipto.pass_rest [OF a [THEN conjunct2] wf(2), of "linenum st"]
  have "skipto_loop code OP_PCPAREN q (linenum st) = Some (True, q, linenum st)" if "at_ops code (IOp OP_PCPAREN # is) q" for q
    using at_ops_rd [OF that wf_close(2)] by (subst skipto_loop.simps) simp
  then show ?thesis using a r by (simp add: n_skipto_def advance_def algebra_simps)
qed

lemma evalsub_stop:
  assumes "at_ops code (IOp e # is) (readptr st)" "ends e r" "0 < k"
  shows "n_evalsub k code v st = Inr (v, st)"
proof -
  note e = wf_end [OF assms(2)]
  have "n_peekop code st = Inr (e, st)" using peek_at [OF assms(1) e [THEN conjunct1]] e by simp
  then show ?thesis using assms(3) e by (cases k) simp_all
qed

lemma at_after:
  "at_ops code (ocode a @ is) (readptr st) \<Longrightarrow> wf_operand a \<Longrightarrow>
     at_ops code is (readptr (advance (int (length (encs (ocode a)))) st))"
  "at_ops code (rcode r @ is) (readptr st) \<Longrightarrow> wf_rest r \<Longrightarrow>
     at_ops code is (readptr (advance (int (length (encs (rcode r)))) st))"
  using skipblock_expr by auto

lemma eval_leaf:
  assumes at: "at_ops code (ocode a @ is) (readptr st)" and wf: "wf_operand a" and f: "follows is"
    and a: "\<And>b r. a \<noteq> OParen b r" and k: "0 < k"
  shows "n_evalobj k code st = res_bind (oval (var_env st) a) (\<lambda>v. Inr (v, advance (int (length (encs (ocode a)))) st))"
proof -
  obtain k' where k': "k = Suc k'" using k by (cases k) auto
  show ?thesis
  proof (cases a)
    case (ONum neg s)
    have wi: "wf_instr (IShort OP_NUMDATA s)" using wf ONum by simp
    show ?thesis
    proof (cases neg)
      case True
      then have at1: "at_ops code (IOp OP_MSUB # IShort OP_NUMDATA s # is) (readptr st)" using at ONum by simp
      have at2: "at_ops code (IShort OP_NUMDATA s # is) (readptr (advance 1 st))" using at_ops_next [OF at1] by simp
      have "wf_instr (IOp OP_MSUB)" using leaf_codes(5) by (simp add: leaf_instr_def)
      then show ?thesis
        using peek_at [OF at1] peek_at [OF at2 wi] getnumber_at [OF at2, of neg] wf ONum True k'
        by (simp add: OP_ISMATH_def add.commute)
    next
      case False
      then have at1: "at_ops code (IShort OP_NUMDATA s # is) (readptr st)" using at ONum by simp
      then show ?thesis
        using peek_at [OF at1 wi] getnumber_at [OF at1, of neg] wf ONum False k' by (simp add: OP_ISMATH_def)
    qed
  next
    case (OStr s)
    then have at1: "at_ops code (ILong OP_STRDATA s # is) (readptr st)" using at by simp
    then show ?thesis
      using peek_at [OF at1] getstring_at [OF at1] wf OStr k' by (simp add: OP_ISMATH_def)
  next
    case (OVar x)
    then have at1: "at_ops code (IShort OP_LABEL x # is) (readptr st)" using at by simp
    then show ?thesis
      using peek_at [OF at1] eval_var [OF at1] wf f OVar k' by (simp add: OP_ISMATH_def)
  qed (use a in auto)
qed

lemma eval_refines:
  "at_ops code (ocode a @ is) (readptr st) \<Longrightarrow> wf_operand a \<Longrightarrow> follows is \<Longrightarrow> ofuel a \<le> k \<Longrightarrow>
     n_evalobj k code st = res_bind (oval (var_env st) a) (\<lambda>v. Inr (v, advance (int (length (encs (ocode a)))) st))"
  "at_ops code (rcode r @ IOp e # is) (readptr st) \<Longrightarrow> wf_rest r \<Longrightarrow> ends e r \<Longrightarrow> rfuel r \<le> k \<Longrightarrow>
     n_evalsub k code v st = res_bind (esub (var_env st) v r) (\<lambda>v. Inr (v, advance (int (length (encs (rcode r)))) st))"
proof (induction a and r arbitrary: "is" st k and "is" st k v e rule: ocode_rcode.induct)
  case (1 neg s)
  show ?case by (rule eval_leaf [OF "1.prems"(1-3)]) (use "1.prems"(4) in auto)
next
  case (2 s)
  show ?case by (rule eval_leaf [OF "2.prems"(1-3)]) (use "2.prems"(4) in auto)
next
  case (3 x)
  show ?case by (rule eval_leaf [OF "3.prems"(1-3)]) (use "3.prems"(4) in auto)
next
  case (4 a r)
  obtain k' where k: "k = Suc (Suc k')" "ofuel a \<le> k'" "rfuel r \<le> k'"
    using "4.prems"(4) by (cases k; cases "k - 1") auto
  have at: "at_ops code (IParen (int (length (encs (ocode a @ rcode r)))) # ocode a @ rcode r @ IOp OP_PCPAREN # is) (readptr st)"
    using "4.prems"(1) by simp
  let ?st1 = "advance 3 st" and ?a = "int (length (encs (ocode a)))" and ?r = "int (length (encs (rcode r)))"
  have at1: "at_ops code (ocode a @ rcode r @ IOp OP_PCPAREN # is) (readptr ?st1)" using at_ops_next [OF at] by simp
  have wf: "wf_operand a" "wf_rest r" using "4.prems"(2) by simp_all
  have a: "n_evalobj k' code ?st1 = res_bind (oval (var_env st) a) (\<lambda>v. Inr (v, advance ?a ?st1))"
    using "4.IH"(1) [OF at1 wf(1) follows_rest [OF wf(2) ends_paren] k(2)] by simp
  have at2: "at_ops code (rcode r @ IOp OP_PCPAREN # is) (readptr (advance ?a ?st1))"
    by (rule at_after(1) [OF at1 wf(1)])
  have r: "n_evalsub k' code v (advance ?a ?st1) = res_bind (esub (var_env st) v r) (\<lambda>v. Inr (v, advance ?r (advance ?a ?st1)))" for v
    using "4.IH"(2) [OF at2 wf(2) ends_paren k(3)] by simp
  have at3: "at_ops code (IOp OP_PCPAREN # is) (readptr (advance ?r (advance ?a ?st1)))"
    by (rule at_after(2) [OF at2 wf(2)])
  have expect: "n_expect code OP_PCPAREN (advance ?r (advance ?a ?st1)) = Inr (advance ?r (advance ?a ?st1))"
    using peek_at [OF at3 wf_close(2)] by (simp add: n_expect_def)
  have "n_peekop code st = Inr (OP_POPAREN, st)" using peek_at [OF at] by simp
  moreover have "n_seekop code (readptr st) False = Some (readptr st + 3)"
    using at_ops_rd [OF at] at_ops_seek [OF at] by (simp add: n_seekop_def)
  moreover have "st\<lparr>readptr := readptr st + 3\<rparr> = ?st1" by (simp add: advance_def)
  ultimately have "n_evalobj k code st = res_bind (res_bind (n_evalobj k' code ?st1) (\<lambda>(v, st). n_evalsub k' code v st))
      (\<lambda>(v, st). res_bind (n_expect code OP_PCPAREN st) (\<lambda>st. Inr (v, advance 1 st)))"
    unfolding k(1) by simp
  also have "\<dots> = res_bind (oval (var_env st) a) (\<lambda>v. res_bind (esub (var_env st) v r)
      (\<lambda>v. Inr (v, advance 1 (advance ?r (advance ?a ?st1)))))"
    unfolding a by (cases "oval (var_env st) a") (simp_all only: res_bind_simps prod.case r res_bind_assoc expect)
  also have "advance 1 (advance ?r (advance ?a ?st1)) = advance (int (length (encs (ocode (OParen a r))))) st"
    by (simp add: algebra_simps)
  finally show ?case by (simp only: oval.simps res_bind_assoc)
next
  case 5
  then show ?case using evalsub_stop [of code e "is" st "[]" k v] by simp
next
  case (6 opc a r)
  obtain k' where k: "k = Suc k'" "ofuel a \<le> k'" "rfuel r \<le> k'" "0 < k'"
    using "6.prems"(4) by (cases k; cases r) auto
  have wf: "opc \<in> set binops" "wf_operand a" "wf_rest r" using "6.prems"(2) by simp_all
  note opc = wf_binop [OF wf(1)]
  have en: "ends e r" "opc = OP_MLAND \<Longrightarrow> e = OP_PCPAREN" using ends_Cons [OF "6.prems"(3)] by simp_all
  have at: "at_ops code (IOp opc # ocode a @ rcode r @ IOp e # is) (readptr st)" using "6.prems"(1) by simp
  let ?st1 = "advance 1 st" and ?a = "int (length (encs (ocode a)))" and ?r = "int (length (encs (rcode r)))"
  let ?st2 = "advance ?a ?st1" and ?env = "var_env st"
  have peek: "n_peekop code st = Inr (opc, st)" using peek_at [OF at wf_codes(2) [OF wf(1)]] opc by simp
  have at1: "at_ops code (ocode a @ rcode r @ IOp e # is) (readptr ?st1)" using at_ops_next [OF at] by simp
  have at2: "at_ops code (rcode r @ IOp e # is) (readptr ?st2)"
    by (rule at_after(1) [OF at1 wf(2)])
  have at3: "at_ops code (IOp e # is) (readptr (advance ?r ?st2))"
    by (rule at_after(2) [OF at2 wf(3)])
  have a: "n_evalobj k' code ?st1 = res_bind (oval ?env a) (\<lambda>v. Inr (v, ?st2))"
    using "6.IH"(1) [OF at1 wf(2) follows_rest [OF wf(3) en(1)] k(2)] by simp
  have r: "n_evalsub k' code w ?st2 = res_bind (esub ?env w r) (\<lambda>v. Inr (v, advance ?r ?st2))" for w
    using "6.IH"(2) [OF at2 wf(3) en(1) k(3)] by simp
  have stop: "n_evalsub k' code w (advance ?r ?st2) = Inr (w, advance ?r ?st2)" for w
    using evalsub_stop [OF at3 en(1) k(4)] .
  have skip: "n_skipto code OP_PCPAREN ?st1 = Inr (advance ?r ?st2)" if "opc = OP_MLAND"
    using skipto_close [OF at1 [unfolded en(2) [OF that]] wf(2,3)] by (simp add: algebra_simps)
  obtain b where rd: "rd code (readptr ?st2) = Some b"
      and b: "OP_ISMATH b \<and> op_priority (oplist opc) < op_priority (oplist b)
        \<longleftrightarrow> r \<noteq> [] \<and> prio opc < prio (fst (hd r))"
  proof (cases r)
    case Nil
    then show ?thesis using that [of e] at_ops_rd [OF at2 [unfolded Nil rcode.simps append_Nil] wf_end [OF en(1), THEN conjunct1]]
        wf_end [OF en(1)] by simp
  next
    case (Cons x r')
    then obtain opc' a' where x: "r = (opc', a') # r'" by (cases x) simp
    then have "opc' \<in> set binops" using wf(3) by simp
    then show ?thesis using that [of opc'] at_ops_rd [of code "IOp opc'" _ "readptr ?st2"] at2 wf_codes(2) wf_binop x
      by (simp add: prio_def)
  qed
  have fin: "advance (int (length (encs (rcode ((opc, a) # r))))) st = advance ?r ?st2"
    by (simp add: algebra_simps)
  show ?case
  proof (cases "opc = OP_MLAND \<and> \<not> nsp_tobool v")
    case True
    then show ?thesis unfolding fin using k(1) peek opc skip stop [of v] by simp
  next
    case False
    have "n_evalsub k code v st = res_bind (n_evalobj k' code ?st1) (\<lambda>(w, st2).
        res_bind (opt_res (rd code (readptr st2))) (\<lambda>nxt.
        res_bind (if OP_ISMATH nxt \<and> op_priority (oplist opc) < op_priority (oplist nxt)
                  then n_evalsub k' code w st2 else Inr (w, st2)) (\<lambda>(w, st2).
        res_bind (n_evalop v opc w) (\<lambda>v'. n_evalsub k' code v' st2))))"
      unfolding k(1) using peek opc False by (simp add: Let_def) blast
    also have "\<dots> = res_bind (oval ?env a) (\<lambda>w.
        res_bind (if r \<noteq> [] \<and> prio opc < prio (fst (hd r))
                  then res_bind (esub ?env w r) (\<lambda>w. Inr (w, advance ?r ?st2)) else Inr (w, ?st2)) (\<lambda>(w, st2).
        res_bind (n_evalop v opc w) (\<lambda>v'. n_evalsub k' code v' st2)))"
      unfolding a using rd b r by (cases "oval ?env a") (simp_all only: res_bind_simps prod.case opt_res_simps)
    also have "\<dots> = res_bind (esub ?env v ((opc, a) # r)) (\<lambda>v. Inr (v, advance ?r ?st2))"
      using False by (cases "r \<noteq> [] \<and> prio opc < prio (fst (hd r))")
        (auto simp: res_bind_def stop r simp del: advance_sel split: sum.splits)
    finally show ?thesis unfolding fin .
  qed
qed

lemma nsp_eval_at:
  assumes "at_ops code (ocode a @ rcode r @ IOp e # is) (readptr st)" "wf_operand a" "wf_rest r" "ends e r"
    and "ofuel a + rfuel r < k"
  shows "nsp_eval k code st = res_bind (oval (var_env st) (OParen a r))
    (\<lambda>v. Inr (v, advance (int (length (encs (ocode a @ rcode r)))) st))"
proof -
  obtain k' where k: "k = Suc k'" "ofuel a \<le> k'" "rfuel r \<le> k'" using assms(5) by (cases k) auto
  let ?st = "advance (int (length (encs (ocode a)))) st"
  have at: "at_ops code (rcode r @ IOp e # is) (readptr ?st)" by (rule at_after(1) [OF assms(1,2)])
  have a: "n_evalobj k' code st = res_bind (oval (var_env st) a) (\<lambda>v. Inr (v, ?st))"
    by (rule eval_refines(1) [OF assms(1,2) follows_rest [OF assms(3,4)] k(2)])
  have r: "n_evalsub k' code v ?st = res_bind (esub (var_env st) v r) (\<lambda>v. Inr (v, advance (int (length (encs (rcode r)))) ?st))" for v
    using eval_refines(2) [OF at assms(3,4) k(3)] by simp
  show ?thesis using a r k(1) by (cases "oval (var_env st) a") simp_all
qed

text \<open>
  C32. The evaluator computes the value of an expression: on the code of a well-formed
  expression that ends in a closing parenthesis, or in a semicolon if it has no \<open>&&\<close>, \<open>nsp_eval\<close> returns what
  \<open>oval\<close> says, an error or a value, with the read pointer on the end and the variables unchanged, whenever it has as much fuel as the expression has parts.
\<close>

theorem nsp_eval_refines:
  assumes "at_ops code (ocode a @ rcode r @ IOp e # is) (readptr st)" "wf_operand a" "wf_rest r" "ends e r"
    and "ofuel a + rfuel r < k"
  shows "nsp_eval k code st = res_bind (oval (var_env st) (OParen a r))
    (\<lambda>v. Inr (v, advance (int (length (encs (ocode a @ rcode r)))) st))"
  using assms by (rule nsp_eval_at)

definition expr_ctx :: ectx where
  "expr_ctx = \<lparr>locals = \<lparr>objs = [n_setname ''x'' (NumV (Fin 4))], cur = Some 0, autosort = True\<rparr>,
     globals = \<lparr>objs = [], cur = None, autosort = True\<rparr>, tabs = (\<lambda>_. []), readptr = 0, linenum = 0\<rparr>"

text \<open>The code of \<open>x * (x + 1) + "7")\<close>.\<close>

definition expr_rest :: "(nat \<times> operand) list" where
  "expr_rest = [(OP_MMUL, OParen (OVar ''x'') [(OP_MADD, ONum False ''1'')]), (OP_MADD, OStr ''7'')]"

definition expr_code :: string where
  "expr_code = encs (ocode (OVar ''x'') @ rcode expr_rest @ [IOp OP_PCPAREN]) @ zeros"

lemma expr_value: "oval (var_env expr_ctx) (OParen (OVar ''x'') expr_rest) = Inr (NumV (Fin 27))"
proof -
  have x: "var_env expr_ctx ''x'' = NumV (Fin 4)"
    by (simp add: var_env_def find_var_def var_val_def expr_ctx_def same_name_def n_setname_def nc_strncpy_def MAX_OBJNAMELEN_def Let_def)
  have "num_text ''1'' = Fin 1" "n_evalop (NumV (Fin 4)) OP_MADD (NumV (Fin 1)) = Inr (NumV (Fin 5))"
      "n_evalop (NumV (Fin 4)) OP_MMUL (NumV (Fin 5)) = Inr (NumV (Fin 20))"
      "n_evalop (NumV (Fin 20)) OP_MADD (StrV ''7'') = Inr (NumV (Fin 27))" "\<not> prio OP_MMUL < prio OP_MADD"
    by code_simp+
  then show ?thesis by (simp add: expr_rest_def x)
qed

theorem nsp_eval_refines_witness:
  "map_sum id fst (nsp_eval 20 expr_code expr_ctx) = Inr (NumV (Fin 27))"
proof -
  have "at_ops expr_code (ocode (OVar ''x'') @ rcode expr_rest @ IOp OP_PCPAREN # []) (readptr expr_ctx)"
    unfolding at_ops_def expr_code_def by (intro exI [of _ "[]"]) (simp add: expr_ctx_def)
  moreover have "wf_operand (OVar ''x'')" "wf_rest expr_rest" "ofuel (OVar ''x'') + rfuel expr_rest < 20"
    by (simp_all add: expr_rest_def binops_def isdigit_def is_cstr_def NUL_def)
  ultimately show ?thesis using nsp_eval_refines [of expr_code "OVar ''x''" expr_rest OP_PCPAREN "[]" expr_ctx 20] expr_value by simp
qed

section \<open>Priorities\<close>

text \<open>
  The tree of an expression by the usual rules: an operator is applied after all operators with
  a higher priority on either side, and after those with the same priority on its left.
\<close>

datatype tree = Arg operand | App nat tree tree

primrec tval :: "(string \<Rightarrow> val) \<Rightarrow> tree \<Rightarrow> val res" where
  "tval env (Arg a) = oval env a"
| "tval env (App opc l u) = res_bind (tval env l) (\<lambda>v. res_bind (tval env u) (n_evalop v opc))"

primrec first_arg :: "tree \<Rightarrow> operand" where
  "first_arg (Arg a) = a"
| "first_arg (App opc l u) = first_arg l"

primrec rest_args :: "tree \<Rightarrow> (nat \<times> operand) list" where
  "rest_args (Arg a) = []"
| "rest_args (App opc l u) = rest_args l @ (opc, first_arg u) # rest_args u"

definition prios :: "(nat \<times> operand) list \<Rightarrow> nat list" where
  "prios r = map (\<lambda>x. prio (fst x)) r"

primrec grouped :: "tree \<Rightarrow> bool" where
  "grouped (Arg a) \<longleftrightarrow> True"
| "grouped (App opc l u) \<longleftrightarrow> grouped l \<and> grouped u \<and> list_all (\<lambda>p. prio opc \<le> p) (prios (rest_args l))
     \<and> list_all (\<lambda>p. prio opc < p) (prios (rest_args u))"

text \<open>Where the priority rises, all that follow stay above what it was.\<close>

fun no_fall :: "nat list \<Rightarrow> bool" where
  "no_fall (p # q # ps) \<longleftrightarrow> (p < q \<longrightarrow> list_all (\<lambda>x. p < x) ps) \<and> no_fall (q # ps)"
| "no_fall ps \<longleftrightarrow> True"

lemma no_fall_suffix: "no_fall (ps @ qs) \<Longrightarrow> no_fall qs"
proof (induction ps)
  case (Cons p ps)
  then show ?case by (cases "ps @ qs") auto
qed simp

lemma no_fall_prefix: "no_fall (ps @ qs) \<Longrightarrow> no_fall ps"
  by (induction ps rule: no_fall.induct) auto

lemma prios_simps [simp]: "prios [] = []" "prios (x # r) = prio (fst x) # prios r" "prios (r @ s) = prios r @ prios s"
  by (simp_all add: prios_def)

text \<open>The evaluator on the operators of a tree and more that bind no tighter than any of them.\<close>

lemma esub_tree:
  assumes "grouped t" "no_fall (prios (rest_args t @ r))" "OP_MLAND \<notin> fst ` set (rest_args t @ r)"
    and "r \<noteq> [] \<Longrightarrow> list_all (\<lambda>p. prio (fst (hd r)) \<le> p) (prios (rest_args t))"
  shows "res_bind (oval env (first_arg t)) (\<lambda>v. esub env v (rest_args t @ r)) = res_bind (tval env t) (\<lambda>v. esub env v r)"
  using assms
proof (induction t arbitrary: r)
  case (App opc l u)
  let ?r = "(opc, first_arg u) # rest_args u @ r"
  have opc: "opc \<noteq> OP_MLAND" using App.prems(3) by auto
  have nf: "no_fall (prios (rest_args l @ ?r))" using App.prems(2) by simp
  have l: "res_bind (oval env (first_arg l)) (\<lambda>v. esub env v (rest_args l @ ?r)) = res_bind (tval env l) (\<lambda>v. esub env v ?r)"
    using App.IH(1) [of ?r] App.prems(1,3) nf by simp
  have r: "r \<noteq> [] \<Longrightarrow> prio (fst (hd r)) \<le> prio opc" using App.prems(4) by simp
  have "esub env v ?r = res_bind (tval env u) (\<lambda>w. res_bind (n_evalop v opc w) (\<lambda>v'. esub env v' r))" for v
  proof (cases u)
    case (Arg a)
    then show ?thesis using opc r by (cases r) (simp_all add: res_bind_assoc)
  next
    case (App o' l' u')
    then have ne: "rest_args u \<noteq> []" "prio opc < prio (fst (hd (rest_args u)))"
      using App.prems(1) by (auto simp: hd_append prios_def list_all_iff)
    have "no_fall (prios ?r)" using no_fall_suffix nf by simp
    then have "r = []" using ne r by (cases "rest_args u"; cases r) auto
    then have "res_bind (oval env (first_arg u)) (\<lambda>w. esub env w (rest_args u)) = tval env u"
      using App.IH(2) [of "[]"] App.prems(1,3) no_fall_suffix [of "prios (rest_args l) @ [prio opc]" "prios (rest_args u)"] nf
      by (simp add: res_bind_Inr image_Un)
    then show ?thesis using ne opc \<open>r = []\<close> by (simp add: res_bind_assoc [symmetric] res_bind_Inr)
  qed
  then show ?case using l by (simp add: res_bind_assoc)
qed simp

lemma oval_tree:
  assumes "grouped t" "no_fall (prios (rest_args t))" "OP_MLAND \<notin> fst ` set (rest_args t)"
  shows "oval env (OParen (first_arg t) (rest_args t)) = tval env t"
  using esub_tree [of t "[]" env] assms by (simp add: res_bind_Inr)

text \<open>
  The evaluator respects the priorities of the operators as long as they do not fall after
  they have risen: if an expression has no \<open>&&\<close> and every operator behind one that binds more than its
  predecessor binds more than that predecessor too, its value is the value of its tree by the
  usual rules.
\<close>

theorem priorities_respected:
  assumes "at_ops code (ocode (first_arg t) @ rcode (rest_args t) @ IOp OP_PCPAREN # is) (readptr st)"
    and "wf_operand (first_arg t)" "wf_rest (rest_args t)" "ofuel (first_arg t) + rfuel (rest_args t) < k"
    and "grouped t" "no_fall (prios (rest_args t))" "OP_MLAND \<notin> fst ` set (rest_args t)"
  shows "nsp_eval k code st = res_bind (tval (var_env st) t)
    (\<lambda>v. Inr (v, advance (int (length (encs (ocode (first_arg t) @ rcode (rest_args t))))) st))"
  using nsp_eval_at [OF assms(1-3) ends_paren assms(4)] oval_tree [OF assms(5-7)] by simp

text \<open>The tree of \<open>8 - 3 - 2 * 2\<close> and its code.\<close>

definition tree_823 :: tree where
  "tree_823 = App OP_MSUB (App OP_MSUB (Arg (ONum False ''8'')) (Arg (ONum False ''3'')))
     (App OP_MMUL (Arg (ONum False ''2'')) (Arg (ONum False ''2'')))"

definition code_823 :: string where
  "code_823 = encs (ocode (first_arg tree_823) @ rcode (rest_args tree_823) @ [IOp OP_PCPAREN]) @ zeros"

theorem priorities_respected_witness: "map_sum id fst (nsp_eval 20 code_823 expr_ctx) = Inr (NumV (Fin 1))"
proof -
  have "at_ops code_823 (ocode (first_arg tree_823) @ rcode (rest_args tree_823) @ IOp OP_PCPAREN # []) (readptr expr_ctx)"
    unfolding at_ops_def code_823_def by (intro exI [of _ "[]"]) (simp add: expr_ctx_def)
  moreover have "wf_operand (first_arg tree_823)" "wf_rest (rest_args tree_823)"
    by (simp_all add: tree_823_def binops_def isdigit_def)
  moreover have "ofuel (first_arg tree_823) + rfuel (rest_args tree_823) < 20"
      "grouped tree_823" "no_fall (prios (rest_args tree_823))" "OP_MLAND \<notin> fst ` set (rest_args tree_823)"
    by code_simp+
  moreover have "tval (var_env expr_ctx) tree_823 = tval (\<lambda>_. NullV) tree_823" by (simp add: tree_823_def)
  moreover have "tval (\<lambda>_. NullV) tree_823 = Inr (NumV (Fin 1))" by code_simp
  ultimately show ?thesis using priorities_respected [of code_823 tree_823 "[]" expr_ctx 20] by simp
qed

text \<open>
  After a fall they are not: \<open>10 - 2 * 3 - 1\<close> is 3, but \<open>n_evalsub\<close> takes \<open>2 * 3 - 1\<close> as the right operand
  of the first minus and computes 5.
\<close>

definition tree_1023 :: tree where
  "tree_1023 = App OP_MSUB (App OP_MSUB (Arg (ONum False ''10'')) (App OP_MMUL (Arg (ONum False ''2'')) (Arg (ONum False ''3''))))
     (Arg (ONum False ''1''))"

theorem priorities_lost:
  "grouped tree_1023 \<and> tval (\<lambda>_. NullV) tree_1023 = Inr (NumV (Fin 3))
   \<and> oval (\<lambda>_. NullV) (OParen (first_arg tree_1023) (rest_args tree_1023)) = Inr (NumV (Fin 5))"
  by code_simp

section \<open>Short circuits\<close>

text \<open>
  In parentheses, a false left operand of \<open>&&\<close> is the value of all that follows it, and none of
  that is evaluated: the read pointer goes to the closing parenthesis even if the skipped operands or
  operators would have stopped with an error.
\<close>

theorem land_short_circuit:
  assumes "at_ops code (ocode a @ rcode ((OP_MLAND, b) # r) @ IOp OP_PCPAREN # is) (readptr st)"
    and "wf_operand a" "wf_operand b" "wf_rest r" "oval (var_env st) a = Inr v" "\<not> nsp_tobool v"
    and "ofuel a + rfuel ((OP_MLAND, b) # r) < k"
  shows "nsp_eval k code st = Inr (v, advance (int (length (encs (ocode a @ rcode ((OP_MLAND, b) # r))))) st)"
proof -
  have "wf_rest ((OP_MLAND, b) # r)" using assms(3,4) by (simp add: binops_def)
  then show ?thesis using nsp_eval_at [OF assms(1,2) _ ends_paren assms(7)] assms(5,6) by simp
qed

text \<open>The code of \<open>"" && 1 - "a" - 1)\<close>: a minus in front of a string is an error, and is not reached.\<close>

definition land_rest :: "(nat \<times> operand) list" where
  "land_rest = [(OP_MSUB, OStr ''a''), (OP_MSUB, ONum False ''1'')]"

definition land_code :: string where
  "land_code = encs (ocode (OStr []) @ rcode ((OP_MLAND, ONum False ''1'') # land_rest) @ [IOp OP_PCPAREN]) @ zeros"

theorem land_short_circuit_witness: "map_sum id fst (nsp_eval 20 land_code expr_ctx) = Inr (StrV [])"
proof -
  have "at_ops land_code (ocode (OStr []) @ rcode ((OP_MLAND, ONum False ''1'') # land_rest) @ IOp OP_PCPAREN # []) (readptr expr_ctx)"
    unfolding at_ops_def land_code_def by (intro exI [of _ "[]"]) (simp add: expr_ctx_def)
  moreover have "wf_operand (OStr [])" "wf_operand (ONum False ''1'')" "wf_rest land_rest"
      "ofuel (OStr []) + rfuel ((OP_MLAND, ONum False ''1'') # land_rest) < 20"
    by (simp_all add: land_rest_def binops_def isdigit_def)
  ultimately show ?thesis
    using land_short_circuit [of land_code "OStr []" "ONum False ''1''" land_rest "[]" expr_ctx "StrV []" 20] by simp
qed

section \<open>Operands and lines\<close>

definition empty_ctx :: ectx where
  "empty_ctx = \<lparr>locals = \<lparr>objs = [], cur = None, autosort = True\<rparr>, globals = \<lparr>objs = [], cur = None, autosort = True\<rparr>, tabs = (\<lambda>_. []), readptr = 0, linenum = 0\<rparr>"

text \<open>
  A line mark hides the next operator from the test of its priority: \<open>1 + 2\<close>, a line break and \<open>* 3\<close> is 9, where
  the same expression on one line is 7.
\<close>

theorem line_break_changes_value:
  "map_sum id fst (nsp_eval 9 (encs [IShort OP_NUMDATA ''1'', IOp OP_MADD, IShort OP_NUMDATA ''2'',
     ILine 2, IOp OP_MMUL, IShort OP_NUMDATA ''3'', IOp OP_PSEMICOL] @ zeros) empty_ctx) = Inr (NumV (Fin 9))"
  "map_sum id fst (nsp_eval 9 (encs [IShort OP_NUMDATA ''1'', IOp OP_MADD, IShort OP_NUMDATA ''2'',
     IOp OP_MMUL, IShort OP_NUMDATA ''3'', IOp OP_PSEMICOL] @ zeros) empty_ctx) = Inr (NumV (Fin 7))"
  by code_simp+

text \<open>A prefix operator in front of a parenthesis gives null, whatever the parenthesis holds, and leaves it unread.\<close>

theorem prefix_of_parenthesis:
  assumes "at_ops code (IOp opc # IParen n # is) (readptr st)" "opc = OP_MLNOT \<or> opc = OP_MSUB" "2 \<le> k"
  shows "nsp_eval k code st = Inr (NullV, advance 1 st)"
proof -
  obtain k' where k: "k = Suc (Suc k')" using assms(3) by (cases k; cases "k - 1") auto
  have wf: "wf_instr (IOp opc)" "OP_ISMATH opc" "opc \<noteq> OP_LINENUM" using assms(2) by (auto simp: OP_ISMATH_def)
  have at: "at_ops code (IParen n # is) (readptr (advance 1 st))" using at_ops_next [OF assms(1)] by simp
  have "n_peekop code st = Inr (opc, st)" "n_peekop code (advance 1 st) = Inr (OP_POPAREN, advance 1 st)"
    using peek_at [OF assms(1) wf(1)] peek_at [OF at] wf(3) by simp_all
  then show ?thesis using assms(2) wf(2) k by (auto simp: OP_ISMATH_def [of OP_POPAREN])
qed

text \<open>The sign of negation is lost on a constant: \<open>!5\<close> is 5.\<close>

theorem not_of_constant:
  "map_sum id fst (nsp_eval 9 (encs [IOp OP_MLNOT, IShort OP_NUMDATA ''5'', IOp OP_PSEMICOL] @ zeros) empty_ctx) = Inr (NumV (Fin 5))"
  by code_simp

text \<open>Integer constants are read exactly.\<close>

interpretation getnum: digit_loop getnum_step
proof
  fix v c assume v: "0 \<le> v" and c: "isdigit c" and e: "exact (10 * v + digit_val c)"
  have "0 \<le> digit_val c" using c by (simp add: digit_val_def isdigit_def)
  then have "exact (10 * v)" using v e by linarith
  then show "getnum_step (Fin (of_int v)) c = Fin (of_int (10 * v + digit_val c))"
    using num_mul_ten [OF v] digit_exact [OF c] num_add_int [OF e] by (simp add: getnum_step_def)
qed

lemma constant_exact:
  assumes "list_all isdigit s" "exact (digits_val s)"
  shows "oval env (ONum False s) = Inr (NumV (num_of_int (digits_val s)))"
proof -
  have t: "takeWhile isdigit s = s" and d: "dropWhile isdigit s = []"
    using assms(1) by (simp_all add: list_all_iff takeWhile_eq_all_conv dropWhile_eq_Nil_conv)
  show ?thesis using getnum.loop_exact [OF assms] assms(2)
    unfolding oval.simps num_text_def t d by (simp add: num_of_int hd0_def NUL_def)
qed

end
