(* ===== verification/NspExec.thy ===== *)
theory NspExec
  imports NspExpr
begin

text \<open>
  The statement interpreter of the NSP language: \<open>nsp_exec\<close> of \<open>src/src/nsp/src/libnsp/exec.c\<close>, \<open>n_readvar\<close> and
  \<open>n_storeval\<close> of \<open>parser.c\<close>, and \<open>n_if\<close>, \<open>n_for\<close>, \<open>n_switch\<close>, \<open>n_do\<close>, \<open>n_while\<close> of \<open>block.c\<close>, on programs that
  assign to variables, branch and loop. Calls, table operations, references, exception handlers and
  the paths that print a warning end in \<open>Foreign\<close>. Every call uses up one unit of fuel.
\<close>

section \<open>State\<close>

text \<open>
  The interpreter's state: variables and read pointer, the return value \<open>N->r\<close>, and the flags that
  \<open>break\<close>, \<open>continue\<close> and \<open>return\<close> raise.
\<close>

record xctx =
  xenv :: ectx
  rval :: val
  brk :: int
  cnt :: bool
  ret :: bool

definition xpeek :: "string \<Rightarrow> xctx \<Rightarrow> (nat \<times> xctx) res" where
  "xpeek code x = res_bind (n_peekop code (xenv x)) (\<lambda>(b, e). Inr (b, x\<lparr>xenv := e\<rparr>))"

definition xexpect :: "string \<Rightarrow> nat \<Rightarrow> xctx \<Rightarrow> xctx res" where
  "xexpect code opc x = res_bind (n_expect code opc (xenv x)) (\<lambda>e. Inr (x\<lparr>xenv := e\<rparr>))"

definition xskipto :: "string \<Rightarrow> nat \<Rightarrow> xctx \<Rightarrow> xctx res" where
  "xskipto code opc x = res_bind (n_skipto code opc (xenv x)) (\<lambda>e. Inr (x\<lparr>xenv := e\<rparr>))"

definition xmove :: "int \<Rightarrow> xctx \<Rightarrow> xctx" where
  "xmove n x = x\<lparr>xenv := advance n (xenv x)\<rparr>"

definition xptr :: "xctx \<Rightarrow> int" where "xptr x = readptr (xenv x)"

definition xseek :: "int \<Rightarrow> xctx \<Rightarrow> xctx" where
  "xseek p x = x\<lparr>xenv := (xenv x)\<lparr>readptr := p\<rparr>\<rparr>"

text \<open>The byte under the read pointer, and \<open>n_seekop\<close> into a block.\<close>

definition xbyte :: "string \<Rightarrow> xctx \<Rightarrow> nat res" where
  "xbyte code x = opt_res (rd code (xptr x))"

definition xenter :: "string \<Rightarrow> xctx \<Rightarrow> xctx res" where
  "xenter code x = res_bind (opt_res (n_seekop code (xptr x) False)) (\<lambda>p. Inr (xseek p x))"

definition xeval :: "nat \<Rightarrow> string \<Rightarrow> xctx \<Rightarrow> (val \<times> xctx) res" where
  "xeval k code x = res_bind (nsp_eval k code (xenv x)) (\<lambda>(v, e). Inr (v, x\<lparr>xenv := e, rval := v\<rparr>))"

text \<open>An optional \<open>;\<close>.\<close>

definition xsemicolon :: "string \<Rightarrow> xctx \<Rightarrow> xctx res" where
  "xsemicolon code x = res_bind (xpeek code x) (\<lambda>(b, x). Inr (if b = OP_PSEMICOL then xmove 1 x else x))"

section \<open>Assignment\<close>

datatype target = Var place_var | RVal

definition tget :: "target \<Rightarrow> xctx \<Rightarrow> val" where
  "tget tg x = (case tg of Var pl \<Rightarrow> var_val (xenv x) pl | RVal \<Rightarrow> rval x)"

definition tset :: "target \<Rightarrow> val \<Rightarrow> xctx \<Rightarrow> xctx" where
  "tset tg v x = (case tg of Var pl \<Rightarrow> x\<lparr>xenv := set_var pl v (xenv x)\<rparr> | RVal \<Rightarrow> x\<lparr>rval := v\<rparr>)"

text \<open>
  The end of \<open>n_storeval\<close>: \<open>nsp_linkval\<close> of a table, which \<open>N->r\<close> keeps, or \<open>n_moveval\<close> out of \<open>N->r\<close>, which becomes null unless it
  is the target itself.
\<close>

definition left_val :: "val \<Rightarrow> val" where
  "left_val v = (case v of TabV f \<Rightarrow> v | _ \<Rightarrow> NullV)"

definition tmove :: "target \<Rightarrow> val \<Rightarrow> xctx \<Rightarrow> xctx" where
  "tmove tg v x = (case tg of Var pl \<Rightarrow> x\<lparr>xenv := set_var pl v (xenv x), rval := left_val v\<rparr> | RVal \<Rightarrow> x\<lparr>rval := v\<rparr>)"

definition step_num :: "target \<Rightarrow> (num_t \<Rightarrow> num_t) \<Rightarrow> xctx \<Rightarrow> xctx res" where
  "step_num tg f x = (case tget tg x of NumV n \<Rightarrow> Inr (tset tg (NumV (f n)) x) | _ \<Rightarrow> Inl SyntaxError)"

text \<open>\<open>s += v\<close> and \<open>s *= v\<close> on a string; the second reads the number of \<open>v\<close> whatever its type is.\<close>

definition append_val :: "string \<Rightarrow> val \<Rightarrow> val res" where
  "append_val s v = (case v of StrV t \<Rightarrow> nsp_strcat s t | _ \<Rightarrow> res_bind (nsp_tostr v) (nsp_strcat s))"

definition repeat_val :: "string \<Rightarrow> val \<Rightarrow> val res" where
  "repeat_val s v = (case v of
     NumV n \<Rightarrow> if num_lt n (num_of_int 0) then nsp_strmul s 0
       else (case num_cast 32 n of Some i \<Rightarrow> nsp_strmul s (nat i) | None \<Rightarrow> Inl Undefined)
   | BoolV b \<Rightarrow> nsp_strmul s (if b then 1 else 0)
   | _ \<Rightarrow> Inl Undefined)"

definition assign_num :: "nat \<Rightarrow> num_t \<Rightarrow> num_t \<Rightarrow> num_t" where
  "assign_num opc a b =
     (if opc = OP_MADDEQ then num_add a b
      else if opc = OP_MSUBEQ then num_sub a b
      else if opc = OP_MMULEQ then num_mul a b
      else num_div a b)"

definition is_str :: "val \<Rightarrow> bool" where "is_str v \<longleftrightarrow> nsp_typeof v = NT_STRING"

text \<open>A string target takes the value that \<open>f\<close> makes of it and the value of the expression.\<close>

definition store_str :: "nat \<Rightarrow> string \<Rightarrow> target \<Rightarrow> (string \<Rightarrow> val \<Rightarrow> val res) \<Rightarrow> xctx \<Rightarrow> xctx res" where
  "store_str k code tg f x =
     res_bind (xeval k code (xmove 1 x)) (\<lambda>(v, x).
       case tget tg x of
         StrV s \<Rightarrow> res_bind (f s v) (\<lambda>w. Inr (tset tg w x))
       | _ \<Rightarrow> Inl Foreign)"

definition store_num :: "nat \<Rightarrow> string \<Rightarrow> target \<Rightarrow> nat \<Rightarrow> xctx \<Rightarrow> xctx res" where
  "store_num k code tg opc x =
     (case tget tg x of
        NumV a \<Rightarrow>
          res_bind (xeval k code (xmove 1 x)) (\<lambda>(v, x).
            case v of
              NumV b \<Rightarrow>
                res_bind (xbyte code x) (\<lambda>c.
                  if OP_ISEND c then step_num tg (\<lambda>a. assign_num opc a b) x else Inl SyntaxError)
            | _ \<Rightarrow> Inl SyntaxError)
      | _ \<Rightarrow> Inl SyntaxError)"

definition store_val :: "nat \<Rightarrow> string \<Rightarrow> target \<Rightarrow> xctx \<Rightarrow> xctx res" where
  "store_val k code tg x =
     res_bind (xpeek code x) (\<lambda>(b, x).
       if b = OP_KFUNC then Inl Foreign
       else res_bind (xeval k code x) (\<lambda>(v, x). Inr (tmove tg v x)))"

definition n_storeval :: "nat \<Rightarrow> string \<Rightarrow> target \<Rightarrow> xctx \<Rightarrow> xctx res" where
  "n_storeval k code tg x =
     res_bind (xpeek code x) (\<lambda>(b, x).
       if b = OP_MADDADD then step_num tg (\<lambda>n. num_add n (num_of_int 1)) (xmove 1 x)
       else if b = OP_MSUBSUB then step_num tg (\<lambda>n. num_sub n (num_of_int 1)) (xmove 1 x)
       else if b = OP_MADDEQ \<and> is_str (tget tg x) then store_str k code tg append_val x
       else if b = OP_MMULEQ \<and> is_str (tget tg x) then store_str k code tg repeat_val x
       else if b = OP_MADDEQ \<or> b = OP_MMULEQ \<or> b = OP_MSUBEQ \<or> b = OP_MDIVEQ then store_num k code tg b x
       else if b = OP_MEQ then
         res_bind (xpeek code (xmove 1 x)) (\<lambda>(b, x).
           if b = OP_KNEW \<or> b = OP_MAND \<or> b = OP_MMUL then Inl Foreign else store_val k code tg x)
       else if b \<in> {OP_LABEL, OP_NUMDATA, OP_STRDATA, OP_PSEMICOL, OP_MADD, OP_MSUB, OP_POBRACE, OP_POPAREN, OP_KFUNC}
         then store_val k code tg x
       else Inl Foreign)"

section \<open>Variables\<close>

datatype scope = Locals | Globals

definition scope_table :: "scope \<Rightarrow> ectx \<Rightarrow> val table" where
  "scope_table sc e = (case sc of Locals \<Rightarrow> locals e | Globals \<Rightarrow> globals e)"

definition set_scope :: "scope \<Rightarrow> val table \<Rightarrow> ectx \<Rightarrow> ectx" where
  "set_scope sc t e = (case sc of Locals \<Rightarrow> e\<lparr>locals := t\<rparr> | Globals \<Rightarrow> e\<lparr>globals := t\<rparr>)"

definition scope_place :: "scope \<Rightarrow> nat \<Rightarrow> place_var" where
  "scope_place sc i = (case sc of Locals \<Rightarrow> LocalVar i | Globals \<Rightarrow> GlobalVar i)"

text \<open>The index under which \<open>nsp_setobj\<close> finds or stores a name.\<close>

definition obj_index :: "val table \<Rightarrow> string \<Rightarrow> nat" where
  "obj_index t k = (if objs t = [] then 0 else case fst (n_locateobj t k) of
     Found i \<Rightarrow> i | Before i \<Rightarrow> i | AtEnd \<Rightarrow> length (objs t))"

text \<open>\<open>nsp_setnum\<close> or \<open>nsp_setbool\<close> of a variable in a scope.\<close>

definition make_var :: "scope \<Rightarrow> string \<Rightarrow> val \<Rightarrow> ectx \<Rightarrow> place_var \<times> ectx" where
  "make_var sc k v e =
     (let t = scope_table sc e in (scope_place sc (obj_index t k), set_scope sc (nsp_setobj t k v (\<lambda>_. v)) e))"

text \<open>\<open>nsp_getobj\<close> in a scope: the variable there, if it is not null, and the table with its cursor moved.\<close>

definition lookup_var :: "scope \<Rightarrow> string \<Rightarrow> xctx \<Rightarrow> place_var option \<times> xctx" where
  "lookup_var sc k x =
     (let t = scope_table sc (xenv x) in
      case nsp_getobj t k of (found, t') \<Rightarrow>
        (case found of
           Some v \<Rightarrow> if v = NullV then None else Some (scope_place sc (obj_index t k))
         | None \<Rightarrow> None, x\<lparr>xenv := set_scope sc t' (xenv x)\<rparr>))"

text \<open>The end of \<open>n_readvar\<close>: an assignment if an operator follows.\<close>

definition maybe_store :: "nat \<Rightarrow> string \<Rightarrow> place_var \<Rightarrow> xctx \<Rightarrow> xctx res" where
  "maybe_store k code pl x = res_bind (xbyte code x) (\<lambda>b.
     if nsp_typeof (tget (Var pl) x) = NT_TABLE \<and> (b = OP_POBRACKET \<or> b = OP_PDOT) then Inl Foreign
     else if OP_ISMATH b then n_storeval k code (Var pl) x
     else Inr x)"

text \<open>\<open>n_readvar\<close> without an object: a declaration, or a part of a \<open>for\<close>.\<close>

definition n_readvar :: "nat \<Rightarrow> string \<Rightarrow> scope \<Rightarrow> xctx \<Rightarrow> xctx res" where
  "n_readvar k code sc x =
     res_bind (xbyte code x) (\<lambda>b0.
     if b0 = OP_KCLASS \<or> b0 = OP_KFUNC then Inl Foreign else
     res_bind (xpeek code x) (\<lambda>(b, x).
     if b = 0 then Inr x else
     let preop = (if b = OP_MADDADD \<or> b = OP_MSUBSUB then b else 0); x = (if preop = 0 then x else xmove 1 x) in
     res_bind (xexpect code OP_LABEL x) (\<lambda>x.
     res_bind (n_getlabel code (xenv x)) (\<lambda>(l, e).
     if l = [] then Inl Foreign else
     let (found, x) = lookup_var sc l (x\<lparr>xenv := e\<rparr>);
         (pl, x) = (case found of
             Some pl \<Rightarrow> (pl, x)
           | None \<Rightarrow> (case make_var sc l (NumV (num_of_int 0)) (xenv x) of (pl, e) \<Rightarrow> (pl, x\<lparr>xenv := e\<rparr>)));
         x = (case tget (Var pl) x of
                NumV n \<Rightarrow> if preop = OP_MADDADD then tset (Var pl) (NumV (num_add n (num_of_int 1))) x
                  else if preop = OP_MSUBSUB then tset (Var pl) (NumV (num_sub n (num_of_int 1))) x
                  else x
              | _ \<Rightarrow> x)
     in maybe_store k code pl x))))"

text \<open>The variable that a statement starts with; one that is not defined or null becomes a local one.\<close>

definition stmt_var :: "string \<Rightarrow> ectx \<Rightarrow> place_var \<times> ectx" where
  "stmt_var name e = (case find_var e name of
     Some pl \<Rightarrow> if var_val e pl = NullV then make_var Locals name (BoolV False) e else (pl, e)
   | None \<Rightarrow> make_var Locals name (BoolV False) e)"

definition label_stmt :: "nat \<Rightarrow> string \<Rightarrow> xctx \<Rightarrow> xctx res" where
  "label_stmt k code x =
     res_bind (n_getlabel code (xenv x)) (\<lambda>(l, e).
     let name = nc_strncpy l MAX_OBJNAMELEN; x = x\<lparr>xenv := e\<rparr> in
     res_bind (xpeek code x) (\<lambda>(b, x).
     if b = OP_POBRACKET \<or> b = OP_PDOT \<or> b = OP_POPAREN \<or> b = OP_KCLASS \<or> b = OP_KFUNC then Inl Foreign else
     if name = [] \<and> var_env (xenv x) name = NullV then Inl SyntaxError
     else case stmt_var name (xenv x) of (pl, e) \<Rightarrow> maybe_store k code pl (x\<lparr>xenv := e\<rparr>)))"

section \<open>Statements\<close>

text \<open>
  The end of a body: in a brace, behind the closing one; else behind the next \<open>;\<close>. The first result says that the
  body is a single statement.
\<close>

definition skip_body :: "string \<Rightarrow> xctx \<Rightarrow> (bool \<times> xctx) res" where
  "skip_body code x =
     res_bind (xpeek code x) (\<lambda>(b, x).
       if b = OP_POBRACE
       then res_bind (xenter code x) (\<lambda>x. res_bind (xskipto code OP_PCBRACE x) (\<lambda>x. Inr (False, xmove 1 x)))
       else res_bind (xskipto code OP_PSEMICOL x) (\<lambda>x. Inr (True, xmove 1 x)))"

text \<open>The same with the length that the opening brace holds, as \<open>n_for\<close> and \<open>n_if\<close> do it.\<close>

definition jump_block :: "string \<Rightarrow> xctx \<Rightarrow> xctx res" where
  "jump_block code x = res_bind (opt_res (readi4 code (xptr x + 1))) (\<lambda>n.
     xexpect code OP_PCBRACE (xmove (5 + n) x))"

definition jump_body :: "string \<Rightarrow> xctx \<Rightarrow> (bool \<times> xctx) res" where
  "jump_body code x =
     res_bind (xpeek code x) (\<lambda>(b, x).
       if b = OP_POBRACE then res_bind (jump_block code x) (\<lambda>x. Inr (False, xmove 1 x))
       else res_bind (xskipto code OP_PSEMICOL x) (\<lambda>x. Inr (True, xmove 1 x)))"

definition leave_loop :: "int \<Rightarrow> bool \<Rightarrow> xctx \<Rightarrow> xctx" where
  "leave_loop be single x = xseek (if single then be - 1 else be) x"

text \<open>What a loop does behind its body: whether it ends, and the flags it clears.\<close>

definition after_body :: "xctx \<Rightarrow> bool \<times> xctx" where
  "after_body x =
     (let x = x\<lparr>cnt := False\<rparr> in
      if 0 < brk x then (True, x\<lparr>brk := brk x - 1\<rparr>) else (ret x, x))"

definition is_false :: "val \<Rightarrow> bool" where
  "is_false v \<longleftrightarrow> num_eq (nsp_tonum v) (num_of_int 0)"

text \<open>\<open>N->brk\<close> of a \<open>break\<close>, with the number of loops to leave.\<close>

definition read_break :: "string \<Rightarrow> xctx \<Rightarrow> xctx res" where
  "read_break code x =
     res_bind (xpeek code x) (\<lambda>(b, x).
       if b = OP_NUMDATA then
         res_bind (n_getnumber code (xenv x)) (\<lambda>(n, e).
           case num_cast 16 n of Some i \<Rightarrow> Inr (x\<lparr>xenv := e, brk := i\<rparr>) | None \<Rightarrow> Inl Undefined)
       else Inr (x\<lparr>brk := 1\<rparr>))"

text \<open>A \<open>case\<close> label: whether the constant behind it is the value that is switched on.\<close>

definition case_match :: "string \<Rightarrow> val \<Rightarrow> xctx \<Rightarrow> (bool \<times> xctx) res" where
  "case_match code v x =
     res_bind (xbyte code x) (\<lambda>b.
     res_bind (case v of
         StrV s \<Rightarrow> if b \<noteq> OP_STRDATA then Inl SyntaxError
           else res_bind (n_getstring code (xenv x)) (\<lambda>(w, e).
             Inr (case w of StrV t \<Rightarrow> nc_strcmp (cstr s) (cstr t) = 0 | _ \<Rightarrow> False, x\<lparr>xenv := e\<rparr>))
       | NumV n \<Rightarrow> if b \<noteq> OP_NUMDATA then Inl SyntaxError
           else res_bind (n_getnumber code (xenv x)) (\<lambda>(m, e). Inr (num_eq n m, x\<lparr>xenv := e\<rparr>))
       | _ \<Rightarrow> Inl SyntaxError)
     (\<lambda>(hit, x). res_bind (xexpect code OP_MCOLON x) (\<lambda>x. Inr (hit, xmove 1 x))))"

text \<open>The loop that passes the statements of a case that does not match.\<close>

partial_function (option) skip_case :: "string \<Rightarrow> int \<Rightarrow> int option" where
  "skip_case code p = (case rd code p of
     None \<Rightarrow> None
   | Some b \<Rightarrow> if b = OP_KCASE \<or> b = OP_KDEFAULT \<or> b = OP_PCBRACE then Some p
       else Option.bind (n_seekop code p True) (skip_case code))"

declare skip_case.simps [code]

text \<open>
  The interpreter calls itself through \<open>nsp_exec\<close> only, so every other function takes it as an argument \<open>ex\<close>, and
  the fuel \<open>k\<close> that bounds its own loop and the expressions it evaluates. \<open>n_if\<close> is split at its labels:
  \<open>if_cond\<close> starts at \<open>l1\<close>, \<open>if_body\<close> at \<open>l2\<close>.
\<close>

type_synonym exec = "bool \<Rightarrow> xctx \<Rightarrow> xctx res"

text \<open>\<open>N->r\<close> behind a condition: a value that is shared with a variable, a table, is unlinked.\<close>

definition unshared :: "val \<Rightarrow> val" where
  "unshared v = (case v of TabV f \<Rightarrow> NullV | _ \<Rightarrow> v)"

definition if_cond :: "nat \<Rightarrow> string \<Rightarrow> bool \<Rightarrow> bool \<Rightarrow> xctx \<Rightarrow> (bool \<times> xctx) res" where
  "if_cond k code taken t x =
     res_bind (xpeek code x) (\<lambda>(b, x).
       if b = OP_POPAREN then
         res_bind (opt_res (readi2 code (xptr x + 1))) (\<lambda>n.
         let ce = xptr x + n + 3 in
         res_bind (xenter code x) (\<lambda>x.
         res_bind (if taken then Inr (t, x) else res_bind (xeval k code x) (\<lambda>(v, x). Inr (nsp_tobool v, x\<lparr>rval := unshared v\<rparr>))) (\<lambda>(t, x).
         res_bind (xexpect code OP_PCPAREN (xseek ce x)) (\<lambda>x. Inr (t, xmove 1 x)))))
       else Inr (t, x))"

definition if_branch :: "exec \<Rightarrow> string \<Rightarrow> bool \<Rightarrow> xctx \<Rightarrow> xctx res" where
  "if_branch ex code run x =
     res_bind (xpeek code x) (\<lambda>(b, x).
       if \<not> run then
         if b = OP_POBRACE then res_bind (jump_block code x) (\<lambda>x. Inr (xmove 1 x))
         else res_bind (xskipto code OP_PSEMICOL x) (xsemicolon code)
       else if b = OP_POBRACE then
         res_bind (opt_res (readi4 code (xptr x + 1))) (\<lambda>n.
         let be = xptr x + 5 + n in
         res_bind (ex False x) (\<lambda>x.
         res_bind (xexpect code OP_PCBRACE (xseek be x)) (\<lambda>x. Inr (xmove 1 x))))
       else res_bind (ex True x) (xsemicolon code))"

primrec if_body :: "nat \<Rightarrow> exec \<Rightarrow> nat \<Rightarrow> string \<Rightarrow> bool \<Rightarrow> bool \<Rightarrow> xctx \<Rightarrow> xctx res" where
  "if_body 0 ex k code taken t x = Inl NoFuel"
| "if_body (Suc n) ex k code taken t x =
     res_bind (if_branch ex code (t \<and> \<not> taken) x) (\<lambda>x.
       if ret x then Inr x
       else res_bind (xpeek code x) (\<lambda>(b, x).
         if b = OP_KELSE then
           res_bind (xpeek code (xmove 1 x)) (\<lambda>(b, x).
             if b = OP_KIF then
               res_bind (if_cond k code (taken \<or> t) t (xmove 1 x)) (\<lambda>(t', x). if_body n ex k code (taken \<or> t) t' x)
             else if_body n ex k code (taken \<or> t) True x)
         else Inr x))"

definition n_if :: "exec \<Rightarrow> nat \<Rightarrow> string \<Rightarrow> xctx \<Rightarrow> xctx res" where
  "n_if ex k code x = res_bind (if_cond k code False False x) (\<lambda>(t, x). if_body k ex k code False t x)"

primrec while_loop :: "nat \<Rightarrow> exec \<Rightarrow> nat \<Rightarrow> string \<Rightarrow> int \<Rightarrow> int \<Rightarrow> int \<Rightarrow> bool \<Rightarrow> xctx \<Rightarrow> xctx res" where
  "while_loop 0 ex k code argcomp bs be single x = Inl NoFuel"
| "while_loop (Suc n) ex k code argcomp bs be single x =
     res_bind (xeval k code (xseek argcomp x)) (\<lambda>(v, x).
     res_bind (xexpect code OP_PCPAREN x) (\<lambda>x.
     if is_false v then Inr (leave_loop be single x)
     else res_bind (ex single (xseek bs x)) (\<lambda>x.
       let (fin, x) = after_body x in
       if fin then Inr (leave_loop be single x) else while_loop n ex k code argcomp bs be single x)))"

definition n_while :: "exec \<Rightarrow> nat \<Rightarrow> string \<Rightarrow> xctx \<Rightarrow> xctx res" where
  "n_while ex k code x =
     res_bind (xexpect code OP_POPAREN x) (\<lambda>x.
     res_bind (xenter code x) (\<lambda>x.
     let argcomp = xptr x in
     res_bind (xskipto code OP_PCPAREN x) (\<lambda>x.
     let bs = xptr x + 1 in
     res_bind (skip_body code (xmove 1 x)) (\<lambda>(single, x). while_loop k ex k code argcomp bs (xptr x) single x))))"

primrec do_loop :: "nat \<Rightarrow> exec \<Rightarrow> nat \<Rightarrow> string \<Rightarrow> int \<Rightarrow> int \<Rightarrow> bool \<Rightarrow> xctx \<Rightarrow> xctx res" where
  "do_loop 0 ex k code bs be single x = Inl NoFuel"
| "do_loop (Suc n) ex k code bs be single x =
     res_bind (ex single (xseek bs x)) (\<lambda>x.
     let (fin, x) = after_body x in
     if fin then Inr x
     else res_bind (xexpect code OP_KWHILE (xseek be x)) (\<lambda>x.
       res_bind (xexpect code OP_POPAREN (xmove 1 x)) (\<lambda>x.
       res_bind (xenter code x) (\<lambda>x.
       res_bind (xeval k code x) (\<lambda>(v, x).
       res_bind (xexpect code OP_PCPAREN x) (\<lambda>x.
       if is_false v then Inr x else do_loop n ex k code bs be single x))))))"

definition n_do :: "exec \<Rightarrow> nat \<Rightarrow> string \<Rightarrow> xctx \<Rightarrow> xctx res" where
  "n_do ex k code x =
     (let bs = xptr x in
      res_bind (skip_body code x) (\<lambda>(single, x).
      let be = xptr x in
      res_bind (do_loop k ex k code bs be single x) (\<lambda>x.
      res_bind (xexpect code OP_KWHILE (xseek be x)) (\<lambda>x.
      res_bind (xskipto code OP_PSEMICOL x) (\<lambda>x. Inr (if single then xmove (- 1) x else x))))))"

primrec for_loop :: "nat \<Rightarrow> exec \<Rightarrow> nat \<Rightarrow> string \<Rightarrow> int \<Rightarrow> int \<Rightarrow> int \<Rightarrow> int \<Rightarrow> bool \<Rightarrow> xctx \<Rightarrow> xctx res" where
  "for_loop 0 ex k code argcomp argexec bs be single x = Inl NoFuel"
| "for_loop (Suc n) ex k code argcomp argexec bs be single x =
     res_bind (opt_res (rd code argcomp)) (\<lambda>b.
     res_bind (if b = OP_PSEMICOL then Inr (False, x)
               else res_bind (xeval k code (xseek argcomp x)) (\<lambda>(v, x).
                 res_bind (xexpect code OP_PSEMICOL x) (\<lambda>x. Inr (is_false v, xmove 1 x)))) (\<lambda>(finished, x).
     if finished then Inr (leave_loop be single x)
     else res_bind (ex single (xseek bs x)) (\<lambda>x.
       let (fin, x) = after_body x in
       if fin then Inr (leave_loop be single x)
       else res_bind (n_readvar k code Locals (xseek argexec x)) (for_loop n ex k code argcomp argexec bs be single))))"

definition n_for :: "exec \<Rightarrow> nat \<Rightarrow> string \<Rightarrow> xctx \<Rightarrow> xctx res" where
  "n_for ex k code x =
     res_bind (xexpect code OP_POPAREN x) (\<lambda>x.
     res_bind (xenter code x) (\<lambda>x.
     let arginit = xptr x in
     res_bind (xskipto code OP_PSEMICOL x) (\<lambda>x.
     let argcomp = xptr x + 1 in
     res_bind (xskipto code OP_PSEMICOL (xmove 1 x)) (\<lambda>x.
     let argexec = xptr x + 1 in
     res_bind (xskipto code OP_PCPAREN (xmove 1 x)) (\<lambda>x.
     let bs = xptr x + 1 in
     res_bind (jump_body code (xmove 1 x)) (\<lambda>(single, x).
     let be = xptr x in
     res_bind (n_readvar k code Locals (xseek arginit x)) (\<lambda>x.
     for_loop k ex k code argcomp argexec bs be single x)))))))"

text \<open>The statements of a case, up to the next one.\<close>

primrec case_stmts :: "nat \<Rightarrow> exec \<Rightarrow> string \<Rightarrow> bool \<Rightarrow> xctx \<Rightarrow> xctx res" where
  "case_stmts 0 ex code dflt x = Inl NoFuel"
| "case_stmts (Suc n) ex code dflt x =
     res_bind (xbyte code x) (\<lambda>b.
       if b = OP_PCBRACE \<or> \<not> dflt \<and> (b = OP_KCASE \<or> b = OP_KDEFAULT) then Inr x
       else res_bind (ex True x) (\<lambda>x.
         if 0 < brk x \<or> ret x then Inr x else case_stmts n ex code dflt x))"

primrec switch_loop :: "nat \<Rightarrow> exec \<Rightarrow> nat \<Rightarrow> string \<Rightarrow> val \<Rightarrow> bool \<Rightarrow> xctx \<Rightarrow> xctx res" where
  "switch_loop 0 ex k code v hit x = Inl NoFuel"
| "switch_loop (Suc n) ex k code v hit x =
     res_bind (xbyte code x) (\<lambda>b.
       if b = OP_PCBRACE then Inr x
       else if b = OP_KCASE then
         res_bind (case_match code v (xmove 1 x)) (\<lambda>(eq, x).
         if \<not> (hit \<or> eq) then
           res_bind (opt_res (skip_case code (xptr x))) (\<lambda>p. switch_loop n ex k code v False (xseek p x))
         else res_bind (case_stmts k ex code False x) (\<lambda>x.
           if 0 < brk x then Inr (x\<lparr>brk := brk x - 1\<rparr>) else if ret x then Inr x
           else switch_loop n ex k code v True x))
       else if b = OP_KDEFAULT then
         res_bind (xexpect code OP_MCOLON (xmove 1 x)) (\<lambda>x.
         res_bind (case_stmts k ex code True (xmove 1 x)) (\<lambda>x.
           if 0 < brk x then Inr (x\<lparr>brk := brk x - 1\<rparr>) else if ret x then Inr x
           else switch_loop n ex k code v hit x))
       else xexpect code OP_KCASE x)"

definition n_switch :: "exec \<Rightarrow> nat \<Rightarrow> string \<Rightarrow> xctx \<Rightarrow> xctx res" where
  "n_switch ex k code x =
     res_bind (xexpect code OP_POPAREN x) (\<lambda>x.
     res_bind (xenter code x) (\<lambda>x.
     res_bind (xeval k code x) (\<lambda>(v, x).
     res_bind (xexpect code OP_PCPAREN x) (\<lambda>x.
     res_bind (xexpect code OP_POBRACE (xmove 1 x)) (\<lambda>x.
     res_bind (xenter code x) (\<lambda>x.
     let bs = xptr x in
     res_bind (xskipto code OP_PCBRACE x) (\<lambda>x.
     let be = xptr x + 1 in
     res_bind (switch_loop k ex k code v False (xseek bs x)) (\<lambda>x. Inr (xseek be x)))))))))"

text \<open>A statement that starts with a keyword; the flag says that the block ends there, as \<open>goto end\<close> does.\<close>

definition exec_key :: "exec \<Rightarrow> nat \<Rightarrow> string \<Rightarrow> bool \<Rightarrow> nat \<Rightarrow> xctx \<Rightarrow> (bool \<times> xctx) res" where
  "exec_key ex k code inner opc x =
     (if opc = OP_KLOCAL \<or> opc = OP_KVAR then res_bind (n_readvar k code Locals x) (\<lambda>x. Inr (False, x))
      else if opc = OP_KGLOB then res_bind (n_readvar k code Globals x) (\<lambda>x. Inr (False, x))
      else if opc = OP_KIF then res_bind (n_if ex k code x) (\<lambda>x. Inr (ret x, x))
      else if opc = OP_KFOR then res_bind (n_for ex k code x) (\<lambda>x. Inr (ret x, x))
      else if opc = OP_KSWITCH then res_bind (n_switch ex k code x) (\<lambda>x. Inr (ret x, x))
      else if opc = OP_KDO then res_bind (n_do ex k code x) (\<lambda>x. Inr (ret x, x))
      else if opc = OP_KWHILE then res_bind (n_while ex k code x) (\<lambda>x. Inr (ret x, x))
      else if opc = OP_KBREAK then
        if inner then res_bind (read_break code x) (\<lambda>x. res_bind (xsemicolon code x) (\<lambda>x. Inr (True, x)))
        else Inl SyntaxError
      else if opc = OP_KCONT then
        if inner then res_bind (xsemicolon code (x\<lparr>cnt := True\<rparr>)) (\<lambda>x. Inr (True, x))
        else Inl SyntaxError
      else if opc = OP_KRET then
        res_bind (n_storeval k code RVal x) (\<lambda>x.
        res_bind (xsemicolon code x) (\<lambda>x. Inr (True, x\<lparr>ret := True\<rparr>)))
      else if opc = OP_KTHROW then
        res_bind (n_storeval k code RVal x) (\<lambda>x. res_bind (nsp_tostr (rval x)) (\<lambda>_. Inl Thrown))
      else if opc = OP_KEXIT then Inl Exited
      else if opc = OP_KELSE then Inl SyntaxError
      else Inl Foreign)"

text \<open>One turn of the loop of \<open>nsp_exec\<close> on an operator that ends neither code nor block.\<close>

definition exec_stmt :: "exec \<Rightarrow> nat \<Rightarrow> string \<Rightarrow> bool \<Rightarrow> nat \<Rightarrow> xctx \<Rightarrow> (bool \<times> xctx) res" where
  "exec_stmt ex k code inner b x =
     (if b = OP_PCBRACE then Inr (False, xmove 1 x)
      else if OP_ISMATH b \<or> OP_ISPUNC b then Inl Foreign
      else if OP_ISKEY b then exec_key ex k code inner b (xmove 1 x)
      else if b \<noteq> OP_LABEL then Inl SyntaxError
      else res_bind (label_stmt k code x) (\<lambda>x. Inr (False, x)))"

primrec exec_loop :: "nat \<Rightarrow> exec \<Rightarrow> nat \<Rightarrow> string \<Rightarrow> bool \<Rightarrow> bool \<Rightarrow> xctx \<Rightarrow> xctx res" where
  "exec_loop 0 ex k code block single x = Inl NoFuel"
| "exec_loop (Suc n) ex k code block single x =
     res_bind (xpeek code x) (\<lambda>(b, x).
       if b = 0 then Inr x
       else if block \<and> (0 < brk x \<or> cnt x \<or> b = OP_PCBRACE) then Inr x
       else res_bind (exec_stmt ex k code (block \<or> single) b x) (\<lambda>(fin, x).
         if fin then Inr x
         else res_bind (xsemicolon code x) (\<lambda>x.
           if single then Inr x else exec_loop n ex k code block single x)))"

primrec nsp_exec :: "nat \<Rightarrow> string \<Rightarrow> bool \<Rightarrow> xctx \<Rightarrow> xctx res" where
  "nsp_exec 0 code single x = Inl NoFuel"
| "nsp_exec (Suc k) code single x =
     res_bind (xpeek code x) (\<lambda>(b, x).
       if b = OP_POBRACE then res_bind (xenter code x) (exec_loop k (nsp_exec k code) k code True single)
       else exec_loop k (nsp_exec k code) k code False single x)"

end
