(* ===== verification/NspVars.thy ===== *)
theory NspVars
  imports NspExec
begin

text \<open>
  Local variables as a map: on a table of local variables in order, reading a variable and assigning to it are lookup
  and update of a map.
\<close>

definition locals_ok :: "ectx \<Rightarrow> bool" where
  "locals_ok e \<longleftrightarrow> table_ok name_key (locals e) \<and> list_all named (objs (locals e)) \<and> table_map (locals e) ''this'' = None"

text \<open>A name that is not \<open>this\<close> and not the name of a global variable.\<close>

definition local_name :: "string \<Rightarrow> ectx \<Rightarrow> bool" where
  "local_name x e \<longleftrightarrow> name_key x \<and> x \<noteq> ''this'' \<and> index_named (cdb_hash x) x (objs (globals e)) = None"

definition local_map :: "ectx \<Rightarrow> string \<Rightarrow> val option" where
  "local_map e = table_map (locals e)"

section \<open>Indices\<close>

lemma index_named_None: "list_all named xs \<Longrightarrow> is_cstr k \<Longrightarrow> index_named (cdb_hash k) k xs = None \<longleftrightarrow> k \<notin> obj_name ` set xs"
  by (induction xs) (auto simp: same_name_iff)

lemma index_named_Some:
  "list_all named xs \<Longrightarrow> is_cstr k \<Longrightarrow> index_named (cdb_hash k) k xs = Some i
     \<longleftrightarrow> i < length xs \<and> obj_name (xs ! i) = k \<and> k \<notin> obj_name ` set (take i xs)"
proof (induction xs arbitrary: i)
  case (Cons x xs)
  then show ?case by (cases i) (auto simp: same_name_iff)
qed simp

lemma objs_map_index:
  "list_all named xs \<Longrightarrow> is_cstr k \<Longrightarrow> objs_map xs k = map_option (\<lambda>i. obj_val (xs ! i)) (index_named (cdb_hash k) k xs)"
proof (induction xs)
  case (Cons x xs)
  then show ?case by (simp add: objs_map_Cons same_name_iff option.map_comp comp_def)
qed (simp add: objs_map_def)

lemma table_names_distinct: "table_ok name_key t \<Longrightarrow> distinct (map obj_name (objs t))"
proof -
  assume t: "table_ok name_key t"
  have K: "name_key (obj_name (objs t ! i))" if "i < length (objs t)" for i
    using t that by (simp add: table_ok_def list_all_length obj_ok_def)
  have "obj_name (objs t ! i) \<noteq> obj_name (objs t ! j)" if "i < j" "j < length (objs t)" for i j
    using t that names.cmp_zero [OF K K, of i j] by (fastforce simp: table_ok_def sorted_wrt_iff_nth_less)
  then show ?thesis by (auto simp: distinct_conv_nth) (metis linorder_neqE_nat)
qed

text \<open>Changing the value of one object.\<close>

lemma set_nth_val_map:
  assumes "k \<notin> obj_name ` set (take i xs)" "i < length xs" "obj_name (xs ! i) = k"
  shows "objs_map (set_nth_val i v xs) = (objs_map xs)(k \<mapsto> v)"
proof -
  let ?a = "take i xs" and ?b = "drop (Suc i) xs"
  have "set_nth_val i v xs = ?a @ (xs ! i)\<lparr>obj_val := v\<rparr> # ?b" "xs = ?a @ xs ! i # ?b"
    using assms(2) by (simp_all add: set_nth_val_def upd_conv_take_nth_drop id_take_nth_drop)
  then show ?thesis
    using objs_map_mid [OF assms(1), of "(xs ! i)\<lparr>obj_val := v\<rparr>" ?b] objs_map_mid [OF assms(1,3), of ?b] assms(3) by simp
qed

lemma set_nth_val_props:
  assumes "i < length xs"
  shows "map obj_name (set_nth_val i v xs) = map obj_name xs" "list_all named (set_nth_val i v xs) \<longleftrightarrow> list_all named xs"
    "list_all (obj_ok K) (set_nth_val i v xs) \<longleftrightarrow> list_all (obj_ok K) xs" "length (set_nth_val i v xs) = length xs"
proof -
  have n: "obj_name (set_nth_val i v xs ! j) = obj_name (xs ! j)" "obj_hash (set_nth_val i v xs ! j) = obj_hash (xs ! j)"
    "obj_nval (set_nth_val i v xs ! j) = obj_nval (xs ! j)" for j
    using assms by (cases "j = i"; simp add: set_nth_val_def)+
  show l: "length (set_nth_val i v xs) = length xs" by (simp add: set_nth_val_def)
  show "map obj_name (set_nth_val i v xs) = map obj_name xs" by (rule nth_equalityI) (simp_all add: l n)
  show "list_all named (set_nth_val i v xs) \<longleftrightarrow> list_all named xs"
    "list_all (obj_ok K) (set_nth_val i v xs) \<longleftrightarrow> list_all (obj_ok K) xs"
    by (simp_all add: list_all_length l named_def obj_ok_def n)
qed

lemma set_nth_val_ok:
  assumes "table_ok K t" "i < length (objs t)"
  shows "table_ok K (t\<lparr>objs := set_nth_val i v (objs t)\<rparr>)"
proof -
  have "sorted_wrt (\<lambda>x y. key_cmp x y < 0) (map obj_name (set_nth_val i v (objs t)))"
    unfolding set_nth_val_props(1) [OF assms(2)] using assms(1) by (simp add: table_ok_def sorted_wrt_map)
  then have "sorted_wrt (\<lambda>x y. key_cmp (obj_name x) (obj_name y) < 0) (set_nth_val i v (objs t))"
    by (simp only: sorted_wrt_map)
  then show ?thesis using assms by (simp add: table_ok_def cur_ok_def set_nth_val_props split: option.splits)
qed

section \<open>Making a variable\<close>

lemma setobj_named:
  assumes "table_ok name_key t" "name_key k" "list_all named (objs t)"
  shows "list_all named (objs (nsp_setobj t k v upd))" "index_named (cdb_hash k) k (objs (nsp_setobj t k v upd)) = Some (obj_index t k)"
proof -
  have k: "k \<noteq> []" "is_cstr k" "take (MAX_OBJNAMELEN - 1) k = k" using assms(2) by (auto simp: name_key_def MAX_OBJNAMELEN_def)
  have x: "named (n_setname k v)" "obj_name (n_setname k v) = k"
    using k by (simp_all add: named_def n_setname_def nc_strncpy_def Let_def)
  show nm: "list_all named (objs (nsp_setobj t k v upd))"
  proof (cases "objs t = []")
    case False
    obtain pl cu where l: "n_locateobj t k = (pl, cu)" by (cases "n_locateobj t k")
    note p = names.place(1) [OF assms(1,2) False l]
    show ?thesis
    proof (cases pl)
      case (Found i)
      then have "i < length (objs t)" using p by (simp add: place_of_def)
      then show ?thesis using Found l False k(1) assms(3) set_nth_val_props(2) [of i "objs t" "upd (obj_val (objs t ! i))"]
        by (simp add: nsp_setobj_def set_nth_val_def)
    qed (use l False k(1) assms(3) x(1) in \<open>auto simp: nsp_setobj_def insert_at_def list_all_iff dest: in_set_takeD in_set_dropD\<close>)
  qed (use k(1) x(1) in \<open>simp add: nsp_setobj_def\<close>)
  show "index_named (cdb_hash k) k (objs (nsp_setobj t k v upd)) = Some (obj_index t k)"
    unfolding index_named_Some [OF nm k(2)]
  proof (cases "objs t = []")
    case False
    obtain pl cu where l: "n_locateobj t k = (pl, cu)" by (cases "n_locateobj t k")
    note p = names.place(1) [OF assms(1,2) False l]
    show "obj_index t k < length (objs (nsp_setobj t k v upd)) \<and> obj_name (objs (nsp_setobj t k v upd) ! obj_index t k) = k
      \<and> k \<notin> obj_name ` set (take (obj_index t k) (objs (nsp_setobj t k v upd)))"
    proof (cases "\<exists>i. pl = Found i")
      case True
      then obtain i where i: "pl = Found i" by blast
      note f = names.found_split [OF assms(1,2) p [unfolded i]]
      show ?thesis using f(2-4) l False k(1) i by (simp add: nsp_setobj_def obj_index_def)
    next
      case nf: False
      note ab = names.absent [OF assms(1,2) p nf]
      then have "k \<notin> obj_name ` set (take i (objs t))" for i by (auto dest: in_set_takeD)
      with ab show ?thesis using l False k(1) nf x(2) p
        by (cases pl) (auto simp: nsp_setobj_def obj_index_def insert_at_def nth_append place_of_def)
    qed
  qed (use k(1) x(2) in \<open>simp add: nsp_setobj_def obj_index_def\<close>)
qed

section \<open>Reading and assigning\<close>

lemma find_local:
  assumes "locals_ok e" "local_name x e"
  shows "find_var e x = map_option LocalVar (index_named (cdb_hash x) x (objs (locals e)))"
proof (cases "index_named (cdb_hash x) x (objs (locals e))")
  case None
  have ok: "list_all named (objs (locals e))" "is_cstr x" "distinct (map obj_name (objs (locals e)))"
    using assms by (simp_all add: locals_ok_def local_name_def name_key_cstr table_names_distinct)
  have "objs_map (objs (locals e)) x = None" using objs_map_index [OF ok(1,2)] None by simp
  from scan_locals_map(2) [OF ok this, of None]
  have "snd (scan_locals (cdb_hash x) x (objs (locals e)) None) = None"
    using assms(1) by (simp add: locals_ok_def table_map_def)
  then show ?thesis using assms(2) None by (simp add: find_var_def Let_def local_name_def)
qed (simp add: find_var_def Let_def)

lemma var_env_local:
  assumes "locals_ok e" "local_name x e"
  shows "var_env e x = (case local_map e x of Some v \<Rightarrow> v | None \<Rightarrow> NullV)"
  using objs_map_index [of "objs (locals e)" x] assms
  by (cases "index_named (cdb_hash x) x (objs (locals e))")
    (simp_all add: var_env_def find_local local_map_def table_map_def var_val_def locals_ok_def local_name_def name_key_cstr)

lemma set_local:
  assumes ok: "locals_ok e" and x: "name_key x" "x \<noteq> ''this''" and i: "index_named (cdb_hash x) x (objs (locals e)) = Some i"
  shows "locals_ok (set_var (LocalVar i) v e)" "local_map (set_var (LocalVar i) v e) = (local_map e)(x \<mapsto> v)"
    "globals (set_var (LocalVar i) v e) = globals e"
proof -
  have nm: "list_all named (objs (locals e))" "is_cstr x" using ok x by (simp_all add: locals_ok_def name_key_cstr)
  note j = i [unfolded index_named_Some [OF nm]]
  show m: "local_map (set_var (LocalVar i) v e) = (local_map e)(x \<mapsto> v)"
    using set_nth_val_map [of x i "objs (locals e)" v] j by (simp add: local_map_def table_map_def set_var_def)
  show "locals_ok (set_var (LocalVar i) v e)"
    using ok set_nth_val_ok [of name_key "locals e" i v] set_nth_val_props(2) [of i "objs (locals e)" v] j m x(2)
    by (simp add: locals_ok_def set_var_def local_map_def fun_eq_iff)
  show "globals (set_var (LocalVar i) v e) = globals e" by (simp add: set_var_def)
qed

lemma make_local:
  assumes ok: "locals_ok e" and x: "name_key x" "x \<noteq> ''this''" and mk: "make_var Locals x v e = (pl, e')"
  shows "\<exists>i. pl = LocalVar i \<and> index_named (cdb_hash x) x (objs (locals e')) = Some i"
    "locals_ok e'" "local_map e' = (local_map e)(x \<mapsto> v)" "globals e' = globals e"
proof -
  have t: "table_ok name_key (locals e)" "list_all named (objs (locals e))" using ok by (simp_all add: locals_ok_def)
  have e': "pl = LocalVar (obj_index (locals e) x)" "e' = e\<lparr>locals := nsp_setobj (locals e) x v (\<lambda>_. v)\<rparr>"
    using mk by (auto simp: make_var_def scope_table_def set_scope_def scope_place_def Let_def)
  note s = names.set_map [OF t(1) x(1), of v "\<lambda>_. v"] setobj_named [OF t(1) x(1) t(2), of v "\<lambda>_. v"]
  show "\<exists>i. pl = LocalVar i \<and> index_named (cdb_hash x) x (objs (locals e')) = Some i" using s(3) e' by simp
  show m: "local_map e' = (local_map e)(x \<mapsto> v)"
    using s(1) e' by (auto simp: local_map_def fun_eq_iff split: option.splits)
  show "locals_ok e'" using s ok e' m x(2) by (auto simp: locals_ok_def local_map_def fun_eq_iff)
  show "globals e' = globals e" using e' by simp
qed

text \<open>The variable of a statement: what it holds stays, or it is new and false.\<close>

lemma stmt_local:
  assumes ok: "locals_ok e" and x: "local_name x e" and sv: "stmt_var x e = (pl, e')"
  shows "\<exists>i. pl = LocalVar i \<and> index_named (cdb_hash x) x (objs (locals e')) = Some i"
    "locals_ok e'" "local_map e' = (local_map e)(x \<mapsto> (case local_map e x of Some v \<Rightarrow> if v = NullV then BoolV False else v | None \<Rightarrow> BoolV False))"
    "globals e' = globals e"
proof -
  have nx: "name_key x" "x \<noteq> ''this''" using x by (simp_all add: local_name_def)
  have nm: "list_all named (objs (locals e))" "is_cstr x" using ok nx by (simp_all add: locals_ok_def name_key_cstr)
  note f = find_local [OF ok x]
  note lm = objs_map_index [OF nm, folded table_map_def, folded local_map_def]
  have "(\<exists>i. pl = LocalVar i \<and> index_named (cdb_hash x) x (objs (locals e')) = Some i) \<and> locals_ok e'
    \<and> local_map e' = (local_map e)(x \<mapsto> (case local_map e x of Some v \<Rightarrow> if v = NullV then BoolV False else v | None \<Rightarrow> BoolV False))
    \<and> globals e' = globals e"
  proof (cases "var_env e x = NullV")
    case True
    then have "make_var Locals x (BoolV False) e = (pl, e')"
      using sv f by (auto simp: stmt_var_def var_env_def split: option.splits)
    from make_local [OF ok nx this] show ?thesis using True var_env_local [OF ok x] by (auto split: option.splits)
  next
    case False
    then obtain i where i: "index_named (cdb_hash x) x (objs (locals e)) = Some i"
      using f by (cases "index_named (cdb_hash x) x (objs (locals e))") (auto simp: var_env_def)
    then have "pl = LocalVar i" "e' = e" using sv f False by (auto simp: stmt_var_def var_env_def)
    then show ?thesis using i ok lm False var_env_local [OF ok x] by (auto simp: fun_eq_iff)
  qed
  then show "\<exists>i. pl = LocalVar i \<and> index_named (cdb_hash x) x (objs (locals e')) = Some i" "locals_ok e'"
    "local_map e' = (local_map e)(x \<mapsto> (case local_map e x of Some v \<Rightarrow> if v = NullV then BoolV False else v | None \<Rightarrow> BoolV False))"
    "globals e' = globals e" by blast+
qed

end
