(* ===== verification/NspProg.thy ===== *)
theory NspProg
  imports NspVars
begin

text \<open>
  What programs do, stated on their structure instead of on code: assignments, \<open>if\<close>, \<open>while\<close>, \<open>break\<close>, \<open>continue\<close> and
  \<open>return\<close> with a big-step semantics, their code, and what \<open>nsp_exec\<close> does on the simple statements.
\<close>

section \<open>Programs\<close>

datatype stmt =
    SAssign string operand "(nat \<times> operand) list"
  | SIf operand "(nat \<times> operand) list" "stmt list" "stmt list"
  | SWhile operand "(nat \<times> operand) list" "stmt list"
  | SBreak
  | SContinue
  | SReturn operand "(nat \<times> operand) list"

fun onodes :: "operand \<Rightarrow> node list" and rnodes :: "(nat \<times> operand) list \<Rightarrow> node list" where
  "onodes (ONum neg s) = (if neg then [Leaf (IOp OP_MSUB)] else []) @ [Leaf (IShort OP_NUMDATA s)]"
| "onodes (OStr s) = [Leaf (ILong OP_STRDATA s)]"
| "onodes (OVar x) = [Leaf (IShort OP_LABEL x)]"
| "onodes (OParen a r) = [Parens (onodes a @ rnodes r)]"
| "rnodes [] = []"
| "rnodes ((opc, a) # r) = Leaf (IOp opc) # onodes a @ rnodes r"

definition enodes :: "operand \<Rightarrow> (nat \<times> operand) list \<Rightarrow> node list" where
  "enodes a r = onodes a @ rnodes r"

fun snodes :: "stmt \<Rightarrow> node list" and bnodes :: "stmt list \<Rightarrow> node list" where
  "snodes (SAssign x a r) = Leaf (IShort OP_LABEL x) # Leaf (IOp OP_MEQ) # enodes a r @ [Leaf (IOp OP_PSEMICOL)]"
| "snodes (SIf a r b c) = Leaf (IOp OP_KIF) # Parens (enodes a r) # Braces (bnodes b)
     # (if c = [] then [] else [Leaf (IOp OP_KELSE), Braces (bnodes c)])"
| "snodes (SWhile a r b) = [Leaf (IOp OP_KWHILE), Parens (enodes a r), Braces (bnodes b)]"
| "snodes SBreak = [Leaf (IOp OP_KBREAK), Leaf (IOp OP_PSEMICOL)]"
| "snodes SContinue = [Leaf (IOp OP_KCONT), Leaf (IOp OP_PSEMICOL)]"
| "snodes (SReturn a r) = Leaf (IOp OP_KRET) # enodes a r @ [Leaf (IOp OP_PSEMICOL)]"
| "bnodes [] = []"
| "bnodes (s # ss) = snodes s @ bnodes ss"

definition ncode :: "node list \<Rightarrow> string" where
  "ncode ns = encs (flat True ns)"

definition wf_expr :: "operand \<Rightarrow> (nat \<times> operand) list \<Rightarrow> bool" where
  "wf_expr a r \<longleftrightarrow> wf_operand a \<and> wf_rest r"

definition block_fits :: "node list \<Rightarrow> bool" where
  "block_fits ns \<longleftrightarrow> length (ncode ns) < 2 ^ 31"

fun wf_stmt :: "stmt \<Rightarrow> bool" and wf_stmts :: "stmt list \<Rightarrow> bool" where
  "wf_stmt (SAssign x a r) \<longleftrightarrow> x \<noteq> [] \<and> length x < MAX_OBJNAMELEN \<and> is_cstr x \<and> wf_expr a r \<and> OP_MLAND \<notin> fst ` set r"
| "wf_stmt (SIf a r b c) \<longleftrightarrow> wf_expr a r \<and> length (ncode (enodes a r)) < 2 ^ 16
     \<and> block_fits (bnodes b) \<and> block_fits (bnodes c) \<and> wf_stmts b \<and> wf_stmts c"
| "wf_stmt (SWhile a r b) \<longleftrightarrow> wf_expr a r \<and> wf_stmts b"
| "wf_stmt SBreak \<longleftrightarrow> True"
| "wf_stmt SContinue \<longleftrightarrow> True"
| "wf_stmt (SReturn a r) \<longleftrightarrow> wf_expr a r \<and> OP_MLAND \<notin> fst ` set r"
| "wf_stmts [] \<longleftrightarrow> True"
| "wf_stmts (s # ss) \<longleftrightarrow> wf_stmt s \<and> wf_stmts ss"

section \<open>Semantics\<close>

datatype flow = Next | Brk | Cont | Ret val

text \<open>An assignment makes its variable, if there is none, before it evaluates the expression.\<close>

definition assign_var :: "string \<Rightarrow> val \<Rightarrow> ectx \<Rightarrow> ectx" where
  "assign_var x v e = (case stmt_var x e of (pl, e') \<Rightarrow> set_var pl v e')"

definition eval_expr :: "ectx \<Rightarrow> operand \<Rightarrow> (nat \<times> operand) list \<Rightarrow> val res" where
  "eval_expr e a r = oval (var_env e) (OParen a r)"

inductive bexec :: "ectx \<Rightarrow> stmt list \<Rightarrow> flow \<Rightarrow> ectx \<Rightarrow> bool"
  and bloop :: "ectx \<Rightarrow> operand \<Rightarrow> (nat \<times> operand) list \<Rightarrow> stmt list \<Rightarrow> flow \<Rightarrow> ectx \<Rightarrow> bool" where
  Done: "bexec e [] Next e"
| Assign: "eval_expr (snd (stmt_var x e)) a r = Inr v \<Longrightarrow> bexec (assign_var x v e) ss f e' \<Longrightarrow> bexec e (SAssign x a r # ss) f e'"
| If: "eval_expr e a r = Inr v \<Longrightarrow> bexec e (if nsp_tobool v then b else c) Next e1 \<Longrightarrow> bexec e1 ss f e'
    \<Longrightarrow> bexec e (SIf a r b c # ss) f e'"
| IfStop: "eval_expr e a r = Inr v \<Longrightarrow> bexec e (if nsp_tobool v then b else c) f e' \<Longrightarrow> f \<noteq> Next
    \<Longrightarrow> bexec e (SIf a r b c # ss) f e'"
| While: "bloop e a r b Next e1 \<Longrightarrow> bexec e1 ss f e' \<Longrightarrow> bexec e (SWhile a r b # ss) f e'"
| WhileRet: "bloop e a r b (Ret v) e' \<Longrightarrow> bexec e (SWhile a r b # ss) (Ret v) e'"
| Break: "bexec e (SBreak # ss) Brk e"
| Continue: "bexec e (SContinue # ss) Cont e"
| Return: "eval_expr e a r = Inr v \<Longrightarrow> bexec e (SReturn a r # ss) (Ret v) e"
| LoopEnd: "eval_expr e a r = Inr v \<Longrightarrow> is_false v \<Longrightarrow> bloop e a r b Next e"
| LoopBody: "eval_expr e a r = Inr v \<Longrightarrow> \<not> is_false v \<Longrightarrow> bexec e b f1 e1 \<Longrightarrow> f1 = Next \<or> f1 = Cont
    \<Longrightarrow> bloop e1 a r b f e' \<Longrightarrow> bloop e a r b f e'"
| LoopBreak: "eval_expr e a r = Inr v \<Longrightarrow> \<not> is_false v \<Longrightarrow> bexec e b Brk e' \<Longrightarrow> bloop e a r b Next e'"
| LoopRet: "eval_expr e a r = Inr v \<Longrightarrow> \<not> is_false v \<Longrightarrow> bexec e b (Ret w) e' \<Longrightarrow> bloop e a r b (Ret w) e'"

section \<open>Code of programs\<close>

lemma flat_append [simp]: "flat full (a @ b) = flat full a @ flat full b"
  by (induction full a rule: flat.induct) simp_all

lemma flat_expr: "flat True (onodes a) = ocode a" "flat True (rnodes r) = rcode r"
  by (induction a and r rule: onodes_rnodes.induct) simp_all

lemma flat_enodes [simp]: "flat True (enodes a r) = ocode a @ rcode r"
  by (simp add: enodes_def flat_expr)

lemma wf_nodes_append [simp]: "wf_nodes (a @ b) \<longleftrightarrow> wf_nodes a \<and> wf_nodes b"
  by (induction a rule: wf_nodes.induct) auto

lemma wf_expr_nodes: "wf_operand a \<Longrightarrow> wf_nodes (onodes a)" "wf_rest r \<Longrightarrow> wf_nodes (rnodes r)"
  by (induction a and r rule: onodes_rnodes.induct) (auto simp: leaf_codes leaf_codes(1) [simplified] leaf_codes(3) [simplified])

lemma leaf_keys [simp]: "leaf_instr (IOp OP_MEQ)" "leaf_instr (IOp OP_PSEMICOL)" "leaf_instr (IOp OP_KIF)"
  "leaf_instr (IOp OP_KELSE)" "leaf_instr (IOp OP_KWHILE)" "leaf_instr (IOp OP_KBREAK)" "leaf_instr (IOp OP_KCONT)"
  "leaf_instr (IOp OP_KRET)"
  by (simp_all add: leaf_instr_def closer_def OP_ISMATH_def OP_ISPUNC_def OP_ISKEY_def)

lemma leaf_label: "length x < MAX_OBJNAMELEN \<Longrightarrow> leaf_instr (IShort OP_LABEL x)"
  by (simp add: leaf_instr_def closer_def MAX_OBJNAMELEN_def)

lemma wf_stmt_nodes: "wf_stmt s \<Longrightarrow> wf_nodes (snodes s)" "wf_stmts ss \<Longrightarrow> wf_nodes (bnodes ss)"
  by (induction s and ss rule: snodes_bnodes.induct) (auto simp: wf_expr_def enodes_def wf_expr_nodes leaf_label)

text \<open>Nodes without line marks outside blocks.\<close>

fun no_lines :: "node list \<Rightarrow> bool" where
  "no_lines [] \<longleftrightarrow> True"
| "no_lines (Leaf i # ns) \<longleftrightarrow> iop i \<noteq> OP_LINENUM \<and> no_lines ns"
| "no_lines (Braces b # ns) \<longleftrightarrow> no_lines ns"
| "no_lines (Parens b # ns) \<longleftrightarrow> no_lines ns"

lemma no_lines_append [simp]: "no_lines (a @ b) \<longleftrightarrow> no_lines a \<and> no_lines b"
  by (induction a rule: no_lines.induct) auto

lemma expr_no_lines: "wf_operand a \<Longrightarrow> no_lines (onodes a)" "wf_rest r \<Longrightarrow> no_lines (rnodes r)"
  by (induction a and r rule: onodes_rnodes.induct) (auto dest: wf_binop)

lemma stmt_no_lines: "wf_stmt s \<Longrightarrow> no_lines (snodes s)" "wf_stmts ss \<Longrightarrow> no_lines (bnodes ss)"
  by (induction s and ss rule: snodes_bnodes.induct) (auto simp: wf_expr_def enodes_def expr_no_lines)

text \<open>\<open>n_skipto\<close> passes nested code on its way to a closing operator.\<close>

lemma skipto_leaf:
  assumes "leaf_instr i" "iop i \<noteq> OP_LINENUM" "at_ops code (i # is) p" "closer c"
  shows "skipto_loop code c p lno = skipto_loop code c (p + int (length (enc i))) lno"
proof -
  have "rd code p = Some (iop i)" "seek_one code p = Some (p + int (length (enc i)))"
    using at_ops_rd [OF assms(3)] at_ops_seek [OF assms(3)] assms(1) by (simp_all add: leaf_instr_def)
  then show ?thesis using assms iop_byte [of i]
    by (subst skipto_loop.simps) (auto simp: leaf_instr_def closer_def n_seekop_def)
qed

lemma skipto_block:
  assumes "at_ops code (IBrace n # is) p \<and> cl = OP_PCBRACE \<and> q = p + 5 \<or> at_ops code (IParen n # is) p \<and> cl = OP_PCPAREN \<and> q = p + 3"
    and "skipblock code cl q = Some q'" "closer c"
  shows "skipto_loop code c p lno = skipto_loop code c q' lno"
  using assms at_ops_rd [of code "IBrace n" "is" p] at_ops_rd [of code "IParen n" "is" p]
  by (subst skipto_loop.simps) (auto simp: n_seekop_def closer_def)

lemma block_end:
  assumes "at_ops code (flat True b @ IOp cl # is) p" "wf_nodes b" "closer cl"
  shows "skipblock code cl p = Some (p + int (length (ncode b)) + 1) \<and> at_ops code is (p + int (length (ncode b)) + 1)"
proof -
  have "wf_instr (IOp cl)" using assms(3) by (auto simp: closer_def OP_ISPUNC_def)
  with skipblock_nested [OF assms] skipblock_stop [of code "IOp cl" "is" _ cl] assms(3) show ?thesis
    by (auto simp: ncode_def)
qed

lemma skipto_nested:
  assumes "at_ops code (flat True ns @ is) p" "wf_nodes ns" "no_lines ns" "closer c"
  shows "skipto_loop code c p lno = skipto_loop code c (p + int (length (ncode ns))) lno
    \<and> at_ops code is (p + int (length (ncode ns)))"
  using assms
proof (induction ns arbitrary: p rule: wf_nodes.induct)
  case (2 i ns)
  then have at: "at_ops code (i # flat True ns @ is) p" by simp
  have "at_ops code (flat True ns @ is) (p + int (length (enc i)))" using at_ops_next [OF at] .
  from 2(1) [OF this] skipto_leaf [OF _ _ at] 2(3-5) show ?case
    by (simp add: ncode_def add.assoc [symmetric])
next
  case (3 b ns)
  let ?q = "p + 5 + int (length (ncode b)) + 1"
  have at: "at_ops code (IBrace (int (length (encs (flat True b)))) # flat True b @ IOp OP_PCBRACE # flat True ns @ is) p"
    using 3 by simp
  have e: "skipblock code OP_PCBRACE (p + 5) = Some ?q" "at_ops code (flat True ns @ is) ?q"
    using block_end [of code b OP_PCBRACE "flat True ns @ is" "p + 5"] at_ops_next [OF at] 3 by (auto simp: closer_def)
  from 3(2) [OF e(2)] 3(4-6)
  have "skipto_loop code c ?q lno = skipto_loop code c (?q + int (length (ncode ns))) lno \<and> at_ops code is (?q + int (length (ncode ns)))"
    by simp
  moreover have "skipto_loop code c p lno = skipto_loop code c ?q lno"
    by (rule skipto_block [OF _ e(1) 3(6)]) (use at in blast)
  moreover have "int (length (ncode (Braces b # ns))) = 5 + int (length (ncode b)) + 1 + int (length (ncode ns))"
    by (simp add: ncode_def)
  ultimately show ?case by (simp only: add.assoc)
next
  case (4 b ns)
  let ?q = "p + 3 + int (length (ncode b)) + 1"
  have at: "at_ops code (IParen (int (length (encs (flat True b)))) # flat True b @ IOp OP_PCPAREN # flat True ns @ is) p"
    using 4 by simp
  have e: "skipblock code OP_PCPAREN (p + 3) = Some ?q" "at_ops code (flat True ns @ is) ?q"
    using block_end [of code b OP_PCPAREN "flat True ns @ is" "p + 3"] at_ops_next [OF at] 4 by (auto simp: closer_def)
  from 4(2) [OF e(2)] 4(4-6)
  have "skipto_loop code c ?q lno = skipto_loop code c (?q + int (length (ncode ns))) lno \<and> at_ops code is (?q + int (length (ncode ns)))"
    by simp
  moreover have "skipto_loop code c p lno = skipto_loop code c ?q lno"
    by (rule skipto_block [OF _ e(1) 4(6)]) (use at in blast)
  moreover have "int (length (ncode (Parens b # ns))) = 3 + int (length (ncode b)) + 1 + int (length (ncode ns))"
    by (simp add: ncode_def)
  ultimately show ?case by (simp only: add.assoc)
qed (simp add: ncode_def)

section \<open>Configurations\<close>

definition at_env :: "ectx \<Rightarrow> int \<Rightarrow> int \<Rightarrow> ectx" where
  "at_env e p l = e\<lparr>readptr := p, linenum := l\<rparr>"

definition is_ret :: "flow \<Rightarrow> bool" where "is_ret f = (case f of Ret v \<Rightarrow> True | _ \<Rightarrow> False)"

text \<open>The state of the interpreter with the variables \<open>e\<close>, the pointer at \<open>p\<close>, and the flags that a flow of control raises.\<close>

definition fin :: "flow \<Rightarrow> ectx \<Rightarrow> int \<Rightarrow> int \<Rightarrow> val \<Rightarrow> xctx" where
  "fin f e p l q = \<lparr>xenv = at_env e p l, rval = (case f of Ret v \<Rightarrow> v | _ \<Rightarrow> q),
     brk = (if f = Brk then 1 else 0), cnt = (f = Cont), ret = is_ret f\<rparr>"

abbreviation cfg :: "ectx \<Rightarrow> int \<Rightarrow> int \<Rightarrow> val \<Rightarrow> xctx" where "cfg \<equiv> fin Next"

definition elen :: "operand \<Rightarrow> (nat \<times> operand) list \<Rightarrow> int" where
  "elen a r = int (length (ncode (enodes a r)))"

lemma at_env_simps [simp]:
  "readptr (at_env e p l) = p" "locals (at_env e p l) = locals e" "globals (at_env e p l) = globals e"
  "tabs (at_env e p l) = tabs e" "linenum (at_env e p l) = l" "advance n (at_env e p l) = at_env e (p + n) l"
  "(at_env e p l)\<lparr>readptr := q\<rparr> = at_env e q l"
  by (simp_all add: at_env_def advance_def)

lemma at_env_vars [simp]: "find_var (at_env e p l) = find_var e" "var_val (at_env e p l) = var_val e"
  unfolding fun_eq_iff find_var_def var_val_def at_env_simps by (rule allI, rule refl)+

lemma at_env_env [simp]: "var_env (at_env e p l) = var_env e"
  unfolding fun_eq_iff var_env_def at_env_vars by (rule allI, rule refl)

lemma at_env_set [simp]: "set_var pl v (at_env e p l) = at_env (set_var pl v e) p l"
  by (cases pl) (simp_all add: set_var_def at_env_def)

lemma at_env_make [simp]: "make_var sc k v (at_env e p l) = (case make_var sc k v e of (pl, e') \<Rightarrow> (pl, at_env e' p l))"
  by (cases sc) (simp_all add: make_var_def scope_table_def set_scope_def Let_def at_env_def)

lemma at_env_stmt [simp]: "stmt_var x (at_env e p l) = (case stmt_var x e of (pl, e') \<Rightarrow> (pl, at_env e' p l))"
  by (simp add: stmt_var_def split: option.splits prod.splits)

lemma fin_simps [simp]:
  "xptr (fin f e p l q) = p" "xenv (fin f e p l q) = at_env e p l" "xmove n (fin f e p l q) = fin f e (p + n) l q"
  "xseek p' (fin f e p l q) = fin f e p' l q" "ret (fin f e p l q) = is_ret f" "cnt (fin f e p l q) = (f = Cont)"
  "brk (fin f e p l q) = (if f = Brk then 1 else 0)"
  by (simp_all add: xptr_def fin_def xmove_def xseek_def)

lemma xpeek_at:
  assumes "at_ops code (i # is) (xptr x)" "wf_instr i" "iop i \<noteq> OP_LINENUM"
  shows "xpeek code x = Inr (iop i, x)"
  using peek_at [OF assms(1) [unfolded xptr_def] assms(2,3)] by (simp add: xpeek_def)

lemma xexpect_at:
  assumes "at_ops code (i # is) (xptr x)" "wf_instr i" "iop i \<noteq> OP_LINENUM"
  shows "xexpect code (iop i) x = Inr x"
  using peek_at [OF assms(1) [unfolded xptr_def] assms(2,3)] by (simp add: xexpect_def n_expect_def)

lemma xbyte_at: "at_ops code (i # is) (xptr x) \<Longrightarrow> wf_instr i \<Longrightarrow> xbyte code x = Inr (iop i)"
  using at_ops_rd [of code i "is" "xptr x"] by (simp add: xbyte_def)

lemma xenter_at:
  "at_ops code (IBrace n # is) (xptr x) \<Longrightarrow> xenter code x = Inr (xmove 5 x)"
  "at_ops code (IParen n # is) (xptr x) \<Longrightarrow> xenter code x = Inr (xmove 3 x)"
  using at_ops_rd [of code "IBrace n" "is" "xptr x"] at_ops_seek [of code "IBrace n" "is" "xptr x"]
    at_ops_rd [of code "IParen n" "is" "xptr x"] at_ops_seek [of code "IParen n" "is" "xptr x"]
  by (simp_all add: xenter_def n_seekop_def xseek_def xmove_def xptr_def advance_def)

lemma xeval_at:
  assumes "at_ops code (ocode a @ rcode r @ IOp t # is) p" "wf_expr a r" "ends t r" "ofuel a + rfuel r < k"
    and "eval_expr e a r = Inr v"
  shows "xeval k code (fin f e p l q) = Inr (v, (fin f e (p + elen a r) l q)\<lparr>rval := v\<rparr>)"
proof -
  have "nsp_eval k code (at_env e p l) = Inr (v, at_env e (p + elen a r) l)"
    using nsp_eval_at [of code a r t "is" "at_env e p l" k] assms
    by (simp add: wf_expr_def eval_expr_def elen_def ncode_def)
  then show ?thesis by (simp add: xeval_def fin_def)
qed

lemma cfg_rval [simp]: "(cfg e p l q)\<lparr>rval := v\<rparr> = cfg e p l v"
  by (simp add: fin_def)

lemma elen_encs: "elen a r = int (length (encs (ocode a @ rcode r)))"
  by (simp add: elen_def ncode_def)

lemma at_expr_end:
  assumes "at_ops code (ocode a @ rcode r @ is) p" "wf_expr a r"
  shows "at_ops code is (p + elen a r)"
proof -
  have "at_ops code (flat True (enodes a r) @ is) p" "wf_nodes (enodes a r)" "no_lines (enodes a r)"
    using assms by (simp_all add: wf_expr_def enodes_def wf_expr_nodes expr_no_lines flat_expr)
  then show ?thesis using skipto_nested [of code "enodes a r" "is" p OP_PCPAREN] by (simp add: closer_def elen_def)
qed

section \<open>Simple statements\<close>

lemma wf_ops [simp]: "wf_instr (IOp OP_MEQ)" "wf_instr (IOp OP_PSEMICOL)" "wf_instr (IOp OP_KIF)"
  "wf_instr (IOp OP_KELSE)" "wf_instr (IOp OP_KWHILE)" "wf_instr (IOp OP_KBREAK)" "wf_instr (IOp OP_KCONT)"
  "wf_instr (IOp OP_KRET)"
  using leaf_keys by (simp_all only: leaf_instr_def)

declare wf_instr.simps(6) [simp del]

text \<open>The first instruction of an expression.\<close>

lemma expr_head:
  assumes "wf_operand a"
  shows "\<exists>i is'. ocode a = i # is' \<and> wf_instr i \<and> iop i \<in> {OP_LABEL, OP_NUMDATA, OP_STRDATA, OP_MSUB, OP_POPAREN}"
proof -
  have "wf_instr (IOp OP_MSUB)" using leaf_codes(5) by (simp only: leaf_instr_def)
  then show ?thesis using assms by (cases a) auto
qed

lemma xpeek_expr:
  assumes at: "at_ops code (ocode a @ is) (xptr x)" and "wf_operand a"
  shows "\<exists>b. xpeek code x = Inr (b, x) \<and> b \<in> {OP_LABEL, OP_NUMDATA, OP_STRDATA, OP_MSUB, OP_POPAREN}"
proof -
  obtain i is' where i: "ocode a = i # is'" "wf_instr i" "iop i \<in> {OP_LABEL, OP_NUMDATA, OP_STRDATA, OP_MSUB, OP_POPAREN}"
    using expr_head [OF assms(2)] by blast
  then show ?thesis using xpeek_at [of code i "is' @ is" x] at by auto
qed

lemma store_val_at:
  assumes at: "at_ops code (ocode a @ rcode r @ IOp OP_PSEMICOL # is) p" and wf: "wf_expr a r" "OP_MLAND \<notin> fst ` set r"
    and k: "ofuel a + rfuel r < k" and v: "eval_expr e a r = Inr v"
  shows "store_val k code tg (cfg e p l q) = Inr (tmove tg v (cfg e (p + elen a r) l v))"
proof -
  obtain b where "xpeek code (cfg e p l q) = Inr (b, cfg e p l q)" "b \<noteq> OP_KFUNC"
    using xpeek_expr [of code a "rcode r @ IOp OP_PSEMICOL # is" "cfg e p l q"] at wf by (auto simp: wf_expr_def)
  moreover have "ends OP_PSEMICOL r" using wf(2) by (simp add: ends_def)
  ultimately show ?thesis using xeval_at [OF at wf(1) _ k v, of Next l q] by (simp add: store_val_def)
qed

lemma label_stmt_at:
  assumes at: "at_ops code (IShort OP_LABEL x # IOp OP_MEQ # ocode a @ rcode r @ IOp OP_PSEMICOL # is) p"
    and wf: "wf_stmt (SAssign x a r)" and k: "ofuel a + rfuel r < k" and v: "eval_expr (snd (stmt_var x e)) a r = Inr v"
  shows "label_stmt k code (cfg e p l q)
    = Inr (cfg (assign_var x v e) (p + int (length (enc (IShort OP_LABEL x))) + 1 + elen a r) l (left_val v))"
proof -
  obtain pl e1 where sv: "stmt_var x e = (pl, e1)" by (cases "stmt_var x e")
  let ?p = "p + int (length (enc (IShort OP_LABEL x)))"
  have x: "wf_operand (OVar x)" "nc_strncpy x MAX_OBJNAMELEN = x" "x \<noteq> []"
    using wf by (auto simp: MAX_OBJNAMELEN_def nc_strncpy_def)
  have ex: "wf_expr a r" "OP_MLAND \<notin> fst ` set r" using wf by simp_all
  have at1: "at_ops code (IOp OP_MEQ # ocode a @ rcode r @ IOp OP_PSEMICOL # is) ?p" by (rule at_ops_next [OF at])
  have at2: "at_ops code (ocode a @ rcode r @ IOp OP_PSEMICOL # is) (?p + 1)" using at_ops_next [OF at1] by simp
  have "n_getlabel code (at_env e p l) = Inr (x, at_env e ?p l)"
    using getlabel_at [of code OP_LABEL x _ "at_env e p l"] at x(1) by simp
  moreover have "(fin Next e p l q)\<lparr>xenv := at_env e ?p l\<rparr> = cfg e ?p l q" by (simp add: fin_def)
  moreover have "xpeek code (cfg e ?p l q) = Inr (OP_MEQ, cfg e ?p l q)" using xpeek_at [of code "IOp OP_MEQ" _ "cfg e ?p l q"] at1 by simp
  moreover have "(cfg e ?p l q)\<lparr>xenv := at_env e1 ?p l\<rparr> = cfg e1 ?p l q" by (simp add: fin_def)
  ultimately have "label_stmt k code (cfg e p l q) = maybe_store k code pl (cfg e1 ?p l q)"
    using x(2,3) sv by (simp add: label_stmt_def Let_def)
  also have "\<dots> = n_storeval k code (Var pl) (cfg e1 ?p l q)"
    using xbyte_at [of code "IOp OP_MEQ" _ "cfg e1 ?p l q"] at1 by (simp add: maybe_store_def OP_ISMATH_def)
  also have "\<dots> = store_val k code (Var pl) (cfg e1 (?p + 1) l q)"
  proof -
    obtain b where "xpeek code (cfg e1 (?p + 1) l q) = Inr (b, cfg e1 (?p + 1) l q)" "b \<noteq> OP_KNEW \<and> b \<noteq> OP_MAND \<and> b \<noteq> OP_MMUL"
      using xpeek_expr [of code a "rcode r @ IOp OP_PSEMICOL # is" "cfg e1 (?p + 1) l q"] at2 ex by (auto simp: wf_expr_def)
    then show ?thesis using xpeek_at [of code "IOp OP_MEQ" _ "cfg e1 ?p l q"] at1 by (simp add: n_storeval_def)
  qed
  also have "\<dots> = Inr (tmove (Var pl) v (cfg e1 (?p + 1 + elen a r) l v))"
    using store_val_at [OF at2 ex k] v sv by simp
  finally show ?thesis using sv by (simp add: tmove_def assign_var_def fin_def)
qed

text \<open>One turn of the loop of a block.\<close>

declare exec_loop.simps [simp del] while_loop.simps [simp del] if_body.simps [simp del] nsp_exec.simps [simp del]

lemma loop_step:
  assumes "at_ops code (i # is) p" "wf_instr i" "iop i \<noteq> OP_LINENUM" "iop i \<noteq> OP_PCBRACE"
  shows "exec_loop (Suc n) ex k code True False (cfg e p l q)
    = res_bind (exec_stmt ex k code True (iop i) (cfg e p l q))
        (\<lambda>(stops, x). if stops then Inr x else res_bind (xsemicolon code x) (exec_loop n ex k code True False))"
  using xpeek_at [of code i "is" "cfg e p l q"] assms iop_byte [OF assms(2)]
  by (simp add: exec_loop.simps(2) cong: if_cong)

lemma loop_end:
  assumes "at_ops code (IOp OP_PCBRACE # is) p" "0 < n"
  shows "exec_loop n ex k code True False (cfg e p l q) = Inr (cfg e p l q)"
  using xpeek_at [of code "IOp OP_PCBRACE" "is" "cfg e p l q"] assms wf_close(1) by (cases n) (simp_all add: exec_loop.simps)

text \<open>A flag ends the block at the next instruction.\<close>

lemma loop_flag:
  assumes "at_ops code (i # is) p" "wf_instr i" "iop i \<noteq> OP_LINENUM" "f = Brk \<or> f = Cont" "0 < n"
  shows "exec_loop n ex k code True False (fin f e p l q) = Inr (fin f e p l q)"
  using xpeek_at [of code i "is" "fin f e p l q"] assms iop_byte [OF assms(2)] by (cases n) (auto simp: exec_loop.simps)

lemma semicolon_at:
  assumes "at_ops code (IOp OP_PSEMICOL # is) p"
  shows "xsemicolon code (fin f e p l q) = Inr (fin f e (p + 1) l q)"
  using xpeek_at [of code "IOp OP_PSEMICOL" "is" "fin f e p l q"] assms by (simp add: xsemicolon_def)

lemma no_semicolon_at:
  assumes "at_ops code (i # is) p" "wf_instr i" "iop i \<noteq> OP_LINENUM" "iop i \<noteq> OP_PSEMICOL"
  shows "xsemicolon code (fin f e p l q) = Inr (fin f e p l q)"
  using xpeek_at [of code i "is" "fin f e p l q"] assms by (simp add: xsemicolon_def)

lemma step_assign:
  assumes at: "at_ops code (flat True (snodes (SAssign x a r)) @ is) p" and wf: "wf_stmt (SAssign x a r)"
    and k: "ofuel a + rfuel r < k" and v: "eval_expr (snd (stmt_var x e)) a r = Inr v"
  shows "exec_loop (Suc n) ex k code True False (cfg e p l q)
    = exec_loop n ex k code True False (cfg (assign_var x v e) (p + int (length (ncode (snodes (SAssign x a r))))) l (left_val v))"
    "at_ops code is (p + int (length (ncode (snodes (SAssign x a r)))))"
proof -
  let ?p = "p + int (length (enc (IShort OP_LABEL x)))"
  have at0: "at_ops code (IShort OP_LABEL x # IOp OP_MEQ # ocode a @ rcode r @ IOp OP_PSEMICOL # is) p" using at by simp
  have ex: "wf_expr a r" using wf by simp
  have at1: "at_ops code (IOp OP_MEQ # ocode a @ rcode r @ IOp OP_PSEMICOL # is) ?p" by (rule at_ops_next [OF at0])
  have at2: "at_ops code (ocode a @ rcode r @ IOp OP_PSEMICOL # is) (?p + 1)" using at_ops_next [OF at1] by simp
  have at3: "at_ops code (IOp OP_PSEMICOL # is) (?p + 1 + elen a r)" by (rule at_expr_end [OF at2 ex])
  have len: "int (length (ncode (snodes (SAssign x a r)))) = int (length (enc (IShort OP_LABEL x))) + 1 + elen a r + 1"
    by (simp add: ncode_def elen_encs)
  have wl: "wf_instr (IShort OP_LABEL x)" using wf by (simp add: MAX_OBJNAMELEN_def)
  have "exec_stmt ex k code True OP_LABEL (cfg e p l q) = Inr (False, cfg (assign_var x v e) (?p + 1 + elen a r) l (left_val v))"
    using label_stmt_at [OF at0 wf k v, of l q] by (simp add: exec_stmt_def OP_ISMATH_def OP_ISPUNC_def OP_ISKEY_def)
  then show "exec_loop (Suc n) ex k code True False (cfg e p l q)
    = exec_loop n ex k code True False (cfg (assign_var x v e) (p + int (length (ncode (snodes (SAssign x a r))))) l (left_val v))"
    using loop_step [OF at0 wl] semicolon_at [OF at3] unfolding len by (simp add: add.assoc)
  show "at_ops code is (p + int (length (ncode (snodes (SAssign x a r)))))"
    using at_ops_next [OF at3] unfolding len by (simp add: add.assoc)
qed

lemma fin_flags [simp]:
  "(cfg e p l q)\<lparr>brk := 1\<rparr> = fin Brk e p l q" "(cfg e p l q)\<lparr>cnt := True\<rparr> = fin Cont e p l q"
  "(cfg e p l v)\<lparr>ret := True\<rparr> = fin (Ret v) e p l v"
  by (simp_all add: fin_def is_ret_def)

lemma key_classes: "opc \<in> {OP_KBREAK, OP_KCONT, OP_KRET, OP_KIF, OP_KWHILE} \<Longrightarrow>
    OP_ISKEY opc \<and> \<not> OP_ISMATH opc \<and> \<not> OP_ISPUNC opc \<and> opc \<noteq> OP_PCBRACE \<and> opc \<noteq> OP_LINENUM \<and> wf_instr (IOp opc)"
  by (auto simp: OP_ISKEY_def OP_ISMATH_def OP_ISPUNC_def)

lemma step_key:
  assumes at: "at_ops code (IOp opc # is) p" and opc: "opc \<in> {OP_KBREAK, OP_KCONT, OP_KRET, OP_KIF, OP_KWHILE}"
  shows "exec_loop (Suc n) ex k code True False (cfg e p l q)
    = res_bind (exec_key ex k code True opc (cfg e (p + 1) l q))
        (\<lambda>(stops, x). if stops then Inr x else res_bind (xsemicolon code x) (exec_loop n ex k code True False))"
    "at_ops code is (p + 1)"
  using loop_step [OF at, of n ex k e l q] key_classes [OF opc] at_ops_next [OF at] by (simp_all add: exec_stmt_def)

lemma step_break:
  assumes at: "at_ops code (flat True (snodes SBreak) @ is) p"
  shows "exec_loop (Suc n) ex k code True False (cfg e p l q) = Inr (fin Brk e (p + 1 + 1) l q)"
proof -
  have at0: "at_ops code (IOp OP_KBREAK # IOp OP_PSEMICOL # is) p" using at by simp
  note s = step_key(1) [OF at0, of n ex k e l q] step_key(2) [OF at0]
  have "read_break code (cfg e (p + 1) l q) = Inr (fin Brk e (p + 1) l q)"
    using xpeek_at [of code "IOp OP_PSEMICOL" "is" "cfg e (p + 1) l q"] s(2) by (simp add: read_break_def)
  then show ?thesis using s semicolon_at [OF s(2), of Brk e l q] by (simp add: exec_key_def)
qed

lemma step_continue:
  assumes at: "at_ops code (flat True (snodes SContinue) @ is) p"
  shows "exec_loop (Suc n) ex k code True False (cfg e p l q) = Inr (fin Cont e (p + 1 + 1) l q)"
proof -
  have at0: "at_ops code (IOp OP_KCONT # IOp OP_PSEMICOL # is) p" using at by simp
  note s = step_key(1) [OF at0, of n ex k e l q] step_key(2) [OF at0]
  show ?thesis using s semicolon_at [OF s(2), of Cont e l q] by (simp add: exec_key_def)
qed

lemma step_return:
  assumes at: "at_ops code (flat True (snodes (SReturn a r)) @ is) p" and wf: "wf_stmt (SReturn a r)"
    and k: "ofuel a + rfuel r < k" and v: "eval_expr e a r = Inr v"
  shows "\<exists>p'. exec_loop (Suc n) ex k code True False (cfg e p l q) = Inr (fin (Ret v) e p' l v)"
proof -
  have ex: "wf_expr a r" "OP_MLAND \<notin> fst ` set r" using wf by simp_all
  have at0: "at_ops code (IOp OP_KRET # ocode a @ rcode r @ IOp OP_PSEMICOL # is) p" using at by simp
  note s = step_key(1) [OF at0, of n ex k e l q] step_key(2) [OF at0]
  have at1: "at_ops code (ocode a @ rcode r @ IOp OP_PSEMICOL # is) (p + 1)" using s(2) by simp
  have at2: "at_ops code (IOp OP_PSEMICOL # is) (p + 1 + elen a r)" by (rule at_expr_end [OF at1 ex(1)])
  obtain b where b: "xpeek code (cfg e (p + 1) l q) = Inr (b, cfg e (p + 1) l q)"
      "b \<in> {OP_LABEL, OP_NUMDATA, OP_STRDATA, OP_MSUB, OP_POPAREN}"
    using xpeek_expr [of code a "rcode r @ IOp OP_PSEMICOL # is" "cfg e (p + 1) l q"] at1 ex by (auto simp: wf_expr_def)
  have "n_storeval k code RVal (cfg e (p + 1) l q) = store_val k code RVal (cfg e (p + 1) l q)"
    using b by (auto simp: n_storeval_def)
  also have "\<dots> = Inr (cfg e (p + 1 + elen a r) l v)"
    using store_val_at [OF at1 ex k v, of RVal l q] by (simp add: tmove_def)
  finally show ?thesis using s semicolon_at [OF at2, of Next e l v] by (auto simp: exec_key_def)
qed

end
