(* ===== verification/NspRun.thy ===== *)
theory NspRun
  imports NspProg
begin

text \<open>
  The interpreter on the code of structured programs: loops, branches and blocks of code do what the semantics of
  programs says, with enough fuel; and a program that sums the numbers up to \<open>n\<close>.
\<close>

section \<open>Loops\<close>

text \<open>The code of a loop, from its condition on.\<close>

definition loop_at :: "string \<Rightarrow> operand \<Rightarrow> (nat \<times> operand) list \<Rightarrow> stmt list \<Rightarrow> instr list \<Rightarrow> int \<Rightarrow> bool" where
  "loop_at code a r b is p \<longleftrightarrow> at_ops code (ocode a @ rcode r @ IOp OP_PCPAREN
     # IBrace (int (length (ncode (bnodes b)))) # flat True (bnodes b) @ IOp OP_PCBRACE # is) p"

definition blen :: "stmt list \<Rightarrow> int" where "blen b = int (length (ncode (bnodes b)))"

lemma loop_points:
  assumes "loop_at code a r b is p" "wf_expr a r" "wf_stmts b"
  shows "at_ops code (IOp OP_PCPAREN # IBrace (blen b) # flat True (bnodes b) @ IOp OP_PCBRACE # is) (p + elen a r)"
    "at_ops code (IBrace (blen b) # flat True (bnodes b) @ IOp OP_PCBRACE # is) (p + elen a r + 1)"
    "at_ops code (flat True (bnodes b) @ IOp OP_PCBRACE # is) (p + elen a r + 6)"
    "at_ops code (IOp OP_PCBRACE # is) (p + elen a r + 6 + blen b)"
    "at_ops code is (p + elen a r + 6 + blen b + 1)"
proof -
  show 1: "at_ops code (IOp OP_PCPAREN # IBrace (blen b) # flat True (bnodes b) @ IOp OP_PCBRACE # is) (p + elen a r)"
    using at_expr_end assms(1,2) unfolding loop_at_def blen_def by blast
  show 2: "at_ops code (IBrace (blen b) # flat True (bnodes b) @ IOp OP_PCBRACE # is) (p + elen a r + 1)"
    using at_ops_next [OF 1] by simp
  show 3: "at_ops code (flat True (bnodes b) @ IOp OP_PCBRACE # is) (p + elen a r + 6)"
    using at_ops_next [OF 2] by (simp add: add.assoc)
  show 4: "at_ops code (IOp OP_PCBRACE # is) (p + elen a r + 6 + blen b)"
    using skipto_nested [OF 3 wf_stmt_nodes(2) [OF assms(3)] stmt_no_lines(2) [OF assms(3)], of OP_PCBRACE]
    by (simp add: closer_def blen_def)
  show "at_ops code is (p + elen a r + 6 + blen b + 1)" using at_ops_next [OF 4] by simp
qed

text \<open>One turn of a loop: the condition, then what the body \<open>ex\<close> does.\<close>

lemma while_false:
  assumes at: "loop_at code a r b is p" and wf: "wf_expr a r" "wf_stmts b" and k: "ofuel a + rfuel r < k"
    and v: "eval_expr e a r = Inr v" "is_false v"
  shows "while_loop (Suc n) ex k code p bs be False (cfg e p' l q) = Inr (cfg e be l v)"
  using xeval_at [OF at [unfolded loop_at_def] wf(1) ends_paren k v(1), of Next l q]
    xexpect_at [of code "IOp OP_PCPAREN" _ "cfg e (p + elen a r) l v"] loop_points(1) [OF at wf] v(2) wf_close(2)
  by (simp add: leave_loop_def while_loop.simps)

lemma while_true:
  assumes at: "loop_at code a r b is p" and wf: "wf_expr a r" "wf_stmts b" and k: "ofuel a + rfuel r < k"
    and v: "eval_expr e a r = Inr v" "\<not> is_false v"
    and x: "ex False (cfg e bs l v) = Inr (fin f e1 p1 l q1)"
  shows "while_loop (Suc n) ex k code p bs be False (cfg e p' l q) =
    (case f of
       Brk \<Rightarrow> Inr (cfg e1 be l q1)
     | Ret w \<Rightarrow> Inr (fin f e1 be l q1)
     | _ \<Rightarrow> while_loop n ex k code p bs be False (cfg e1 p1 l q1))"
proof -
  have "after_body (fin f e1 p1 l q1) = (case f of
       Brk \<Rightarrow> (True, cfg e1 p1 l q1) | Ret w \<Rightarrow> (True, fin f e1 p1 l q1) | _ \<Rightarrow> (False, cfg e1 p1 l q1))"
    by (cases f) (simp_all add: after_body_def fin_def is_ret_def)
  then show ?thesis
    using xeval_at [OF at [unfolded loop_at_def] wf(1) ends_paren k v(1), of Next l q]
      xexpect_at [of code "IOp OP_PCPAREN" _ "cfg e (p + elen a r) l v"] loop_points(1) [OF at wf] v(2) x wf_close(2)
    by (cases f) (simp_all add: leave_loop_def while_loop.simps)
qed

lemma skipto_found:
  assumes "at_ops code (IOp c # is) p" "closer c" "wf_instr (IOp c)"
  shows "skipto_loop code c p lno = Some (True, p, lno)"
  using at_ops_rd [OF assms(1,3)] assms(2) by (subst skipto_loop.simps) (auto simp: closer_def)

lemma xskipto_at:
  assumes "at_ops code (flat True ns @ IOp c # is) p" "wf_nodes ns" "no_lines ns" "closer c" "wf_instr (IOp c)"
  shows "xskipto code c (fin f e p l q) = Inr (fin f e (p + int (length (ncode ns))) l q)"
proof -
  let ?p = "p + int (length (ncode ns))"
  have "skipto_loop code c p l = Some (True, ?p, l)"
    using skipto_nested [OF assms(1-4)] skipto_found [OF _ assms(4,5), of code "is" ?p] by simp
  then have "n_skipto code c (at_env e p l) = Inr (at_env e ?p l)" by (simp add: n_skipto_def at_env_def)
  then show ?thesis by (simp add: xskipto_def fin_def)
qed

lemma n_while_at:
  assumes at: "at_ops code (IParen m # ocode a @ rcode r @ IOp OP_PCPAREN
      # IBrace (blen b) # flat True (bnodes b) @ IOp OP_PCBRACE # is) p"
    and wf: "wf_expr a r" "wf_stmts b"
  shows "n_while ex k code (cfg e p l q) = while_loop k ex k code (p + 3) (p + 3 + elen a r + 1)
      (p + 3 + elen a r + 6 + blen b + 1) False (cfg e (p + 3 + elen a r + 6 + blen b + 1) l q)"
    "loop_at code a r b is (p + 3)"
proof -
  show la: "loop_at code a r b is (p + 3)" using at_ops_next [OF at] by (simp add: loop_at_def blen_def)
  note pts = loop_points [OF la wf]
  have "xskipto code OP_PCPAREN (cfg e (p + 3) l q) = Inr (cfg e (p + 3 + elen a r) l q)"
    using xskipto_at [of code "enodes a r" OP_PCPAREN _ "p + 3" Next e l q] la wf(1) wf_close(2)
    by (simp add: loop_at_def wf_expr_def enodes_def wf_expr_nodes expr_no_lines flat_expr closer_def elen_def)
  moreover have "xskipto code OP_PCBRACE (cfg e (p + 3 + elen a r + 6) l q) = Inr (cfg e (p + 3 + elen a r + 6 + blen b) l q)"
    using xskipto_at [OF pts(3) wf_stmt_nodes(2) [OF wf(2)] stmt_no_lines(2) [OF wf(2)]] wf_close(1)
    by (simp add: closer_def blen_def)
  ultimately show "n_while ex k code (cfg e p l q) = while_loop k ex k code (p + 3) (p + 3 + elen a r + 1)
      (p + 3 + elen a r + 6 + blen b + 1) False (cfg e (p + 3 + elen a r + 6 + blen b + 1) l q)"
    using xexpect_at [of code "IParen m" _ "cfg e p l q"] xenter_at(2) [of code m _ "cfg e p l q"] at
      xpeek_at [of code "IBrace (blen b)" _ "cfg e (p + 3 + elen a r + 1) l q"]
      xenter_at(1) [of code "blen b" _ "cfg e (p + 3 + elen a r + 1) l q"] pts(2)
    by (simp add: n_while_def skip_body_def Let_def add.assoc)
qed

section \<open>Branches\<close>

text \<open>The length fields of blocks and parentheses.\<close>

lemma readi4_at:
  assumes "at_ops code (IBrace n # is) p" "0 \<le> n" "n < 2 ^ 31"
  shows "readi4 code (p + 1) = Some n"
proof -
  obtain pre where "code = pre @ enc (IBrace n) @ encs is @ zeros" "p = int (length pre)"
    using assms(1) by (auto simp: at_ops_def)
  then show ?thesis using readi4_writei4 [of "pre @ [op_byte OP_POBRACE]" n "encs is @ zeros"] assms(2,3)
    by (simp add: i32_def add.commute)
qed

lemma readi2_at:
  assumes "at_ops code (IParen n # is) p" "0 \<le> n" "n < 2 ^ 16"
  shows "readi2 code (p + 1) = Some n"
proof -
  obtain pre where "code = pre @ enc (IParen n) @ encs is @ zeros" "p = int (length pre)"
    using assms(1) by (auto simp: at_ops_def)
  then show ?thesis using readi2_writei2 [of "pre @ [op_byte OP_POPAREN]" n "encs is @ zeros"] assms(2,3)
    by (simp add: add.commute)
qed

lemma if_cond_at:
  assumes at: "at_ops code (IParen (elen a r) # ocode a @ rcode r @ IOp OP_PCPAREN # is) p"
    and wf: "wf_expr a r" "elen a r < 2 ^ 16" and k: "ofuel a + rfuel r < k" and v: "eval_expr e a r = Inr v"
  shows "if_cond k code False t (cfg e p l q) = Inr (nsp_tobool v, cfg e (p + 4 + elen a r) l (unshared v))"
    "at_ops code is (p + 4 + elen a r)"
proof -
  have at1: "at_ops code (ocode a @ rcode r @ IOp OP_PCPAREN # is) (p + 3)" using at_ops_next [OF at] by simp
  have at2: "at_ops code (IOp OP_PCPAREN # is) (p + 3 + elen a r)" by (rule at_expr_end [OF at1 wf(1)])
  show "at_ops code is (p + 4 + elen a r)" using at_ops_next [OF at2] by (simp add: algebra_simps)
  have "p + elen a r + 3 = p + 3 + elen a r" by simp
  then show "if_cond k code False t (cfg e p l q) = Inr (nsp_tobool v, cfg e (p + 4 + elen a r) l (unshared v))"
    using xpeek_at [of code "IParen (elen a r)" _ "cfg e p l q"] xenter_at(2) [of code "elen a r" _ "cfg e p l q"] at
      readi2_at [OF at _ wf(2)] xeval_at [OF at1 wf(1) ends_paren k v, of Next l q]
      xexpect_at [of code "IOp OP_PCPAREN" "is" "cfg e (p + 3 + elen a r) l (unshared v)"] at2 wf_close(2)
    by (simp add: if_cond_def elen_def algebra_simps)
qed

lemma brace_points:
  assumes at: "at_ops code (IBrace (blen b) # flat True (bnodes b) @ IOp OP_PCBRACE # is) p" and wf: "wf_stmts b"
  shows "at_ops code (flat True (bnodes b) @ IOp OP_PCBRACE # is) (p + 5)"
    "at_ops code (IOp OP_PCBRACE # is) (p + 5 + blen b)" "at_ops code is (p + 6 + blen b)"
proof -
  show 1: "at_ops code (flat True (bnodes b) @ IOp OP_PCBRACE # is) (p + 5)" using at_ops_next [OF at] by simp
  show 2: "at_ops code (IOp OP_PCBRACE # is) (p + 5 + blen b)"
    using skipto_nested [OF 1 wf_stmt_nodes(2) [OF wf] stmt_no_lines(2) [OF wf], of OP_PCBRACE] by (simp add: closer_def blen_def)
  show "at_ops code is (p + 6 + blen b)" using at_ops_next [OF 2] by (simp add: algebra_simps)
qed

lemma branch_skipped:
  assumes at: "at_ops code (IBrace (blen b) # flat True (bnodes b) @ IOp OP_PCBRACE # is) p" and wf: "wf_stmts b" "blen b < 2 ^ 31"
  shows "if_branch ex code False (fin f e p l q) = Inr (fin f e (p + 6 + blen b) l q)"
  using xpeek_at [of code "IBrace (blen b)" _ "fin f e p l q"] readi4_at [OF at _ wf(2)] at brace_points(2) [OF at wf(1)]
    xexpect_at [of code "IOp OP_PCBRACE" "is" "fin f e (p + 5 + blen b) l q"] wf_close(1)
  by (simp add: if_branch_def jump_block_def blen_def algebra_simps)

lemma branch_taken:
  assumes at: "at_ops code (IBrace (blen b) # flat True (bnodes b) @ IOp OP_PCBRACE # is) p" and wf: "wf_stmts b" "blen b < 2 ^ 31"
    and x: "ex False (cfg e p l q) = Inr (fin f e1 p1 l q1)"
  shows "if_branch ex code True (cfg e p l q) = Inr (fin f e1 (p + 6 + blen b) l q1)"
  using xpeek_at [of code "IBrace (blen b)" _ "cfg e p l q"] readi4_at [OF at _ wf(2)] at brace_points(2) [OF at wf(1)]
    xexpect_at [of code "IOp OP_PCBRACE" "is" "fin f e1 (p + 5 + blen b) l q1"] wf_close(1) x
  by (simp add: if_branch_def blen_def algebra_simps)

lemma if_body_last:
  assumes "if_branch ex code (t \<and> \<not> taken) x = Inr (fin f e p l q)"
    and "at_ops code (i # is) p" "wf_instr i" "iop i \<noteq> OP_LINENUM" "iop i \<noteq> OP_KELSE"
  shows "if_body (Suc n) ex k code taken t x = Inr (fin f e p l q)"
  using assms xpeek_at [of code i "is" "fin f e p l q"] by (simp add: if_body.simps)

lemma if_body_return:
  assumes "if_branch ex code (t \<and> \<not> taken) x = Inr (fin f e p l q)" "is_ret f"
  shows "if_body (Suc n) ex k code taken t x = Inr (fin f e p l q)"
  using assms by (simp add: if_body.simps)

lemma if_body_else:
  assumes "if_branch ex code (t \<and> \<not> taken) x = Inr (fin f e p l q)" "\<not> is_ret f"
    and "at_ops code (IOp OP_KELSE # IBrace m # is) p"
  shows "if_body (Suc n) ex k code taken t x = if_body n ex k code (taken \<or> t) True (fin f e (p + 1) l q)"
  using assms xpeek_at [of code "IOp OP_KELSE" _ "fin f e p l q"] at_ops_next [OF assms(3)]
    xpeek_at [of code "IBrace m" "is" "fin f e (p + 1) l q"]
  by (simp add: if_body.simps)

definition else_nodes :: "stmt list \<Rightarrow> node list" where
  "else_nodes c = (if c = [] then [] else [Leaf (IOp OP_KELSE), Braces (bnodes c)])"

definition else_len :: "stmt list \<Rightarrow> int" where
  "else_len c = (if c = [] then 0 else 7 + blen c)"

lemma if_body_at:
  assumes at: "at_ops code (IBrace (blen b) # flat True (bnodes b) @ IOp OP_PCBRACE # flat True (else_nodes c) @ i # is) p"
    and wf: "wf_stmts b" "blen b < 2 ^ 31" "wf_stmts c" "blen c < 2 ^ 31"
    and i: "wf_instr i" "iop i \<noteq> OP_LINENUM" "iop i \<noteq> OP_KELSE"
    and x: "\<And>is p. at_ops code (IBrace (blen (if t then b else c)) # flat True (bnodes (if t then b else c)) @ IOp OP_PCBRACE # is) p
      \<Longrightarrow> \<exists>p1 q1. ex False (cfg e p l q) = Inr (fin f e1 p1 l q1)"
    and skip: "\<not> t \<Longrightarrow> c = [] \<Longrightarrow> f = Next \<and> e1 = e"
  shows "\<exists>p' q'. if_body (Suc (Suc n)) ex k code False t (cfg e p l q) = Inr (fin f e1 p' l q')
    \<and> (\<not> is_ret f \<longrightarrow> p' = p + 6 + blen b + else_len c)"
proof -
  let ?p = "p + 6 + blen b"
  note pts = brace_points [OF at wf(1)]
  have el: "flat True (else_nodes c) = (if c = [] then [] else IOp OP_KELSE # IBrace (blen c) # flat True (bnodes c) @ [IOp OP_PCBRACE])"
    by (simp add: else_nodes_def blen_def ncode_def)
  have first: "\<exists>q1. if_branch ex code (t \<and> \<not> False) (cfg e p l q) = Inr (fin (if t then f else Next) (if t then e1 else e) ?p l q1)
      \<and> (\<not> t \<longrightarrow> q1 = q)"
    using x [of "flat True (else_nodes c) @ i # is" p] at branch_taken [OF at wf(1,2), of ex e l q f e1] branch_skipped [OF at wf(1,2), of ex Next e l q]
    by (cases t) auto
  then obtain q1 where br: "if_branch ex code (t \<and> \<not> False) (cfg e p l q)
      = Inr (fin (if t then f else Next) (if t then e1 else e) ?p l q1)" "\<not> t \<longrightarrow> q1 = q" by blast
  show ?thesis
  proof (cases "c = []")
    case True
    then have "at_ops code (i # is) ?p" using pts(3) unfolding el by simp
    from if_body_last [OF br(1) this i, of "Suc n" k] skip True show ?thesis by (cases t) (auto simp: else_len_def)
  next
    case False
    have ate: "at_ops code (IOp OP_KELSE # IBrace (blen c) # flat True (bnodes c) @ IOp OP_PCBRACE # i # is) ?p"
      using pts(3) False by (simp add: el)
    have atc: "at_ops code (IBrace (blen c) # flat True (bnodes c) @ IOp OP_PCBRACE # i # is) (?p + 1)"
      using at_ops_next [OF ate] by simp
    note ptc = brace_points(3) [OF atc wf(3)]
    show ?thesis
    proof (cases t)
      case True
      have "if_body (Suc n) ex k code True True (fin f e1 (?p + 1) l q1) = Inr (fin f e1 (?p + 1 + 6 + blen c) l q1)"
        using if_body_last [of ex code True True _ f e1 _ l q1 i "is" n k] branch_skipped [OF atc wf(3,4), of ex f e1 l q1] ptc i by simp
      then show ?thesis using if_body_return [OF br(1)] if_body_else [OF br(1) _ ate] True \<open>c \<noteq> []\<close>
        by (cases "is_ret f") (auto simp: else_len_def algebra_simps)
    next
      case nt: False
      obtain p2 q2 where "ex False (cfg e (?p + 1) l q) = Inr (fin f e1 p2 l q2)" using x [of "i # is" "?p + 1"] nt atc by auto
      then have "if_branch ex code (True \<and> \<not> False) (cfg e (?p + 1) l q) = Inr (fin f e1 (?p + 1 + 6 + blen c) l q2)"
        using branch_taken [OF atc wf(3,4)] by simp
      from if_body_last [OF this ptc i] if_body_else [OF br(1) _ ate] br(2) nt \<open>c \<noteq> []\<close> show ?thesis
        by (auto simp: else_len_def is_ret_def algebra_simps)
    qed
  qed
qed

text \<open>The first instruction behind a statement.\<close>

lemma block_head:
  assumes "wf_stmts ss"
  shows "\<exists>i is'. flat True (bnodes ss) @ IOp OP_PCBRACE # is = i # is' \<and> wf_instr i
    \<and> iop i \<noteq> OP_LINENUM \<and> iop i \<noteq> OP_KELSE \<and> iop i \<noteq> OP_PSEMICOL"
proof (cases ss)
  case Nil
  then show ?thesis using wf_close(1) by simp
next
  case (Cons s ss')
  then show ?thesis using assms by (cases s) (auto simp: MAX_OBJNAMELEN_def)
qed

definition ilen :: "operand \<Rightarrow> (nat \<times> operand) list \<Rightarrow> stmt list \<Rightarrow> stmt list \<Rightarrow> int" where
  "ilen a r b c = int (length (ncode (snodes (SIf a r b c))))"

lemma ilen_parts: "ilen a r b c = 1 + (4 + elen a r) + (6 + blen b + else_len c)"
  by (simp add: ilen_def elen_def blen_def else_len_def ncode_def)

lemma step_if:
  assumes at: "at_ops code (flat True (snodes (SIf a r b c)) @ i # is) p" and wf: "wf_stmt (SIf a r b c)"
    and i: "wf_instr i" "iop i \<noteq> OP_LINENUM" "iop i \<noteq> OP_KELSE" "iop i \<noteq> OP_PSEMICOL"
    and k: "ofuel a + rfuel r < k" "2 \<le> k" and v: "eval_expr e a r = Inr v"
    and x: "\<forall>is p. at_ops code (IBrace (blen (if nsp_tobool v then b else c)) # flat True (bnodes (if nsp_tobool v then b else c))
        @ IOp OP_PCBRACE # is) p \<longrightarrow> (\<exists>p1 q1. ex False (cfg e p l (unshared v)) = Inr (fin f e1 p1 l q1))"
    and skip: "\<not> nsp_tobool v \<longrightarrow> c = [] \<longrightarrow> f = Next \<and> e1 = e"
  shows "\<exists>p' q'. exec_loop (Suc n) ex k code True False (cfg e p l q)
      = (if is_ret f then Inr (fin f e1 p' l q')
         else exec_loop n ex k code True False (fin f e1 (p + ilen a r b c) l q'))"
    "at_ops code (i # is) (p + ilen a r b c)"
proof -
  have w: "wf_expr a r" "elen a r < 2 ^ 16" "wf_stmts b" "blen b < 2 ^ 31" "wf_stmts c" "blen c < 2 ^ 31"
    using wf by (simp_all add: elen_def blen_def block_fits_def)
  show ati: "at_ops code (i # is) (p + ilen a r b c)"
    using skipto_nested [OF at wf_stmt_nodes(1) [OF wf] stmt_no_lines(1) [OF wf], of OP_PCPAREN] by (simp add: ilen_def closer_def)
  have at0: "at_ops code (IOp OP_KIF # IParen (elen a r) # ocode a @ rcode r @ IOp OP_PCPAREN
      # IBrace (blen b) # flat True (bnodes b) @ IOp OP_PCBRACE # flat True (else_nodes c) @ i # is) p"
    using at by (simp add: elen_encs blen_def ncode_def else_nodes_def)
  have at1: "at_ops code (IParen (elen a r) # ocode a @ rcode r @ IOp OP_PCPAREN
      # IBrace (blen b) # flat True (bnodes b) @ IOp OP_PCBRACE # flat True (else_nodes c) @ i # is) (p + 1)"
    using at_ops_next [OF at0] by simp
  note cnd = if_cond_at [OF at1 w(1,2) k(1) v]
  obtain m where m: "k = Suc (Suc m)" using k(2) by (metis Suc_le_D numeral_2_eq_2 Suc_le_mono)
  have "\<exists>p' q'. if_body k ex k code False (nsp_tobool v) (cfg e (p + 1 + 4 + elen a r) l (unshared v)) = Inr (fin f e1 p' l q')
      \<and> (\<not> is_ret f \<longrightarrow> p' = p + 1 + 4 + elen a r + 6 + blen b + else_len c)"
    unfolding m by (rule if_body_at [OF cnd(2) w(3-6) i(1-3)]) (use x skip in blast)+
  then obtain p' q' where body: "if_body k ex k code False (nsp_tobool v) (cfg e (p + 1 + 4 + elen a r) l (unshared v)) = Inr (fin f e1 p' l q')"
      "\<not> is_ret f \<longrightarrow> p' = p + 1 + 4 + elen a r + 6 + blen b + else_len c" by blast
  have nif: "n_if ex k code (cfg e (p + 1) l q) = Inr (fin f e1 p' l q')"
    using cnd(1) [of False l q] body(1) by (simp add: n_if_def)
  have "xsemicolon code (fin f e1 (p + ilen a r b c) l q') = Inr (fin f e1 (p + ilen a r b c) l q')"
    by (rule no_semicolon_at [OF ati i(1,2,4)])
  moreover have "\<not> is_ret f \<Longrightarrow> p' = p + ilen a r b c" using body(2) by (simp add: ilen_parts)
  ultimately have "exec_loop (Suc n) ex k code True False (cfg e p l q)
      = (if is_ret f then Inr (fin f e1 p' l q')
         else exec_loop n ex k code True False (fin f e1 (p + ilen a r b c) l q'))"
    using step_key(1) [OF at0, of n ex k e l q] nif by (simp add: exec_key_def)
  then show "\<exists>p' q'. exec_loop (Suc n) ex k code True False (cfg e p l q)
      = (if is_ret f then Inr (fin f e1 p' l q')
         else exec_loop n ex k code True False (fin f e1 (p + ilen a r b c) l q'))" by blast
qed

lemma step_while:
  assumes at: "at_ops code (flat True (snodes (SWhile a r b)) @ i # is) p" and wf: "wf_stmt (SWhile a r b)"
    and i: "wf_instr i" "iop i \<noteq> OP_LINENUM" "iop i \<noteq> OP_PSEMICOL"
    and x: "\<forall>p q p0. loop_at code a r b (i # is) p \<longrightarrow> (\<exists>q1. while_loop k ex k code p (p + elen a r + 1)
      (p + elen a r + 6 + blen b + 1) False (cfg e p0 l q) = Inr (fin f e1 (p + elen a r + 6 + blen b + 1) l q1))"
  shows "\<exists>q'. exec_loop (Suc n) ex k code True False (cfg e p l q)
      = (if is_ret f then Inr (fin f e1 (p + int (length (ncode (snodes (SWhile a r b))))) l q')
         else exec_loop n ex k code True False (fin f e1 (p + int (length (ncode (snodes (SWhile a r b))))) l q'))"
    "at_ops code (i # is) (p + int (length (ncode (snodes (SWhile a r b)))))"
proof -
  let ?e = "p + int (length (ncode (snodes (SWhile a r b))))"
  have w: "wf_expr a r" "wf_stmts b" using wf by simp_all
  show ati: "at_ops code (i # is) ?e"
    using skipto_nested [OF at wf_stmt_nodes(1) [OF wf] stmt_no_lines(1) [OF wf], of OP_PCPAREN] by (simp add: closer_def)
  have at0: "at_ops code (IOp OP_KWHILE # IParen (elen a r) # ocode a @ rcode r @ IOp OP_PCPAREN
      # IBrace (blen b) # flat True (bnodes b) @ IOp OP_PCBRACE # i # is) p"
    using at by (simp add: elen_encs blen_def ncode_def)
  note at1 = at_ops_next [OF at0, simplified]
  note nw = n_while_at [OF at1 w]
  have pe: "p + 1 + 3 + elen a r + 6 + blen b + 1 = ?e" by (simp add: elen_def blen_def ncode_def)
  obtain q1 where "n_while ex k code (cfg e (p + 1) l q) = Inr (fin f e1 ?e l q1)"
    using x [rule_format, OF nw(2), of "p + 1 + 3 + elen a r + 6 + blen b + 1" q] nw(1) [of ex k e l q] unfolding pe by auto
  then have "exec_loop (Suc n) ex k code True False (cfg e p l q)
      = (if is_ret f then Inr (fin f e1 ?e l q1) else exec_loop n ex k code True False (fin f e1 ?e l q1))"
    using step_key(1) [OF at0, of n ex k e l q] no_semicolon_at [OF ati i, of f e1 l q1] by (simp add: exec_key_def)
  then show "\<exists>q'. exec_loop (Suc n) ex k code True False (cfg e p l q)
      = (if is_ret f then Inr (fin f e1 ?e l q') else exec_loop n ex k code True False (fin f e1 ?e l q'))" by blast
qed

section \<open>Programs run\<close>

lemma exec_block:
  assumes "at_ops code (IBrace m # is) p"
  shows "nsp_exec (Suc k) code False (cfg e p l q) = exec_loop k (nsp_exec k code) k code True False (cfg e (p + 5) l q)"
  using xpeek_at [of code "IBrace m" "is" "cfg e p l q"] xenter_at(1) [of code m "is" "cfg e p l q"] assms
  by (simp add: nsp_exec.simps)

text \<open>The block and the loop do what a flow says, with at least \<open>K\<close> units of fuel, wherever their code stands.\<close>

definition runs :: "ectx \<Rightarrow> stmt list \<Rightarrow> flow \<Rightarrow> ectx \<Rightarrow> nat \<Rightarrow> bool" where
  "runs e ss f e' K \<longleftrightarrow> (\<forall>code is p l q k n. K \<le> k \<longrightarrow> K \<le> n
     \<longrightarrow> at_ops code (flat True (bnodes ss) @ IOp OP_PCBRACE # is) p
     \<longrightarrow> (\<exists>p' q'. exec_loop n (nsp_exec k code) k code True False (cfg e p l q) = Inr (fin f e' p' l q')
            \<and> (f = Next \<longrightarrow> p' = p + blen ss)))"

definition loops :: "ectx \<Rightarrow> operand \<Rightarrow> (nat \<times> operand) list \<Rightarrow> stmt list \<Rightarrow> flow \<Rightarrow> ectx \<Rightarrow> nat \<Rightarrow> bool" where
  "loops e a r b f e' K \<longleftrightarrow> (\<forall>code is p l q k n p0. K \<le> k \<longrightarrow> K \<le> n \<longrightarrow> loop_at code a r b is p
     \<longrightarrow> (\<exists>q'. while_loop n (nsp_exec k code) k code p (p + elen a r + 1) (p + elen a r + 6 + blen b + 1) False (cfg e p0 l q)
           = Inr (fin f e' (p + elen a r + 6 + blen b + 1) l q')))"

lemma runsI:
  assumes "\<And>code is p l q k n. K \<le> k \<Longrightarrow> K \<le> n \<Longrightarrow> at_ops code (flat True (bnodes ss) @ IOp OP_PCBRACE # is) p
     \<Longrightarrow> \<exists>p' q'. exec_loop n (nsp_exec k code) k code True False (cfg e p l q) = Inr (fin f e' p' l q')
            \<and> (f = Next \<longrightarrow> p' = p + blen ss)"
  shows "runs e ss f e' K"
  using assms unfolding runs_def by blast

lemma runsD:
  assumes "runs e ss f e' K" "K \<le> k" "K \<le> n" "at_ops code (flat True (bnodes ss) @ IOp OP_PCBRACE # is) p"
  shows "\<exists>p' q'. exec_loop n (nsp_exec k code) k code True False (cfg e p l q) = Inr (fin f e' p' l q')
            \<and> (f = Next \<longrightarrow> p' = p + blen ss)"
  using assms unfolding runs_def by blast

lemma runs_block:
  assumes "runs e ss f e' K" "Suc K \<le> k" "at_ops code (IBrace m # flat True (bnodes ss) @ IOp OP_PCBRACE # is) p"
  shows "\<exists>p' q'. nsp_exec k code False (cfg e p l q) = Inr (fin f e' p' l q')"
proof -
  obtain k' where k: "k = Suc k'" "K \<le> k'" using assms(2) by (cases k) auto
  have "at_ops code (flat True (bnodes ss) @ IOp OP_PCBRACE # is) (p + 5)" using at_ops_next [OF assms(3)] by simp
  from runsD [OF assms(1) k(2) k(2) this, of l q] show ?thesis unfolding k(1) exec_block [OF assms(3)] by blast
qed

lemma blen_Cons: "blen (s # ss) = int (length (ncode (snodes s))) + blen ss"
  by (simp add: blen_def ncode_def)

lemma runs_done: "runs e [] Next e 1"
  by (rule runsI) (use loop_end in \<open>auto simp: blen_def ncode_def\<close>)

lemma runs_assign:
  assumes v: "eval_expr (snd (stmt_var x e)) a r = Inr v" and r: "runs (assign_var x v e) ss f e' K"
    and wf: "wf_stmt (SAssign x a r)"
  shows "runs e (SAssign x a r # ss) f e' (Suc (K + ofuel a + rfuel r))"
proof (rule runsI)
  fix code "is" p l q k n
  assume k: "Suc (K + ofuel a + rfuel r) \<le> k" "Suc (K + ofuel a + rfuel r) \<le> n"
    and at: "at_ops code (flat True (bnodes (SAssign x a r # ss)) @ IOp OP_PCBRACE # is) p"
  obtain m where n: "n = Suc m" "K \<le> m" using k(2) by (cases n) auto
  have at0: "at_ops code (flat True (snodes (SAssign x a r)) @ flat True (bnodes ss) @ IOp OP_PCBRACE # is) p" using at by simp
  note s = step_assign [OF at0 wf _ v, of k]
  show "\<exists>p' q'. exec_loop n (nsp_exec k code) k code True False (cfg e p l q) = Inr (fin f e' p' l q')
            \<and> (f = Next \<longrightarrow> p' = p + blen (SAssign x a r # ss))"
    using runsD [OF r _ n(2), of k, OF _ s(2)] s(1) k unfolding n(1) blen_Cons by (simp add: add.assoc)
qed

lemma if_turn:
  assumes v: "eval_expr e a r = Inr v" and r: "runs e (if nsp_tobool v then b else c) f e1 K"
    and skip: "(if nsp_tobool v then b else c) = [] \<Longrightarrow> f = Next \<and> e1 = e" and wf: "wf_stmt (SIf a r b c)" "wf_stmts ss"
    and k: "Suc (Suc (K + ofuel a + rfuel r)) \<le> k"
    and at: "at_ops code (flat True (bnodes (SIf a r b c # ss)) @ IOp OP_PCBRACE # is) p"
  shows "\<exists>p' q'. exec_loop (Suc m) (nsp_exec k code) k code True False (cfg e p l q)
      = (if is_ret f then Inr (fin f e1 p' l q')
         else exec_loop m (nsp_exec k code) k code True False (fin f e1 (p + ilen a r b c) l q'))
    \<and> at_ops code (flat True (bnodes ss) @ IOp OP_PCBRACE # is) (p + ilen a r b c)"
proof -
  obtain i is' where i: "flat True (bnodes ss) @ IOp OP_PCBRACE # is = i # is'" "wf_instr i"
      "iop i \<noteq> OP_LINENUM" "iop i \<noteq> OP_KELSE" "iop i \<noteq> OP_PSEMICOL" using block_head [OF wf(2)] by blast
  have at0: "at_ops code (flat True (snodes (SIf a r b c)) @ i # is') p" using at i(1) by simp
  have k': "ofuel a + rfuel r < k" "2 \<le> k" "Suc K \<le> k" using k by simp_all
  have sk: "\<not> nsp_tobool v \<longrightarrow> c = [] \<longrightarrow> f = Next \<and> e1 = e" using skip by simp
  have x: "\<forall>is p. at_ops code (IBrace (blen (if nsp_tobool v then b else c)) # flat True (bnodes (if nsp_tobool v then b else c))
      @ IOp OP_PCBRACE # is) p \<longrightarrow> (\<exists>p1 q1. nsp_exec k code False (cfg e p l (unshared v)) = Inr (fin f e1 p1 l q1))"
    using runs_block [OF r k'(3)] by blast
  show ?thesis using step_if [where ex = "nsp_exec k code", OF at0 wf(1) i(2-5) k'(1,2) v x sk] unfolding i(1) by blast
qed

lemma runs_if:
  assumes v: "eval_expr e a r = Inr v" and r: "runs e (if nsp_tobool v then b else c) Next e1 K" "runs e1 ss f e' K'"
    and skip: "(if nsp_tobool v then b else c) = [] \<Longrightarrow> e1 = e" and wf: "wf_stmt (SIf a r b c)" "wf_stmts ss"
  shows "runs e (SIf a r b c # ss) f e' (Suc (Suc (K + K' + ofuel a + rfuel r)))"
proof (rule runsI)
  fix code "is" p l q k n
  assume k: "Suc (Suc (K + K' + ofuel a + rfuel r)) \<le> k" "Suc (Suc (K + K' + ofuel a + rfuel r)) \<le> n"
    and at: "at_ops code (flat True (bnodes (SIf a r b c # ss)) @ IOp OP_PCBRACE # is) p"
  obtain m where n: "n = Suc m" "K' \<le> m" using k(2) by (cases n) auto
  have k': "Suc (Suc (K + ofuel a + rfuel r)) \<le> k" "K' \<le> k" using k by simp_all
  obtain q' where s: "exec_loop (Suc m) (nsp_exec k code) k code True False (cfg e p l q)
      = exec_loop m (nsp_exec k code) k code True False (cfg e1 (p + ilen a r b c) l q')"
    "at_ops code (flat True (bnodes ss) @ IOp OP_PCBRACE # is) (p + ilen a r b c)"
    using if_turn [OF v r(1) _ wf k'(1) at, of m l q] skip by (auto simp: is_ret_def)
  show "\<exists>p' q'. exec_loop n (nsp_exec k code) k code True False (cfg e p l q) = Inr (fin f e' p' l q')
            \<and> (f = Next \<longrightarrow> p' = p + blen (SIf a r b c # ss))"
    using runsD [OF r(2) k'(2) n(2) s(2), of l q'] s(1) unfolding n(1) blen_Cons ilen_def by (simp add: add.assoc)
qed

lemma runs_if_stop:
  assumes v: "eval_expr e a r = Inr v" and r: "runs e (if nsp_tobool v then b else c) f e' K" and f: "f \<noteq> Next"
    and skip: "(if nsp_tobool v then b else c) = [] \<Longrightarrow> f = Next \<and> e' = e" and wf: "wf_stmt (SIf a r b c)" "wf_stmts ss"
  shows "runs e (SIf a r b c # ss) f e' (Suc (Suc (K + ofuel a + rfuel r)))"
proof (rule runsI)
  fix code "is" p l q k n
  assume k: "Suc (Suc (K + ofuel a + rfuel r)) \<le> k" "Suc (Suc (K + ofuel a + rfuel r)) \<le> n"
    and at: "at_ops code (flat True (bnodes (SIf a r b c # ss)) @ IOp OP_PCBRACE # is) p"
  obtain m where n: "n = Suc m" "0 < m" using k(2) by (cases n) auto
  obtain p' q' where s: "exec_loop (Suc m) (nsp_exec k code) k code True False (cfg e p l q)
      = (if is_ret f then Inr (fin f e' p' l q')
         else exec_loop m (nsp_exec k code) k code True False (fin f e' (p + ilen a r b c) l q'))"
    "at_ops code (flat True (bnodes ss) @ IOp OP_PCBRACE # is) (p + ilen a r b c)"
    using if_turn [OF v r skip wf k(1) at, of m l q] by blast
  obtain i is' where i: "flat True (bnodes ss) @ IOp OP_PCBRACE # is = i # is'" "wf_instr i" "iop i \<noteq> OP_LINENUM"
    using block_head [OF wf(2)] by blast
  show "\<exists>p' q'. exec_loop n (nsp_exec k code) k code True False (cfg e p l q) = Inr (fin f e' p' l q')
            \<and> (f = Next \<longrightarrow> p' = p + blen (SIf a r b c # ss))"
    using s(1) loop_flag [OF s(2) [unfolded i(1)] i(2,3) _ n(2)] f unfolding n(1) by (cases f) (auto simp: is_ret_def)
qed

lemma while_turn:
  assumes r: "loops e a r b f e1 K" and wf: "wf_stmt (SWhile a r b)" "wf_stmts ss" and k: "K \<le> k"
    and at: "at_ops code (flat True (bnodes (SWhile a r b # ss)) @ IOp OP_PCBRACE # is) p"
  shows "\<exists>p' q'. exec_loop (Suc m) (nsp_exec k code) k code True False (cfg e p l q)
      = (if is_ret f then Inr (fin f e1 p' l q')
         else exec_loop m (nsp_exec k code) k code True False (fin f e1 (p + int (length (ncode (snodes (SWhile a r b))))) l q'))
    \<and> at_ops code (flat True (bnodes ss) @ IOp OP_PCBRACE # is) (p + int (length (ncode (snodes (SWhile a r b)))))"
proof -
  obtain i is' where i: "flat True (bnodes ss) @ IOp OP_PCBRACE # is = i # is'" "wf_instr i"
      "iop i \<noteq> OP_LINENUM" "iop i \<noteq> OP_PSEMICOL" using block_head [OF wf(2)] by blast
  have at0: "at_ops code (flat True (snodes (SWhile a r b)) @ i # is') p" using at i(1) by simp
  have x: "\<forall>p q p0. loop_at code a r b (i # is') p \<longrightarrow> (\<exists>q1. while_loop k (nsp_exec k code) k code p (p + elen a r + 1)
      (p + elen a r + 6 + blen b + 1) False (cfg e p0 l q) = Inr (fin f e1 (p + elen a r + 6 + blen b + 1) l q1))"
    using r k unfolding loops_def by blast
  show ?thesis using step_while [where ex = "nsp_exec k code", OF at0 wf(1) i(2-4) x] unfolding i(1) by blast
qed

lemma runs_while:
  assumes r: "loops e a r b Next e1 K" "runs e1 ss f e' K'" and wf: "wf_stmt (SWhile a r b)" "wf_stmts ss"
  shows "runs e (SWhile a r b # ss) f e' (Suc (K + K'))"
proof (rule runsI)
  fix code "is" p l q k n
  assume k: "Suc (K + K') \<le> k" "Suc (K + K') \<le> n"
    and at: "at_ops code (flat True (bnodes (SWhile a r b # ss)) @ IOp OP_PCBRACE # is) p"
  obtain m where n: "n = Suc m" "K' \<le> m" using k(2) by (cases n) auto
  have k': "K \<le> k" "K' \<le> k" using k by simp_all
  obtain q' where s: "exec_loop (Suc m) (nsp_exec k code) k code True False (cfg e p l q)
      = exec_loop m (nsp_exec k code) k code True False (cfg e1 (p + int (length (ncode (snodes (SWhile a r b))))) l q')"
    "at_ops code (flat True (bnodes ss) @ IOp OP_PCBRACE # is) (p + int (length (ncode (snodes (SWhile a r b)))))"
    using while_turn [OF r(1) wf k'(1) at, of m l q] by (auto simp: is_ret_def)
  show "\<exists>p' q'. exec_loop n (nsp_exec k code) k code True False (cfg e p l q) = Inr (fin f e' p' l q')
            \<and> (f = Next \<longrightarrow> p' = p + blen (SWhile a r b # ss))"
    using runsD [OF r(2) k'(2) n(2) s(2), of l q'] s(1) unfolding n(1) blen_Cons by (simp add: add.assoc)
qed

lemma runs_while_ret:
  assumes r: "loops e a r b (Ret v) e' K" and wf: "wf_stmt (SWhile a r b)" "wf_stmts ss"
  shows "runs e (SWhile a r b # ss) (Ret v) e' (Suc K)"
proof (rule runsI)
  fix code "is" p l q k n
  assume k: "Suc K \<le> k" "Suc K \<le> n"
    and at: "at_ops code (flat True (bnodes (SWhile a r b # ss)) @ IOp OP_PCBRACE # is) p"
  obtain m where n: "n = Suc m" using k(2) by (cases n) auto
  have "K \<le> k" using k by simp
  from while_turn [OF r wf this at, of m l q]
  show "\<exists>p' q'. exec_loop n (nsp_exec k code) k code True False (cfg e p l q) = Inr (fin (Ret v) e' p' l q')
            \<and> (Ret v = Next \<longrightarrow> p' = p + blen (SWhile a r b # ss))"
    unfolding n(1) by (auto simp: is_ret_def)
qed

lemma runs_break: "runs e (SBreak # ss) Brk e 1"
proof (rule runsI)
  fix code "is" p l q k n
  assume "(1 :: nat) \<le> n" and at: "at_ops code (flat True (bnodes (SBreak # ss)) @ IOp OP_PCBRACE # is) p"
  then obtain m where "n = Suc m" by (cases n) auto
  then show "\<exists>p' q'. exec_loop n (nsp_exec k code) k code True False (cfg e p l q) = Inr (fin Brk e p' l q')
      \<and> (Brk = Next \<longrightarrow> p' = p + blen (SBreak # ss))"
    using step_break [of code "flat True (bnodes ss) @ IOp OP_PCBRACE # is" p] at by auto
qed

lemma runs_continue: "runs e (SContinue # ss) Cont e 1"
proof (rule runsI)
  fix code "is" p l q k n
  assume "(1 :: nat) \<le> n" and at: "at_ops code (flat True (bnodes (SContinue # ss)) @ IOp OP_PCBRACE # is) p"
  then obtain m where "n = Suc m" by (cases n) auto
  then show "\<exists>p' q'. exec_loop n (nsp_exec k code) k code True False (cfg e p l q) = Inr (fin Cont e p' l q')
      \<and> (Cont = Next \<longrightarrow> p' = p + blen (SContinue # ss))"
    using step_continue [of code "flat True (bnodes ss) @ IOp OP_PCBRACE # is" p] at by auto
qed

lemma runs_return:
  assumes "eval_expr e a r = Inr v" "wf_stmt (SReturn a r)"
  shows "runs e (SReturn a r # ss) (Ret v) e (Suc (ofuel a + rfuel r))"
proof (rule runsI)
  fix code "is" p l q k n
  assume k: "Suc (ofuel a + rfuel r) \<le> k" "Suc (ofuel a + rfuel r) \<le> n"
    and at: "at_ops code (flat True (bnodes (SReturn a r # ss)) @ IOp OP_PCBRACE # is) p"
  then obtain m where "n = Suc m" by (cases n) auto
  then show "\<exists>p' q'. exec_loop n (nsp_exec k code) k code True False (cfg e p l q) = Inr (fin (Ret v) e p' l q')
      \<and> (Ret v = Next \<longrightarrow> p' = p + blen (SReturn a r # ss))"
    using step_return [of code a r "flat True (bnodes ss) @ IOp OP_PCBRACE # is" p k e v m "nsp_exec k code" l q] at assms k by auto
qed

lemma loops_end:
  assumes v: "eval_expr e a r = Inr v" "is_false v" and wf: "wf_expr a r" "wf_stmts b"
  shows "loops e a r b Next e (Suc (ofuel a + rfuel r))"
  unfolding loops_def
proof (intro allI impI)
  fix code "is" p l q k n p0
  assume k: "Suc (ofuel a + rfuel r) \<le> k" "Suc (ofuel a + rfuel r) \<le> n" and at: "loop_at code a r b is p"
  then obtain m where "n = Suc m" by (cases n) auto
  then show "\<exists>q'. while_loop n (nsp_exec k code) k code p (p + elen a r + 1) (p + elen a r + 6 + blen b + 1) False (cfg e p0 l q)
      = Inr (fin Next e (p + elen a r + 6 + blen b + 1) l q')"
    using while_false [OF at wf _ v, of k] k by auto
qed

text \<open>One turn of a loop whose body ends in the flow \<open>f1\<close>.\<close>

lemma loops_body:
  assumes v: "eval_expr e a r = Inr v" "\<not> is_false v" and r: "runs e b f1 e1 K"
    and wf: "wf_expr a r" "wf_stmts b"
    and next': "f1 = Next \<or> f1 = Cont \<Longrightarrow> loops e1 a r b f e' K'"
    and stop: "f1 = Brk \<Longrightarrow> f = Next \<and> e' = e1" "is_ret f1 \<Longrightarrow> f = f1 \<and> e' = e1"
  shows "loops e a r b f e' (Suc (K + K' + ofuel a + rfuel r))"
  unfolding loops_def
proof (intro allI impI)
  fix code "is" p l q k n p0
  assume k: "Suc (K + K' + ofuel a + rfuel r) \<le> k" "Suc (K + K' + ofuel a + rfuel r) \<le> n" and at: "loop_at code a r b is p"
  let ?bs = "p + elen a r + 1" and ?be = "p + elen a r + 6 + blen b + 1"
  obtain m where n: "n = Suc m" "K' \<le> m" using k(2) by (cases n) auto
  have k': "ofuel a + rfuel r < k" "Suc K \<le> k" "K' \<le> k" using k by simp_all
  obtain p1 q1 where x: "nsp_exec k code False (cfg e ?bs l v) = Inr (fin f1 e1 p1 l q1)"
    using runs_block [OF r k'(2) loop_points(2) [OF at wf]] by blast
  note w = while_true [where ex = "nsp_exec k code" and bs = ?bs and be = ?be and p' = p0 and n = m, OF at wf k'(1) v x]
  have nxt: "\<exists>q'. while_loop m (nsp_exec k code) k code p ?bs ?be False (cfg e1 p1 l q1) = Inr (fin f e' ?be l q')"
    if "f1 = Next \<or> f1 = Cont" using next' [OF that] k'(3) n(2) at unfolding loops_def by blast
  show "\<exists>q'. while_loop n (nsp_exec k code) k code p ?bs ?be False (cfg e p0 l q) = Inr (fin f e' ?be l q')"
    using w nxt stop unfolding n(1) by (cases f1) (auto simp: is_ret_def)
qed

inductive_cases bexec_NilE [elim!]: "bexec e [] f e'"

lemma bexec_skip: "bexec e ss f e' \<Longrightarrow> ss = [] \<Longrightarrow> f = Next \<and> e' = e"
  by auto

lemma bexec_runs:
  "bexec e ss f e' \<Longrightarrow> wf_stmts ss \<Longrightarrow> \<exists>K. runs e ss f e' K"
  "bloop e a r b f e' \<Longrightarrow> wf_expr a r \<Longrightarrow> wf_stmts b \<Longrightarrow> \<exists>K. loops e a r b f e' K"
proof (induction rule: bexec_bloop.inducts)
  case (Done e)
  show ?case using runs_done by blast
next
  case (Assign x e a r v ss f e')
  then obtain K where "runs (assign_var x v e) ss f e' K" by auto
  from runs_assign [OF Assign.hyps(1) this] Assign.prems show ?case by auto
next
  case (If e a r v b c e1 ss f e')
  then have wf: "wf_stmt (SIf a r b c)" "wf_stmts ss" "wf_stmts (if nsp_tobool v then b else c)" by simp_all
  obtain K K' where "runs e (if nsp_tobool v then b else c) Next e1 K" "runs e1 ss f e' K'"
    using If.IH wf by blast
  from runs_if [OF If.hyps(1) this _ wf(1,2)] bexec_skip [OF If.hyps(2)] show ?case by blast
next
  case (IfStop e a r v b c f e' ss)
  then have wf: "wf_stmt (SIf a r b c)" "wf_stmts ss" "wf_stmts (if nsp_tobool v then b else c)" by simp_all
  obtain K where "runs e (if nsp_tobool v then b else c) f e' K" using IfStop.IH wf by blast
  from runs_if_stop [OF IfStop.hyps(1) this IfStop.hyps(3) _ wf(1,2)] bexec_skip [OF IfStop.hyps(2)] show ?case by blast
next
  case (While e a r b e1 ss f e')
  then obtain K K' where "loops e a r b Next e1 K" "runs e1 ss f e' K'" by auto
  from runs_while [OF this] While.prems show ?case by auto
next
  case (WhileRet e a r b v e' ss)
  then obtain K where "loops e a r b (Ret v) e' K" by auto
  from runs_while_ret [OF this] WhileRet.prems show ?case by auto
next
  case (Break e ss)
  show ?case using runs_break by blast
next
  case (Continue e ss)
  show ?case using runs_continue by blast
next
  case (Return e a r v ss)
  then show ?case using runs_return [OF Return.hyps] by auto
next
  case (LoopEnd e a r v b)
  then show ?case using loops_end by blast
next
  case (LoopBody e a r v b f1 e1 f e')
  then obtain K K' where "runs e b f1 e1 K" "loops e1 a r b f e' K'" by auto
  from loops_body [OF LoopBody.hyps(1,2) this(1) LoopBody.prems, of f e' K'] this(2) LoopBody.hyps(4) show ?case
    by (auto simp: is_ret_def)
next
  case (LoopBreak e a r v b e')
  then obtain K where "runs e b Brk e' K" by auto
  from loops_body [OF LoopBreak.hyps(1,2) this LoopBreak.prems, of Next e' 0] show ?case by (auto simp: is_ret_def)
next
  case (LoopRet e a r v b w e')
  then obtain K where "runs e b (Ret w) e' K" by auto
  from loops_body [OF LoopRet.hyps(1,2) this LoopRet.prems, of "Ret w" e' 0] show ?case by (auto simp: is_ret_def)
qed

section \<open>Blocks of a program\<close>

text \<open>The code of a block.\<close>

definition block_code :: "stmt list \<Rightarrow> string" where
  "block_code ss = ncode [Braces (bnodes ss)] @ zeros"

lemma block_code_at:
  "at_ops (block_code ss) (IBrace (blen ss) # flat True (bnodes ss) @ [IOp OP_PCBRACE]) 0"
  using at_opsI [of "[]" "flat True [Braces (bnodes ss)]"] by (simp add: block_code_def ncode_def blen_def)

lemma nsp_exec_block:
  assumes "bexec e ss f e'" "wf_stmts ss"
  shows "\<exists>K. \<forall>k\<ge>K. \<exists>p q'. nsp_exec k (block_code ss) False (cfg e 0 l q) = Inr (fin f e' p l q')"
proof -
  obtain K where "runs e ss f e' K" using bexec_runs(1) [OF assms] by blast
  from runs_block [OF this _ block_code_at] have "\<exists>p q'. nsp_exec k (block_code ss) False (cfg e 0 l q) = Inr (fin f e' p l q')"
    if "Suc K \<le> k" for k using that by blast
  then show ?thesis by blast
qed

section \<open>Assignments to local variables\<close>

lemma assign_local:
  assumes "locals_ok e" "local_name x e"
  shows "locals_ok (assign_var x v e)" "local_map (assign_var x v e) = (local_map e)(x \<mapsto> v)"
    "globals (assign_var x v e) = globals e"
proof -
  obtain pl e1 where sv: "stmt_var x e = (pl, e1)" by (cases "stmt_var x e")
  note s = stmt_local [OF assms sv]
  obtain i where i: "pl = LocalVar i" "index_named (cdb_hash x) x (objs (locals e1)) = Some i" using s(1) by blast
  have x: "name_key x" "x \<noteq> ''this''" using assms(2) by (simp_all add: local_name_def)
  note t = set_local [OF s(2) x i(2), of v]
  show "locals_ok (assign_var x v e)" using t(1) sv i(1) by (simp add: assign_var_def)
  show "globals (assign_var x v e) = globals e" using t(3) s(4) sv i(1) by (simp add: assign_var_def)
  show "local_map (assign_var x v e) = (local_map e)(x \<mapsto> v)" using t(2) s(3) sv i(1) by (simp add: assign_var_def)
qed

lemma local_name_globals: "globals e' = globals e \<Longrightarrow> local_name x e' \<longleftrightarrow> local_name x e"
  by (simp add: local_name_def)

text \<open>The value of a variable in an expression, and in the expression of an assignment to \<open>y\<close>.\<close>

lemma read_local: "locals_ok e \<Longrightarrow> local_name x e \<Longrightarrow> local_map e x = Some v \<Longrightarrow> var_env e x = v"
  by (simp add: var_env_local)

lemma read_assign:
  assumes "locals_ok e" "local_name x e" "local_name y e" "local_map e x = Some v" "v \<noteq> NullV"
  shows "var_env (snd (stmt_var y e)) x = v"
proof -
  obtain pl e1 where sv: "stmt_var y e = (pl, e1)" by (cases "stmt_var y e")
  note s = stmt_local [OF assms(1,3) sv]
  have "local_map e1 x = Some v" using s(3) assms(4,5) by (auto split: option.splits)
  then show ?thesis using sv read_local [OF s(2)] local_name_globals [OF s(4)] assms(2) by simp
qed

section \<open>A program that sums\<close>

text \<open>\<open>i = 0; s = 0; while (i < n) { i = i + 1; s = s + i; }\<close>\<close>

definition sum_body :: "stmt list" where
  "sum_body = [SAssign ''i'' (OVar ''i'') [(OP_MADD, ONum False ''1'')], SAssign ''s'' (OVar ''s'') [(OP_MADD, OVar ''i'')]]"

definition sum_prog :: "stmt list" where
  "sum_prog = [SAssign ''i'' (ONum False ''0'') [], SAssign ''s'' (ONum False ''0'') [],
     SWhile (OVar ''i'') [(OP_MCLT, OVar ''n'')] sum_body]"

definition int_val :: "int \<Rightarrow> val" where "int_val i = NumV (Fin (of_int i))"

lemma int_val_ops:
  "exact (i + j) \<Longrightarrow> n_evalop (int_val i) OP_MADD (int_val j) = Inr (int_val (i + j))"
  "n_evalop (int_val i) OP_MCLT (int_val j) = Inr (BoolV (i < j))"
  "int_val i \<noteq> NullV"
  by (simp_all add: int_val_def n_evalop_def num_op_def exact_simps)

lemma small_nums: "num_text ''0'' = Fin (of_int 0)" "num_text ''1'' = Fin (of_int 1)"
  by (simp_all add: num_text_def) code_simp+

lemma is_false_bool: "is_false (BoolV b) \<longleftrightarrow> \<not> b"
  using num_of_int [of 0] num_of_int [of 1] num_cmp_int(1) [of 0 0] num_cmp_int(1) [of 1 0]
  by (simp add: is_false_def nsp_tonum_def)


text \<open>The state of the loop after \<open>j\<close> turns.\<close>

definition sum_state :: "ectx \<Rightarrow> int \<Rightarrow> int \<Rightarrow> bool" where
  "sum_state e m j \<longleftrightarrow> locals_ok e \<and> local_name ''i'' e \<and> local_name ''s'' e \<and> local_name ''n'' e
     \<and> local_map e ''n'' = Some (int_val m) \<and> local_map e ''i'' = Some (int_val j)
     \<and> local_map e ''s'' = Some (int_val (j * (j + 1) div 2))"

lemma sum_step: "(j + 1) * (j + 2) div 2 = j * (j + 1) div 2 + (j + 1 :: int)"
proof -
  have "(j + 1) * (j + 2) = j * (j + 1) + (j + 1) * 2" by (simp add: algebra_simps)
  then show ?thesis by simp
qed

lemma sum_turn:
  assumes st: "sum_state e m j" and j: "0 \<le> j" "exact ((j + 1) * (j + 2) div 2)"
  shows "\<exists>e'. bexec e sum_body Next e' \<and> sum_state e' m (j + 1)"
proof -
  let ?e1 = "assign_var ''i'' (int_val (j + 1)) e"
  let ?e2 = "assign_var ''s'' (int_val ((j + 1) * (j + 2) div 2)) ?e1"
  note d = st [unfolded sum_state_def]
  have "j + 1 \<le> (j + 1) * (j + 2) div 2" using j(1) sum_step [of j] by simp
  then have ex: "exact (j + 1)" using j by simp
  note a1 = assign_local [of e "''i''" "int_val (j + 1)"]
  have ok1: "locals_ok ?e1" "local_name ''s'' ?e1" "local_name ''i'' ?e1" "local_name ''n'' ?e1"
    using a1 d local_name_globals [of ?e1 e] by simp_all
  note a2 = assign_local [OF ok1(1,2), of "int_val ((j + 1) * (j + 2) div 2)"]
  have m1: "local_map ?e1 ''s'' = Some (int_val (j * (j + 1) div 2))" "local_map ?e1 ''i'' = Some (int_val (j + 1))" using a1 d by simp_all
  have "eval_expr (snd (stmt_var ''i'' e)) (OVar ''i'') [(OP_MADD, ONum False ''1'')] = Inr (int_val (j + 1))"
    using read_assign [of e "''i''" "''i''" "int_val j"] d int_val_ops(1) [of j 1] int_val_ops(3) ex small_nums(2)
    by (simp add: eval_expr_def int_val_def)
  moreover have "eval_expr (snd (stmt_var ''s'' ?e1)) (OVar ''s'') [(OP_MADD, OVar ''i'')] = Inr (int_val ((j + 1) * (j + 2) div 2))"
    using read_assign [OF ok1(1,2,2) m1(1)] read_assign [OF ok1(1,3,2) m1(2)] int_val_ops(3) int_val_ops(1) [of "j * (j + 1) div 2" "j + 1"] sum_step [of j] j(2)
    by (simp add: eval_expr_def)
  ultimately have "bexec e sum_body Next ?e2" unfolding sum_body_def by (rule Assign [OF _ Assign [OF _ Done]])
  moreover have "sum_state ?e2 m (j + 1)"
    using a1 a2 ok1 d local_name_globals [OF a2(3)] by (simp add: sum_state_def algebra_simps)
  ultimately show ?thesis by blast
qed

lemma sum_test:
  assumes "sum_state e m j"
  shows "eval_expr e (OVar ''i'') [(OP_MCLT, OVar ''n'')] = Inr (BoolV (j < m))"
  using assms int_val_ops(2) [of j m] by (simp add: sum_state_def eval_expr_def read_local)

lemma sum_loop:
  assumes "sum_state e m j" "0 \<le> j" "j \<le> m" "exact (m * (m + 1) div 2)"
  shows "\<exists>e'. bloop e (OVar ''i'') [(OP_MCLT, OVar ''n'')] sum_body Next e' \<and> sum_state e' m m"
  using assms
proof (induction "nat (m - j)" arbitrary: j e)
  case 0
  then have "j = m" by simp
  then show ?case using LoopEnd [OF sum_test [OF 0(2)]] 0(2) by (auto simp: is_false_bool)
next
  case (Suc x)
  then have j: "j < m" by simp
  have "(j + 1) * (j + 2) div 2 \<le> m * (m + 1) div 2" using j Suc.prems(2) by (intro zdiv_mono1 mult_mono) auto
  moreover have "0 \<le> (j + 1) * (j + 2) div 2" using Suc.prems(2) by simp
  ultimately have "exact ((j + 1) * (j + 2) div 2)" using Suc.prems(4) by simp
  then obtain e1 where e1: "bexec e sum_body Next e1" "sum_state e1 m (j + 1)" using sum_turn [OF Suc.prems(1,2)] by blast
  obtain e' where "bloop e1 (OVar ''i'') [(OP_MCLT, OVar ''n'')] sum_body Next e'" "sum_state e' m m"
  proof -
    have "x = nat (m - (j + 1))" using Suc.hyps(2) j by simp
    from Suc.hyps(1) [OF this e1(2) _ _ Suc.prems(4)] Suc.prems(2) j show ?thesis using that by auto
  qed
  then show ?case using LoopBody [OF sum_test [OF Suc.prems(1)] _ e1(1)] j by (auto simp: is_false_bool)
qed

definition sum_ready :: "ectx \<Rightarrow> int \<Rightarrow> bool" where
  "sum_ready e m \<longleftrightarrow> locals_ok e \<and> local_name ''i'' e \<and> local_name ''s'' e \<and> local_name ''n'' e \<and> local_map e ''n'' = Some (int_val m)"

lemma sum_runs:
  assumes r: "sum_ready e m" and m: "0 \<le> m" "exact (m * (m + 1) div 2)"
  shows "\<exists>e'. bexec e sum_prog Next e' \<and> local_map e' ''s'' = Some (int_val (m * (m + 1) div 2))"
proof -
  let ?e1 = "assign_var ''i'' (int_val 0) e" and ?e2 = "assign_var ''s'' (int_val 0) (assign_var ''i'' (int_val 0) e)"
  note d = r [unfolded sum_ready_def]
  note a1 = assign_local [of e "''i''" "int_val 0"]
  have ok1: "locals_ok ?e1" "local_name ''s'' ?e1" "local_name ''i'' ?e1" "local_name ''n'' ?e1"
    using a1 d local_name_globals [of ?e1 e] by simp_all
  note a2 = assign_local [OF ok1(1,2), of "int_val 0"]
  have "sum_state ?e2 m 0" using a1 a2 ok1 d local_name_globals [OF a2(3)] by (simp add: sum_state_def)
  then obtain e' where l: "bloop ?e2 (OVar ''i'') [(OP_MCLT, OVar ''n'')] sum_body Next e'" "sum_state e' m m"
    using sum_loop m by blast
  have z: "eval_expr x (ONum False ''0'') [] = Inr (int_val 0)" for x using small_nums(1) by (simp add: eval_expr_def int_val_def)
  have "bexec e sum_prog Next e'" unfolding sum_prog_def by (rule Assign [OF z Assign [OF z While [OF l(1) Done]]])
  then show ?thesis using l(2) by (auto simp: sum_state_def)
qed

lemma sum_prog_wf: "wf_stmts sum_prog"
proof -
  have "isdigit CHR ''0''" "isdigit CHR ''1''" "OP_MADD \<in> set binops" "OP_MCLT \<in> set binops" by code_simp+
  moreover have "is_cstr ''i''" "is_cstr ''s''" "is_cstr ''n''" by code_simp+
  ultimately show ?thesis by (simp add: sum_prog_def sum_body_def wf_expr_def MAX_OBJNAMELEN_def)
qed

text \<open>A state in which \<open>n\<close> is 3.\<close>

definition sum_env :: ectx where
  "sum_env = \<lparr>locals = \<lparr>objs = [n_setname ''n'' (int_val 3)], cur = None, autosort = True\<rparr>,
     globals = \<lparr>objs = [], cur = None, autosort = True\<rparr>, tabs = (\<lambda>_. []), readptr = 0, linenum = 1\<rparr>"

lemma sum_env_ready: "sum_ready sum_env 3"
proof -
  have n: "name_key ''i''" "name_key ''s''" "name_key ''n''" "CHR ''n'' \<noteq> NUL" by code_simp+
  have "obj_name (n_setname ''n'' (int_val 3)) = ''n''" "obj_ok name_key (n_setname ''n'' (int_val 3))" "obj_val (n_setname ''n'' (int_val 3)) = int_val 3"
    using names.new_obj [OF n(3), of "int_val 3"] by blast+
  moreover have "obj_hash (n_setname ''n'' (int_val 3)) = cdb_hash (obj_name (n_setname ''n'' (int_val 3)))"
    by (simp add: n_setname_def Let_def)
  ultimately show ?thesis using n name_key_cstr
    by (simp add: sum_ready_def locals_ok_def local_name_def local_map_def sum_env_def table_ok_def cur_ok_def named_def
        table_map_def objs_map_def)
qed

section \<open>Properties\<close>

text \<open>
  C30. The statement interpreter runs structured programs. If the semantics of a block of assignments, \<open>if\<close>,
  \<open>while\<close>, \<open>break\<close>, \<open>continue\<close> and \<open>return\<close> statements leads from the variables \<open>e\<close> to the variables \<open>e'\<close> and ends in a flow
  of control, then \<open>nsp_exec\<close> on the compiled block returns, with every amount of fuel from some bound on, the variables \<open>e'\<close>, the flags
  \<open>brk\<close>, \<open>cnt\<close> and \<open>ret\<close> of that flow and, for \<open>return\<close>, its value in \<open>N->r\<close>.
\<close>

theorem nsp_exec_refines:
  assumes "bexec e ss f e'" and "wf_stmts ss"
  shows "\<exists>K. \<forall>k\<ge>K. \<exists>p q'. nsp_exec k (block_code ss) False (cfg e 0 l q) = Inr (fin f e' p l q')"
  using assms by (rule nsp_exec_block)

theorem nsp_exec_refines_witness:
  "\<exists>k e' p q'. bexec sum_env sum_prog Next e' \<and> wf_stmts sum_prog
    \<and> nsp_exec k (block_code sum_prog) False (cfg sum_env 0 1 NullV) = Inr (cfg e' p 1 q')"
proof -
  obtain e' where "bexec sum_env sum_prog Next e'" using sum_runs [OF sum_env_ready] by auto
  then show ?thesis using nsp_exec_refines [OF _ sum_prog_wf, of sum_env Next e' 1 NullV] sum_prog_wf by blast
qed



end
