(* ===== verification/NspQuirks.thy ===== *)
theory NspQuirks
  imports NspRun
begin

text \<open>
  Statements on which the interpreter does something else than the language means.
\<close>

lemma skip_ws_line:
  assumes "at_ops code (ILine j # i # is) p" "i32 j = j" "wf_instr i" "iop i \<noteq> OP_LINENUM"
  shows "n_skip_ws code p lno = Some (iop i, p + 5, j)"
proof -
  have at: "at_ops code (i # is) (p + 5)" using at_ops_next [OF assms(1)] by simp
  obtain pre where "code = pre @ enc (ILine j) @ encs (i # is) @ zeros" "p = int (length pre)"
    using assms(1) by (auto simp: at_ops_def)
  then have "readi4 code (p + 1) = Some j" using readi4_writei4 [of "pre @ [op_byte OP_LINENUM]" j "encs (i # is) @ zeros"] assms(2)
    by (simp add: add.commute)
  then show ?thesis using at_ops_rd [OF assms(1)] at_ops_rd [OF at assms(3)] assms(4)
    by (subst n_skip_ws.simps, simp, subst n_skip_ws.simps, simp)
qed

text \<open>
  A \<open>switch\<close> whose brace is followed by a line break does nothing: the loop reads the operator of the line mark, which is
  no \<open>case\<close>, and leaves.
\<close>

lemma xskipto_line:
  assumes at: "at_ops code (ILine j # IOp OP_KCASE # flat True b @ IOp OP_PCBRACE # is) p"
    and wf: "wf_nodes b" "no_lines b" "i32 j = j"
  shows "\<exists>p'. xskipto code OP_PCBRACE (cfg e p l q) = Inr (cfg e p' j q)"
proof -
  have wc: "wf_instr (IOp OP_KCASE)" by (simp add: OP_ISKEY_def wf_instr.simps(6))
  have at1: "at_ops code (IOp OP_KCASE # flat True b @ IOp OP_PCBRACE # is) (p + 5)" using at_ops_next [OF at] by simp
  have at2: "at_ops code (flat True b @ IOp OP_PCBRACE # is) (p + 6)" using at_ops_next [OF at1] by (simp add: add.assoc)
  have s: "skipto_loop code OP_PCBRACE (p + 6) j = Some (True, p + 6 + int (length (ncode b)), j)"
    using skipto_nested [OF at2 wf(1,2), of OP_PCBRACE] skipto_found [of code OP_PCBRACE "is"] wf_close(1) by (simp add: closer_def)
  have "n_seekop code (p + 5) True = Some (p + 6)" using at_ops_rd [OF at1 wc] by (simp add: n_seekop_def seek_one_def)
  then have "skipto_loop code OP_PCBRACE p l = Some (True, p + 6 + int (length (ncode b)), j)"
    using at_ops_rd [OF at] skip_ws_line [OF at wf(3) wc] s by (subst skipto_loop.simps) simp
  then have "n_skipto code OP_PCBRACE (at_env e p l) = Inr (at_env e (p + 6 + int (length (ncode b))) j)"
    by (simp add: n_skipto_def at_env_def)
  then show ?thesis by (auto simp: xskipto_def fin_def)
qed

lemma switch_line_break:
  assumes at: "at_ops code (IParen m # ocode a @ rcode r @ IOp OP_PCPAREN # IBrace n # ILine j # IOp OP_KCASE
      # flat True b @ IOp OP_PCBRACE # is) p"
    and wf: "wf_expr a r" "wf_nodes b" "no_lines b" "i32 j = j" and k: "ofuel a + rfuel r < k" and v: "eval_expr e a r = Inr v"
  shows "\<exists>p'. n_switch ex k code (cfg e p l q) = Inr (cfg e p' j v)"
proof -
  let ?p = "p + 3 + elen a r"
  have wc: "wf_instr (IOp OP_KCASE)" by (simp add: OP_ISKEY_def wf_instr.simps(6))
  note at1 = at_ops_next [OF at, simplified]
  have at2: "at_ops code (IOp OP_PCPAREN # IBrace n # ILine j # IOp OP_KCASE # flat True b @ IOp OP_PCBRACE # is) ?p"
    by (rule at_expr_end [OF at1 wf(1)])
  note at3 = at_ops_next [OF at2, simplified]
  have at4: "at_ops code (ILine j # IOp OP_KCASE # flat True b @ IOp OP_PCBRACE # is) (?p + 1 + 5)" using at_ops_next [OF at3] by simp
  obtain p' where skip: "xskipto code OP_PCBRACE (cfg e (?p + 1 + 5) l v) = Inr (cfg e p' j v)"
    using xskipto_line [OF at4 wf(2-4)] by blast
  obtain k' where k': "k = Suc k'" using k by (cases k) auto
  have "n_peekop code (at_env e (?p + 1 + 5) j) = Inr (OP_KCASE, at_env e (?p + 1 + 5 + 5) j)"
    using skip_ws_line [OF at4 wf(4) wc, of j] by (simp add: n_peekop_def at_env_def)
  then have "xexpect code OP_KCASE (cfg e (?p + 1 + 5) j v) = Inr (cfg e (?p + 1 + 5 + 5) j v)"
    by (simp add: xexpect_def n_expect_def fin_def)
  then have "switch_loop k ex k code v False (cfg e (?p + 1 + 5) j v) = Inr (cfg e (?p + 1 + 5 + 5) j v)"
    using xbyte_at [of code "ILine j" _ "cfg e (?p + 1 + 5) j v"] at4 unfolding k' by simp
  then have "n_switch ex k code (cfg e p l q) = Inr (cfg e (p' + 1) j v)"
    using xexpect_at [of code "IParen m" _ "cfg e p l q"] xenter_at(2) [of code m _ "cfg e p l q"] at
      xeval_at [OF at1 wf(1) ends_paren k v, of Next l q] xexpect_at [of code "IOp OP_PCPAREN" _ "cfg e ?p l v"] at2 wf_close(2)
      xexpect_at [of code "IBrace n" _ "cfg e (?p + 1) l v"] xenter_at(1) [of code n _ "cfg e (?p + 1) l v"] at3 skip
    by (simp add: n_switch_def Let_def del: switch_loop.simps)
  then show ?thesis by blast
qed

text \<open>\<open>if\<close> and the loops test a value in two ways: a string that is no number is true for \<open>if\<close> and false for \<open>while\<close>.\<close>

lemma truth_tests_differ: "nsp_tobool (StrV ''a'')" "is_false (StrV ''a'')"
  by code_simp+

text \<open>Code of instructions, and a state without variables.\<close>

definition ops_code :: "instr list \<Rightarrow> string" where "ops_code is = encs is @ zeros"

definition quirk_start :: xctx where
  "quirk_start = \<lparr>xenv = \<lparr>locals = \<lparr>objs = [], cur = None, autosort = True\<rparr>, globals = \<lparr>objs = [], cur = None, autosort = True\<rparr>,
     tabs = (\<lambda>_. []), readptr = 0, linenum = 1\<rparr>, rval = NullV, brk = 0, cnt = False, ret = False\<rparr>"

definition local_names :: "xctx res \<Rightarrow> string list option" where
  "local_names r = (case r of Inr x \<Rightarrow> Some (map obj_name (objs (locals (xenv x)))) | Inl _ \<Rightarrow> None)"

definition fails :: "stop \<Rightarrow> xctx res \<Rightarrow> bool" where
  "fails s r = (case r of Inl s' \<Rightarrow> s' = s | Inr _ \<Rightarrow> False)"

text \<open>A \<open>for\<close> with empty parts, \<open>for (;;) { break; }\<close>, is a syntax error, although the empty condition is provided for.\<close>

lemma for_empty_init:
  "fails SyntaxError (nsp_exec 5 (ops_code [IOp OP_KFOR, IParen 2, IOp OP_PSEMICOL, IOp OP_PSEMICOL, IOp OP_PCPAREN, IBrace 2,
     IOp OP_KBREAK, IOp OP_PSEMICOL, IOp OP_PCBRACE]) False quirk_start)"
  by code_simp

text \<open>
  \<open>if (a) while (a) { } y = 1;\<close> with a false condition: the branch that is passed over ends at the first \<open>;\<close>, which is that of the
  next statement, so \<open>y\<close> is not assigned. With braces it is.
\<close>

lemma if_swallows_statement:
  "local_names (nsp_exec 9 (ops_code [IOp OP_KIF, IParen 4, IShort OP_LABEL ''a'', IOp OP_PCPAREN,
     IOp OP_KWHILE, IParen 4, IShort OP_LABEL ''a'', IOp OP_PCPAREN, IBrace 0, IOp OP_PCBRACE,
     IShort OP_LABEL ''y'', IOp OP_MEQ, IShort OP_NUMDATA ''1'', IOp OP_PSEMICOL]) False quirk_start) = Some []"
  "local_names (nsp_exec 9 (ops_code [IOp OP_KIF, IParen 4, IShort OP_LABEL ''a'', IOp OP_PCPAREN, IBrace 15,
     IOp OP_KWHILE, IParen 4, IShort OP_LABEL ''a'', IOp OP_PCPAREN, IBrace 0, IOp OP_PCBRACE, IOp OP_PCBRACE,
     IShort OP_LABEL ''y'', IOp OP_MEQ, IShort OP_NUMDATA ''1'', IOp OP_PSEMICOL]) False quirk_start) = Some [''y'']"
  by code_simp+

text \<open>\<open>do y = 1; while (a);\<close>: behind a single statement the loop leaves the pointer on its last parenthesis, which the next turn warns about.\<close>

lemma do_single_warns:
  "fails Foreign (nsp_exec 9 (ops_code [IOp OP_KDO, IShort OP_LABEL ''y'', IOp OP_MEQ, IShort OP_NUMDATA ''1'', IOp OP_PSEMICOL,
     IOp OP_KWHILE, IParen 4, IShort OP_LABEL ''a'', IOp OP_PCPAREN, IOp OP_PSEMICOL]) False quirk_start)"
  by code_simp

end
