(* ===== verification/HttpAuth.thy ===== *)
theory HttpAuth
  imports Accounts SqlDate HttpFormat
begin

text \<open>
  Sessions of the web interface: \<open>src/src/modules/core/httpd/httpd_auth.c\<close>, with the reader of XML parameters of
  \<open>httpd_http.c\<close> that a login uses. The table \<open>gw_users_sessions\<close> is a list of rows on which the SQL statements of the
  sources act; the two queries of \<open>gw_users\<close> are functions of the environment. The sources put the token of a cookie between
  quotes into a statement without escaping it; a token with a quote or a backslash makes a different statement, and what the SQL server does
  with it is a function of the environment too. The other statements on the table do not fail. The column \<open>data\<close> of a session, which
  the sources no longer write, and the preferences that are copied from the user's row into variables for scripts are left out.
\<close>

section \<open>State\<close>

record session_row =
  s_id :: int
  s_mtime :: int
  s_uid :: int
  s_did :: int
  s_token :: string
  s_ip :: string

type_synonym sessions = "session_row list"

text \<open>A row of \<open>gw_users\<close> as the two queries see it; the columns \<open>obj_uid\<close>, \<open>obj_gid\<close>, \<open>obj_did\<close> are those of the row's owner.\<close>

record web_user =
  w_userid :: int
  w_uid :: int
  w_gid :: int
  w_did :: int
  w_username :: string
  w_password :: string

record httpdat =
  h_username :: string
  h_token :: string
  h_uid :: int
  h_gid :: int
  h_did :: int

text \<open>
  The queries of \<open>gw_users\<close> by name and domain and by number, the number of a domain, the rows that the query by a token
  gives when the token breaks the statement, and whether such an update or deletion applies to a row.
\<close>

record webdb =
  q_weblogin :: "string \<Rightarrow> int \<Rightarrow> web_user list option"
  q_webuser :: "int \<Rightarrow> web_user list option"
  q_webdomain :: "string \<Rightarrow> int"
  q_odd_select :: "string \<Rightarrow> string \<Rightarrow> session_row list \<Rightarrow> session_row list"
  q_odd_where :: "httpdat \<Rightarrow> session_row \<Rightarrow> bool"

text \<open>What a login reads of a request.\<close>

record webreq =
  r_addr :: string
  r_post :: bool
  r_raw :: "string option"
  r_get :: "string \<Rightarrow> string option"
  r_form :: "string \<Rightarrow> string option"
  r_cookie :: "string option"
  r_server :: string

section \<open>Parameters in XML\<close>

text \<open>The text behind the next tag, in any case of letters.\<close>

fun after_tag :: "string \<Rightarrow> string \<Rightarrow> string option" where
  "after_tag t [] = None"
| "after_tag t (c # s) =
     (if strncaseeq (c # s) t (length t) then Some (drop (length t) (c # s)) else after_tag t s)"

text \<open>The \<open>n\<close>-th parameter, if it has a value of the type asked for.\<close>

fun xml_param :: "nat \<Rightarrow> string \<Rightarrow> string \<Rightarrow> string option" where
  "xml_param 0 ty s = None"
| "xml_param (Suc n) ty s =
     (case after_tag ''<param>'' s of
        None \<Rightarrow> None
      | Some r \<Rightarrow>
          if n \<noteq> 0 then xml_param n ty r
          else Option.bind (after_tag ''<value>'' r) (\<lambda>v.
            map_option (\<lambda>w. cstr (decodeurl (take (SMALLBUF - 1) (takeWhile (\<lambda>c. c \<noteq> CHR ''<'') w))))
              (after_tag (snprintf 19 (CHR ''<'' # ty @ ''>'')) v)))"

definition getxmlparam :: "webreq \<Rightarrow> nat \<Rightarrow> string \<Rightarrow> string option" where
  "getxmlparam r n ty = Option.bind (r_raw r) (xml_param n ty)"

section \<open>Logging in\<close>

text \<open>
  \<open>auth_checkpass\<close> of the web interface; it stores the user's number before it looks at the password. A stored hash is
  shorter than the buffer of 64 bytes it is copied to.
\<close>

definition web_checkpass :: "webdb \<Rightarrow> httpdat \<Rightarrow> string \<Rightarrow> int \<times> httpdat" where
  "web_checkpass db dat password =
     (if h_username dat = [] \<or> password = [] then (- 1, dat)
      else case q_weblogin db (h_username dat) (h_did dat) of
        Some [row] \<Rightarrow>
          let cpassword = take 63 (w_password row) in
          (if take 3 cpassword = ''$1$'' \<and> cpassword = md5_crypt password (take 8 (drop 3 cpassword)) then 0 else - 1,
           dat\<lparr>h_uid := i16 (w_userid row)\<rparr>)
      | _ \<Rightarrow> (- 1, dat))"

definition hex_byte :: "byte \<Rightarrow> string" where
  "hex_byte b = [''0123456789abcdef'' ! unat (drop_bit 4 b), ''0123456789abcdef'' ! unat (take_bit 4 b)]"

text \<open>The token of a session: the MD5 digest of the user name and, but for the user \<open>guest\<close>, the time to the second.\<close>

definition session_token :: "string \<Rightarrow> int \<Rightarrow> string" where
  "session_token username now =
     (let c = md5_update (md5_init md5_blank) (bytes_of username);
          c = (if username \<noteq> ''guest'' then md5_update c (bytes_of (time_unix2sql now)) else c)
      in concat (map hex_byte (fst (md5_final c))))"

definition sql_plain :: "string \<Rightarrow> bool" where
  "sql_plain s \<longleftrightarrow> CHR 0x27 \<notin> set s \<and> CHR 0x5C \<notin> set s"

definition with_token :: "string \<Rightarrow> string \<Rightarrow> sessions \<Rightarrow> sessions" where
  "with_token tok ip ss = filter (\<lambda>s. s_token s = tok \<and> s_ip s = ip) ss"

definition token_rows :: "webdb \<Rightarrow> string \<Rightarrow> string \<Rightarrow> sessions \<Rightarrow> sessions" where
  "token_rows db tok ip ss = (if sql_plain tok then with_token tok ip ss else q_odd_select db tok ip ss)"

text \<open>The rows that the end of a session and the update of its time apply to.\<close>

definition own_row :: "webdb \<Rightarrow> httpdat \<Rightarrow> session_row \<Rightarrow> bool" where
  "own_row db dat s =
     (if sql_plain (h_token dat) then s_token s = h_token dat \<and> s_uid s = h_uid dat \<and> s_did s = h_did dat else q_odd_where db dat s)"

text \<open>\<open>auth_renewcookie\<close>: who the session with the token of the connection belongs to.\<close>

definition auth_renewcookie :: "webdb \<Rightarrow> sessions \<Rightarrow> string \<Rightarrow> bool \<Rightarrow> httpdat \<Rightarrow> int \<times> httpdat" where
  "auth_renewcookie db ss ip settoken dat =
     (if settoken \<and> length (h_token dat) \<noteq> 32 then (- 1, dat)
      else case token_rows db (h_token dat) ip ss of
        [s] \<Rightarrow>
          if s_uid s = 0 \<or> s_did s = 0 then (- 1, dat)
          else (case q_webuser db (s_uid s) of
            Some [row] \<Rightarrow>
              let dat = dat\<lparr>h_uid := i16 (w_uid row), h_gid := i16 (w_gid row), h_did := i16 (w_did row),
                  h_username := snprintf 63 (w_username row)\<rparr>
              in (if h_username dat = [] then - 1 else 0, dat)
          | _ \<Rightarrow> (- 1, dat))
      | _ \<Rightarrow> (- 1, dat))"

text \<open>A variable that is not set reads as \<open>null\<close>.\<close>

definition auth_getcookie :: "webdb \<Rightarrow> sessions \<Rightarrow> webreq \<Rightarrow> httpdat \<Rightarrow> int \<times> httpdat" where
  "auth_getcookie db ss r dat =
     auth_renewcookie db ss (r_addr r) True
       (dat\<lparr>h_token := snprintf 63 (case r_cookie r of Some c \<Rightarrow> c | None \<Rightarrow> ''null'')\<rparr>)"

text \<open>
  The part of \<open>auth_setcookie\<close> that reads name, domain and password of a request; the number counts the parameters that came
  as XML. A missing domain name is formatted as \<open>(null)\<close>.
\<close>

definition or_form :: "webreq \<Rightarrow> nat \<Rightarrow> string \<Rightarrow> string option \<times> nat" where
  "or_form r n name = (case getxmlparam r n ''string'' of Some v \<Rightarrow> (Some v, 1) | None \<Rightarrow> (r_form r name, 0))"

definition login_name :: "webdb \<Rightarrow> webreq \<Rightarrow> httpdat \<Rightarrow> httpdat \<times> nat" where
  "login_name db r dat =
     (case or_form r 1 ''USERNAME'' of
        (None, x) \<Rightarrow> (dat, x)
      | (Some u, x) \<Rightarrow>
          let u = take 63 u in
          (case strchr u CHR ''@'' of
             Some (name, d) \<Rightarrow> (dat\<lparr>h_username := name, h_did := i16 (q_webdomain db d)\<rparr>, x)
           | None \<Rightarrow>
               (case or_form r 3 ''DOMAIN'' of (d, y) \<Rightarrow>
                 (dat\<lparr>h_username := u, h_did := i16 (q_webdomain db (case d of Some d' \<Rightarrow> d' | None \<Rightarrow> ''(null)''))\<rparr>, x + y))))"

definition login_fields :: "webdb \<Rightarrow> webreq \<Rightarrow> httpdat \<Rightarrow> httpdat \<times> string \<times> nat" where
  "login_fields db r dat =
     (if \<not> r_post r then
        (case r_get r ''USERNAME'' of Some u \<Rightarrow> dat\<lparr>h_username := take 63 u\<rparr> | None \<Rightarrow> dat,
         case r_get r ''PASSWORD'' of Some p \<Rightarrow> take 63 p | None \<Rightarrow> [], 0)
      else
        (case login_name db r dat of (dat, x) \<Rightarrow>
         case or_form r 2 ''PASSWORD'' of (p, y) \<Rightarrow>
           (dat, case p of Some p \<Rightarrow> take 63 p | None \<Rightarrow> [], x + y)))"

text \<open>
  The sessions of a user, the newest first, from the place \<open>limit - 1\<close> on are deleted. Rows of the same second come in the order of the
  table.
\<close>

definition user_sessions :: "int \<Rightarrow> int \<Rightarrow> sessions \<Rightarrow> sessions" where
  "user_sessions uid did ss = filter (\<lambda>s. s_uid s = uid \<and> s_did s = did) ss"

definition prune_sessions :: "int \<Rightarrow> int \<Rightarrow> int \<Rightarrow> sessions \<Rightarrow> sessions" where
  "prune_sessions limit uid did ss =
     (let old = drop (nat (limit - 1)) (sort_key (\<lambda>s. - s_mtime s) (user_sessions uid did ss))
      in filter (\<lambda>s. \<not> (s_id s \<in> s_id ` set old \<and> s_uid s = uid \<and> s_did s = did)) ss)"

definition fresh_session :: "sessions \<Rightarrow> int" where
  "fresh_session ss = foldr max (map s_id ss) 0 + 1"

definition add_session :: "int \<Rightarrow> httpdat \<Rightarrow> string \<Rightarrow> sessions \<Rightarrow> sessions" where
  "add_session now dat ip ss =
     ss @ [\<lparr>s_id = fresh_session ss, s_mtime = now, s_uid = h_uid dat, s_did = h_did dat, s_token = h_token dat, s_ip = ip\<rparr>]"

definition auth_setcookie :: "webdb \<Rightarrow> int \<Rightarrow> int \<Rightarrow> sessions \<Rightarrow> webreq \<Rightarrow> httpdat \<Rightarrow> int \<times> httpdat \<times> sessions" where
  "auth_setcookie db limit now ss r dat =
     (case login_fields db r dat of (dat, password, xml) \<Rightarrow>
      let dat = (if h_did dat < 1 then dat\<lparr>h_did := 1\<rparr> else dat) in
      case web_checkpass db dat password of (result, dat) \<Rightarrow>
        if result = 0 then
          let dat = dat\<lparr>h_token := session_token (h_username dat) now\<rparr> in
          if xml \<noteq> 0 then (case auth_renewcookie db ss (r_addr r) False dat of (rc, dat) \<Rightarrow> (rc, dat, ss))
          else
            let ss = add_session now dat (r_addr r) (prune_sessions limit (h_uid dat) (h_did dat) ss) in
            (case auth_renewcookie db ss (r_addr r) True dat of (rc, dat) \<Rightarrow> (rc, dat, ss))
        else (- 1, dat\<lparr>h_did := i16 (q_webdomain db (r_server r))\<rparr>, ss))"

definition auth_logout :: "webdb \<Rightarrow> sessions \<Rightarrow> httpdat \<Rightarrow> sessions" where
  "auth_logout db ss dat = filter (\<lambda>s. \<not> own_row db dat s) ss"

text \<open>\<open>auth_savesession\<close> at the end of a request.\<close>

definition auth_savesession :: "webdb \<Rightarrow> int \<Rightarrow> sessions \<Rightarrow> httpdat \<Rightarrow> sessions" where
  "auth_savesession db now ss dat =
     (if 0 < h_uid dat then map (\<lambda>s. if own_row db dat s then s\<lparr>s_mtime := now\<rparr> else s) ss else ss)"

section \<open>Tokens and passwords\<close>

lemma web_checkpass_0:
  assumes "web_checkpass db dat p = (0, dat')"
  shows "\<exists>row. q_weblogin db (h_username dat) (h_did dat) = Some [row]
    \<and> take 63 (w_password row) = md5_crypt p (take 8 (drop 3 (w_password row))) \<and> dat' = dat\<lparr>h_uid := i16 (w_userid row)\<rparr>"
  using assms
  by (auto simp: web_checkpass_def Let_def min_def drop_take split: if_splits option.splits list.splits)

lemma guest_token_constant: "session_token ''guest'' now = session_token ''guest'' now'"
  by (simp add: session_token_def)

lemma length_hex_bytes: "length (concat (map hex_byte bs)) = 2 * length bs"
  by (induction bs) (simp_all add: hex_byte_def)

text \<open>A token that a login makes does not break a statement.\<close>

lemma hex_byte_digits: "set (hex_byte b) \<subseteq> set ''0123456789abcdef''"
proof -
  have "unat (drop_bit 4 b) < 16" "unat (take_bit 4 b) < 16"
    using unsigned_less [of b, where 'a = nat]
    by (simp_all add: drop_bit_eq_div take_bit_eq_mod unat_div_distrib unat_mod_distrib less_mult_imp_div_less)
  then have "''0123456789abcdef'' ! unat (drop_bit 4 b) \<in> set ''0123456789abcdef''"
      "''0123456789abcdef'' ! unat (take_bit 4 b) \<in> set ''0123456789abcdef''"
    by (intro nth_mem; simp)+
  then show ?thesis by (simp only: hex_byte_def list.set insert_subset empty_subsetI simp_thms)
qed

lemma session_token_hex: "set (session_token u now) \<subseteq> set ''0123456789abcdef''"
  unfolding session_token_def Let_def using hex_byte_digits by fastforce

lemma session_token_plain: "sql_plain (session_token u now)"
  using session_token_hex [of u now] unfolding sql_plain_def by auto

text \<open>Two sessions with the same token lock each other out.\<close>

lemma duplicate_token_rejected:
  assumes "2 \<le> length (token_rows db (h_token dat) ip ss)"
  shows "auth_renewcookie db ss ip st dat = (- 1, dat)"
  using assms by (auto simp: auth_renewcookie_def split: list.splits)

lemma missing_token_rejected:
  assumes "token_rows db (h_token dat) ip ss = []"
  shows "auth_renewcookie db ss ip st dat = (- 1, dat)"
  using assms by (simp add: auth_renewcookie_def)

text \<open>What a session is accepted on.\<close>

lemma renewcookie_0:
  assumes "auth_renewcookie db ss ip st dat = (0, dat')"
  shows "\<exists>s row. token_rows db (h_token dat) ip ss = [s] \<and> q_webuser db (s_uid s) = Some [row]
    \<and> dat' = dat\<lparr>h_uid := i16 (w_uid row), h_gid := i16 (w_gid row), h_did := i16 (w_did row), h_username := snprintf 63 (w_username row)\<rparr>
    \<and> (st \<longrightarrow> length (h_token dat) = 32)"
  using assms by (auto simp: auth_renewcookie_def Let_def split: if_splits option.splits list.splits)

text \<open>The answer depends on the sessions with the token only.\<close>

lemma renewcookie_cong:
  assumes "token_rows db (h_token dat) ip ss = token_rows db (h_token dat) ip ss'"
  shows "auth_renewcookie db ss ip st dat = auth_renewcookie db ss' ip st dat"
  by (simp add: auth_renewcookie_def assms)

text \<open>A cookie of 32 characters with a quote in it is accepted on whatever row the broken statement returns.\<close>

lemma cookie_breaks_query:
  assumes "r_cookie r = Some c" "length c = 32" "CHR 0x27 \<in> set c" "q_odd_select db c (r_addr r) ss = [s]" "s_uid s \<noteq> 0" "s_did s \<noteq> 0"
    and "q_webuser db (s_uid s) = Some [row]" "w_username row \<noteq> []"
  shows "fst (auth_getcookie db ss r dat) = 0"
  using assms by (auto simp: auth_getcookie_def auth_renewcookie_def token_rows_def sql_plain_def snprintf_def Let_def)

section \<open>The table of sessions\<close>

text \<open>Name, password and domain that a login uses, and that the password is the right one.\<close>

definition login_dat :: "webdb \<Rightarrow> webreq \<Rightarrow> httpdat \<Rightarrow> httpdat" where
  "login_dat db r dat = (case login_fields db r dat of (d, p, x) \<Rightarrow> if h_did d < 1 then d\<lparr>h_did := 1\<rparr> else d)"

definition login_pass :: "webdb \<Rightarrow> webreq \<Rightarrow> httpdat \<Rightarrow> string" where
  "login_pass db r dat = fst (snd (login_fields db r dat))"

definition login_xml :: "webdb \<Rightarrow> webreq \<Rightarrow> httpdat \<Rightarrow> bool" where
  "login_xml db r dat \<longleftrightarrow> snd (snd (login_fields db r dat)) \<noteq> 0"

definition login_ok :: "webdb \<Rightarrow> webreq \<Rightarrow> httpdat \<Rightarrow> bool" where
  "login_ok db r dat \<longleftrightarrow> fst (web_checkpass db (login_dat db r dat) (login_pass db r dat)) = 0"

text \<open>The data of the connection when the session is stored.\<close>

definition login_row :: "webdb \<Rightarrow> int \<Rightarrow> webreq \<Rightarrow> httpdat \<Rightarrow> httpdat" where
  "login_row db now r dat = (let d = snd (web_checkpass db (login_dat db r dat) (login_pass db r dat))
     in d\<lparr>h_token := session_token (h_username d) now\<rparr>)"

definition login_sessions :: "webdb \<Rightarrow> int \<Rightarrow> int \<Rightarrow> sessions \<Rightarrow> webreq \<Rightarrow> httpdat \<Rightarrow> sessions" where
  "login_sessions db limit now ss r dat = (let d = login_row db now r dat
     in add_session now d (r_addr r) (prune_sessions limit (h_uid d) (h_did d) ss))"

lemma auth_setcookie_cases:
  "auth_setcookie db limit now ss r dat =
     (if \<not> login_ok db r dat then
        (- 1, (snd (web_checkpass db (login_dat db r dat) (login_pass db r dat)))\<lparr>h_did := i16 (q_webdomain db (r_server r))\<rparr>, ss)
      else if login_xml db r dat then (case auth_renewcookie db ss (r_addr r) False (login_row db now r dat) of (rc, d) \<Rightarrow> (rc, d, ss))
      else (case auth_renewcookie db (login_sessions db limit now ss r dat) (r_addr r) True (login_row db now r dat) of
              (rc, d) \<Rightarrow> (rc, d, login_sessions db limit now ss r dat)))"
  by (simp add: auth_setcookie_def login_ok_def login_dat_def login_pass_def login_xml_def login_row_def login_sessions_def Let_def
      split: prod.splits)

lemma setcookie_sessions:
  "snd (snd (auth_setcookie db limit now ss r dat))
     = (if login_ok db r dat \<and> \<not> login_xml db r dat then login_sessions db limit now ss r dat else ss)"
  by (simp add: auth_setcookie_cases split: prod.splits)

text \<open>A session in the table comes from the login or was there before.\<close>

lemma checkpass_keeps:
  "h_username (snd (web_checkpass db d p)) = h_username d" "h_did (snd (web_checkpass db d p)) = h_did d"
  by (auto simp: web_checkpass_def Let_def split: option.splits list.splits)

lemma login_row_simps:
  "h_username (login_row db now r dat) = h_username (login_dat db r dat)" "h_did (login_row db now r dat) = h_did (login_dat db r dat)"
  "h_token (login_row db now r dat) = session_token (h_username (login_dat db r dat)) now"
  by (simp_all add: login_row_def Let_def checkpass_keeps)

lemma login_sessions_set:
  "s \<in> set (login_sessions db limit now ss r dat) \<Longrightarrow>
     s \<in> set ss \<or> s_ip s = r_addr r \<and> s_token s = session_token (h_username (login_dat db r dat)) now
       \<and> s_uid s = h_uid (login_row db now r dat) \<and> s_did s = h_did (login_dat db r dat)"
  by (auto simp: login_sessions_def add_session_def prune_sessions_def login_row_simps Let_def)

lemma prune_bound: "length (user_sessions uid did (prune_sessions limit uid did ss)) \<le> nat (limit - 1)"
proof -
  let ?us = "user_sessions uid did ss"
  let ?L = "sort_key (\<lambda>s. - s_mtime s) ?us" and ?n = "nat (limit - 1)"
  let ?P = "\<lambda>s. s_id s \<notin> s_id ` set (drop ?n ?L)"
  have "user_sessions uid did (prune_sessions limit uid did ss) = filter ?P ?us"
    by (auto simp: user_sessions_def prune_sessions_def Let_def intro: filter_cong)
  moreover have "length (filter ?P ?us) = length (filter ?P ?L)"
    by (simp only: filter_sort length_sort)
  moreover have "filter ?P ?L = filter ?P (take ?n ?L) @ filter ?P (drop ?n ?L)"
    by (metis append_take_drop_id filter_append)
  moreover have "filter ?P (drop ?n ?L) = []" by (simp add: filter_empty_conv)
  moreover have "length (filter ?P (take ?n ?L)) \<le> ?n" using length_filter_le [of ?P "take ?n ?L"] by simp
  ultimately show ?thesis by simp
qed

lemma prune_other: "(uid', did') \<noteq> (uid, did) \<Longrightarrow> user_sessions uid' did' (prune_sessions limit uid did ss) = user_sessions uid' did' ss"
  by (auto simp: user_sessions_def prune_sessions_def Let_def intro: filter_cong)

lemma login_bound:
  assumes "\<And>uid did. length (user_sessions uid did ss) \<le> nat (max 1 limit)"
  shows "length (user_sessions uid did (login_sessions db limit now ss r dat)) \<le> nat (max 1 limit)"
proof -
  let ?d = "login_row db now r dat"
  let ?p = "prune_sessions limit (h_uid ?d) (h_did ?d) ss"
  have add: "user_sessions uid did (add_session now ?d ip ss') = user_sessions uid did ss' @
      (if uid = h_uid ?d \<and> did = h_did ?d then [last (add_session now ?d ip ss')] else [])" for ip ss'
    by (auto simp: user_sessions_def add_session_def)
  show ?thesis
  proof (cases "uid = h_uid ?d \<and> did = h_did ?d")
    case True
    then have "length (user_sessions uid did (login_sessions db limit now ss r dat)) \<le> nat (limit - 1) + 1"
      using prune_bound [of uid did limit ss] unfolding login_sessions_def Let_def add by auto
    then show ?thesis by linarith
  next
    case False
    then have "user_sessions uid did (login_sessions db limit now ss r dat) = user_sessions uid did ss"
      using prune_other [of uid did "h_uid ?d" "h_did ?d" limit ss] unfolding login_sessions_def Let_def add by auto
    then show ?thesis using assms by simp
  qed
qed

lemma filter_sessions_bound: "length (user_sessions uid did (filter P ss)) \<le> length (user_sessions uid did ss)"
proof -
  have "user_sessions uid did (filter P ss) = filter P (user_sessions uid did ss)" by (simp add: user_sessions_def conj_commute)
  then show ?thesis by (simp only: length_filter_le)
qed

lemma savesession_bound: "length (user_sessions uid did (auth_savesession db now ss dat)) = length (user_sessions uid did ss)"
proof (cases "0 < h_uid dat")
  case True
  then show ?thesis unfolding auth_savesession_def user_sessions_def by (induction ss) auto
qed (simp add: auth_savesession_def)

section \<open>Histories\<close>

text \<open>The requests that change the table: a login, a logout, and the end of a request.\<close>

datatype web_event = Login int webreq httpdat | Logout httpdat | Save int httpdat

fun web_step :: "webdb \<Rightarrow> int \<Rightarrow> web_event \<Rightarrow> sessions \<Rightarrow> sessions" where
  "web_step db limit (Login now r dat) ss = snd (snd (auth_setcookie db limit now ss r dat))"
| "web_step db limit (Logout dat) ss = auth_logout db ss dat"
| "web_step db limit (Save now dat) ss = auth_savesession db now ss dat"

inductive web_reach :: "webdb \<Rightarrow> int \<Rightarrow> web_event list \<Rightarrow> sessions \<Rightarrow> bool" for db limit where
  start: "web_reach db limit [] []"
| step: "web_reach db limit es ss \<Longrightarrow> web_reach db limit (es @ [ev]) (web_step db limit ev ss)"

text \<open>Every session comes from a login of the history.\<close>

definition from_login :: "webdb \<Rightarrow> web_event list \<Rightarrow> session_row \<Rightarrow> bool" where
  "from_login db es s \<longleftrightarrow> (\<exists>now r dat. Login now r dat \<in> set es \<and> login_ok db r dat
     \<and> r_addr r = s_ip s \<and> s_token s = session_token (h_username (login_dat db r dat)) now
     \<and> s_uid s = h_uid (login_row db now r dat) \<and> s_did s = h_did (login_dat db r dat))"

lemma from_login_more: "from_login db es s \<Longrightarrow> from_login db (es @ es') s"
  by (auto simp: from_login_def)

lemma savesession_from:
  "s \<in> set (auth_savesession db now ss dat) \<Longrightarrow> \<exists>t\<in>set ss. s_ip s = s_ip t \<and> s_token s = s_token t \<and> s_uid s = s_uid t \<and> s_did s = s_did t"
  by (auto simp: auth_savesession_def split: if_splits)

lemma reach_from_login:
  assumes "web_reach db limit es ss" "s \<in> set ss"
  shows "from_login db es s"
  using assms
proof (induction arbitrary: s rule: web_reach.induct)
  case (step es ss ev)
  show ?case
  proof (cases ev)
    case (Login now r dat)
    then have "s \<in> set (if login_ok db r dat \<and> \<not> login_xml db r dat then login_sessions db limit now ss r dat else ss)"
      using step.prems by (simp add: setcookie_sessions)
    then have "s \<in> set ss \<or> login_ok db r dat \<and> s_ip s = r_addr r \<and> s_token s = session_token (h_username (login_dat db r dat)) now
       \<and> s_uid s = h_uid (login_row db now r dat) \<and> s_did s = h_did (login_dat db r dat)"
      using login_sessions_set by (auto split: if_splits)
    then show ?thesis using step.IH from_login_more Login unfolding from_login_def by fastforce
  next
    case (Logout dat)
    then show ?thesis using step from_login_more by (auto simp: auth_logout_def)
  next
    case (Save now dat)
    then obtain t where t: "t \<in> set ss" "s_ip s = s_ip t" "s_token s = s_token t" "s_uid s = s_uid t" "s_did s = s_did t"
      using step.prems savesession_from by fastforce
    then have "from_login db es s" using step.IH [OF t(1)] by (simp add: from_login_def)
    then show ?thesis by (rule from_login_more)
  qed
qed simp

section \<open>An example\<close>

text \<open>One account, whose row is its own owner, and one login and one later request from the same address.\<close>

definition demo_row :: web_user where
  "demo_row = \<lparr>w_userid = 7, w_uid = 7, w_gid = 2, w_did = 1, w_username = ''bob'', w_password = md5_crypt ''pw'' ''saltsalt''\<rparr>"

definition demo_webdb :: webdb where
  "demo_webdb = \<lparr>q_weblogin = (\<lambda>u d. Some (if u = ''bob'' \<and> d = 1 then [demo_row] else [])),
     q_webuser = (\<lambda>i. Some (if i = 7 then [demo_row] else [])), q_webdomain = (\<lambda>_. 1),
     q_odd_select = (\<lambda>_ _ ss. ss), q_odd_where = (\<lambda>_ _. True)\<rparr>"

definition demo_login_req :: webreq where
  "demo_login_req = \<lparr>r_addr = ''10.0.0.9'', r_post = False, r_raw = None,
     r_get = [''USERNAME'' \<mapsto> ''bob'', ''PASSWORD'' \<mapsto> ''pw''], r_form = Map.empty, r_cookie = None, r_server = ''x.org''\<rparr>"

definition demo_cookie_req :: webreq where
  "demo_cookie_req = demo_login_req\<lparr>r_get := Map.empty, r_cookie := Some (session_token ''bob'' 0)\<rparr>"

definition no_dat :: httpdat where
  "no_dat = \<lparr>h_username = [], h_token = [], h_uid = 0, h_gid = 0, h_did = 0\<rparr>"

definition bob_session :: session_row where
  "bob_session = \<lparr>s_id = 1, s_mtime = 0, s_uid = 7, s_did = 1, s_token = session_token ''bob'' 0, s_ip = ''10.0.0.9''\<rparr>"

definition bob_dat :: httpdat where
  "bob_dat = \<lparr>h_username = ''bob'', h_token = session_token ''bob'' 0, h_uid = 7, h_gid = 2, h_did = 1\<rparr>"

lemma bob_token: "length (session_token ''bob'' 0) = 32"
proof -
  let ?ps = "[bytes_of ''bob'', bytes_of (time_unix2sql 0)]"
  have "length (time_unix2sql 0) = 19" by code_simp
  then have "fst (md5_final (foldl md5_update (md5_init md5_blank) ?ps)) = md5_spec (concat ?ps)"
    by (intro md5.digest_pieces) (simp_all add: md5_blank_def bytes_of_def)
  then show ?thesis by (simp add: session_token_def length_hex_bytes)
qed

lemma demo_password: "web_checkpass demo_webdb (no_dat\<lparr>h_username := ''bob'', h_did := 1\<rparr>) ''pw'' = (0, no_dat\<lparr>h_username := ''bob'', h_did := 1, h_uid := 7\<rparr>)"
proof -
  have "auth_checkpass ''pw'' (md5_crypt ''pw'' ''saltsalt'') = 0" by (rule auth_checkpass_crypt) (simp_all add: crypt_salt_def)
  moreover have "take 63 (md5_crypt ''pw'' ''saltsalt'') = md5_crypt ''pw'' ''saltsalt''"
    using md5_crypt_eq [of "''pw''" "''saltsalt''"] length_crypt_salt [of "''saltsalt''"] by (simp add: crypt_string_def crypt_group_def)
  ultimately show ?thesis by (simp add: web_checkpass_def demo_webdb_def demo_row_def auth_checkpass_0 no_dat_def i16_def Let_def)
qed

lemma demo_login_parts:
  "login_dat demo_webdb demo_login_req no_dat = no_dat\<lparr>h_username := ''bob'', h_did := 1\<rparr>" "login_pass demo_webdb demo_login_req no_dat = ''pw''"
  "\<not> login_xml demo_webdb demo_login_req no_dat" "login_ok demo_webdb demo_login_req no_dat"
  "login_row demo_webdb 0 demo_login_req no_dat = bob_dat\<lparr>h_gid := 0\<rparr>"
proof -
  have f: "login_fields demo_webdb demo_login_req no_dat = (no_dat\<lparr>h_username := ''bob''\<rparr>, ''pw'', 0)"
    by (simp add: login_fields_def demo_login_req_def no_dat_def)
  show l: "login_dat demo_webdb demo_login_req no_dat = no_dat\<lparr>h_username := ''bob'', h_did := 1\<rparr>" "login_pass demo_webdb demo_login_req no_dat = ''pw''"
    "\<not> login_xml demo_webdb demo_login_req no_dat"
    unfolding login_dat_def login_pass_def login_xml_def f by (simp_all add: no_dat_def)
  show "login_ok demo_webdb demo_login_req no_dat" "login_row demo_webdb 0 demo_login_req no_dat = bob_dat\<lparr>h_gid := 0\<rparr>"
    unfolding login_ok_def login_row_def l Let_def demo_password by (simp_all add: bob_dat_def no_dat_def)
qed

lemma demo_reach: "web_reach demo_webdb 2 [Login 0 demo_login_req no_dat] [bob_session]"
proof -
  have "web_step demo_webdb 2 (Login 0 demo_login_req no_dat) [] = [bob_session]"
    using demo_login_parts(3-5)
    by (simp add: setcookie_sessions login_sessions_def prune_sessions_def user_sessions_def add_session_def
        fresh_session_def bob_dat_def bob_session_def Let_def) (simp add: demo_login_req_def)
  then show ?thesis using web_reach.step [OF web_reach.start, of demo_webdb 2 "Login 0 demo_login_req no_dat"] by simp
qed

lemma demo_cookie: "auth_getcookie demo_webdb [bob_session] demo_cookie_req no_dat = (0, bob_dat)"
  using bob_token session_token_plain [of "''bob''" 0]
  by (simp add: auth_getcookie_def auth_renewcookie_def token_rows_def with_token_def demo_cookie_req_def demo_login_req_def bob_session_def
      demo_webdb_def demo_row_def bob_dat_def no_dat_def snprintf_def i16_def Let_def)

section \<open>Properties\<close>

text \<open>
  C27. A web session is the session of a login. When \<open>auth_getcookie\<close> accepts the cookie of a request, in a table that any
  history of logins, logouts and requests left, and the cookie has no quote or backslash, then the history has a login from the
  same address whose password hashes to the MD5-crypt entry of the one account that the query for that name and domain finds, the cookie is the token made of that name and the time
  of that login, and the user of the request is the one that the number of that account selects.
\<close>

theorem web_session_from_login:
  assumes "web_reach db limit es ss" and "auth_getcookie db ss r dat = (0, dat')" and "sql_plain (h_token dat')"
  shows "\<exists>now lr ldat row user. Login now lr ldat \<in> set es \<and> r_addr lr = r_addr r
    \<and> h_token dat' = session_token (h_username (login_dat db lr ldat)) now
    \<and> q_weblogin db (h_username (login_dat db lr ldat)) (h_did (login_dat db lr ldat)) = Some [row]
    \<and> take 63 (w_password row) = md5_crypt (login_pass db lr ldat) (take 8 (drop 3 (w_password row)))
    \<and> q_webuser db (i16 (w_userid row)) = Some [user] \<and> h_uid dat' = i16 (w_uid user)"
proof -
  obtain s user where s: "with_token (h_token dat') (r_addr r) ss = [s]" "q_webuser db (s_uid s) = Some [user]" "h_uid dat' = i16 (w_uid user)"
    using renewcookie_0 [OF assms(2) [unfolded auth_getcookie_def]] assms(3) by (auto simp: token_rows_def)
  have "s \<in> set (with_token (h_token dat') (r_addr r) ss)" using s(1) by simp
  then have m: "s \<in> set ss" "s_token s = h_token dat'" "s_ip s = r_addr r" by (simp_all add: with_token_def)
  obtain now lr ldat where l: "Login now lr ldat \<in> set es" "login_ok db lr ldat" "r_addr lr = s_ip s"
      "s_token s = session_token (h_username (login_dat db lr ldat)) now" "s_uid s = h_uid (login_row db now lr ldat)"
    using reach_from_login [OF assms(1) m(1)] unfolding from_login_def by blast
  obtain d where "web_checkpass db (login_dat db lr ldat) (login_pass db lr ldat) = (0, d)"
    using l(2) by (metis login_ok_def prod.collapse)
  from web_checkpass_0 [OF this] this l(5) s(2)
  obtain row where "q_weblogin db (h_username (login_dat db lr ldat)) (h_did (login_dat db lr ldat)) = Some [row]"
      "take 63 (w_password row) = md5_crypt (login_pass db lr ldat) (take 8 (drop 3 (w_password row)))"
      "q_webuser db (i16 (w_userid row)) = Some [user]"
    by (auto simp: login_row_def Let_def)
  then show ?thesis using l m s(3) by metis
qed

theorem web_session_from_login_witness:
  "\<exists>lr ldat row. Login 0 lr ldat \<in> set [Login 0 demo_login_req no_dat] \<and> r_addr lr = r_addr demo_cookie_req
    \<and> q_weblogin demo_webdb (h_username (login_dat demo_webdb lr ldat)) (h_did (login_dat demo_webdb lr ldat)) = Some [row]
    \<and> take 63 (w_password row) = md5_crypt (login_pass demo_webdb lr ldat) (take 8 (drop 3 (w_password row)))"
  using web_session_from_login [OF demo_reach demo_cookie] session_token_plain by (auto simp: bob_dat_def)

text \<open>
  C28. The number of sessions is bounded: whatever logins, logouts and requests came before, no account has more sessions in the
  table than the configured limit, or more than one if the limit is smaller.
\<close>

theorem web_session_limit:
  assumes "web_reach db limit es ss"
  shows "length (user_sessions uid did ss) \<le> nat (max 1 limit)"
  using assms
proof (induction arbitrary: uid did rule: web_reach.induct)
  case (step es ss ev)
  then show ?case
    using login_bound [OF step.IH] filter_sessions_bound order_trans
    by (cases ev) (auto simp: setcookie_sessions auth_logout_def savesession_bound, blast)
qed (simp add: user_sessions_def)

theorem web_session_limit_witness:
  "web_reach demo_webdb 2 [Login 0 demo_login_req no_dat] [bob_session] \<and> length (user_sessions 7 1 [bob_session]) \<le> 2"
  using web_session_limit [OF demo_reach, of 7 1] demo_reach by simp

text \<open>
  C29. When logging out ends a session: after a request with an accepted cookie without quotes and backslashes, \<open>auth_logout\<close> removes its session, so that the cookie is
  refused, exactly if the session's user and domain numbers are the owner columns of the user's row, which \<open>auth_renewcookie\<close> has
  put into the connection. Otherwise the cookie goes on being accepted.
\<close>

theorem web_logout_ends:
  assumes "auth_getcookie db ss r dat = (0, dat')" and "with_token (h_token dat') (r_addr r) ss = [s]"
    and "sql_plain (h_token dat')"
  shows "fst (auth_getcookie db (auth_logout db ss dat') r dat) = 0 \<longleftrightarrow> s_uid s \<noteq> h_uid dat' \<or> s_did s \<noteq> h_did dat'"
proof -
  let ?d = "dat\<lparr>h_token := snprintf 63 (case r_cookie r of Some c \<Rightarrow> c | None \<Rightarrow> ''null'')\<rparr>"
  have t: "h_token dat' = h_token ?d" using renewcookie_0 [OF assms(1) [unfolded auth_getcookie_def]] by auto
  have "with_token (h_token ?d) (r_addr r) (auth_logout db ss dat')
      = filter (\<lambda>s. \<not> (s_uid s = h_uid dat' \<and> s_did s = h_did dat')) (with_token (h_token ?d) (r_addr r) ss)"
    using t assms(3) by (auto simp: with_token_def auth_logout_def own_row_def intro: filter_cong)
  also have "\<dots> = (if s_uid s = h_uid dat' \<and> s_did s = h_did dat' then [] else [s])" using assms(2) t by simp
  finally have w: "with_token (h_token ?d) (r_addr r) (auth_logout db ss dat') = (if s_uid s = h_uid dat' \<and> s_did s = h_did dat' then [] else [s])" .
  show ?thesis
  proof (cases "s_uid s = h_uid dat' \<and> s_did s = h_did dat'")
    case True
    then show ?thesis using missing_token_rejected w t assms(3) by (simp add: auth_getcookie_def token_rows_def)
  next
    case False
    then have "auth_getcookie db (auth_logout db ss dat') r dat = auth_getcookie db ss r dat"
      unfolding auth_getcookie_def using w assms(2,3) t by (intro renewcookie_cong) (simp add: token_rows_def)
    then show ?thesis using assms(1) False by simp
  qed
qed

theorem web_logout_ends_witness: "fst (auth_getcookie demo_webdb (auth_logout demo_webdb [bob_session] bob_dat) demo_cookie_req no_dat) \<noteq> 0"
proof -
  have "with_token (h_token bob_dat) (r_addr demo_cookie_req) [bob_session] = [bob_session]"
    by (simp add: with_token_def bob_dat_def bob_session_def demo_cookie_req_def demo_login_req_def)
  moreover have "sql_plain (h_token bob_dat)" by (simp add: bob_dat_def session_token_plain)
  ultimately show ?thesis using web_logout_ends [OF demo_cookie] by (simp add: bob_session_def bob_dat_def)
qed

end
