(* ===== verification/HttpForms.thy ===== *)
theory HttpForms
  imports NspTable HttpAuth Format Tcp
begin

text \<open>
  Variables and forms of the HTTP module, from \<open>read_vardata\<close> of \<open>src/src/modules/core/httpd/httpd_http.c\<close>: the tables that
  scripts see, query strings and bodies of the type \<open>application/x-www-form-urlencoded\<close>, and bodies of the type
  \<open>multipart/form-data\<close> with their files. The tables are those of the script language (theory NspTable).
\<close>

section \<open>Variables\<close>

text \<open>A file of a form is a table with its data, name and size.\<close>

datatype webval = WStr string | WNum int | WFile string string int

type_synonym vars = "webval table"

definition empty_table :: "'v table" where
  "empty_table = \<lparr>objs = [], cur = None, autosort = True\<rparr>"

text \<open>
  \<open>nsp_setstr\<close> and \<open>nsp_setnum\<close> on a table, and \<open>nsp_getstr\<close> and \<open>nsp_getnum\<close>, which are asked only for variables that have
  the type or are not set; a variable that is not set reads as \<open>null\<close> and as 0.
\<close>

definition setstr :: "string \<Rightarrow> string \<Rightarrow> vars \<Rightarrow> vars" where
  "setstr k v t = nsp_setobj t k (WStr v) (\<lambda>_. WStr v)"

definition setnum :: "string \<Rightarrow> int \<Rightarrow> vars \<Rightarrow> vars" where
  "setnum k v t = nsp_setobj t k (WNum v) (\<lambda>_. WNum v)"

definition setfile :: "string \<Rightarrow> string \<Rightarrow> string \<Rightarrow> int \<Rightarrow> vars \<Rightarrow> vars" where
  "setfile k d f n t = nsp_setobj t k (WFile d f n) (\<lambda>_. WFile d f n)"

definition getval :: "vars \<Rightarrow> string \<Rightarrow> string option" where
  "getval t k = (case fst (nsp_getobj t k) of None \<Rightarrow> None | Some (WStr v) \<Rightarrow> Some v | Some (WNum n) \<Rightarrow> Some (dec_int n) | Some (WFile _ _ _) \<Rightarrow> Some [])"

definition getstr :: "vars \<Rightarrow> string \<Rightarrow> string" where
  "getstr t k = (case getval t k of Some v \<Rightarrow> v | None \<Rightarrow> ''null'')"

definition getnum :: "vars \<Rightarrow> string \<Rightarrow> int" where
  "getnum t k = (case fst (nsp_getobj t k) of Some (WNum v) \<Rightarrow> v | _ \<Rightarrow> 0)"

definition toupper :: "char \<Rightarrow> char" where
  "toupper c = (if islower c then char_of (ord c - 32) else c)"

section \<open>Forms\<close>

text \<open>The name in front of the next \<open>=\<close>, in a buffer of \<open>MAX_OBJNAMELEN\<close> bytes, and what follows.\<close>

fun form_name :: "nat \<Rightarrow> string \<Rightarrow> string \<times> string" where
  "form_name 0 s = ([], s)"
| "form_name (Suc n) [] = ([], [])"
| "form_name (Suc n) (c # s) =
     (if c = CHR ''='' then ([], s) else case form_name n s of (k, r) \<Rightarrow> (toupper c # k, r))"

lemma MAX_OBJNAMELEN_pos: "0 < MAX_OBJNAMELEN"
  by (simp add: MAX_OBJNAMELEN_def)

lemma form_name_length: "length (snd (form_name n s)) \<le> length s"
  by (induction n s rule: form_name.induct) (auto split: prod.splits)

lemma form_name_shorter:
  assumes "s \<noteq> []"
  shows "length (snd (form_name (Suc n) s)) < length s"
proof (cases s)
  case (Cons c s')
  then show ?thesis using form_name_length [of n s'] by (auto split: prod.splits)
qed (use assms in simp)

text \<open>One pass over a query string or the body of a form; every value is decoded.\<close>

function read_vars :: "string \<Rightarrow> vars \<Rightarrow> vars" where
  "read_vars s t =
     (if s = [] then t
      else case form_name MAX_OBJNAMELEN s of (k, r) \<Rightarrow>
        let v = takeWhile (\<lambda>c. c \<noteq> CHR ''&'') r in
        read_vars (drop (length v + 1) r) (setstr (take (MAX_OBJNAMELEN - 1) k) (cstr (decodeurl v)) t))"
  by pat_completeness auto
termination
proof (relation "measure (\<lambda>(s, t). length s)", goal_cases)
  case (2 s t k r v)
  then have "form_name (Suc (MAX_OBJNAMELEN - 1)) s = (k, r)" by (metis MAX_OBJNAMELEN_pos Suc_pred')
  then have "length r < length s" using form_name_shorter [OF 2(1), of "MAX_OBJNAMELEN - 1"] by simp
  then show ?case by simp
qed simp

declare read_vars.simps [simp del]

section \<open>Bodies of several parts\<close>

text \<open>What comes of such a body; in two cases memory of the process is damaged.\<close>

datatype parts = Parts vars | Crashed | NullBroken

definition body_at :: "string \<Rightarrow> int \<Rightarrow> char" where
  "body_at buf j = hd0 (drop (nat j) buf)"

definition skip_char :: "char \<Rightarrow> string \<Rightarrow> string" where
  "skip_char c s = (if hd0 s = c then tl s else s)"

definition eol_char :: "char \<Rightarrow> bool" where
  "eol_char c \<longleftrightarrow> c = CR \<or> c = LF"

text \<open>Behind the end of the line.\<close>

definition mp_eol :: "string \<Rightarrow> string" where
  "mp_eol s = skip_char LF (skip_char CR s)"

definition mp_skipline :: "string \<Rightarrow> string" where
  "mp_skipline s = mp_eol (dropWhile (\<lambda>c. c \<noteq> NUL \<and> \<not> eol_char c) s)"

lemma length_skip_char: "length (skip_char c s) \<le> length s"
  by (simp add: skip_char_def)

lemma length_mp_eol: "length (mp_eol s) \<le> length s"
  using length_skip_char [of LF "skip_char CR s"] length_skip_char [of CR s] by (simp add: mp_eol_def)

lemma length_mp_skipline: "length (mp_skipline s) \<le> length (dropWhile (\<lambda>c. c \<noteq> NUL \<and> \<not> eol_char c) s)"
  unfolding mp_skipline_def by (rule length_mp_eol)

function mp_headers :: "string \<Rightarrow> string" where
  "mp_headers s = (if hd0 s = NUL \<or> eol_char (hd0 s) then s else mp_headers (mp_skipline s))"
  by pat_completeness auto
termination
proof (relation "measure length", goal_cases)
  case (2 s)
  then obtain c s' where s: "s = c # s'" by (cases s) auto
  have "length (dropWhile (\<lambda>c. c \<noteq> NUL \<and> \<not> eol_char c) s') \<le> length s'" by (rule length_dropWhile_le)
  then show ?case using length_mp_skipline [of s] 2 s by simp
qed simp

declare mp_headers.simps [simp del]

lemma length_mp_headers: "length (mp_headers s) \<le> length s"
proof (induction s rule: mp_headers.induct)
  case (1 s)
  have "length (mp_skipline s) \<le> length s"
    using length_mp_skipline [of s] length_dropWhile_le [of "\<lambda>c. c \<noteq> NUL \<and> \<not> eol_char c" s] by linarith
  then show ?case using 1 by (subst mp_headers.simps) (auto intro: le_trans)
qed

text \<open>The loops that copy the name of a field and the name of a file, and how many characters they take.\<close>

definition mp_stop :: "char \<Rightarrow> bool" where
  "mp_stop c \<longleftrightarrow> c = NUL \<or> c = CHR '';'' \<or> c = CHR 0x27 \<or> c = CHR 0x22 \<or> eol_char c"

fun mp_name :: "nat \<Rightarrow> string \<Rightarrow> string \<times> string" where
  "mp_name 0 s = ([], s)"
| "mp_name (Suc n) [] = ([], [])"
| "mp_name (Suc n) (c # s) = (if mp_stop c then ([], c # s) else case mp_name n s of (k, r) \<Rightarrow> (toupper c # k, r))"

definition FILENAME :: nat where "FILENAME = 255"

text \<open>A slash starts the name again, so that the directories in front of it are left out.\<close>

fun mp_file :: "string \<Rightarrow> string \<Rightarrow> string \<times> string" where
  "mp_file acc [] = (acc, [])"
| "mp_file acc (c # s) =
     (if FILENAME \<le> length acc \<or> mp_stop c then (acc, c # s)
      else if c = CHR 0x5C \<or> c = CHR ''/'' then mp_file [] s
      else mp_file (acc @ [c]) s)"

lemma length_mp_name: "length (snd (mp_name n s)) \<le> length s"
  by (induction n s rule: mp_name.induct) (auto split: prod.splits)

lemma length_mp_file: "length (snd (mp_file acc s)) \<le> length s"
  by (induction acc s rule: mp_file.induct) (auto simp: le_Suc_eq)

text \<open>
  The rest of a part's head behind \<open>name=\<close>: name and file name and the text where the value starts, or where the search for the
  next part goes on.
\<close>

definition mp_head :: "string \<Rightarrow> string + string \<times> string \<times> string" where
  "mp_head s =
     (case mp_name MAX_OBJNAMELEN (skip_char CHR 0x22 s) of (k, s) \<Rightarrow>
      let name = take (MAX_OBJNAMELEN - 1) k; s = skip_char CHR 0x22 s; t = dropWhile isspace (tl s) in
      if hd0 s = CHR '';'' then
        (if \<not> strncaseeq t ''filename='' 9 then Inl t
         else case mp_file [] (skip_char CHR 0x22 (drop 9 t)) of (f, s) \<Rightarrow>
           Inr (name, take (FILENAME - 1) f, mp_eol (mp_headers (mp_skipline s))))
      else Inr (name, [], mp_eol (mp_headers (mp_skipline s))))"

text \<open>The length of a value: up to the boundary, without the line end and the dashes in front of it.\<close>

function mp_find :: "string \<Rightarrow> int \<Rightarrow> string \<Rightarrow> int \<Rightarrow> int \<Rightarrow> int" where
  "mp_find b clen buf n i =
     (if clen < n + i then i
      else if take (length b) (drop (nat (n + i)) buf) = b then i
      else mp_find b clen buf n (i + 1))"
  by pat_completeness auto
termination
  by (relation "measure (\<lambda>(b, clen, buf, n, i). nat (clen + 1 - (n + i)))") auto

declare mp_find.simps [simp del]

definition mp_back :: "string \<Rightarrow> int \<Rightarrow> char \<Rightarrow> int \<Rightarrow> int" where
  "mp_back buf n c i = (if body_at buf (n + i - 1) = c then i - 1 else i)"

definition mp_value :: "string \<Rightarrow> int \<Rightarrow> string \<Rightarrow> int \<Rightarrow> int" where
  "mp_value b clen buf n = mp_back buf n CR (mp_back buf n LF (mp_back buf n CHR ''-'' (mp_back buf n CHR ''-'' (mp_find b clen buf n 0))))"

text \<open>
  Storing a value of \<open>i\<close> bytes. Without a name the sources store into the one value \<open>null\<close> that the whole process shares;
  a length of -1 allocates nothing and copies until the process is stopped; below that the allocation fails.
\<close>

definition mp_store :: "string \<Rightarrow> string \<Rightarrow> string \<Rightarrow> int \<Rightarrow> vars \<Rightarrow> parts" where
  "mp_store name file s i t =
     (if name = [] then NullBroken
      else if i = - 1 then Crashed
      else let data = take (nat i) s in Parts (if file \<noteq> [] then setfile name data file i t else setstr name data t))"

lemma mp_find_ge: "i \<le> mp_find b clen buf n i"
proof (induction b clen buf n i rule: mp_find.induct)
  case (1 b clen buf n i)
  then show ?case by (subst mp_find.simps) auto
qed

lemma mp_value_ge: "- 4 \<le> mp_value b clen buf n"
proof -
  have "i - 1 \<le> mp_back buf n c i" for c i by (simp add: mp_back_def)
  from this [of _ "CHR ''-''"] this [of _ LF] this [of _ CR] show ?thesis
    using mp_find_ge [of 0 b clen buf n] unfolding mp_value_def by smt
qed

lemma length_mp_skip: "length (mp_eol (mp_headers (mp_skipline s))) \<le> length s"
proof -
  have "length (mp_skipline s) \<le> length s"
    using length_mp_skipline [of s] length_dropWhile_le [of "\<lambda>c. c \<noteq> NUL \<and> \<not> eol_char c" s] by linarith
  then show ?thesis using length_mp_eol [of "mp_headers (mp_skipline s)"] length_mp_headers [of "mp_skipline s"] by linarith
qed

lemma length_mp_head:
  "mp_head s = Inl t \<Longrightarrow> length t \<le> length s"
  "mp_head s = Inr (k, f, t) \<Longrightarrow> length t \<le> length s"
proof -
  obtain k' s1 where n: "mp_name MAX_OBJNAMELEN (skip_char CHR 0x22 s) = (k', s1)" by fastforce
  let ?s2 = "skip_char CHR 0x22 s1"
  let ?t = "dropWhile isspace (tl ?s2)"
  have a: "length ?s2 \<le> length s"
    using length_mp_name [of MAX_OBJNAMELEN "skip_char CHR 0x22 s"] length_skip_char [of "CHR 0x22" s] length_skip_char [of "CHR 0x22" s1] n by simp
  have b: "length ?t \<le> length s" using a length_dropWhile_le [of isspace "tl ?s2"] by simp
  obtain f' s3 where f: "mp_file [] (skip_char CHR 0x22 (drop 9 ?t)) = (f', s3)" by fastforce
  have c: "length s3 \<le> length s"
    using length_mp_file [of "[]" "skip_char CHR 0x22 (drop 9 ?t)"] length_skip_char [of "CHR 0x22" "drop 9 ?t"] b f by simp
  show "mp_head s = Inl t \<Longrightarrow> length t \<le> length s" "mp_head s = Inr (k, f, t) \<Longrightarrow> length t \<le> length s"
    using a b c length_mp_skip [of s3] length_mp_skip [of ?s2] by (auto simp: mp_head_def n f Let_def split: if_splits)
qed

lemma strncaseeq_prefix_length: "strncaseeq s t (length t) \<Longrightarrow> length t \<le> length s"
  unfolding strncaseeq_def by (drule arg_cong [of _ _ length]) simp

text \<open>The search for parts, from the offset \<open>n\<close>.\<close>

definition DISPOSITION :: string where "DISPOSITION = ''Content-Disposition: form-data; ''"

definition offset_of :: "string \<Rightarrow> string \<Rightarrow> nat" where
  "offset_of buf s = length buf - length s"

text \<open>A part, from behind \<open>name=\<close> on.\<close>

definition mp_part :: "string \<Rightarrow> int \<Rightarrow> string \<Rightarrow> string \<Rightarrow> vars \<Rightarrow> parts + nat \<times> vars" where
  "mp_part b clen buf s t =
     (case mp_head s of
        Inl s \<Rightarrow> Inr (offset_of buf s, t)
      | Inr (name, file, s) \<Rightarrow>
          let i = mp_value b clen buf (int (offset_of buf s)) in
          (case mp_store name file s i t of
             Parts t \<Rightarrow> Inr (nat (int (offset_of buf s) + i), t)
           | x \<Rightarrow> Inl x))"

text \<open>One turn of the loop: where it goes on, or the end.\<close>

definition mp_turn :: "string \<Rightarrow> int \<Rightarrow> string \<Rightarrow> nat \<Rightarrow> vars \<Rightarrow> parts + nat \<times> vars" where
  "mp_turn b clen buf n t =
     (if take 2 (drop n buf) \<noteq> ''--'' then Inr (n + 1, t)
      else if take (length b) (drop (n + 2) buf) \<noteq> b then Inr (n + 3, t)
      else
        let s = dropWhile eol_char (drop (n + 2 + length b) buf) in
        if \<not> strncaseeq s DISPOSITION (length DISPOSITION) then Inr (offset_of buf s + 1, t)
        else let s = drop (length DISPOSITION) s in
          if \<not> strncaseeq s ''name='' (length ''name='') then Inr (offset_of buf s, t)
          else mp_part b clen buf (drop 5 s) t)"

lemma mp_turn_forward:
  assumes "mp_turn b clen buf n t = Inr (n', t')"
  shows "n < n'"
proof (cases "take 2 (drop n buf) = ''--'' \<and> take (length b) (drop (n + 2) buf) = b")
  case True
  let ?s = "dropWhile eol_char (drop (n + 2 + length b) buf)"
  have "length (take 2 (drop n buf)) = 2" "length (take (length b) (drop (n + 2) buf)) = length b" using True by simp_all
  then have l: "n + 2 + length b \<le> length buf" by (simp add: min_def split: if_splits)
  have s: "length ?s \<le> length buf - (n + 2 + length b)" using length_dropWhile_le [of eol_char "drop (n + 2 + length b) buf"] by simp
  show ?thesis
  proof (cases "strncaseeq ?s DISPOSITION (length DISPOSITION) \<and> strncaseeq (drop (length DISPOSITION) ?s) ''name='' (length ''name='')")
    case False
    then have "n' = offset_of buf ?s + 1 \<or> n' = offset_of buf (drop (length DISPOSITION) ?s)"
      using assms True by (auto simp: mp_turn_def Let_def split: if_splits)
    then show ?thesis using l s by (auto simp: offset_of_def)
  next
    case t: True
    let ?v = "drop 5 (drop (length DISPOSITION) ?s)"
    have d: "length DISPOSITION = 32" by code_simp
    have "32 \<le> length ?s" "5 \<le> length (drop (length DISPOSITION) ?s)" using strncaseeq_prefix_length t d by (metis, fastforce)
    then have v: "length ?v \<le> length buf - (n + 39)" "n + 39 \<le> length buf" using s l d by (simp_all add: le_diff_conv)
    have m: "mp_part b clen buf ?v t = Inr (n', t')" using assms True t by (simp add: mp_turn_def Let_def)
    show ?thesis
    proof (cases "mp_head ?v")
      case (Inl r)
      then have "n' = offset_of buf r" using m by (simp add: mp_part_def)
      moreover have "length r \<le> length ?v" using Inl by (rule length_mp_head(1))
      ultimately show ?thesis using v by (simp add: offset_of_def)
    next
      case (Inr x)
      then obtain k f r where x: "mp_head ?v = Inr (k, f, r)" by (cases x) auto
      then have "n' = nat (int (offset_of buf r) + mp_value b clen buf (int (offset_of buf r)))" using m by (auto simp: mp_part_def Let_def split: parts.splits)
      moreover have "n + 39 \<le> offset_of buf r" using length_mp_head(2) [OF x] v by (simp add: offset_of_def)
      ultimately show ?thesis using mp_value_ge [of b clen buf "int (offset_of buf r)"] by linarith
    qed
  qed
next
  case False
  then show ?thesis using assms by (auto simp: mp_turn_def split: if_splits)
qed

function mp_loop :: "string \<Rightarrow> int \<Rightarrow> string \<Rightarrow> nat \<Rightarrow> vars \<Rightarrow> parts" where
  "mp_loop b clen buf n t =
     (if clen < int n then Parts t
      else case mp_turn b clen buf n t of Inl x \<Rightarrow> x | Inr (n', t') \<Rightarrow> mp_loop b clen buf n' t')"
  by pat_completeness auto
termination
proof (relation "measure (\<lambda>(b, clen, buf, n, t). nat (clen + 1 - int n))", goal_cases)
  case (2 b clen buf n t x n' t')
  then have "n < n'" using mp_turn_forward by auto
  then show ?case using 2(1) by simp
qed simp

declare mp_loop.simps [simp del]

text \<open>The boundary that the type of the body names.\<close>

fun after_text :: "string \<Rightarrow> string \<Rightarrow> string option" where
  "after_text w [] = (if w = [] then Some [] else None)"
| "after_text w (c # s) = (if take (length w) (c # s) = w then Some (drop (length w) (c # s)) else after_text w s)"

definition boundary_of :: "string \<Rightarrow> string option" where
  "boundary_of ty =
     (case after_text ''boundary'' ty of
        None \<Rightarrow> None
      | Some r \<Rightarrow>
          if hd0 r \<noteq> CHR ''='' then None
          else let p = tl r; p = (if hd0 p = CHR 0x27 \<or> hd0 p = CHR 0x22 then tl p else p)
            in Some (take 99 (takeWhile (\<lambda>c. c \<noteq> CHR '';'' \<and> c \<noteq> CHR 0x27 \<and> c \<noteq> CHR 0x22) p)))"

text \<open>The whole body, which stands in a buffer with 64 bytes more than announced, filled with NUL.\<close>

definition read_multipart :: "string \<Rightarrow> int \<Rightarrow> string \<Rightarrow> vars \<Rightarrow> parts" where
  "read_multipart ty clen raw t =
     (case boundary_of ty of None \<Rightarrow> Parts t | Some b \<Rightarrow> mp_loop b clen (raw @ zeros 64) 0 t)"

section \<open>Tables as maps\<close>

lemma setstr_map:
  assumes "table_ok name_key t" "name_key k"
  shows "table_map (setstr k v t) = (table_map t)(k \<mapsto> WStr v)" "table_ok name_key (setstr k v t)"
  using names.set_map [OF assms, of "WStr v" "\<lambda>_. WStr v"] by (auto simp: setstr_def split: option.splits)

lemma setnum_map:
  assumes "table_ok name_key t" "name_key k"
  shows "table_map (setnum k v t) = (table_map t)(k \<mapsto> WNum v)" "table_ok name_key (setnum k v t)"
  using names.set_map [OF assms, of "WNum v" "\<lambda>_. WNum v"] by (auto simp: setnum_def split: option.splits)

lemma empty_map: "table_map empty_table = Map.empty" "table_ok name_key empty_table"
  by (simp_all add: empty_table_def table_map_def objs_map_def table_ok_def cur_ok_def)

lemma var_map:
  assumes "table_ok name_key t" "name_key k"
  shows "getval t k = (case table_map t k of None \<Rightarrow> None | Some (WStr v) \<Rightarrow> Some v | Some (WNum n) \<Rightarrow> Some (dec_int n) | Some (WFile _ _ _) \<Rightarrow> Some [])"
    and "getnum t k = (case table_map t k of Some (WNum n) \<Rightarrow> n | _ \<Rightarrow> 0)"
  using names.get_map(1) [OF assms] by (simp_all add: getval_def getnum_def)

text \<open>The names that the sources use.\<close>

lemma fixed_names:
  "list_all name_key [''CONTENT_TYPE'', ''GATEWAY_INTERFACE'', ''REMOTE_ADDR'', ''REMOTE_PORT'', ''REMOTE_USER'', ''SERVER_ADDR'',
     ''SERVER_PORT'', ''SERVER_SOFTWARE'', ''NSP_VERSION'', ''REQUEST_METHOD'', ''REQUEST_URI'', ''SERVER_PROTOCOL'', ''CONTENT_LENGTH'',
     ''HTTP_COOKIE'', ''HTTP_CONNECTION'', ''HTTP_HOST'', ''QUERY_STRING'', ''SCRIPT_NAME'', ''SERVER_NAME'', ''gstoken'']"
  by code_simp

lemmas name_keys [simp] = fixed_names [unfolded list.pred_inject simp_thms]

lemma toupper_neq:
  assumes "c \<noteq> NUL"
  shows "toupper c \<noteq> NUL"
proof (cases "islower c")
  case True
  then have "ord (toupper c) = ord c - 32" "65 \<le> ord c - 32" by (auto simp: toupper_def islower_def)
  then have "ord (toupper c) \<noteq> ord NUL" by (simp add: NUL_def)
  then show ?thesis by metis
qed (use assms in \<open>simp add: toupper_def\<close>)

type_synonym vmap = "string \<rightharpoonup> webval"

definition set_all :: "(string \<times> string) list \<Rightarrow> vmap \<Rightarrow> vmap" where
  "set_all kvs m = fold (\<lambda>(k, v) m. m(k \<mapsto> WStr v)) kvs m"

section \<open>Encoded forms come back\<close>

text \<open>The text of a form, with values that \<open>encodeurl\<close> can encode.\<close>

fun form_text :: "(string \<times> string) list \<Rightarrow> string option" where
  "form_text [] = Some []"
| "form_text [(k, v)] = map_option (\<lambda>e. k @ ''='' @ e) (encodeurl v)"
| "form_text ((k, v) # kvs) = Option.bind (encodeurl v) (\<lambda>e. map_option (\<lambda>r. k @ ''='' @ e @ ''&'' @ r) (form_text kvs))"

definition field_ok :: "string \<times> string \<Rightarrow> bool" where
  "field_ok kv \<longleftrightarrow> CHR ''='' \<notin> set (fst kv) \<and> name_key (map toupper (fst kv))
     \<and> list_all (\<lambda>c. 0 < ord c \<and> ord c < 128) (snd kv) \<and> 3 * length (snd kv) < SMALLBUF"

definition form_fields :: "(string \<times> string) list \<Rightarrow> (string \<times> string) list" where
  "form_fields kvs = map (\<lambda>(k, v). (map toupper k, v)) kvs"

lemma form_name_text:
  assumes "CHR ''='' \<notin> set k" "length k < n"
  shows "form_name n (k @ CHR ''='' # r) = (map toupper k, r)"
  using assms
proof (induction k arbitrary: n)
  case Nil
  then show ?case by (cases n) simp_all
next
  case (Cons c k)
  then show ?case by (cases n) auto
qed

lemma encoded_chars:
  assumes "field_ok (k, v)" "encodeurl v = Some e"
  shows "decodeurl e = v" "\<forall>c\<in>set e. url_safe c \<or> c = CHR ''%''"
proof -
  have a: "\<forall>c\<in>set v. ord c < 128" "0 + 3 * length v < SMALLBUF" using assms(1) by (auto simp: field_ok_def list_all_iff)
  obtain d where d: "encodeurl_loop v 0 = Some d" "decodeurl d = v" "\<forall>c\<in>set d. url_safe c \<or> c = CHR ''%''"
    using encodeurl_loop_ok [OF a] by blast
  moreover have "e = d" using assms(2) d(1) by (simp add: encodeurl_def split: if_splits)
  ultimately show "decodeurl e = v" "\<forall>c\<in>set e. url_safe c \<or> c = CHR ''%''" by simp_all
qed

lemma encoded_value:
  assumes "field_ok (k, v)" "encodeurl v = Some e"
  shows "cstr (decodeurl e) = v" "CHR ''&'' \<notin> set e"
proof -
  have "NUL \<notin> set v" using assms(1) by (auto simp: field_ok_def list_all_iff NUL_def)
  then show "cstr (decodeurl e) = v" using encoded_chars [OF assms] by (simp add: cstr_id is_cstr_def)
  have "\<not> url_safe CHR ''&''" by code_simp
  then show "CHR ''&'' \<notin> set e" using encoded_chars(2) [OF assms] by auto
qed

lemma field_cstr:
  assumes "field_ok (k, v)" "encodeurl v = Some e"
  shows "is_cstr (k @ CHR ''='' # e)"
proof -
  have "is_cstr (map toupper k)" using assms(1) by (simp add: field_ok_def name_key_def)
  moreover have "toupper NUL = NUL" by code_simp
  ultimately have "is_cstr k" unfolding is_cstr_def by (metis imageI list.set_map)
  moreover have "\<not> url_safe NUL" "NUL \<noteq> CHR ''%''" "NUL \<noteq> CHR ''=''" by code_simp+
  then have "is_cstr e" using encoded_chars [OF assms] by (auto simp: is_cstr_def)
  ultimately show ?thesis using \<open>NUL \<noteq> CHR ''=''\<close> by (simp add: eq_commute)
qed

lemma form_text_cstr:
  assumes "form_text kvs = Some body" "list_all field_ok kvs"
  shows "is_cstr body"
  using assms
proof (induction kvs arbitrary: body rule: form_text.induct)
  case (2 k v)
  then show ?case using field_cstr [of k v] by auto
next
  case (3 k v c kvs)
  then show ?case using field_cstr [of k v] by (auto simp: bind_eq_Some_conv NUL_def)
qed simp

lemma read_vars_step:
  assumes "field_ok (k, v)" "encodeurl v = Some e" "r = [] \<or> (\<exists>q. r = CHR ''&'' # q)"
  shows "read_vars (k @ CHR ''='' # e @ r) t = read_vars (drop 1 r) (setstr (map toupper k) v t)"
proof -
  have k: "CHR ''='' \<notin> set k" "length k < MAX_OBJNAMELEN" using assms(1) by (auto simp: field_ok_def name_key_def)
  have "takeWhile (\<lambda>c. c \<noteq> CHR ''&'') (e @ r) = e"
    using encoded_value(2) [OF assms(1,2)] assms(3) by (subst takeWhile_append2) auto
  then show ?thesis
    using form_name_text [OF k] encoded_value(1) [OF assms(1,2)] k(2) by (subst read_vars.simps) (simp add: Let_def)
qed

lemma read_vars_form:
  assumes "form_text kvs = Some body" "list_all field_ok kvs" "table_ok name_key t"
  shows "table_ok name_key (read_vars body t) \<and> table_map (read_vars body t) = set_all (form_fields kvs) (table_map t)"
  using assms
proof (induction kvs arbitrary: body t rule: form_text.induct)
  case 1
  then show ?case by (simp add: read_vars.simps set_all_def form_fields_def)
next
  case (2 k v)
  then obtain e where "encodeurl v = Some e" "body = k @ CHR ''='' # e @ []" by auto
  moreover have "name_key (map toupper k)" using 2 by (simp add: field_ok_def)
  ultimately show ?case using read_vars_step [of k v e "[]" t] 2
    by (simp add: read_vars.simps setstr_map set_all_def form_fields_def)
next
  case (3 k v c kvs)
  then obtain e r where e: "encodeurl v = Some e" "form_text (c # kvs) = Some r" "body = k @ CHR ''='' # e @ CHR ''&'' # r"
    by (auto simp: bind_eq_Some_conv)
  have k: "name_key (map toupper k)" using 3(3) by (simp add: field_ok_def)
  have "read_vars body t = read_vars r (setstr (map toupper k) v t)" using read_vars_step [of k v e "CHR ''&'' # r" t] e 3(3) by simp
  moreover have "set_all (form_fields ((k, v) # c # kvs)) (table_map t) = set_all (form_fields (c # kvs)) ((table_map t)(map toupper k \<mapsto> WStr v))"
    by (simp add: set_all_def form_fields_def)
  moreover have "list_all field_ok (c # kvs)" using 3(3) by simp
  ultimately show ?case using 3(1) [OF e(1,2), of "setstr (map toupper k) v t"] setstr_map [OF 3(4) k, of v] by (simp only: simp_thms)
qed

section \<open>Parts come back\<close>

text \<open>A part of a form: a field, or a file with its type.\<close>

datatype part = PField string string | PFile string string string string

fun part_name :: "part \<Rightarrow> string" where
  "part_name (PField k v) = k"
| "part_name (PFile k f ty v) = k"

fun part_data :: "part \<Rightarrow> string" where
  "part_data (PField k v) = v"
| "part_data (PFile k f ty v) = v"

fun part_val :: "part \<Rightarrow> webval" where
  "part_val (PField k v) = WStr v"
| "part_val (PFile k f ty v) = WFile v f (int (length v))"

definition QUOTE :: string where "QUOTE = [CHR 0x22]"

fun part_head :: "part \<Rightarrow> string" where
  "part_head (PField k v) = QUOTE @ k @ QUOTE"
| "part_head (PFile k f ty v) = QUOTE @ k @ QUOTE @ ''; filename='' @ QUOTE @ f @ QUOTE @ CRLF @ ''Content-Type: '' @ ty"

definition part_text :: "string \<Rightarrow> part \<Rightarrow> string" where
  "part_text b p = ''--'' @ b @ CRLF @ DISPOSITION @ ''name='' @ part_head p @ CRLF @ CRLF @ part_data p @ CRLF"

definition multipart_text :: "string \<Rightarrow> part list \<Rightarrow> string" where
  "multipart_text b ps = concat (map (part_text b) ps) @ ''--'' @ b @ ''--'' @ CRLF"

text \<open>The boundary is not in the data, and does not start in it.\<close>

definition part_free :: "string \<Rightarrow> string \<Rightarrow> bool" where
  "part_free b v \<longleftrightarrow> list_all (\<lambda>i. take (length b) (drop i (v @ CRLF @ ''--'' @ b)) \<noteq> b) [0..<length v + 4]"

definition name_ok :: "string \<Rightarrow> bool" where
  "name_ok k \<longleftrightarrow> name_key (map toupper k) \<and> list_all (\<lambda>c. \<not> mp_stop c) k"

fun part_ok :: "string \<Rightarrow> part \<Rightarrow> bool" where
  "part_ok b (PField k v) \<longleftrightarrow> name_ok k \<and> part_free b v"
| "part_ok b (PFile k f ty v) \<longleftrightarrow> name_ok k \<and> part_free b v \<and> f \<noteq> [] \<and> length f < FILENAME \<and>
     list_all (\<lambda>c. \<not> mp_stop c \<and> c \<noteq> CHR 0x5C \<and> c \<noteq> CHR ''/'') f \<and> list_all (\<lambda>c. c \<noteq> NUL \<and> \<not> eol_char c) ty"

definition parts_map :: "part list \<Rightarrow> vmap \<Rightarrow> vmap" where
  "parts_map ps m = fold (\<lambda>p m. m(map toupper (part_name p) \<mapsto> part_val p)) ps m"

lemma eol_chars: "eol_char CR" "eol_char LF" "mp_stop CHR 0x22" "\<not> eol_char CHR 0x22" "\<not> eol_char CHR ''C''"
  by (simp_all add: eol_char_def mp_stop_def control_chars)

lemma mp_name_text:
  assumes "list_all (\<lambda>c. \<not> mp_stop c) k" "length k < n"
  shows "mp_name n (k @ CHR 0x22 # r) = (map toupper k, CHR 0x22 # r)"
  using assms
proof (induction k arbitrary: n)
  case Nil
  then show ?case by (cases n) (simp_all add: eol_chars)
next
  case (Cons c k)
  then show ?case by (cases n) auto
qed

lemma mp_file_text:
  assumes "list_all (\<lambda>c. \<not> mp_stop c \<and> c \<noteq> CHR 0x5C \<and> c \<noteq> CHR ''/'') f" "length acc + length f < FILENAME"
  shows "mp_file acc (f @ CHR 0x22 # r) = (acc @ f, CHR 0x22 # r)"
  using assms by (induction f arbitrary: acc) (auto simp: eol_chars)

lemma mp_eol_CRLF: "mp_eol (CRLF @ s) = s"
  by (simp add: mp_eol_def skip_char_def control_chars)

lemma mp_skipline_text: "list_all (\<lambda>c. c \<noteq> NUL \<and> \<not> eol_char c) l \<Longrightarrow> mp_skipline (l @ CRLF @ s) = s"
proof -
  assume "list_all (\<lambda>c. c \<noteq> NUL \<and> \<not> eol_char c) l"
  then have "dropWhile (\<lambda>c. c \<noteq> NUL \<and> \<not> eol_char c) (l @ CRLF @ s) = CRLF @ s"
    by (subst dropWhile_append2) (auto simp: list_all_iff eol_char_def control_chars)
  then show ?thesis by (simp add: mp_skipline_def mp_eol_CRLF)
qed

lemma mp_headers_CRLF: "mp_headers (CRLF @ s) = CRLF @ s"
  by (subst mp_headers.simps) (simp add: eol_char_def control_chars)

lemma mp_head_text:
  assumes "part_ok b p"
  shows "mp_head (part_head p @ CRLF @ CRLF @ r) = Inr (map toupper (part_name p), (case p of PField _ _ \<Rightarrow> [] | PFile _ f _ _ \<Rightarrow> f), r)"
proof (cases p)
  case (PField k v)
  have k: "list_all (\<lambda>c. \<not> mp_stop c) k" "length k < MAX_OBJNAMELEN" using assms PField by (auto simp: name_ok_def name_key_def)
  have "mp_skipline (CRLF @ CRLF @ r) = CRLF @ r" using mp_skipline_text [of "[]"] by simp
  then have "mp_eol (mp_headers (mp_skipline (CRLF @ CRLF @ r))) = r" by (simp only: mp_headers_CRLF mp_eol_CRLF)
  moreover have "hd0 (CRLF @ CRLF @ r) \<noteq> CHR '';''" by (simp add: control_chars)
  ultimately show ?thesis using k mp_name_text [OF k, of "CRLF @ CRLF @ r"] PField
    by (simp add: mp_head_def QUOTE_def skip_char_def Let_def)
next
  case (PFile k f ty v)
  let ?t = "CRLF @ ''Content-Type: '' @ ty @ CRLF @ CRLF @ r"
  have k: "list_all (\<lambda>c. \<not> mp_stop c) k" "length k < MAX_OBJNAMELEN" using assms PFile by (auto simp: name_ok_def name_key_def)
  have f: "mp_file [] (f @ CHR 0x22 # ?t) = (f, CHR 0x22 # ?t)" "length f \<le> FILENAME - 1"
    using assms PFile mp_file_text [of f "[]" ?t] by auto
  have t: "list_all (\<lambda>c. c \<noteq> NUL \<and> \<not> eol_char c) (''Content-Type: '' @ ty)" using assms PFile by (simp add: eol_char_def control_chars)
  have "mp_skipline (QUOTE @ ?t) = (''Content-Type: '' @ ty) @ CRLF @ CRLF @ r"
    using mp_skipline_text [of QUOTE "(''Content-Type: '' @ ty) @ CRLF @ CRLF @ r"] by (simp add: QUOTE_def eol_chars NUL_def)
  moreover have "mp_headers ((''Content-Type: '' @ ty) @ CRLF @ CRLF @ r) = mp_headers (CRLF @ r)"
    using mp_skipline_text [OF t, of "CRLF @ r"] by (subst mp_headers.simps) (simp add: eol_chars NUL_def)
  ultimately have h: "mp_eol (mp_headers (mp_skipline (CHR 0x22 # ?t))) = r"
    by (simp add: QUOTE_def mp_headers_CRLF mp_eol_CRLF)
  have "\<not> isspace CHR ''f''" "isspace CHR '' ''" by code_simp+
  then have "dropWhile isspace ('' filename='' @ QUOTE @ f @ QUOTE @ ?t) = ''filename='' @ QUOTE @ f @ QUOTE @ ?t" by simp
  moreover have "strncaseeq (''filename='' @ QUOTE @ f @ QUOTE @ ?t) ''filename='' 9" by (simp add: strncaseeq_def)
  ultimately show ?thesis using k mp_name_text [OF k, of "''; filename='' @ QUOTE @ f @ QUOTE @ ?t"] PFile f h
    by (simp add: mp_head_def QUOTE_def skip_char_def Let_def)
qed

lemma mp_find_first:
  assumes "\<forall>j. i \<le> j \<and> j < e \<longrightarrow> take (length b) (drop (m + j) buf) \<noteq> b" "take (length b) (drop (m + e) buf) = b" "i \<le> e"
    and "int (m + e) \<le> clen"
  shows "mp_find b clen buf (int m) (int i) = int e"
  using assms
proof (induction "e - i" arbitrary: i)
  case 0
  then show ?case by (subst mp_find.simps) (simp add: nat_add_distrib)
next
  case (Suc d)
  then have "take (length b) (drop (m + i) buf) \<noteq> b" "i < e" by auto
  moreover have "nat (int m + int i) = m + i" by simp
  ultimately have "mp_find b clen buf (int m) (int i) = mp_find b clen buf (int m) (int i + 1)"
    using Suc.prems(4) by (subst mp_find.simps) simp
  also have "\<dots> = mp_find b clen buf (int m) (int (Suc i))" by (simp add: add.commute)
  also have "\<dots> = int e" using Suc.hyps(1) [of "Suc i"] Suc.hyps(2) Suc.prems by simp
  finally show ?case .
qed

lemma take_drop_append: "n + j \<le> length w \<Longrightarrow> take n (drop j (w @ r)) = take n (drop j w)"
  by simp

lemma mp_value_text:
  assumes "part_free b v" "drop m buf = v @ CRLF @ ''--'' @ b @ r" "int (m + length v + 4) \<le> clen"
  shows "mp_value b clen buf (int m) = int (length v)"
proof -
  let ?w = "v @ CRLF @ ''--'' @ b"
  have w: "drop (m + j) buf = drop j (?w @ r)" for j using assms(2) by (metis add.commute append.assoc drop_drop)
  have "take (length b) (drop (m + j) buf) \<noteq> b" if "j < length v + 4" for j
  proof -
    have "take (length b) (drop j ?w) \<noteq> b" using assms(1) that by (simp add: part_free_def list_all_iff)
    moreover have "length b + j \<le> length ?w" using that by (simp add: CRLF_def)
    then have "take (length b) (drop j (?w @ r)) = take (length b) (drop j ?w)" by (rule take_drop_append)
    ultimately show ?thesis using w [of j] by simp
  qed
  moreover have "take (length b) (drop (m + (length v + 4)) buf) = b" unfolding w by (simp add: CRLF_def)
  ultimately have f: "mp_find b clen buf (int m) 0 = int (length v + 4)"
    using mp_find_first [of 0 "length v + 4" b m buf clen] assms(3) by (simp add: algebra_simps)
  have a: "body_at buf (int m + int (length v + j) - 1) = hd0 (drop (length v + j - 1) (?w @ r))" if "0 < j" for j
  proof -
    have "nat (int m + int (length v + j) - 1) = m + (length v + j - 1)" using that by simp
    then show ?thesis unfolding body_at_def w [symmetric] by (simp only:)
  qed
  have c: "body_at buf (int m + int (length v + 4) - 1) = CHR ''-''" "body_at buf (int m + int (length v + 3) - 1) = CHR ''-''"
      "body_at buf (int m + int (length v + 2) - 1) = LF" "body_at buf (int m + int (length v + 1) - 1) = CR"
    by (subst a; simp add: control_chars)+
  have s: "mp_back buf (int m) ch (int (length v + Suc j)) = int (length v + j)" if "body_at buf (int m + int (length v + Suc j) - 1) = ch" for ch j
    using that by (simp add: mp_back_def)
  show ?thesis unfolding mp_value_def f using s [of 3] s [of 2] s [of 1] s [of 0] c by (simp add: numeral_eq_Suc)
qed

text \<open>A part in front of the next boundary is read and stored.\<close>

lemma set_val_map:
  assumes "table_ok name_key t" "name_key k"
  shows "table_map (nsp_setobj t k w (\<lambda>_. w)) = (table_map t)(k \<mapsto> w)" "table_ok name_key (nsp_setobj t k w (\<lambda>_. w))"
  using names.set_map [OF assms, of w "\<lambda>_. w"] by (auto split: option.splits)

lemma mp_store_text:
  assumes "part_ok b p"
  shows "mp_store (map toupper (part_name p)) (case p of PField _ _ \<Rightarrow> [] | PFile _ f _ _ \<Rightarrow> f) (part_data p @ r) (int (length (part_data p))) t
    = Parts (nsp_setobj t (map toupper (part_name p)) (part_val p) (\<lambda>_. part_val p))"
  using assms by (cases p) (auto simp: mp_store_def setstr_def setfile_def name_ok_def name_key_def)

lemma mp_turn_part:
  assumes "take 2 (drop n buf) = ''--''" "take (length b) (drop (n + 2) buf) = b"
    and "dropWhile eol_char (drop (n + 2 + length b) buf) = DISPOSITION @ ''name='' @ s"
  shows "mp_turn b clen buf n t = mp_part b clen buf s t"
  unfolding mp_turn_def assms Let_def by (simp add: strncaseeq_def)

lemma drop_prefix: "drop (length x) (x @ y) = y"
  by simp

lemma mp_turn_text:
  assumes "part_ok b p" "buf = pre @ part_text b p @ ''--'' @ b @ r" "int (length (pre @ part_text b p) + 2) \<le> clen"
  shows "mp_turn b clen buf (length pre) t
    = Inr (length (pre @ part_text b p) - 2, nsp_setobj t (map toupper (part_name p)) (part_val p) (\<lambda>_. part_val p))"
proof -
  let ?v = "part_data p @ CRLF @ ''--'' @ b @ r" and ?h = "part_head p @ CRLF @ CRLF"
  let ?d = "DISPOSITION @ ''name='' @ ?h @ ?v" and ?pre = "pre @ ''--'' @ b @ CRLF @ DISPOSITION @ ''name='' @ ?h"
  have d: "drop (length pre + 2 + length b) buf = CRLF @ ?d" using assms(2) by (simp add: part_text_def)
  have s: "dropWhile eol_char (CRLF @ ?d) = ?d" by (simp add: control_chars eol_char_def DISPOSITION_def)
  have free: "part_free b (part_data p)" using assms(1) by (cases p) simp_all
  have b: "buf = ?pre @ ?v" using assms(2) by (simp add: part_text_def)
  then have o: "offset_of buf ?v = length ?pre" unfolding offset_of_def by (simp only: length_append add_diff_cancel_right')
  have l: "length (pre @ part_text b p) = length ?pre + length (part_data p) + 2" by (simp add: part_text_def CRLF_def)
  have "drop (length ?pre) buf = ?v" by (subst b) (rule drop_prefix)
  then have i: "mp_value b clen buf (int (length ?pre)) = int (length (part_data p))"
    using mp_value_text [OF free, of "length ?pre" buf r clen] assms(3) l by simp
  have "mp_head (?h @ ?v) = Inr (map toupper (part_name p), (case p of PField _ _ \<Rightarrow> [] | PFile _ f _ _ \<Rightarrow> f), ?v)"
    using mp_head_text [OF assms(1), of ?v] by simp
  then have "mp_part b clen buf (?h @ ?v) t
      = Inr (length ?pre + length (part_data p), nsp_setobj t (map toupper (part_name p)) (part_val p) (\<lambda>_. part_val p))"
    using mp_store_text [OF assms(1)] by (simp only: mp_part_def sum.case prod.case Let_def o i parts.case nat_int of_nat_add [symmetric])
  moreover have "take 2 (drop (length pre) buf) = ''--''" "take (length b) (drop (length pre + 2) buf) = b"
    using assms(2) by (simp_all add: part_text_def)
  then have "mp_turn b clen buf (length pre) t = mp_part b clen buf (?h @ ?v) t"
    using s by (intro mp_turn_part) (simp_all only: d)
  ultimately show ?thesis using l by simp
qed

lemma mp_loop_skip: "take 2 (drop n buf) \<noteq> ''--'' \<Longrightarrow> int n \<le> clen \<Longrightarrow> mp_loop b clen buf n t = mp_loop b clen buf (Suc n) t"
  by (subst mp_loop.simps) (simp add: mp_turn_def)

lemma mp_loop_part:
  assumes "part_ok b p" "buf = pre @ part_text b p @ ''--'' @ b @ r" "int (length (pre @ part_text b p) + 2) \<le> clen"
  shows "mp_loop b clen buf (length pre) t
    = mp_loop b clen buf (length (pre @ part_text b p)) (nsp_setobj t (map toupper (part_name p)) (part_val p) (\<lambda>_. part_val p))"
proof -
  let ?m = "length (pre @ part_text b p)" and ?t = "nsp_setobj t (map toupper (part_name p)) (part_val p) (\<lambda>_. part_val p)"
  obtain q where q: "pre @ part_text b p = q @ CRLF" by (simp add: part_text_def)
  then have m: "?m = length q + 2" "buf = q @ CRLF @ ''--'' @ b @ r" using assms(2) by (simp_all add: CRLF_def)
  have "mp_loop b clen buf (length pre) t = mp_loop b clen buf (length q) ?t"
    using mp_turn_text [OF assms, of t] assms(3) m(1) by (subst mp_loop.simps) simp
  also have "\<dots> = mp_loop b clen buf (Suc (length q)) ?t"
    using m assms(3) by (intro mp_loop_skip) (simp_all add: control_chars)
  also have "\<dots> = mp_loop b clen buf (Suc (Suc (length q))) ?t"
    using m assms(3) by (intro mp_loop_skip) (simp_all add: control_chars)
  finally show ?thesis using m(1) by simp
qed

lemma mp_loop_end:
  assumes "\<forall>j. n \<le> j \<and> int j \<le> clen \<longrightarrow> take 2 (drop j buf) \<noteq> ''--''"
  shows "mp_loop b clen buf n t = Parts t"
  using assms
proof (induction "nat (clen + 1 - int n)" arbitrary: n)
  case 0
  then show ?case by (subst mp_loop.simps) simp
next
  case (Suc d)
  then have "mp_loop b clen buf n t = mp_loop b clen buf (Suc n) t" by (intro mp_loop_skip) auto
  then show ?case using Suc.hyps(1) [of "Suc n"] Suc.hyps(2) Suc.prems by simp
qed

lemma mp_loop_close:
  assumes "buf = pre @ ''--'' @ b @ ''--'' @ CRLF @ zeros 64" "clen = int (length buf) - 64"
  shows "mp_loop b clen buf (length pre) t = Parts t"
proof -
  let ?s = "''--'' @ CRLF @ zeros 64"
  have d: "drop (length pre + 2 + length b) buf = ?s" "length pre + 2 + length b + 68 = length buf" using assms(1) by (simp_all add: zeros_def CRLF_def)
  have "\<not> strncaseeq ?s DISPOSITION (length DISPOSITION)" by code_simp
  moreover have "dropWhile eol_char ?s = ?s" by (simp add: eol_char_def control_chars)
  moreover have "take 2 (drop (length pre) buf) = ''--''" "take (length b) (drop (length pre + 2) buf) = b" using assms(1) by simp_all
  moreover have "offset_of buf ?s = length pre + 2 + length b" using d(2) by (simp add: offset_of_def zeros_def CRLF_def)
  ultimately have "mp_loop b clen buf (length pre) t = mp_loop b clen buf (length pre + 2 + length b + 1) t"
    using d assms(2) by (subst mp_loop.simps) (simp add: mp_turn_def Let_def)
  also have "\<dots> = Parts t"
  proof (rule mp_loop_end, intro allI impI)
    fix j
    assume j: "length pre + 2 + length b + 1 \<le> j \<and> int j \<le> clen"
    then obtain i where i: "j = length pre + 2 + length b + Suc i" "i < 4" using d(2) assms(2) by (auto simp: le_iff_add)
    have "drop j buf = drop (Suc i) (drop (length pre + 2 + length b) buf)" using i(1) by (simp add: add.commute)
    then have "drop j buf = drop (Suc i) ?s" unfolding d(1) .
    then show "take 2 (drop j buf) \<noteq> ''--''" using i(2) by (auto simp: less_Suc_eq numeral_eq_Suc control_chars zeros_def)
  qed
  finally show ?thesis .
qed

lemma mp_loop_text:
  assumes "list_all (part_ok b) ps" "buf = pre @ multipart_text b ps @ zeros 64" "clen = int (length buf) - 64" "table_ok name_key t"
  shows "\<exists>t'. mp_loop b clen buf (length pre) t = Parts t' \<and> table_ok name_key t' \<and> table_map t' = parts_map ps (table_map t)"
  using assms
proof (induction ps arbitrary: pre t)
  case Nil
  then show ?case using mp_loop_close [of buf pre b clen t] by (simp add: multipart_text_def parts_map_def)
next
  case (Cons p ps)
  let ?t = "nsp_setobj t (map toupper (part_name p)) (part_val p) (\<lambda>_. part_val p)"
  have p: "part_ok b p" "list_all (part_ok b) ps" using Cons.prems(1) by simp_all
  have k: "name_key (map toupper (part_name p))" using p(1) by (cases p) (simp_all add: name_ok_def)
  obtain r where r: "multipart_text b ps = ''--'' @ b @ r" "2 \<le> length r"
  proof (cases ps)
    case Nil
    then show ?thesis using that [of "''--'' @ CRLF"] by (simp add: multipart_text_def)
  next
    case (Cons q qs)
    then show ?thesis using that [of "CRLF @ DISPOSITION @ ''name='' @ part_head q @ CRLF @ CRLF @ part_data q @ CRLF @ multipart_text b qs"]
      by (simp add: multipart_text_def part_text_def CRLF_def)
  qed
  have b: "buf = pre @ part_text b p @ ''--'' @ b @ r @ zeros 64" using Cons.prems(2) r(1) by (simp add: multipart_text_def)
  have "int (length (pre @ part_text b p) + 2) \<le> clen" using Cons.prems(3) b by (simp add: zeros_def)
  from mp_loop_part [OF p(1) b this, of t]
  have "mp_loop b clen buf (length pre) t = mp_loop b clen buf (length (pre @ part_text b p)) ?t" .
  moreover have "buf = (pre @ part_text b p) @ multipart_text b ps @ zeros 64" using Cons.prems(2) by (simp add: multipart_text_def)
  moreover have "table_ok name_key ?t" "table_map ?t = (table_map t)(map toupper (part_name p) \<mapsto> part_val p)"
    using set_val_map [OF Cons.prems(4) k] by auto
  ultimately show ?case using Cons.IH [OF p(2) _ Cons.prems(3), of "pre @ part_text b p" ?t] by (simp only: parts_map_def fold_simps o_def)
qed

section \<open>Property\<close>



section \<open>Bodies that do damage\<close>

text \<open>
  A part without a value, in a body whose lines end in LF only, has the length -1, and a part without a name stores into the value that
  stands for everything that is not set.
\<close>

definition lf_body :: string where
  "lf_body = ''--B'' @ [LF] @ DISPOSITION @ ''name=x'' @ [LF, LF] @ ''--B''"

lemma multipart_crash: "read_multipart ''multipart/form-data; boundary=B'' (int (length lf_body)) lf_body empty_table = Crashed"
  by code_simp

definition nameless_body :: string where
  "nameless_body = multipart_text ''B'' [PFile [] ''a'' ''b'' ''c'']"

lemma multipart_null: "read_multipart ''multipart/form-data; boundary=B'' (int (length nameless_body)) nameless_body empty_table = NullBroken"
  by code_simp

end
