(* ===== verification/HttpRequest.thy ===== *)
theory HttpRequest
  imports HttpForms
begin

text \<open>
  Requests of the HTTP module, \<open>src/src/modules/core/httpd/httpd_http.c\<close>: \<open>read_header\<close>, \<open>read_postdata\<close>,
  \<open>read_vardata\<close> over the forms of theory HttpForms, and the part of \<open>http_dorequest\<close> that finds out who the user is (theory
  HttpAuth). The bytes come from the socket layer (theory Tcp). The variables of the configuration and a failing \<open>calloc\<close>
  are left out; \<open>send_error\<close> and \<open>closeconnect\<close> end the thread and are the answers \<open>Refused\<close> and \<open>Closed\<close>.
\<close>

section \<open>Header lines\<close>

text \<open>The cookies of a header line; \<open>None\<close> is the answer 400.\<close>

function cookie_loop :: "string \<Rightarrow> vars \<Rightarrow> vars option" where
  "cookie_loop s t =
     (case strchr s CHR ''='' of
        None \<Rightarrow> None
      | Some (k, r) \<Rightarrow>
          (case strchr r CHR '';'' of
             None \<Rightarrow> Some (setstr k r t)
           | Some (v, q) \<Rightarrow>
               if dropWhile (\<lambda>c. c = CHR '' '') q = [] then Some (setstr k v t)
               else cookie_loop (dropWhile (\<lambda>c. c = CHR '' '') q) (setstr k v t)))"
  by pat_completeness auto
termination
proof (relation "measure (\<lambda>(s, t). length s)", goal_cases)
  case (2 s t x k r y v q)
  then have "length q < length s" by (auto dest!: strchr_Some)
  moreover have "length (dropWhile (\<lambda>c. c = CHR '' '') q) \<le> length q" by (rule length_dropWhile_le)
  ultimately show ?case by simp
qed simp

declare cookie_loop.simps [simp del]

definition header_name :: "string \<Rightarrow> string" where
  "header_name n = snprintf 63 (''HTTP_'' @ map (\<lambda>c. if c = CHR ''-'' then CHR ''_'' else toupper c) n)"

text \<open>One line of the header, on the tables \<open>_SERVER\<close> and \<open>_COOKIE\<close>.\<close>

definition header_line :: "string \<Rightarrow> vars \<times> vars \<Rightarrow> (vars \<times> vars) option" where
  "header_line line tabs =
     (case (strchr line CHR '':'', tabs) of
        (None, _) \<Rightarrow> None
      | (Some (n, v), sv, ck) \<Rightarrow>
          let v = dropWhile (\<lambda>c. c = CHR '' '') v; varname = header_name n in
          if varname = ''HTTP_CONTENT_LENGTH'' then Some (setnum ''CONTENT_LENGTH'' (max 0 (atoi v)) sv, ck)
          else if varname = ''HTTP_CONTENT_TYPE'' then Some (setstr ''CONTENT_TYPE'' v sv, ck)
          else if varname = ''HTTP_COOKIE'' then map_option (\<lambda>c. (setstr ''HTTP_COOKIE'' v sv, c)) (cookie_loop v ck)
          else Some (setstr varname v sv, ck))"

section \<open>Reading a request\<close>

text \<open>Configuration and addresses; the clock is the sequence of answers to the test whether the time for a request is over.\<close>

record http_conf =
  max_post_size :: int
  remote_addr :: string
  remote_port :: int
  server_addr :: string
  server_port :: int
  server_software :: string
  nsp_version :: string

record request =
  rq_server :: vars
  rq_cookie :: vars
  rq_header :: vars
  rq_post :: "string option"
  rq_sock :: tcp_socket

datatype answer = Closed | Refused nat | Ready request

definition HLINE :: nat where "HLINE = 2047"

text \<open>Blank lines in front of a request are skipped.\<close>

function first_line :: "bool list \<Rightarrow> tcp_socket \<Rightarrow> (string \<times> tcp_socket) option" where
  "first_line late s =
     (case tcp_fgets HLINE s of
        (None, _) \<Rightarrow> None
      | (Some raw, s') \<Rightarrow>
          if cstr (striprn_buf raw) \<noteq> [] then Some (cstr (striprn_buf raw), s')
          else if late \<noteq> [] \<and> hd late \<or> want_close s' then None
          else first_line (tl late) s')"
  by pat_completeness auto
termination
proof (relation "measure (\<lambda>(late, s). avail s)", goal_cases)
  case (2 late s x s' raw)
  then have "tcp_fgets HLINE s = (Some raw, s')" by simp
  from tcp_fgets_avail [OF this] show ?case by (simp add: HLINE_def)
qed simp

declare first_line.simps [simp del]

text \<open>The lines of the header, to the first blank one.\<close>

function header_loop :: "vars \<times> vars \<Rightarrow> tcp_socket \<Rightarrow> answer + (vars \<times> vars) \<times> tcp_socket" where
  "header_loop tabs s =
     (case tcp_fgets HLINE s of
        (None, _) \<Rightarrow> Inl Closed
      | (Some raw, s') \<Rightarrow>
          if cstr (striprn_buf raw) = [] then Inr (tabs, s')
          else (case header_line (cstr (striprn_buf raw)) tabs of
                  None \<Rightarrow> Inl (Refused 400)
                | Some tabs' \<Rightarrow> header_loop tabs' s'))"
  by pat_completeness auto
termination
proof (relation "measure (\<lambda>(tabs, s). avail s)", goal_cases)
  case (2 tabs s x s' raw tabs')
  then have "tcp_fgets HLINE s = (Some raw, s')" by simp
  from tcp_fgets_avail [OF this] show ?case by (simp add: HLINE_def)
qed simp

declare header_loop.simps [simp del]

text \<open>Method, path and protocol; \<open>None\<close> is the answer 400.\<close>

definition request_line :: "string \<Rightarrow> (string \<times> string \<times> string) option" where
  "request_line line =
     (case strchr line CHR '' '' of
        None \<Rightarrow> None
      | Some (m, r) \<Rightarrow>
          (case strchr r CHR '' '' of
             None \<Rightarrow> None
           | Some (u, p) \<Rightarrow> if m = [] \<or> u = [] \<or> p = [] then None else Some (map toupper m, u, p)))"

definition server_vars :: "http_conf \<Rightarrow> vars" where
  "server_vars cf =
     setstr ''NSP_VERSION'' (nsp_version cf)
     (setstr ''SERVER_SOFTWARE'' (snprintf 63 (server_software cf))
     (setnum ''SERVER_PORT'' (server_port cf)
     (setstr ''SERVER_ADDR'' (server_addr cf)
     (setstr ''REMOTE_USER'' ''nobody''
     (setnum ''REMOTE_PORT'' (remote_port cf)
     (setstr ''REMOTE_ADDR'' (remote_addr cf)
     (setstr ''GATEWAY_INTERFACE'' ''CGI/1.1''
     (setstr ''CONTENT_TYPE'' ''application/x-www-form-urlencoded'' empty_table))))))))"

text \<open>The rest of the body after what the reading of lines has left in the buffer.\<close>

function postdata_loop :: "nat \<Rightarrow> tcp_socket \<Rightarrow> (string \<times> tcp_socket) option" where
  "postdata_loop n s =
     (if n = 0 then Some ([], s)
      else case tcp_recv n s of
        (None, _) \<Rightarrow> None
      | (Some bs, s') \<Rightarrow> map_option (\<lambda>(b, t). (bs @ b, t)) (postdata_loop (n - length bs) s'))"
  by pat_completeness auto
termination
proof (relation "measure (\<lambda>(n, s). n)", goal_cases)
  case (2 n s x s' bs)
  then have "tcp_recv_ev n (net s) s = (Some bs, s')" by (simp add: tcp_recv_def)
  from tcp_recv_ev_nonempty [OF this] show ?case using 2(1) by simp
qed simp

declare postdata_loop.simps [simp del]

definition read_postdata :: "http_conf \<Rightarrow> int \<Rightarrow> tcp_socket \<Rightarrow> (string \<times> tcp_socket) option" where
  "read_postdata cf postlen s =
     (if postlen < 0 \<or> max_post_size cf < postlen \<or> postlen < int (recvbufsize s) - 2 then None
      else map_option (\<lambda>(b, t). (pending s @ b, t))
        (postdata_loop (nat (postlen - int (recvbufsize s)))
          (s\<lparr>recvbuf := zeros RECVBUF, recvbufoffset := 0, recvbufsize := 0\<rparr>)))"

text \<open>What \<open>read_header\<close> sets behind the header lines.\<close>

definition keep_alive :: "vars \<Rightarrow> vars \<Rightarrow> string" where
  "keep_alive hr sv =
     (if strcaseeq (getstr sv ''HTTP_CONNECTION'') ''Keep-Alive'' then ''Keep-Alive''
      else if strcaseeq (getstr hr ''PROTOCOL'') ''HTTP/1.1'' \<and> getstr sv ''HTTP_CONNECTION'' = [] then ''Keep-Alive''
      else ''Close'')"

definition url_vars :: "string \<Rightarrow> vars \<Rightarrow> vars" where
  "url_vars uri sv =
     (let host = snprintf HLINE (getstr sv ''HTTP_HOST'')
      in setstr ''SERVER_NAME'' (case strchr host CHR '':'' of Some (h, _) \<Rightarrow> h | None \<Rightarrow> host)
        (setstr ''SCRIPT_NAME'' []
        (setstr ''QUERY_STRING'' (case strchr uri CHR ''?'' of Some (_, q) \<Rightarrow> q | None \<Rightarrow> []) sv)))"

text \<open>\<open>read_header\<close> behind the header lines.\<close>

definition finish_header :: "http_conf \<Rightarrow> string \<Rightarrow> string \<Rightarrow> vars \<times> vars \<Rightarrow> tcp_socket \<Rightarrow> answer" where
  "finish_header cf m uri tabs s =
     (case tabs of (sv, ck) \<Rightarrow>
      let hr = setstr ''CONNECTION'' (keep_alive empty_table sv) empty_table;
          body = (if m = ''POST'' then map_option (\<lambda>(b, t). (Some b, t)) (read_postdata cf (getnum sv ''CONTENT_LENGTH'') s)
                  else Some (None, s))
      in if m \<noteq> ''GET'' \<and> m \<noteq> ''POST'' then Refused 501
         else if m = ''POST'' \<and> max_post_size cf \<le> getnum sv ''CONTENT_LENGTH'' then Refused 413
         else (case body of
                 None \<Rightarrow> Closed
               | Some (b, t) \<Rightarrow>
                   if hd0 uri \<noteq> CHR ''/'' then Refused 400
                   else Ready \<lparr>rq_server = url_vars uri sv, rq_cookie = ck, rq_header = hr, rq_post = b, rq_sock = t\<rparr>))"

definition request_vars :: "http_conf \<Rightarrow> string \<Rightarrow> string \<Rightarrow> string \<Rightarrow> vars" where
  "request_vars cf m uri p = setstr ''SERVER_PROTOCOL'' p (setstr ''REQUEST_URI'' uri (setstr ''REQUEST_METHOD'' m (server_vars cf)))"

definition read_header :: "http_conf \<Rightarrow> bool list \<Rightarrow> tcp_socket \<Rightarrow> answer" where
  "read_header cf late s =
     (case first_line late s of
        None \<Rightarrow> Closed
      | Some (line, s) \<Rightarrow>
          (case request_line line of
             None \<Rightarrow> Refused 400
           | Some (m, u, p) \<Rightarrow>
               (case header_loop (request_vars cf m (cstr (decodeurl u)) p, empty_table) s of
                  Inl a \<Rightarrow> a
                | Inr (tabs, s) \<Rightarrow> finish_header cf m (cstr (decodeurl u)) tabs s)))"

text \<open>
  \<open>read_vardata\<close>: the tables \<open>_GET\<close> and \<open>_POST\<close>. A body that is \<open>text/xml\<close> is left alone; the value that the function
  returns is not looked at.
\<close>

datatype vardata = VClosed | VCrashed | VNullBroken | Vars "vars \<times> vars"

definition read_vardata :: "http_conf \<Rightarrow> request \<Rightarrow> vardata" where
  "read_vardata cf rq =
     (let sv = rq_server rq; g = read_vars (getstr sv ''QUERY_STRING'') empty_table; clen = getnum sv ''CONTENT_LENGTH'';
          ty = getstr sv ''CONTENT_TYPE''; raw = (case rq_post rq of Some b \<Rightarrow> b | None \<Rightarrow> ''null'') in
      if getstr sv ''REQUEST_METHOD'' \<noteq> ''POST'' then Vars (g, empty_table)
      else if max 8192 (max_post_size cf) < clen then VClosed
      else if take 19 ty = ''multipart/form-data'' then
        (case read_multipart ty clen raw empty_table of Parts p \<Rightarrow> Vars (g, p) | Crashed \<Rightarrow> VCrashed | NullBroken \<Rightarrow> VNullBroken)
      else if take 8 ty = ''text/xml'' then Vars (g, empty_table)
      else Vars (g, read_vars (cstr raw) empty_table))"

section \<open>Who asks\<close>

text \<open>What logins see of a request, and the first part of \<open>http_dorequest\<close>.\<close>

definition login_request :: "http_conf \<Rightarrow> request \<Rightarrow> vars \<times> vars \<Rightarrow> webreq" where
  "login_request cf rq gp =
     \<lparr>r_addr = remote_addr cf, r_post = (getstr (rq_server rq) ''REQUEST_METHOD'' = ''POST''),
      r_raw = map_option cstr (rq_post rq), r_get = getval (fst gp), r_form = (\<lambda>k. map_option cstr (getval (snd gp) k)),
      r_cookie = getval (rq_cookie rq) ''gstoken'', r_server = getstr (rq_server rq) ''SERVER_NAME''\<rparr>"

datatype who = LoggedOut | User | Nobody

definition http_login :: "webdb \<Rightarrow> int \<Rightarrow> int \<Rightarrow> http_conf \<Rightarrow> request \<Rightarrow> vars \<times> vars \<Rightarrow> httpdat \<Rightarrow> sessions \<Rightarrow> who \<times> httpdat \<times> sessions" where
  "http_login db limit now cf rq gp dat ss =
     (let r = login_request cf rq gp in
      case auth_getcookie db ss r dat of (rc, dat) \<Rightarrow>
        if rc = 0 then
          (if take 7 (getstr (rq_server rq) ''REQUEST_URI'') = ''/logout'' then (LoggedOut, dat, auth_logout db ss dat) else (User, dat, ss))
        else (case auth_setcookie db limit now ss r dat of (rc, dat, ss) \<Rightarrow> (if rc = 0 then User else Nobody, dat, ss)))"

section \<open>What a request says\<close>

lemma request_vars_ok: "table_ok name_key (request_vars cf m uri p)"
  by (simp add: request_vars_def server_vars_def setstr_map setnum_map empty_map)

lemma header_name_key:
  assumes "is_cstr n"
  shows "name_key (header_name n)"
proof -
  let ?m = "map (\<lambda>c. if c = CHR ''-'' then CHR ''_'' else toupper c) n"
  have "is_cstr ?m" using assms toupper_neq by (induction n) (auto simp: NUL_def)
  moreover have "header_name n = ''HTTP_'' @ take 57 ?m" by (simp add: header_name_def snprintf_def)
  ultimately show ?thesis by (simp add: name_key_def MAX_OBJNAMELEN_def isdigit_def NUL_def)
qed

text \<open>Text of a header and what it means for the variables, as maps.\<close>

fun cookie_text :: "(string \<times> string) list \<Rightarrow> string" where
  "cookie_text [] = []"
| "cookie_text [(k, v)] = k @ ''='' @ v"
| "cookie_text ((k, v) # cs) = k @ ''='' @ v @ ''; '' @ cookie_text cs"

datatype hdr = Field string string | Cookies "(string \<times> string) list"

fun hdr_text :: "hdr \<Rightarrow> string" where
  "hdr_text (Field n v) = n @ '': '' @ v"
| "hdr_text (Cookies cs) = ''Cookie: '' @ cookie_text cs"

fun hdr_maps :: "hdr \<Rightarrow> vmap \<times> vmap \<Rightarrow> vmap \<times> vmap" where
  "hdr_maps (Field n v) (m, c) =
     (if header_name n = ''HTTP_CONTENT_LENGTH'' then m(''CONTENT_LENGTH'' \<mapsto> WNum (max 0 (atoi v)))
      else if header_name n = ''HTTP_CONTENT_TYPE'' then m(''CONTENT_TYPE'' \<mapsto> WStr v)
      else m(header_name n \<mapsto> WStr v), c)"
| "hdr_maps (Cookies cs) (m, c) = (m(''HTTP_COOKIE'' \<mapsto> WStr (cookie_text cs)), set_all cs c)"

text \<open>Text that fits on a line of the header.\<close>

definition line_ok :: "string \<Rightarrow> bool" where
  "line_ok l \<longleftrightarrow> set l \<inter> {NUL, CR, LF} = {} \<and> length l < HLINE - 1"

definition cookie_ok :: "string \<times> string \<Rightarrow> bool" where
  "cookie_ok kv \<longleftrightarrow> name_key (fst kv) \<and> CHR ''='' \<notin> set (fst kv) \<and> hd (fst kv) \<noteq> CHR '' '' \<and> CHR '';'' \<notin> set (snd kv)"

fun hdr_ok :: "hdr \<Rightarrow> bool" where
  "hdr_ok (Field n v) \<longleftrightarrow> CHR '':'' \<notin> set n \<and> header_name n \<noteq> ''HTTP_COOKIE'' \<and> hd0 v \<noteq> CHR '' '' \<and> line_ok (n @ '': '' @ v)"
| "hdr_ok (Cookies cs) \<longleftrightarrow> cs \<noteq> [] \<and> list_all cookie_ok cs \<and> line_ok (''Cookie: '' @ cookie_text cs)"

definition request_text :: "string \<Rightarrow> string \<Rightarrow> string \<Rightarrow> hdr list \<Rightarrow> string" where
  "request_text m u p hs = m @ '' '' @ u @ '' '' @ p @ CRLF @ concat (map (\<lambda>h. hdr_text h @ CRLF) hs) @ CRLF"

definition request_ok :: "string \<Rightarrow> string \<Rightarrow> string \<Rightarrow> hdr list \<Rightarrow> bool" where
  "request_ok m u p hs \<longleftrightarrow> m \<noteq> [] \<and> u \<noteq> [] \<and> p \<noteq> [] \<and> CHR '' '' \<notin> set m \<and> CHR '' '' \<notin> set u
     \<and> line_ok (m @ '' '' @ u @ '' '' @ p) \<and> list_all hdr_ok hs"

text \<open>Reading it.\<close>

lemma striprn_no_eol: "CR \<notin> set l \<Longrightarrow> LF \<notin> set l \<Longrightarrow> striprn l = l"
  by (cases l rule: rev_cases) (auto simp: striprn_snoc)

lemma read_http_line:
  assumes "buf_ok s" "open_sock s" "stream s = l @ CRLF @ rest" "line_ok l"
  shows "\<exists>raw s'. tcp_fgets HLINE s = (Some raw, s') \<and> cstr (striprn_buf raw) = l \<and> stream s' = rest \<and> buf_ok s' \<and> open_sock s'"
proof -
  have l: "NUL \<notin> set l" "CR \<notin> set l" "LF \<notin> set l" "length l < HLINE - 1" using assms(4) by (auto simp: line_ok_def)
  have "stream s = (l @ [CR]) @ LF # rest" "LF \<notin> set (l @ [CR])" "length (l @ [CR]) < HLINE"
    using assms(3) l by (simp_all add: control_chars)
  then obtain s' where f: "tcp_fgets HLINE s = (Some (l @ CRLF), s')" "stream s' = rest" "buf_ok s'" "open_sock s'"
    using tcp.fgets_first_line [of s "l @ [CR]" rest HLINE] assms(1,2) by (auto simp: control_chars)
  have "is_cstr (l @ CRLF)" using l(1) by (simp add: is_cstr_def control_chars)
  then have "cstr (striprn_buf (l @ CRLF)) = l" using striprn_no_eol [OF l(2,3)] by (simp add: cstr_striprn_buf cstr_id)
  then show ?thesis using f by blast
qed

lemma cookie_loop_text:
  assumes "cs \<noteq> []" "list_all cookie_ok cs" "table_ok name_key t"
  shows "\<exists>t'. cookie_loop (cookie_text cs) t = Some t' \<and> table_ok name_key t' \<and> table_map t' = set_all cs (table_map t)"
  using assms
proof (induction cs arbitrary: t rule: cookie_text.induct)
  case (2 k v)
  then have "strchr (k @ ''='' @ v) CHR ''='' = Some (k, v)" "strchr v CHR '';'' = None"
    by (simp_all add: cookie_ok_def strchr_append strchr_None)
  then show ?case using 2 by (subst cookie_loop.simps) (simp add: setstr_map cookie_ok_def set_all_def)
next
  case (3 k v c cs)
  let ?r = "cookie_text (c # cs)"
  have "strchr (k @ ''='' @ v @ ''; '' @ ?r) CHR ''='' = Some (k, v @ ''; '' @ ?r)" "strchr (v @ ''; '' @ ?r) CHR '';'' = Some (v, '' '' @ ?r)"
    using 3(3) by (simp_all add: cookie_ok_def strchr_append)
  moreover have "dropWhile (\<lambda>c. c = CHR '' '') ('' '' @ ?r) = ?r" "?r \<noteq> []"
    using 3(3) by (cases c; cases cs; cases "fst c"; simp add: cookie_ok_def name_key_def)+
  ultimately have "cookie_loop (cookie_text ((k, v) # c # cs)) t = cookie_loop ?r (setstr k v t)"
    by (subst cookie_loop.simps) (simp del: dropWhile_eq_Nil_conv)
  moreover have "name_key k" using 3(3) by (simp add: cookie_ok_def)
  moreover have "list_all cookie_ok (c # cs)" using 3(3) by simp
  moreover have "set_all ((k, v) # c # cs) (table_map t) = set_all (c # cs) ((table_map t)(k \<mapsto> WStr v))" by (simp add: set_all_def)
  ultimately show ?case using 3(1) [of "setstr k v t"] setstr_map [OF 3(4), of k v] by (simp only: list.distinct not_False_eq_True simp_thms)
qed simp

lemma header_line_text:
  assumes "hdr_ok h" "table_ok name_key sv" "table_ok name_key ck"
  shows "\<exists>sv' ck'. header_line (hdr_text h) (sv, ck) = Some (sv', ck') \<and> table_ok name_key sv' \<and> table_ok name_key ck'
    \<and> (table_map sv', table_map ck') = hdr_maps h (table_map sv, table_map ck)"
proof (cases h)
  case (Field n v)
  have "is_cstr n" using assms(1) Field by (auto simp: line_ok_def is_cstr_def)
  moreover have "strchr (n @ '': '' @ v) CHR '':'' = Some (n, '' '' @ v)" using assms(1) Field by (simp add: strchr_append)
  moreover have "dropWhile (\<lambda>c. c = CHR '' '') ('' '' @ v) = v" using assms(1) Field by (cases v) auto
  ultimately show ?thesis using assms Field by (simp add: header_line_def Let_def setstr_map setnum_map header_name_key)
next
  case (Cookies cs)
  have c: "cs \<noteq> []" "list_all cookie_ok cs" using assms(1) Cookies by simp_all
  from cookie_loop_text [OF c assms(3)] obtain t' where
    t: "cookie_loop (cookie_text cs) ck = Some t'" "table_ok name_key t'" "table_map t' = set_all cs (table_map ck)" by blast
  have "dropWhile (\<lambda>c. c = CHR '' '') ('' '' @ cookie_text cs) = cookie_text cs"
    using c by (cases cs rule: cookie_text.cases) (auto simp: cookie_ok_def name_key_def neq_Nil_conv)
  moreover have "strchr (''Cookie: '' @ cookie_text cs) CHR '':'' = Some (''Cookie'', '' '' @ cookie_text cs)"
    using strchr_append [of "CHR '':''" "''Cookie''"] by simp
  moreover have "header_name ''Cookie'' = ''HTTP_COOKIE''" by code_simp
  ultimately show ?thesis using assms Cookies t by (simp add: header_line_def Let_def setstr_map)
qed

lemma hdr_line: "hdr_ok h \<Longrightarrow> line_ok (hdr_text h) \<and> hdr_text h \<noteq> []"
  by (cases h) auto

lemma header_loop_text:
  assumes "list_all hdr_ok hs" "buf_ok s" "open_sock s" "stream s = concat (map (\<lambda>h. hdr_text h @ CRLF) hs) @ CRLF @ rest"
    and "table_ok name_key sv" "table_ok name_key ck"
  shows "\<exists>sv' ck' s'. header_loop (sv, ck) s = Inr ((sv', ck'), s') \<and> stream s' = rest \<and> buf_ok s' \<and> open_sock s'
    \<and> table_ok name_key sv' \<and> table_ok name_key ck' \<and> (table_map sv', table_map ck') = fold hdr_maps hs (table_map sv, table_map ck)"
  using assms
proof (induction hs arbitrary: s sv ck)
  case Nil
  have "line_ok []" by (simp add: line_ok_def HLINE_def)
  with read_http_line [of s "[]" rest] Nil obtain raw s' where
    "tcp_fgets HLINE s = (Some raw, s')" "cstr (striprn_buf raw) = []" "stream s' = rest" "buf_ok s'" "open_sock s'" by auto
  then show ?case using Nil by (subst header_loop.simps) simp
next
  case (Cons h hs)
  let ?rest = "concat (map (\<lambda>h. hdr_text h @ CRLF) hs) @ CRLF @ rest"
  have h: "hdr_ok h" "list_all hdr_ok hs" using Cons.prems(1) by simp_all
  have "stream s = hdr_text h @ CRLF @ ?rest" using Cons.prems(4) by simp
  from read_http_line [OF Cons.prems(2,3) this] hdr_line [OF h(1)] obtain raw s' where
    f: "tcp_fgets HLINE s = (Some raw, s')" "cstr (striprn_buf raw) = hdr_text h" "stream s' = ?rest" "buf_ok s'" "open_sock s'" by blast
  obtain sv' ck' where t: "header_line (hdr_text h) (sv, ck) = Some (sv', ck')" "table_ok name_key sv'" "table_ok name_key ck'"
      "(table_map sv', table_map ck') = hdr_maps h (table_map sv, table_map ck)"
    using header_line_text [OF h(1) Cons.prems(5,6)] by blast
  have "header_loop (sv, ck) s = header_loop (sv', ck') s'" using f t(1) hdr_line [OF h(1)] by (subst header_loop.simps) simp
  then show ?case using Cons.IH [OF h(2) f(4,5,3) t(2,3)] t(4) by simp
qed

definition start_map :: "http_conf \<Rightarrow> string \<Rightarrow> string \<Rightarrow> string \<Rightarrow> vmap" where
  "start_map cf m uri p = (table_map (server_vars cf))(''REQUEST_METHOD'' \<mapsto> WStr m, ''REQUEST_URI'' \<mapsto> WStr uri, ''SERVER_PROTOCOL'' \<mapsto> WStr p)"

definition request_maps :: "http_conf \<Rightarrow> string \<Rightarrow> string \<Rightarrow> string \<Rightarrow> hdr list \<Rightarrow> vmap \<times> vmap" where
  "request_maps cf m u p hs = fold hdr_maps hs (start_map cf (map toupper m) (cstr (decodeurl u)) p, Map.empty)"

lemma request_vars_map: "table_map (request_vars cf m uri p) = start_map cf m uri p"
  by (simp add: request_vars_def start_map_def setstr_map setnum_map empty_map server_vars_def)

lemma read_header_text:
  assumes "request_ok m u p hs" "buf_ok s" "open_sock s" "stream s = request_text m u p hs @ rest"
  shows "\<exists>sv ck s'. read_header cf late s = finish_header cf (map toupper m) (cstr (decodeurl u)) (sv, ck) s'
    \<and> stream s' = rest \<and> buf_ok s' \<and> open_sock s' \<and> table_ok name_key sv \<and> table_ok name_key ck
    \<and> (table_map sv, table_map ck) = request_maps cf m u p hs"
proof -
  let ?l = "m @ '' '' @ u @ '' '' @ p" and ?rest = "concat (map (\<lambda>h. hdr_text h @ CRLF) hs) @ CRLF @ rest"
  have r: "line_ok ?l" "list_all hdr_ok hs" using assms(1) by (simp_all add: request_ok_def)
  have "stream s = ?l @ CRLF @ ?rest" using assms(4) by (simp add: request_text_def)
  from read_http_line [OF assms(2,3) this r(1)] obtain raw s1 where
    f: "tcp_fgets HLINE s = (Some raw, s1)" "cstr (striprn_buf raw) = ?l" "stream s1 = ?rest" "buf_ok s1" "open_sock s1" by blast
  have a: "first_line late s = Some (?l, s1)" using f by (subst first_line.simps) simp
  have "strchr ?l CHR '' '' = Some (m, u @ '' '' @ p)" "strchr (u @ '' '' @ p) CHR '' '' = Some (u, p)"
    using assms(1) by (simp_all add: request_ok_def strchr_append)
  then have b: "request_line ?l = Some (map toupper m, u, p)" using assms(1) by (simp add: request_line_def request_ok_def)
  obtain sv ck s' where
    h: "header_loop (request_vars cf (map toupper m) (cstr (decodeurl u)) p, empty_table) s1 = Inr ((sv, ck), s')" "stream s' = rest" "buf_ok s'"
      "open_sock s'" "table_ok name_key sv" "table_ok name_key ck" "(table_map sv, table_map ck) = request_maps cf m u p hs"
    using header_loop_text [OF r(2) f(4,5,3) request_vars_ok empty_map(2), of cf "map toupper m" "cstr (decodeurl u)" p]
    by (auto simp: request_maps_def request_vars_map empty_map)
  have "read_header cf late s = finish_header cf (map toupper m) (cstr (decodeurl u)) (sv, ck) s'"
    using a b h(1) by (simp add: read_header_def)
  then show ?thesis using h by blast
qed

section \<open>Requests without a body\<close>

definition map_str :: "vmap \<Rightarrow> string \<Rightarrow> string" where
  "map_str m k = (case m k of None \<Rightarrow> ''null'' | Some (WStr v) \<Rightarrow> v | Some (WNum n) \<Rightarrow> dec_int n | Some (WFile _ _ _) \<Rightarrow> [])"

lemma getstr_map: "table_ok name_key t \<Longrightarrow> name_key k \<Longrightarrow> getstr t k = map_str (table_map t) k"
  by (simp add: getstr_def var_map map_str_def split: option.splits webval.splits)

definition url_map :: "string \<Rightarrow> vmap \<Rightarrow> vmap" where
  "url_map uri m =
     m(''QUERY_STRING'' \<mapsto> WStr (case strchr uri CHR ''?'' of Some (_, q) \<Rightarrow> q | None \<Rightarrow> []), ''SCRIPT_NAME'' \<mapsto> WStr [],
       ''SERVER_NAME'' \<mapsto> WStr (takeWhile (\<lambda>c. c \<noteq> CHR '':'') (take (HLINE - 1) (map_str m ''HTTP_HOST''))))"

lemma strchr_before: "(case strchr s c of Some (a, _) \<Rightarrow> a | None \<Rightarrow> s) = takeWhile (\<lambda>d. d \<noteq> c) s"
proof (cases "strchr s c")
  case None
  then have "takeWhile (\<lambda>d. d \<noteq> c) s = s" by (auto simp: strchr_None takeWhile_eq_all_conv)
  then show ?thesis by (simp only: None option.case)
qed (auto simp: strchr_def split: list.splits)

lemma url_vars_map:
  assumes "table_ok name_key sv"
  shows "table_map (url_vars uri sv) = url_map uri (table_map sv)" "table_ok name_key (url_vars uri sv)"
  using assms by (simp_all add: url_vars_def url_map_def Let_def setstr_map getstr_map strchr_before snprintf_def)

lemma get_request:
  assumes "request_ok ''GET'' u p hs" "buf_ok s" "open_sock s" "stream s = request_text ''GET'' u p hs @ rest"
    and "hd0 (cstr (decodeurl u)) = CHR ''/''"
  shows "\<exists>rq. read_header cf late s = Ready rq \<and> stream (rq_sock rq) = rest \<and> rq_post rq = None
    \<and> table_ok name_key (rq_server rq) \<and> table_ok name_key (rq_cookie rq)
    \<and> table_map (rq_server rq) = url_map (cstr (decodeurl u)) (fst (request_maps cf ''GET'' u p hs))
    \<and> table_map (rq_cookie rq) = snd (request_maps cf ''GET'' u p hs)"
proof -
  have m: "map toupper ''GET'' = ''GET''" by code_simp
  obtain sv ck s' where h: "read_header cf late s = finish_header cf ''GET'' (cstr (decodeurl u)) (sv, ck) s'" "stream s' = rest"
      "table_ok name_key sv" "table_ok name_key ck" "(table_map sv, table_map ck) = request_maps cf ''GET'' u p hs"
    using read_header_text [OF assms(1-4), of cf late] unfolding m by blast
  have "table_map sv = fst (request_maps cf ''GET'' u p hs)" "table_map ck = snd (request_maps cf ''GET'' u p hs)"
    using h(5) by (metis fst_conv, metis snd_conv)
  then show ?thesis using h assms(5) by (simp add: finish_header_def Let_def url_vars_map)
qed

section \<open>Bodies\<close>

lemma postdata_loop_bytes:
  assumes "open_sock s" "n \<le> length (rx_bytes (ssl s) (net s))"
  shows "\<exists>t. postdata_loop n s = Some (take n (rx_bytes (ssl s) (net s)), t)
    \<and> t = s\<lparr>net := net t, bytes_in := bytes_in t\<rparr> \<and> rx_bytes (ssl s) (net t) = drop n (rx_bytes (ssl s) (net s))"
  using assms
proof (induction n arbitrary: s rule: less_induct)
  case (less n)
  show ?case
  proof (cases "n = 0")
    case True
    then show ?thesis by (subst postdata_loop.simps) simp
  next
    case False
    obtain r s' where r: "tcp_recv_ev n (net s) s = (r, s')" by fastforce
    then obtain bs where bs: "r = Some bs" using tcp_recv_ev_None [of n "net s" s s'] less.prems False by (cases r) auto
    have s': "rx_bytes (ssl s) (net s) = bs @ rx_bytes (ssl s) (net s')" "length bs \<le> n" "s' = s\<lparr>net := net s', bytes_in := bytes_in s'\<rparr>"
      using tcp_recv_ev_Some [of n "net s" s bs s'] r bs less.prems by auto
    have "bs \<noteq> []" using tcp_recv_ev_nonempty r bs by blast
    moreover have "open_sock s'" "ssl s' = ssl s" by (subst s'(3), use less.prems in \<open>simp add: open_sock_def\<close>)+
    moreover have "n - length bs \<le> length (rx_bytes (ssl s) (net s'))" "n - length bs < n"
      using less.prems(2) s'(1) \<open>bs \<noteq> []\<close> False by (auto simp: neq_Nil_conv)
    ultimately obtain t where t: "postdata_loop (n - length bs) s' = Some (take (n - length bs) (rx_bytes (ssl s) (net s')), t)"
        "t = s'\<lparr>net := net t, bytes_in := bytes_in t\<rparr>" "rx_bytes (ssl s) (net t) = drop (n - length bs) (rx_bytes (ssl s) (net s'))"
      using less.IH [of "n - length bs" s'] by auto
    have "postdata_loop n s = Some (bs @ take (n - length bs) (rx_bytes (ssl s) (net s')), t)"
      using False r bs t(1) by (subst postdata_loop.simps) (simp add: tcp_recv_def)
    moreover have "t = s\<lparr>net := net t, bytes_in := bytes_in t\<rparr>" using t(2) s'(3) by (metis tcp_socket.update_convs(5,10) tcp_socket.surjective)
    ultimately show ?thesis using s'(1,2) t(3) by auto
  qed
qed

lemma read_postdata_body:
  assumes "buf_ok s" "open_sock s" "stream s = body" "int (length body) \<le> max_post_size cf"
  shows "\<exists>t. read_postdata cf (int (length body)) s = Some (body, t) \<and> stream t = []"
proof -
  let ?s = "s\<lparr>recvbuf := zeros RECVBUF, recvbufoffset := 0, recvbufsize := 0\<rparr>" and ?b = "rx_bytes (ssl s) (net s)"
  have p: "length (pending s) = recvbufsize s" using assms(1) by (auto simp: pending_def buf_ok_def)
  have b: "body = pending s @ ?b" using assms(3) by (simp add: stream_def)
  then have n: "nat (int (length body) - int (recvbufsize s)) = length ?b" using p by simp
  have "open_sock ?s" using assms(2) by (simp add: open_sock_def)
  then obtain t where t: "postdata_loop (length ?b) ?s = Some (?b, t)" "t = ?s\<lparr>net := net t, bytes_in := bytes_in t\<rparr>" "rx_bytes (ssl s) (net t) = []"
    using postdata_loop_bytes [of ?s "length ?b"] by auto
  have "stream t = []" unfolding stream_def pending_def by (subst (1 2 3 4) t(2)) (simp add: t(3))
  moreover have "int (recvbufsize s) - 2 \<le> int (length body)" using b p by simp
  ultimately show ?thesis using t(1) n b assms(4) by (simp add: read_postdata_def)
qed

lemma post_request:
  assumes "request_ok ''POST'' u p hs" "buf_ok s" "open_sock s" "stream s = request_text ''POST'' u p hs @ body"
    and "hd0 (cstr (decodeurl u)) = CHR ''/''" "fst (request_maps cf ''POST'' u p hs) ''CONTENT_LENGTH'' = Some (WNum (int (length body)))"
    and "int (length body) < max_post_size cf"
  shows "\<exists>rq. read_header cf late s = Ready rq \<and> stream (rq_sock rq) = [] \<and> rq_post rq = Some body
    \<and> table_ok name_key (rq_server rq) \<and> table_ok name_key (rq_cookie rq)
    \<and> table_map (rq_server rq) = url_map (cstr (decodeurl u)) (fst (request_maps cf ''POST'' u p hs))
    \<and> table_map (rq_cookie rq) = snd (request_maps cf ''POST'' u p hs)"
proof -
  have m: "map toupper ''POST'' = ''POST''" by code_simp
  obtain sv ck s' where h: "read_header cf late s = finish_header cf ''POST'' (cstr (decodeurl u)) (sv, ck) s'" "stream s' = body"
      "buf_ok s'" "open_sock s'" "table_ok name_key sv" "table_ok name_key ck" "(table_map sv, table_map ck) = request_maps cf ''POST'' u p hs"
    using read_header_text [OF assms(1-4), of cf late] unfolding m by blast
  have t: "table_map sv = fst (request_maps cf ''POST'' u p hs)" "table_map ck = snd (request_maps cf ''POST'' u p hs)"
    using h(7) by (metis fst_conv, metis snd_conv)
  then have n: "getnum sv ''CONTENT_LENGTH'' = int (length body)" using h(5) assms(6) by (simp add: var_map)
  obtain t' where "read_postdata cf (int (length body)) s' = Some (body, t')" "stream t' = []"
    using read_postdata_body [OF h(3,4,2), of cf] assms(7) by auto
  then show ?thesis using h t n assms(5,7) by (simp add: finish_header_def Let_def url_vars_map)
qed

text \<open>Header lines leave the variables of the request line alone.\<close>

lemma hdr_maps_method: "fst (hdr_maps h mc) ''REQUEST_METHOD'' = fst mc ''REQUEST_METHOD''" "fst (hdr_maps h mc) ''REQUEST_URI'' = fst mc ''REQUEST_URI''"
  by (cases h; cases mc; simp add: header_name_def snprintf_def)+

lemma request_maps_method:
  "fst (request_maps cf m u p hs) ''REQUEST_METHOD'' = Some (WStr (map toupper m))"
  "fst (request_maps cf m u p hs) ''REQUEST_URI'' = Some (WStr (cstr (decodeurl u)))"
proof -
  have "fst (fold hdr_maps hs mc) ''REQUEST_METHOD'' = fst mc ''REQUEST_METHOD'' \<and> fst (fold hdr_maps hs mc) ''REQUEST_URI'' = fst mc ''REQUEST_URI''" for mc
    by (induction hs arbitrary: mc) (simp_all add: hdr_maps_method)
  then show "fst (request_maps cf m u p hs) ''REQUEST_METHOD'' = Some (WStr (map toupper m))"
      "fst (request_maps cf m u p hs) ''REQUEST_URI'' = Some (WStr (cstr (decodeurl u)))"
    by (simp_all add: request_maps_def start_map_def)
qed

lemma url_map_other: "k \<notin> {''QUERY_STRING'', ''SCRIPT_NAME'', ''SERVER_NAME''} \<Longrightarrow> url_map uri m k = m k"
  by (simp add: url_map_def)

section \<open>Coming back with a token\<close>

lemma length_session_token: "length (session_token u now) = 32"
proof -
  have "length (md5_digest h) = 16" for h by (cases h) (simp add: md5_digest_def)
  then have "length (fst (md5_final c)) = 16" for c by (simp add: md5_final_def Let_def)
  then show ?thesis by (simp add: session_token_def length_hex_bytes Let_def)
qed

lemma renewcookie_again:
  assumes "auth_renewcookie db ss ip st d0 = (0, d)" "length (h_token d0) = 32" "h_token d1 = h_token d0"
  shows "\<exists>d'. auth_renewcookie db ss ip True d1 = (0, d') \<and> h_username d' = h_username d \<and> h_uid d' = h_uid d \<and> h_gid d' = h_gid d
    \<and> h_did d' = h_did d \<and> h_token d' = h_token d"
  using assms by (auto simp: auth_renewcookie_def Let_def split: if_splits option.splits list.splits)

lemma login_renews:
  assumes "http_login db limit now cf rq gp dat ss = (User, d, ss')"
  shows "\<exists>d0 st. auth_renewcookie db ss' (remote_addr cf) st d0 = (0, d) \<and> length (h_token d0) = 32 \<and> h_token d = h_token d0"
proof -
  let ?r = "login_request cf rq gp"
  have ip: "r_addr ?r = remote_addr cf" by (simp add: login_request_def)
  obtain rc d1 where g: "auth_getcookie db ss ?r dat = (rc, d1)" by fastforce
  show ?thesis
  proof (cases "rc = 0")
    case True
    then have "d = d1" "ss' = ss" using assms g by (auto simp: http_login_def split: if_splits)
    then show ?thesis using g True renewcookie_0 [OF g [unfolded True auth_getcookie_def ip]] unfolding auth_getcookie_def ip by fastforce
  next
    case False
    then have c: "auth_setcookie db limit now ss ?r d1 = (0, d, ss')"
      using assms g by (auto simp: http_login_def split: prod.splits if_splits)
    have "h_token (login_row db now ?r d1) = session_token (h_username (login_dat db ?r d1)) now" by (rule login_row_simps)
    then have l: "length (h_token (login_row db now ?r d1)) = 32" by (simp add: length_session_token)
    obtain st where r: "auth_renewcookie db ss' (remote_addr cf) st (login_row db now ?r d1) = (0, d)"
      using c unfolding auth_setcookie_cases ip by (auto split: if_splits prod.splits)
    show ?thesis using r l renewcookie_0 [OF r] by fastforce
  qed
qed

section \<open>Examples\<close>

definition demo_conf :: http_conf where
  "demo_conf = \<lparr>max_post_size = 1000, remote_addr = ''10.0.0.9'', remote_port = 4000, server_addr = ''10.0.0.1'', server_port = 80,
     server_software = ''nullg'', nsp_version = ''0''\<rparr>"

definition demo_link :: "rx list \<Rightarrow> tcp_socket" where
  "demo_link es = demo_socket\<lparr>net := es\<rparr>"

lemma demo_link_ok: "buf_ok (demo_link es)" "open_sock (demo_link es)" "stream (demo_link es) = rx_bytes False es"
  by (simp_all add: demo_link_def demo_socket_def buf_ok_def open_sock_def stream_def pending_def zeros_def RECVBUF_def)

definition demo_hdrs :: "hdr list" where
  "demo_hdrs = [Field ''Host'' ''x.org:80'', Cookies [(''a'', ''b''), (''gstoken'', ''t'')]]"

definition demo_get :: tcp_socket where
  "demo_get = demo_link [RxData ''GET /p?x=1 HT'', RxAgain,
     RxData (''TP/1.1'' @ CRLF @ ''Host: x.org:80'' @ CRLF @ ''Cookie: a=b; gst''), RxData (''oken=t'' @ CRLF @ CRLF)]"

definition demo_post :: tcp_socket where
  "demo_post = demo_link [RxData (''POST /p HTTP/1.1'' @ CRLF @ ''Content-Length: 15'' @ CRLF @ CRLF @ ''to''), RxData ''pic=a%20b&n=1'']"

section \<open>Properties\<close>

text \<open>
  C22. A GET request is read as it is written, however the network cuts it into pieces: \<open>read_header\<close> accepts it, leaves the socket
  at the bytes behind it, and the variables for scripts are the maps that one gets by storing the request line and then
  the header lines in their order, a later line of the same name replacing the earlier one, the cookies one by one, the
  query string behind the first question mark of the decoded path, and the host without its port.
\<close>

theorem http_request_parsed:
  assumes "request_ok ''GET'' u p hs" and "buf_ok s" and "open_sock s" and "stream s = request_text ''GET'' u p hs @ rest"
    and "hd0 (cstr (decodeurl u)) = CHR ''/''"
  shows "\<exists>rq. read_header cf late s = Ready rq \<and> stream (rq_sock rq) = rest \<and> rq_post rq = None
    \<and> table_map (rq_server rq) = url_map (cstr (decodeurl u)) (fst (request_maps cf ''GET'' u p hs))
    \<and> table_map (rq_cookie rq) = snd (request_maps cf ''GET'' u p hs)"
  using get_request [OF assms] by blast

theorem http_request_parsed_witness:
  "\<exists>rq. read_header demo_conf [] demo_get = Ready rq \<and> stream (rq_sock rq) = []
    \<and> table_map (rq_server rq) ''SERVER_NAME'' = Some (WStr ''x.org'') \<and> table_map (rq_server rq) ''QUERY_STRING'' = Some (WStr ''x=1'')
    \<and> table_map (rq_cookie rq) ''gstoken'' = Some (WStr ''t'')"
proof -
  let ?u = "''/p?x=1''" and ?p = "''HTTP/1.1''"
  have ok: "request_ok ''GET'' ?u ?p demo_hdrs" by code_simp
  have b: "buf_ok demo_get" "open_sock demo_get" unfolding demo_get_def by (rule demo_link_ok)+
  have st: "stream demo_get = request_text ''GET'' ?u ?p demo_hdrs @ []"
    by (simp add: demo_get_def demo_link_ok request_text_def demo_hdrs_def)
  have d: "cstr (decodeurl ?u) = ?u" by code_simp
  have n: "header_name ''Host'' = ''HTTP_HOST''" by code_simp
  have m: "map_str (fst (request_maps demo_conf ''GET'' ?u ?p demo_hdrs)) ''HTTP_HOST'' = ''x.org:80''"
      "snd (request_maps demo_conf ''GET'' ?u ?p demo_hdrs) ''gstoken'' = Some (WStr ''t'')"
    by (simp_all add: request_maps_def demo_hdrs_def n map_str_def set_all_def)
  have q: "url_map ?u mm ''QUERY_STRING'' = Some (WStr ''x=1'')" for mm by (simp add: url_map_def strchr_def)
  have h: "url_map ?u mm ''SERVER_NAME'' = Some (WStr (takeWhile (\<lambda>c. c \<noteq> CHR '':'') (take (HLINE - 1) (map_str mm ''HTTP_HOST''))))" for mm
    by (simp add: url_map_def)
  have "hd0 (cstr (decodeurl ?u)) = CHR ''/''" unfolding d by simp
  from http_request_parsed [OF ok b st this, of demo_conf "[]"] show ?thesis
    unfolding d using m q h by (auto simp: HLINE_def)
qed




definition back_hdrs :: "hdr list" where
  "back_hdrs = [Cookies [(''gstoken'', session_token ''bob'' 0)]]"

definition demo_back :: request where
  "demo_back = \<lparr>rq_server = setstr ''REQUEST_URI'' ''/'' empty_table, rq_cookie = setstr ''gstoken'' (session_token ''bob'' 0) empty_table,
     rq_header = empty_table, rq_post = None, rq_sock = demo_link []\<rparr>"

lemma demo_back_login:
  "http_login demo_webdb 2 0 demo_conf demo_back (empty_table, empty_table) no_dat [bob_session] = (User, bob_dat, [bob_session])"
proof -
  have "auth_getcookie demo_webdb [bob_session] (login_request demo_conf demo_back (empty_table, empty_table)) no_dat
      = auth_getcookie demo_webdb [bob_session] demo_cookie_req no_dat"
    by (simp add: auth_getcookie_def login_request_def demo_conf_def demo_back_def demo_cookie_req_def demo_login_req_def var_map setstr_map empty_map)
  moreover have "getstr (rq_server demo_back) ''REQUEST_URI'' = ''/''"
    by (simp add: demo_back_def getstr_map setstr_map empty_map map_str_def)
  ultimately show ?thesis by (simp add: http_login_def Let_def demo_cookie)
qed

lemma back_request_ok: "request_ok ''GET'' ''/'' ''HTTP/1.1'' back_hdrs"
proof -
  have "set (''Cookie: '' @ cookie_text [(''gstoken'', session_token ''bob'' 0)]) \<inter> {NUL, CR, LF} = {}"
    using session_token_hex [of "''bob''" 0] by (auto simp: control_chars)
  moreover have "CHR '';'' \<notin> set (session_token ''bob'' 0)" using session_token_hex [of "''bob''" 0] by auto
  ultimately show ?thesis
    by (auto simp: request_ok_def back_hdrs_def cookie_ok_def line_ok_def HLINE_def length_session_token control_chars)
qed


section \<open>What the tests of the code do\<close>

text \<open>
  The connection is kept open only on request: a header line that is missing reads as \<open>null\<close>, so the test for HTTP/1.1 without the line
  \<open>Connection\<close> is never true.
\<close>

lemma no_default_keep_alive:
  assumes "table_ok name_key sv" "table_map sv ''HTTP_CONNECTION'' = None"
  shows "keep_alive empty_table sv = ''Close''"
proof -
  have "\<not> strcaseeq ''null'' ''Keep-Alive''" by code_simp
  then show ?thesis using assms by (simp add: keep_alive_def getstr_map map_str_def)
qed

text \<open>The query string is decoded twice, with the path and again value by value: an encoded percent sign does not survive.\<close>

lemma query_decoded_twice:
  "getval (read_vars ''q=100%25'' empty_table) ''Q'' = Some ''100%''"
  "getval (read_vars (cstr (decodeurl ''q=5%252B5'')) empty_table) ''Q'' = Some ''5+5''"
  by code_simp+

end
