(* ===== verification/HttpReply.thy ===== *)
theory HttpReply
  imports HttpRequest
begin

text \<open>
  Answers of the HTTP module: \<open>src/src/modules/core/httpd/httpd_io.c\<close>, with \<open>send_header\<close> of \<open>httpd_http.c\<close> and \<open>htnsp_flush\<close> of
  \<open>httpd_nsp.c\<close>. The text of a page is collected in a buffer of 32768 bytes; the header goes out before its first
  bytes, with the length of the page if the page is complete by then. Dates in the formats of the protocol are arguments.
\<close>

section \<open>State\<close>

record reply =
  o_status :: int
  o_headdone :: bool
  o_bodydone :: bool
  o_flushed :: bool
  o_bytecount :: int
  o_length :: int
  o_buf :: string
  o_server :: vars
  o_header :: vars
  o_sock :: tcp_socket

definition REPLYSIZE :: nat where "REPLYSIZE = 32768"

section \<open>The header\<close>

text \<open>The name of a variable as the name of a header line.\<close>

fun title_loop :: "string \<Rightarrow> string" where
  "title_loop [] = []"
| "title_loop [c] = [if c = CHR ''_'' then CHR ''-'' else tolower c]"
| "title_loop (c # d # s) =
     (if c = CHR ''_'' then (if isalpha d then CHR ''-'' # d # title_loop s else CHR ''-'' # title_loop (d # s))
      else tolower c # title_loop (d # s))"

definition title_name :: "string \<Rightarrow> string" where
  "title_name k = (case title_loop (take 63 k) of [] \<Rightarrow> [] | c # s \<Rightarrow> toupper c # s)"

definition var_line :: "webval obj \<Rightarrow> string list" where
  "var_line x = (case obj_val x of
     WStr v \<Rightarrow> [title_name (obj_name x) @ '': '' @ v @ CRLF]
   | WNum n \<Rightarrow> [title_name (obj_name x) @ '': '' @ dec_int n @ CRLF]
   | WFile _ _ _ \<Rightarrow> [])"

definition connection :: "reply \<Rightarrow> string" where
  "connection r =
     (if o_status r < 200 \<or> 400 \<le> o_status r then ''Close''
      else if strcaseeq (getstr (o_server r) ''HTTP_CONNECTION'') ''Keep-Alive'' \<and> o_bodydone r then ''Keep-Alive''
      else if getstr (o_server r) ''HTTP_CONNECTION'' = [] \<and> o_bodydone r \<and> strcaseeq (getstr (o_server r) ''SERVER_PROTOCOL'') ''HTTP/1.1''
        then ''Keep-Alive''
      else ''Close'')"

definition header_vars :: "reply \<Rightarrow> vars" where
  "header_vars r =
     setstr ''PROTOCOL'' (if after_tag ''HTTP/1.1'' (getstr (o_server r) ''SERVER_PROTOCOL'') \<noteq> None then ''HTTP/1.1'' else ''HTTP/1.0'')
       (setstr ''CONNECTION'' (connection r) (o_header r))"

definition body_length :: "reply \<Rightarrow> int" where
  "body_length r = (if o_bodydone r \<and> \<not> o_flushed r then o_bytecount r else o_length r)"

definition reply_lines :: "string \<Rightarrow> reply \<Rightarrow> string list" where
  "reply_lines server r =
     (let hr = header_vars r in
      [getstr hr ''PROTOCOL'' @ '' '' @ dec_int (o_status r) @ '' OK'' @ CRLF]
      @ concat (map var_line (objs hr))
      @ [''Server: '' @ server @ CRLF, ''Status: '' @ dec_int (o_status r) @ CRLF]
      @ (if o_bodydone r then [''Content-Length: '' @ dec_int (body_length r) @ CRLF] else [])
      @ (if list_ex (\<lambda>x. obj_name x = ''CONTENT_TYPE'' \<and> var_line x \<noteq> []) (objs hr) then [] else [''Content-Type: text/plain'' @ CRLF])
      @ [CRLF])"

fun send_lines :: "string list \<Rightarrow> tcp_socket \<Rightarrow> bool \<times> tcp_socket" where
  "send_lines [] s = (True, s)"
| "send_lines (l # ls) s = (case tcp_fprintf l s of (n, s') \<Rightarrow> if n < 0 then (False, s') else send_lines ls s')"

definition flushheader :: "string \<Rightarrow> reply \<Rightarrow> reply" where
  "flushheader server r =
     (if o_headdone r then r
      else if o_status r = 0 then r\<lparr>o_headdone := True\<rparr>
      else case send_lines (reply_lines server r) (o_sock r) of (ok, s) \<Rightarrow>
        r\<lparr>o_length := body_length r, o_header := header_vars r, o_sock := (if ok then s else tcp_close True s), o_headdone := True\<rparr>)"

section \<open>The body\<close>

function flush_loop :: "string \<Rightarrow> tcp_socket \<Rightarrow> tcp_socket" where
  "flush_loop b s =
     (if b = [] then s
      else case tcp_send_nolog (take 4096 b) s of (n, s') \<Rightarrow> if n < 0 then s' else flush_loop (drop (nat n) b) s')"
  by pat_completeness auto
termination
proof (relation "measure (\<lambda>(b, s). length b + length (txres s))", goal_cases)
  case (2 b s n s')
  then have "nat n = 0 \<and> length (txres s') < length (txres s) \<or> 0 < nat n \<and> length (txres s') \<le> length (txres s)"
    by (cases "txres s"; cases "hd (txres s)"; cases b) (auto simp: tcp_send_nolog_def split: if_splits)
  then show ?case using 2(1) by (cases b) auto
qed simp

declare flush_loop.simps [simp del]

definition flushbuffer :: "string \<Rightarrow> reply \<Rightarrow> reply" where
  "flushbuffer server r =
     (let r = flushheader server r in
      if o_buf r = [] then r else r\<lparr>o_flushed := True, o_sock := flush_loop (o_buf r) (o_sock r), o_buf := []\<rparr>)"

text \<open>\<open>prints\<close> with the text that its arguments format to, and \<open>raw_prints\<close>.\<close>

definition nearly_full :: "string \<Rightarrow> bool" where
  "nearly_full b \<longleftrightarrow> REPLYSIZE - 2 < length b + SMALLBUF"

definition prints :: "string \<Rightarrow> string \<Rightarrow> reply \<Rightarrow> reply" where
  "prints server t r =
     (let b = snprintf (SMALLBUF - 1) t;
          r = r\<lparr>o_bytecount := o_bytecount r + int (length b)\<rparr>;
          r = (if nearly_full (o_buf r) then flushbuffer server r else r);
          r = r\<lparr>o_buf := o_buf r @ b\<rparr>
      in if nearly_full (o_buf r) then flushbuffer server r else r)"

definition raw_prints :: "string \<Rightarrow> string \<Rightarrow> reply \<Rightarrow> int \<times> reply" where
  "raw_prints server t r =
     (let b = snprintf 2047 t;
          r = flushbuffer server (r\<lparr>o_bytecount := o_bytecount r + int (length b)\<rparr>)
      in case tcp_send_nolog b (o_sock r) of (n, s) \<Rightarrow> (n, r\<lparr>o_sock := s\<rparr>))"

text \<open>\<open>htnsp_flush\<close>: the output of a script, which is not empty.\<close>

function nsp_flush_loop :: "string \<Rightarrow> string \<Rightarrow> reply \<Rightarrow> reply" where
  "nsp_flush_loop server out r =
     (let room = REPLYSIZE - length (o_buf r) - 1 in
      if room < 512 then (if out = [] then flushbuffer server r else nsp_flush_loop server out (flushbuffer server r))
      else
        let r' = r\<lparr>o_buf := o_buf r @ take room out, o_bytecount := o_bytecount r + int (length (take room out))\<rparr> in
        if drop room out = [] then r' else nsp_flush_loop server (drop room out) r')"
  by pat_completeness auto
termination
proof (relation "measures [\<lambda>(server, out, r). length out, \<lambda>(server, out, r). length (o_buf r)]", goal_cases)
  case (2 server out r room)
  then have "o_buf (flushbuffer server r) = []" by (simp add: flushbuffer_def Let_def)
  moreover have "o_buf r \<noteq> []" using 2 by (auto simp: REPLYSIZE_def)
  ultimately show ?case by simp
next
  case (3 server out r room r')
  have "length (drop room out) < length out" using 3(2,4) by (cases out) auto
  then show ?case by simp
qed simp

declare nsp_flush_loop.simps [simp del]

definition htnsp_flush :: "string \<Rightarrow> string \<Rightarrow> reply \<Rightarrow> reply" where
  "htnsp_flush server out r = (let r = nsp_flush_loop server out r in if o_buf r \<noteq> [] then flushbuffer server r else r)"

section \<open>Files\<close>

text \<open>\<open>send_header\<close>; the dates are texts, \<open>None\<close> a time that is not given.\<close>

definition send_header :: "bool \<Rightarrow> int \<Rightarrow> string option \<Rightarrow> int \<Rightarrow> string option \<Rightarrow> string \<Rightarrow> reply \<Rightarrow> reply" where
  "send_header cacheable status mime len modified now r =
     (let r = r\<lparr>o_status := (if status \<noteq> 0 then status else if getnum (o_header r) ''STATUS'' \<noteq> 0 then getnum (o_header r) ''STATUS'' else 200),
                 o_length := (if 0 \<le> len then len else o_length r)\<rparr>;
          h = (case modified of Some t \<Rightarrow> setstr ''LAST_MODIFIED'' t (o_header r) | None \<Rightarrow> o_header r);
          h = setstr ''DATE'' now h;
          h = (if cacheable then setstr ''PRAGMA'' ''public'' (setstr ''CACHE_CONTROL'' ''public'' h)
               else setstr ''PRAGMA'' ''no-cache'' (setstr ''EXPIRES'' now
                 (setstr ''CACHE_CONTROL'' ''no-cache, no-store, must-revalidate'' h)))
      in r\<lparr>o_header := setstr ''CONTENT_TYPE'' (case mime of Some m \<Rightarrow> m | None \<Rightarrow> ''text/html'') h\<rparr>)"

definition BLOCK :: nat where "BLOCK = 65536"

text \<open>
  The loop that sends a file, \<open>rest\<close> being what is left to read. The number of bytes left is raised to the size of a block
  where the size of the block was to be lowered.
\<close>

function file_loop :: "int \<Rightarrow> string \<Rightarrow> tcp_socket \<Rightarrow> tcp_socket" where
  "file_loop bytesleft rest s =
     (if bytesleft \<le> 0 \<or> rest = [] then s
      else case tcp_send_nolog (take BLOCK rest) s of (n, s') \<Rightarrow>
        if n < 0 then s'
        else file_loop (max bytesleft (int BLOCK) - int (length (take BLOCK rest))) (drop BLOCK rest) s')"
  by pat_completeness auto
termination
proof (relation "measure (\<lambda>(bytesleft, rest, s). length rest)", goal_cases)
  case (2 bytesleft rest s n s')
  then show ?case by (simp add: BLOCK_def)
qed simp

declare file_loop.simps [simp del]

text \<open>The first byte of the buffer is set to NUL, its length stays.\<close>

definition blank_first :: "reply \<Rightarrow> reply" where
  "blank_first r = r\<lparr>o_buf := (case o_buf r of [] \<Rightarrow> [] | _ # b \<Rightarrow> NUL # b)\<rparr>"

text \<open>A file: its bytes and the text of its time.\<close>

definition filesend :: "(string \<Rightarrow> (string \<times> string) option) \<Rightarrow> (string \<Rightarrow> string) \<Rightarrow> string \<Rightarrow> string \<Rightarrow> string \<Rightarrow> reply \<Rightarrow> int \<times> reply" where
  "filesend fs mime server now path r =
     (let file = fixslashes (cstr (decodeurl path)) in
      if after_text ''..'' file \<noteq> None then (- 1, r)
      else case fs file of
        None \<Rightarrow> (- 1, r)
      | Some (content, modified) \<Rightarrow>
          let size = int (length content) in
          if strcaseeq modified (getstr (o_server r) ''HTTP_IF_MODIFIED_SINCE'') then
            (0, blank_first (flushheader server (send_header True 304 (Some (mime file)) size (Some modified) now (r\<lparr>o_bodydone := True\<rparr>))))
          else
            let r = flushheader server (send_header True 200 (Some (mime file)) size (Some modified) now
                      (r\<lparr>o_bytecount := size, o_bodydone := True\<rparr>));
                r = r\<lparr>o_sock := file_loop size content (o_sock r), o_headdone := True, o_flushed := True\<rparr>
            in (0, flushbuffer server (blank_first r)))"

section \<open>On a healthy link\<close>

definition header_bytes :: "string \<Rightarrow> reply \<Rightarrow> string" where
  "header_bytes server r = concat (map (snprintf 2047) (reply_lines server r))"

lemma send_lines_push: "link_up s \<Longrightarrow> send_lines ls s = (True, push (concat (map (snprintf 2047) ls)) s)"
  by (induction ls arbitrary: s) (simp_all add: tcp_fprintf_def send_push)

lemma flush_loop_push: "link_up s \<Longrightarrow> flush_loop b s = push b s"
proof (induction b arbitrary: s rule: length_induct)
  case (1 b)
  show ?case
  proof (cases "b = []")
    case False
    then have "length (drop 4096 b) < length b" by (cases b) simp_all
    then have "flush_loop (drop 4096 b) (push (take 4096 b) s) = push b s" using 1 by simp
    moreover have "nat (int (length (take 4096 b))) = min (length b) 4096" by simp
    moreover have "drop (min (length b) 4096) b = drop 4096 b" by (simp add: min_def)
    ultimately show ?thesis using False by (subst flush_loop.simps) (simp add: send_push [OF 1(2)])
  qed (simp add: flush_loop.simps)
qed

lemma file_loop_push: "link_up s \<Longrightarrow> int (length c) \<le> n \<Longrightarrow> file_loop n c s = push c s"
proof (induction c arbitrary: n s rule: length_induct)
  case (1 c)
  show ?case
  proof (cases "c = []")
    case False
    then have "length (drop BLOCK c) < length c" by (cases c) (simp_all add: BLOCK_def)
    moreover have "int (length (drop BLOCK c)) \<le> max n (int BLOCK) - int (length (take BLOCK c))" using 1(3) by (auto simp: min_def max_def)
    ultimately have "file_loop (max n (int BLOCK) - int (length (take BLOCK c))) (drop BLOCK c) (push (take BLOCK c) s) = push c s"
      using 1(1,2) by (simp del: length_take length_drop)
    moreover have "0 < n" using 1(3) False by (cases c) auto
    ultimately show ?thesis using False by (subst file_loop.simps) (simp add: send_push [OF 1(2)] del: length_take)
  qed (simp add: file_loop.simps)
qed

lemma flushheader_push:
  assumes "link_up (o_sock r)" "\<not> o_headdone r" "o_status r \<noteq> 0"
  shows "flushheader server r = r\<lparr>o_length := body_length r, o_header := header_vars r, o_sock := push (header_bytes server r) (o_sock r), o_headdone := True\<rparr>"
  using assms by (simp add: flushheader_def send_lines_push header_bytes_def)

lemma flushbuffer_done:
  assumes "link_up (o_sock r)" "o_headdone r"
  shows "o_sock (flushbuffer server r) = push (o_buf r) (o_sock r)" "o_buf (flushbuffer server r) = []" "o_headdone (flushbuffer server r)"
    "o_bodydone (flushbuffer server r) = o_bodydone r"
  using assms by (simp_all add: flushbuffer_def flushheader_def Let_def flush_loop_push)

lemma flushbuffer_first:
  assumes "link_up (o_sock r)" "\<not> o_headdone r" "o_status r \<noteq> 0"
  shows "o_sock (flushbuffer server r) = push (header_bytes server r @ o_buf r) (o_sock r)" "o_buf (flushbuffer server r) = []"
    "o_headdone (flushbuffer server r)" "o_bodydone (flushbuffer server r) = o_bodydone r"
  using assms by (simp_all add: flushbuffer_def flushheader_push Let_def flush_loop_push)

text \<open>The header of a page that is not complete does not depend on the page.\<close>

lemma header_bytes_open: "\<not> o_bodydone r \<Longrightarrow> header_bytes server (r\<lparr>o_bytecount := n, o_buf := b\<rparr>) = header_bytes server r"
  by (simp add: header_bytes_def reply_lines_def header_vars_def connection_def Let_def)

section \<open>Pages\<close>

definition piece :: "string \<Rightarrow> string" where
  "piece t = snprintf (SMALLBUF - 1) t"

definition finish_reply :: "string \<Rightarrow> reply \<Rightarrow> reply" where
  "finish_reply server r = flushbuffer server (r\<lparr>o_bodydone := True\<rparr>)"

definition fresh_reply :: "reply \<Rightarrow> bool" where
  "fresh_reply r \<longleftrightarrow> link_up (o_sock r) \<and> \<not> o_headdone r \<and> \<not> o_bodydone r \<and> \<not> o_flushed r \<and> o_bytecount r = 0 \<and> o_buf r = [] \<and> o_status r \<noteq> 0"

text \<open>While a page is printed, either all of it is in the buffer, or the header is out and the rest in front of the buffer.\<close>

definition sending :: "string \<Rightarrow> reply \<Rightarrow> string \<Rightarrow> reply \<Rightarrow> bool" where
  "sending server r0 p r \<longleftrightarrow> o_headdone r \<and> (\<exists>q. p = q @ o_buf r \<and> o_sock r = push (header_bytes server r0 @ q) (o_sock r0))"

definition printed :: "string \<Rightarrow> reply \<Rightarrow> string \<Rightarrow> reply \<Rightarrow> bool" where
  "printed server r0 p r \<longleftrightarrow>
     r = r0\<lparr>o_bytecount := int (length p), o_buf := p\<rparr> \<and> \<not> nearly_full p \<or> nearly_full p \<and> sending server r0 p r"

lemma nearly_full_append: "nearly_full p \<Longrightarrow> nearly_full (p @ b)"
  by (simp add: nearly_full_def)

lemma sending_flush:
  assumes "link_up (o_sock r0)" "sending server r0 p r"
  shows "sending server r0 p (flushbuffer server r)"
proof -
  have "link_up (o_sock r)" "o_headdone r" using assms by (auto simp: sending_def)
  from flushbuffer_done [OF this, of server] show ?thesis using assms(2) by (auto simp: sending_def)
qed

lemma sending_print:
  assumes "sending server r0 p r"
  shows "sending server r0 (p @ b) (r\<lparr>o_buf := o_buf r @ b\<rparr>)" "sending server r0 p (r\<lparr>o_bytecount := n\<rparr>)"
  using assms by (auto simp: sending_def)

lemma prints_printed:
  assumes "fresh_reply r0" "printed server r0 p r"
  shows "printed server r0 (p @ piece t) (prints server t r)"
proof (cases "nearly_full p")
  case False
  let ?b = "piece t"
  let ?r1 = "r0\<lparr>o_bytecount := int (length (p @ ?b)), o_buf := p @ ?b\<rparr>"
  have f: "link_up (o_sock ?r1)" "\<not> o_headdone ?r1" "o_status ?r1 \<noteq> 0" "\<not> o_bodydone r0" using assms(1) by (auto simp: fresh_reply_def)
  have e: "prints server t r = (if nearly_full (p @ ?b) then flushbuffer server ?r1 else ?r1)"
    using assms(2) False by (simp add: printed_def prints_def piece_def Let_def)
  show ?thesis
  proof (cases "nearly_full (p @ ?b)")
    case True
    then show ?thesis unfolding e printed_def sending_def
      using flushbuffer_first [OF f(1-3), of server] header_bytes_open [OF f(4), of server] by simp
  qed (simp add: e printed_def)
next
  case True
  have l: "link_up (o_sock r0)" using assms(1) by (simp add: fresh_reply_def)
  have "sending server r0 p r" using assms(2) True by (simp add: printed_def)
  then have "sending server r0 p (r\<lparr>o_bytecount := n\<rparr>)" for n by (rule sending_print)
  note s1 = this sending_flush [OF l this]
  have "sending server r0 (p @ piece t) (prints server t r)"
    unfolding prints_def Let_def piece_def using s1 sending_flush [OF l] sending_print(1) by (auto split: if_splits)
  then show ?thesis using nearly_full_append [OF True] by (simp add: printed_def)
qed

lemma fold_prints_printed:
  assumes "fresh_reply r0" "printed server r0 p r"
  shows "printed server r0 (p @ concat (map piece ts)) (fold (prints server) ts r)"
  using assms(2)
proof (induction ts arbitrary: p r)
  case (Cons t ts)
  from Cons.IH [OF prints_printed [OF assms(1) Cons.prems, of t]] show ?case by simp
qed simp

lemma fresh_printed: "fresh_reply r \<Longrightarrow> printed server r [] r"
  by (simp add: printed_def fresh_reply_def nearly_full_def REPLYSIZE_def SMALLBUF_def)

text \<open>The buffer never overflows.\<close>

definition room_left :: "reply \<Rightarrow> bool" where
  "room_left r \<longleftrightarrow> \<not> nearly_full (o_buf r)"

lemma prints_room: "room_left (prints server t r)" "length (o_buf r) \<le> REPLYSIZE - SMALLBUF - 2 \<longleftrightarrow> room_left r"
proof -
  have "o_buf (flushbuffer server x) = []" for x by (simp add: flushbuffer_def Let_def)
  moreover have "\<not> nearly_full []" by (simp add: nearly_full_def REPLYSIZE_def SMALLBUF_def)
  ultimately show "room_left (prints server t r)" by (simp add: room_left_def prints_def Let_def)
  show "length (o_buf r) \<le> REPLYSIZE - SMALLBUF - 2 \<longleftrightarrow> room_left r"
    by (auto simp: room_left_def nearly_full_def REPLYSIZE_def SMALLBUF_def)
qed

section \<open>Properties\<close>

text \<open>
  C26. A page reaches the browser whole. On a link that takes what is sent, printing any texts and finishing the page sends one
  header and then the texts in their order, each cut to 4094 bytes, nothing twice and nothing lost; and if they are at most 28670
  bytes together, the header has the number of bytes that follow it as its \<open>Content-Length\<close>.
\<close>

theorem http_page_sent:
  assumes "fresh_reply r" and "p = concat (map piece ts)"
  shows "\<exists>h. sent (o_sock (finish_reply server (fold (prints server) ts r))) = sent (o_sock r) @ concat (map (snprintf 2047) h) @ p
    \<and> (length p \<le> 28670 \<longrightarrow> ''Content-Length: '' @ dec_int (int (length p)) @ CRLF \<in> set h)
    \<and> h \<in> {reply_lines server r, reply_lines server (r\<lparr>o_bytecount := int (length p), o_buf := p, o_bodydone := True\<rparr>)}"
proof -
  let ?r = "fold (prints server) ts r"
  have pr: "printed server r p ?r" using fold_prints_printed [OF assms(1) fresh_printed [OF assms(1)], of server ts] assms(2) by simp
  have f: "link_up (o_sock r)" "\<not> o_headdone r" "o_status r \<noteq> 0" "\<not> o_flushed r" using assms(1) by (auto simp: fresh_reply_def)
  show ?thesis
  proof (cases "nearly_full p")
    case False
    let ?r1 = "r\<lparr>o_bytecount := int (length p), o_buf := p, o_bodydone := True\<rparr>"
    have "finish_reply server ?r = flushbuffer server ?r1" using pr False by (simp add: printed_def finish_reply_def)
    then have "sent (o_sock (finish_reply server ?r)) = sent (o_sock r) @ header_bytes server ?r1 @ p"
      using flushbuffer_first(1) [of ?r1 server] f by simp
    moreover have "''Content-Length: '' @ dec_int (int (length p)) @ CRLF \<in> set (reply_lines server ?r1)"
      using f(4) by (simp add: reply_lines_def body_length_def Let_def)
    ultimately show ?thesis unfolding header_bytes_def by blast
  next
    case True
    have "sending server r p (?r\<lparr>o_bodydone := True\<rparr>)" using pr True by (auto simp: printed_def sending_def)
    from sending_flush [OF f(1) this] have "sending server r p (finish_reply server ?r)" by (simp add: finish_reply_def)
    moreover have "o_buf (finish_reply server ?r) = []" by (simp add: finish_reply_def flushbuffer_def Let_def)
    ultimately have "sent (o_sock (finish_reply server ?r)) = sent (o_sock r) @ header_bytes server r @ p" by (auto simp: sending_def)
    moreover have "\<not> length p \<le> 28670" using True by (simp add: nearly_full_def REPLYSIZE_def SMALLBUF_def)
    ultimately show ?thesis unfolding header_bytes_def by blast
  qed
qed

definition demo_reply :: reply where
  "demo_reply = \<lparr>o_status = 200, o_headdone = False, o_bodydone = False, o_flushed = False, o_bytecount = 0, o_length = - 1, o_buf = [],
     o_server = setstr ''SERVER_PROTOCOL'' ''HTTP/1.1'' empty_table, o_header = setstr ''CONTENT_TYPE'' ''text/html'' empty_table, o_sock = demo_link []\<rparr>"

theorem http_page_sent_witness:
  "\<exists>h. sent (o_sock (finish_reply ''nullg'' (fold (prints ''nullg'') [''ab'', ''c''] demo_reply))) = concat (map (snprintf 2047) h) @ ''abc''
    \<and> ''Content-Length: 3'' @ CRLF \<in> set h"
proof -
  have f: "fresh_reply demo_reply" by (simp add: fresh_reply_def demo_reply_def demo_link_def demo_socket_def link_up_def open_sock_def)
  have p: "''abc'' = concat (map piece [''ab'', ''c''])" by (simp add: piece_def snprintf_def SMALLBUF_def)
  have d: "dec_int 3 = ''3''" by code_simp
  have "sent (o_sock demo_reply) = []" by (simp add: demo_reply_def demo_link_def demo_socket_def)
  with http_page_sent [OF f p, of "''nullg''"] d show ?thesis by auto
qed

section \<open>Files\<close>

text \<open>A file is sent whole on a healthy link, but what the kernel does not take at once is left out.\<close>

lemma filesend_sent:
  assumes "link_up (o_sock r)" "\<not> o_headdone r" "\<not> o_flushed r" "o_buf r = []"
    and "after_text ''..'' (fixslashes (cstr (decodeurl path))) = None" "fs (fixslashes (cstr (decodeurl path))) = Some (content, modified)"
    and "\<not> strcaseeq modified (getstr (o_server r) ''HTTP_IF_MODIFIED_SINCE'')"
  shows "\<exists>r1. sent (o_sock (snd (filesend fs mime server now path r))) = sent (o_sock r) @ header_bytes server r1 @ content
    \<and> body_length r1 = int (length content) \<and> o_bodydone r1 \<and> o_status r1 = 200"
proof -
  let ?r1 = "send_header True 200 (Some (mime (fixslashes (cstr (decodeurl path))))) (int (length content)) (Some modified) now
      (r\<lparr>o_bytecount := int (length content), o_bodydone := True\<rparr>)"
  have r1: "o_sock ?r1 = o_sock r" "o_headdone ?r1 = o_headdone r" "o_status ?r1 = 200" "o_buf ?r1 = o_buf r" "o_bodydone ?r1"
      "body_length ?r1 = int (length content)"
    using assms(3) by (simp_all add: send_header_def Let_def body_length_def)
  have f: "flushheader server ?r1 = ?r1\<lparr>o_length := body_length ?r1, o_header := header_vars ?r1, o_sock := push (header_bytes server ?r1) (o_sock r), o_headdone := True\<rparr>"
    using flushheader_push [of ?r1 server] assms(1,2) r1 by simp
  have "sent (o_sock (snd (filesend fs mime server now path r))) = sent (o_sock r) @ header_bytes server ?r1 @ content"
    unfolding filesend_def Let_def assms(6) option.case prod.case f
    using assms(1,4,5,7) r1(4) by (simp add: flushbuffer_def flushheader_def blank_first_def file_loop_push Let_def)
  then show ?thesis using r1 by blast
qed

lemma file_short_write:
  "sent (file_loop 2 ''ab'' (demo_socket\<lparr>txres := [TxOk 1]\<rparr>)) = ''a''"
  by (subst file_loop.simps) (simp add: file_loop.simps tcp_send_nolog_def demo_socket_def BLOCK_def)

end
