(* ===== verification/MailFlow.thy ===== *)
theory MailFlow
  imports SmtpQueue Pop3_Session
begin

text \<open>
  The way of a message through the server: what \<open>smtp_accept\<close> writes for a recipient elsewhere is
  what \<open>smtp_spool\<close> reads from the queue and sends.
\<close>

section \<open>Names of queue files\<close>

text \<open>The part of the names that comes from the clock.\<close>

definition queue_base :: "int \<times> int \<Rightarrow> string" where
  "queue_base t = dec_int (fst t) @ dec_pad 3 (snd t)"

text \<open>Paths that fit into the buffers for file names.\<close>

definition paths_fit :: "mail_env \<Rightarrow> int \<times> int \<Rightarrow> bool" where
  "paths_fit env t \<longleftrightarrow> length (var_dir env) + length (queue_base t) + 20 < 255"

lemma fixslashes_append [simp]: "fixslashes (a @ b) = fixslashes a @ fixslashes b"
  by (induction a) auto

lemma fixslashes_idem [simp]: "fixslashes (fixslashes s) = fixslashes s"
  by (induction s) auto

lemma queue_names:
  assumes "paths_fit env t"
  shows "mqinfo_name env t = fixslashes (var_dir env) @ ''/spool/mqinfo/'' @ fixslashes (queue_base t) @ ''.dat''"
    and "mqueue_name env t = fixslashes (var_dir env) @ ''/spool/mqueue/'' @ fixslashes (queue_base t) @ ''.msg''"
  using assms by (simp_all add: paths_fit_def queue_base_def mqinfo_name_def mqueue_name_def snprintf_short)

lemma queue_dirs:
  assumes "paths_fit env t"
  shows "mqinfo_dir env = fixslashes (var_dir env) @ ''/spool/mqinfo''" "mqueue_dir env = fixslashes (var_dir env) @ ''/spool/mqueue''"
  using assms by (simp_all add: paths_fit_def mqinfo_dir_def mqueue_dir_def snprintf_short)

lemma entry_names:
  assumes "paths_fit env t"
  shows "entry_info env (queue_base t @ ''.dat'') = mqinfo_name env t"
    and "entry_msg env (queue_base t @ ''.dat'') = Some (mqueue_name env t)"
proof -
  show "entry_info env (queue_base t @ ''.dat'') = mqinfo_name env t"
    unfolding queue_names [OF assms] entry_info_def queue_dirs [OF assms]
    using assms by (simp add: paths_fit_def snprintf_short)
  have "length (fixslashes (var_dir env) @ ''/spool/mqueue'' @ ''/'' @ queue_base t @ ''.dat'') < 255"
    using assms by (simp add: paths_fit_def)
  then have "fixslashes (snprintf 255 (mqueue_dir env @ ''/'' @ queue_base t @ ''.dat''))
      = (fixslashes (var_dir env) @ ''/spool/mqueue/'' @ fixslashes (queue_base t)) @ ''.dat''"
    unfolding queue_dirs [OF assms] by (simp add: snprintf_short)
  then show "entry_msg env (queue_base t @ ''.dat'') = Some (mqueue_name env t)"
    unfolding queue_names [OF assms] entry_msg_def Let_def by simp
qed

lemma queue_names_differ: "paths_fit env t \<Longrightarrow> mqueue_name env t \<noteq> mqinfo_name env t"
  by (simp add: queue_names)

section \<open>Reading an entry back\<close>

text \<open>Addresses that are written on one line and read without their blanks.\<close>

definition address_line :: "string \<Rightarrow> bool" where
  "address_line a \<longleftrightarrow> text_line a \<and> length a < 126 \<and> hd0 a \<noteq> CHR '' '' \<and> hd0 a \<noteq> TAB"

lemma address_text: "address_line a \<Longrightarrow> text_line (tag @ '' '' @ a)"
  if "length tag = 5" "is_cstr tag" "LF \<notin> set tag" for a tag
proof -
  assume a: "address_line a"
  show ?thesis
  proof (cases a rule: rev_cases)
    case Nil
    then show ?thesis using that striprn_snoc [of tag "CHR '' ''"]
      by (simp add: text_line_def control_chars)
  next
    case (snoc b c)
    then have "c \<noteq> CR" "c \<noteq> LF" using a striprn_same_length striprn_snoc [of b c] length_striprn [of b]
      by (auto simp: address_line_def text_line_def split: if_splits)
    then show ?thesis using a that snoc striprn_snoc [of "tag @ '' '' @ b" c]
      by (simp add: address_line_def text_line_def control_chars)
  qed
qed

lemma queue_field_read:
  assumes "length tag = 5" "is_cstr tag" "LF \<notin> set tag" "address_line a"
  shows "queue_field tag (tag @ '' '' @ a @ CRLF @ rest) old = (a, rest)"
proof -
  have t: "text_line (tag @ '' '' @ a)" using address_text assms by blast
  have g: "file_gets 1023 (tag @ '' '' @ a @ CRLF @ rest) = Some ((tag @ '' '' @ a) @ CRLF, rest)"
    using file_gets_line [OF t, of rest] by simp
  have c: "cstr ((tag @ '' '' @ a) @ CRLF) = (tag @ '' '' @ a) @ CRLF"
    using t by (intro cstr_id) (simp add: text_line_def control_chars)
  have "striprn (cstr ((tag @ '' '' @ a) @ CRLF)) = tag @ '' '' @ a" using stored_line [OF t] .
  moreover have "dropWhile (\<lambda>c. c = CHR '' '' \<or> c = TAB) a = a" using assms(4) by (cases a) (auto simp: address_line_def)
  moreover have "snprintf 127 a = a" using assms(4) by (simp add: address_line_def snprintf_short)
  ultimately show ?thesis unfolding queue_field_def g using assms(1) c by (simp add: strncaseeq_def)
qed

lemma queue_info_read:
  assumes "address_line (mfrom m)" "address_line r"
  shows "\<exists>rest rest1. queue_field ''MAIL:'' (queue_info env m r) old = (mfrom m, rest)
     \<and> queue_field ''RCPT:'' rest [] = (r, rest1)"
proof -
  have "queue_field ''MAIL:'' (queue_info env m r) old = (mfrom m, ''RCPT:'' @ '' '' @ r @ CRLF @ ''DATE: '' @ date_sql env @ CRLF)"
    using queue_field_read [of "''MAIL:''" "mfrom m"] assms(1) by (simp add: queue_info_def is_cstr_def control_chars)
  moreover have "queue_field ''RCPT:'' (''RCPT:'' @ '' '' @ r @ CRLF @ ''DATE: '' @ date_sql env @ CRLF) []
      = (r, ''DATE: '' @ date_sql env @ CRLF)"
    using queue_field_read [of "''RCPT:''" r] assms(2) by (simp add: is_cstr_def control_chars)
  ultimately show ?thesis by blast
qed

section \<open>Forwarding\<close>

text \<open>The host a message for \<open>to\<close> is sent to.\<close>

definition next_hop :: "client_env \<Rightarrow> string \<Rightarrow> string option" where
  "next_hop ce to =
     (if relayhost ce \<noteq> [] then Some (relayhost ce)
      else case strchr to (CHR ''@'') of
        None \<Rightarrow> None
      | Some (user, domain) \<Rightarrow>
          if domain = [] then None else Some (case mx_host ce domain of Some h \<Rightarrow> h | None \<Rightarrow> snprintf 127 domain))"

lemma smtp_client_hop:
  assumes "next_hop ce to = Some h" "tcp_connect ce h = (rc, s)" "0 \<le> rc" "to \<noteq> []"
  shows "smtp_client env db ce body msg from to st = client_deliver env db ce body msg from to st s"
  using assms by (auto simp: next_hop_def smtp_client_def Let_def split: if_splits option.splits)

lemma accept_write_queued:
  assumes "accept_write env addr m r msg (Some info) st = Inr st1" "can_write env info" "msg \<noteq> info"
  shows "mail_files st1 = (mail_files st)(msg \<mapsto> received_header env addr m r @ msgbody m, info \<mapsto> queue_info env m r)"
  using assms by (auto simp: accept_write_def Let_def split: if_splits)

lemma spool_entry_forwards:
  assumes fit: "paths_fit env t"
    and files: "mail_files st (mqinfo_name env t) = Some (queue_info env m r)" "mail_files st (mqueue_name env t) = Some body"
    and addr: "address_line (mfrom m)" "address_line r"
    and sent: "smtp_client env db ce body (mqueue_name env t) (mfrom m) r st = Some (0, st, so)"
  shows "spool_entry env db ce (queue_base t @ ''.dat'') (old, st)
     = Some (mfrom m, unlink_file (mqueue_name env t) (unlink_file (mqinfo_name env t) st))"
proof -
  have n: "queue_base t @ ''.dat'' \<noteq> ''.''" "queue_base t @ ''.dat'' \<noteq> ''..''"
    by (force dest: arg_cong [where f = length])+
  obtain rest rest1 where "queue_field ''MAIL:'' (queue_info env m r) old = (mfrom m, rest)"
    "queue_field ''RCPT:'' rest [] = (r, rest1)" using queue_info_read [OF addr] by blast
  then show ?thesis using n entry_names [OF fit] files sent by (simp add: spool_entry_def)
qed

section \<open>Reading a stored message\<close>

lemma mbox_scan_lists:
  assumes "name \<in> set names" "name \<noteq> ''.''" "name \<noteq> ''..''"
    and "stat_file penv (fixslashes (snprintf 255 (dir @ ''/'' @ name))) = Some (sz, False)"
  shows "\<exists>e \<in> set (mbox_scan penv dir names k).
     filename e = fixslashes (snprintf 255 (dir @ ''/'' @ name)) \<and> \<not> deleted e \<and> int_range (filesize e)"
  using assms
proof (induction names arbitrary: k)
  case (Cons a names)
  have short: "snprintf 511 (fixslashes (snprintf 255 x)) = fixslashes (snprintf 255 x)" for x
    using length_snprintf [of 255 x] by (intro snprintf_short) simp
  show ?case
  proof (cases "a = name")
    case True
    then show ?thesis using Cons.prems short i32_bounds [of sz] by (auto simp: Let_def int_range_def)
  next
    case False
    then have "name \<in> set names" using Cons.prems(1) by auto
    from Cons.IH [OF this Cons.prems(2-)] show ?thesis by (auto simp: Let_def split: option.splits)
  qed
qed simp

lemma scanned_message:
  assumes "e \<in> set es"
  shows "\<exists>n. 1 \<le> n \<and> n \<le> mboxtotal (open_box es) \<and> nth_msg (open_box es) n = e"
proof -
  obtain i where "i < length es" "es ! i = e" using assms by (auto simp: in_set_conv_nth)
  then show ?thesis by (intro exI [of _ "int i + 1"]) (simp add: open_box_def nth_msg_def)
qed

text \<open>A file of the mailbox directory is a message that RETR sends as it is.\<close>

lemma listed_message_readable:
  assumes "name \<in> set names" "name \<noteq> ''.''" "name \<noteq> ''..''"
    and "fixslashes (snprintf 255 (dir @ ''/'' @ name)) = f" "stat_file penv f = Some (sz, False)"
    and "files c f = Some body" "is_cstr body"
  shows "\<exists>n. readable c (open_box (mbox_scan penv dir names 0)) n body
     \<and> filename (nth_msg (open_box (mbox_scan penv dir names 0)) n) = f"
proof -
  obtain e where e: "e \<in> set (mbox_scan penv dir names 0)" "filename e = f" "\<not> deleted e" "int_range (filesize e)"
    using mbox_scan_lists [of name names penv dir sz 0] assms by auto
  obtain n where "1 \<le> n" "n \<le> mboxtotal (open_box (mbox_scan penv dir names 0))" "nth_msg (open_box (mbox_scan penv dir names 0)) n = e"
    using scanned_message [OF e(1)] by blast
  then show ?thesis using e assms unfolding readable_def by metis
qed

lemma spool_path:
  assumes "var_path penv = var_dir env" "d_did d = did" "d_username d = user"
    and "length (spool_dir env did user) + length (queue_base t) + 5 < 255" "length (spool_dir env did user) < 254"
  shows "fixslashes (snprintf 255 (local_dirname penv d @ ''/'' @ queue_base t @ ''.msg'')) = spool_name env did user t"
proof -
  let ?p = "var_dir env @ ''/domains/'' @ dec_pad 4 did @ ''/mailspool/'' @ user"
  have d: "local_dirname penv d = spool_dir env did user" using assms by (simp add: local_dirname_def spool_dir_def)
  have p: "spool_dir env did user = ?p"
    using assms(5) by (simp add: spool_dir_def snprintf_def)
  show ?thesis using assms(4) unfolding d p spool_name_def queue_base_def by (simp add: snprintf_short)
qed

end
