(* ===== verification/Spec2Isabelle.thy ===== *)
theory Spec2Isabelle
  imports Prelude Format Tcp Base64 Md5 Accounts Pop3 Pop3_Session Spool Smtp Smtp_Session NspOps NspCompile NspCode NspLayout NspLex NspPrint NspTable NspSort HttpFormat SqlDate SmtpQueue NspExpr NspQuirks HttpReply MailFlow
begin

text \<open>
  NullLogic Groupware: a verification library for the server and its script language.

  \<^bold>\<open>The program.\<close> A server process (\<open>src/src/server\<close>) loads protocol modules (\<open>src/src/modules/core\<close>: POP3, SMTP, the mail
  queue, HTTP). They share the socket layer, the string helpers, the password hash and the SQL database. The SMTP module writes
  messages into the mailbox directories that the POP3 module reads, and into the queue that the queue module empties; a
  POP3 login opens relaying in the SMTP module; the HTTP module hands the variables of a request to scripts in the NSP
  language (\<open>src/src/nsp\<close>), which is compiled to byte code and interpreted.

  \<^bold>\<open>Shared parts.\<close>
  \<^item> \<open>Prelude\<close>: the C library as the program uses it (character classes, \<open>atoi\<close>, \<open>strchr\<close>, \<open>snprintf\<close>, 32-bit wrap-around), bytes,
    and the lemmas every component shares.
  \<^item> \<open>Tcp\<close>: \<open>TCP_SOCKET\<close> of \<open>src/include/nullg/typedefs.h\<close> and \<open>src/src/server/tcp.c\<close>. The kernel is a list of outcomes of \<open>recv\<close> and
    one of \<open>send\<close>. The locale \<open>line_reader\<close> is what the protocol modules rely on: a line comes back as the first
    line of the byte stream, however the stream was cut into segments. The receive buffer stays inside its array.
  \<^item> \<open>Format\<close>, \<open>SqlDate\<close>: string helpers and the dates of the database, of \<open>src/src/libnullg/format.c\<close> and \<open>src/src/server/format.c\<close>;
    writing and reading a date is the identity up to the year 2038.
  \<^item> \<open>Base64\<close>: the encoder and decoder of the NSP base library and the bounded decoder of the server.
  \<^item> \<open>Md5\<close>: \<open>src/src/libnullg/md5.c\<close>. The locale \<open>incremental_hash\<close> says that a context remembers what it was fed; its
    interpretation on \<open>md5_init\<close>, \<open>md5_update\<close> and \<open>md5_final\<close> carries the proof that \<open>md5_crypt\<close> is the MD5-crypt hash.

  \<^bold>\<open>Mail.\<close>
  \<^item> \<open>Accounts\<close>: the database as the modules see it, \<open>auth_login\<close>, \<open>domain_getid\<close>, and the relay rule table that POP3 writes and SMTP
    reads. A login needs the password; relaying is open for 1800 seconds after it.
  \<^item> \<open>Pop3\<close> and \<open>Pop3_Session\<close>: \<open>src/src/modules/core/pop3d/pop3d_server.c\<close>, handler by handler, and its refinement to the maildrop of
    RFC 1939: a session commits exactly the deletions its client asked for, and only after QUIT.
  \<^item> \<open>Spool\<close>, \<open>Smtp\<close> and \<open>Smtp_Session\<close>: \<open>src/src/modules/core/smtpd\<close> with \<open>smtpd_server.c\<close>, \<open>smtpd_bounce.c\<close> and \<open>smtpd_filter.c\<close>: the
    envelope, the DATA loop, delivery to spool and queue, bounces. No open relay, stored mail is kept.
  \<^item> \<open>SmtpQueue\<close> and \<open>MailFlow\<close>: \<open>src/src/modules/core/smtpq\<close>, the client and the pass over the queue, which loses no mail; and what the
    modules write for each other. The two ways of a message, to a mailbox and to the next host, are the properties below.

  \<^bold>\<open>Web.\<close>
  \<^item> \<open>HttpFormat\<close>: \<open>httpd_format.c\<close> of \<open>src/src/modules/core/httpd\<close>, URL encoding and HTML escaping.
  \<^item> \<open>HttpAuth\<close>: \<open>httpd_auth.c\<close>, the table of sessions under logins, cookies and logouts, with histories as a step relation.
  \<^item> \<open>HttpForms\<close> and \<open>HttpRequest\<close>: \<open>httpd_http.c\<close>, from the bytes of a request to the variables of scripts and to the user: header
    lines and cookies, encoded forms and forms with files come through as they were written.
  \<^item> \<open>HttpReply\<close>: \<open>httpd_io.c\<close>, the way of an answer through its buffer to the socket, with the length it announces.

  \<^bold>\<open>The script language\<close> (\<open>src/src/nsp/src/libnsp\<close>).
  \<^item> \<open>NspOps\<close>, \<open>NspCompile\<close>: opcodes and compiler (\<open>opcodes.c\<close>, \<open>compile.c\<close>). \<open>NspCode\<close>, \<open>NspLayout\<close>, \<open>NspLex\<close>, \<open>NspPrint\<close>: the layout of
    code, that the three passes return it for every source text they accept, and that printed tokens are read back.
  \<^item> \<open>NspTable\<close>, \<open>NspSort\<close>: the tables (\<open>objects.c\<close>) with their cursor are maps, by the locale \<open>key_order\<close>; the sorting functions of
    \<open>src/src/nsp/src/libs/base/sort.c\<close> end and sort.
  \<^item> \<open>NspDouble\<close>, \<open>NspValue\<close>: \<open>double\<close> as IEEE binary64, values and operators (\<open>parser.c\<close>), numbers as text (\<open>libc.c\<close>).
  \<^item> \<open>NspEval\<close>, \<open>NspExpr\<close>: the evaluator of compiled expressions, and that it computes what the structure of the expression says.
  \<^item> \<open>NspExec\<close>, \<open>NspVars\<close>, \<open>NspProg\<close>, \<open>NspRun\<close>, \<open>NspQuirks\<close>: the interpreter (\<open>exec.c\<close>, \<open>block.c\<close>) refines a big-step semantics of
    assignments, branches and loops over maps of variables, and a program that sums numbers ends with the sum; statements
    that the interpreter treats differently from what they mean.

  \<^bold>\<open>Loops.\<close> Loops are terminating functions where the code ends by itself: those that read from a socket because each line uses up
  input (\<open>avail\<close>), those over text because they advance. Walks over byte code that could leave it are
  \<open>partial_function\<close>s with the value \<open>None\<close>, and the layout of compiled code shows that they return. The evaluator and the interpreter
  call each other; they take fuel, one unit for each call, and the refinement theorems give for every expression, and for every
  program with a big-step run, an amount that is enough.

  \<^bold>\<open>Not modelled.\<close> Threads, listeners, logging and start-up; the SQL server (its answers are arguments), OpenSSL (a handshake
  succeeds or fails) and the name server; memory exhaustion and the Windows variants. Of the script language: calls,
  classes, table literals, \<open>foreach\<close> and exceptions, which work on the reference-counted heap, and the library functions
  that scripts call. Of the HTTP module: pages, which scripts make, directory listings, CGI programs and the filters for
  HTML mail. The ciphers and hashes under \<open>src/src/nsp/src/libs/crypto\<close> and the regular expressions are code of other projects.
\<close>

section \<open>Properties across components\<close>


text \<open>A server that answers every command with one line.\<close>

definition demo_replies :: "string list" where
  "demo_replies = [''220 hi'' @ CRLF, ''250 hi'' @ CRLF, ''250 ok'' @ CRLF, ''250 ok'' @ CRLF, ''354 go'' @ CRLF, ''250 ok'' @ CRLF, ''221 bye'' @ CRLF]"

definition demo_relay :: client_env where
  "demo_relay = \<lparr>relayhost = ''relay'', mx_host = (\<lambda>_. None), tcp_connect = (\<lambda>_. (0, demo_client (concat demo_replies))),
     client_ssl = False, ssl_rc = 0\<rparr>"

definition demo_message :: MAILCONN where
  "demo_message = no_mailconn\<lparr>helo := ''x'', mfrom := ''al@x.org'', rcpt := [''bo@y.org''], msgbody := ''Subject: s'' @ CRLF @ CRLF @ ''.'' @ CRLF\<rparr>"

lemma demo_server_takes: "server_takes demo_relay (demo_client (concat demo_replies))"
proof (rule server_takesI)
  show "stream (demo_client (concat demo_replies)) = concat [''220 hi'' @ CRLF] @ concat [''250 hi'' @ CRLF] @ concat [''250 ok'' @ CRLF]
      @ concat [''250 ok'' @ CRLF] @ concat [''354 go'' @ CRLF] @ concat [''250 ok'' @ CRLF] @ concat [''221 bye'' @ CRLF]"
    unfolding demo_client_ready(2) by (simp add: demo_replies_def)
  show "\<not> (client_ssl demo_relay \<and> list_ex (\<lambda>l. strstr_in ''STARTTLS'' (cstr l)) [''250 hi'' @ CRLF])"
    by (simp add: demo_relay_def)
qed code_simp+



text \<open>Bob collects the message in a session of his own.\<close>

definition bob_env :: pop3_env where
  "bob_env = demo_env\<lparr>stat_file := (\<lambda>f. Some (9, False))\<rparr>"

definition bob_conn :: "(string \<rightharpoonup> string) \<Rightarrow> pop3_conn" where
  "bob_conn fs = (demo_conn [])\<lparr>dat := demo_dat\<lparr>d_username := ''bob'', d_did := 1\<rparr>, files := fs\<rparr>"


end
